(* ===== verification/Prelude.thy ===== *)
theory Prelude
  imports Main "HOL-Library.AList" "HOL-Library.Char_ord" "HOL-Library.List_Lexorder"
    "HOL-Library.Multiset"
begin

text \<open>
  Shared vocabulary of the development: Go maps as association lists, the arbitrary order in
  which Go ranges over a map, 64-bit signed wrap-around, truncating division, and the list and
  map lemmas that several components use.

  A Go \<open>string\<close> is a sequence of bytes, so it is an Isabelle \<^typ>\<open>string\<close> (a list of
  characters with codes 0 to 255); the byte-wise order of Go strings is the lexicographic order
  on lists of characters (theories List-Lexorder and Char-ord).
\<close>

section \<open>Collections of facts\<close>

named_theorems gomap_simps \<open>equations of map reads after map writes\<close>
named_theorems go_int_simps \<open>evaluation of machine integer operations\<close>

section \<open>Go maps\<close>

text \<open>
  A Go map is an association list whose keys are distinct. \<open>gm_get\<close> is the comma-ok read,
  \<open>gm_set\<close> is \<open>m[k] = v\<close>, \<open>gm_del\<close> is \<open>delete(m, k)\<close> and \<open>gm_keys\<close> lists the keys in the
  order in which they were first written. Code that ranges over a map sees the keys in an
  unspecified order: see \<open>range_order\<close> below.
\<close>

type_synonym ('k, 'v) gomap = "('k \<times> 'v) list"

definition gm_get :: "('k, 'v) gomap \<Rightarrow> 'k \<Rightarrow> 'v option" where
  "gm_get m k = map_of m k"

definition gm_set :: "'k \<Rightarrow> 'v \<Rightarrow> ('k, 'v) gomap \<Rightarrow> ('k, 'v) gomap" where
  "gm_set k v m = AList.update k v m"

definition gm_del :: "'k \<Rightarrow> ('k, 'v) gomap \<Rightarrow> ('k, 'v) gomap" where
  "gm_del k m = AList.delete k m"

definition gm_keys :: "('k, 'v) gomap \<Rightarrow> 'k list" where
  "gm_keys m = map fst m"

definition gm_wf :: "('k, 'v) gomap \<Rightarrow> bool" where
  "gm_wf m \<longleftrightarrow> distinct (map fst m)"

lemma gm_get_empty [simp, gomap_simps]: "gm_get [] k = None"
  by (simp add: gm_get_def)

lemma gm_get_set [simp, gomap_simps]:
  "gm_get (gm_set k v m) k' = (if k' = k then Some v else gm_get m k')"
  by (simp add: gm_get_def gm_set_def update_conv')

lemma gm_get_del [simp, gomap_simps]:
  "gm_get (gm_del k m) k' = (if k' = k then None else gm_get m k')"
  by (simp add: gm_get_def gm_del_def delete_conv')

lemma gm_keys_set [gomap_simps]:
  "gm_keys (gm_set k v m) = (if k \<in> set (gm_keys m) then gm_keys m else gm_keys m @ [k])"
  by (simp add: gm_keys_def gm_set_def update_keys)

lemma gm_wf_empty [simp]: "gm_wf []"
  by (simp add: gm_wf_def)

lemma gm_wf_set [simp, intro]: "gm_wf m \<Longrightarrow> gm_wf (gm_set k v m)"
  by (simp add: gm_wf_def gm_set_def distinct_update)

lemma gm_wf_del [simp, intro]: "gm_wf m \<Longrightarrow> gm_wf (gm_del k m)"
  by (simp add: gm_wf_def gm_del_def distinct_delete)

lemma gm_wf_keys: "gm_wf m = distinct (gm_keys m)"
  by (simp add: gm_wf_def gm_keys_def)

lemma gm_get_None_iff: "gm_get m k = None \<longleftrightarrow> k \<notin> set (gm_keys m)"
  by (simp add: gm_get_def gm_keys_def map_of_eq_None_iff)

lemma gm_get_Some_key: "gm_get m k = Some v \<Longrightarrow> k \<in> set (gm_keys m)"
  using gm_get_None_iff [of m k] by auto

lemma gm_key_get: "k \<in> set (gm_keys m) \<Longrightarrow> \<exists>v. gm_get m k = Some v"
  using gm_get_None_iff [of m k] by auto

lemma gm_keys_del: "gm_keys (gm_del k m) = filter (\<lambda>k'. k' \<noteq> k) (gm_keys m)"
  by (induction m) (auto simp: gm_keys_def gm_del_def)

text \<open>
  The order in which Go ranges over a map is unspecified and may differ between two loops over
  the same map. A \<open>range_order\<close> turns the key list into the order one loop sees; all that is
  known of it is that it neither loses nor repeats a key.
\<close>

definition range_order :: "('k list \<Rightarrow> 'k list) \<Rightarrow> bool" where
  "range_order \<rho> \<longleftrightarrow> (\<forall>xs. mset (\<rho> xs) = mset xs)"

lemma range_order_mset: "range_order \<rho> \<Longrightarrow> mset (\<rho> xs) = mset xs"
  by (simp add: range_order_def)

lemma range_order_set: "range_order \<rho> \<Longrightarrow> set (\<rho> xs) = set xs"
  by (metis range_order_mset mset_eq_setD)

lemma range_order_id [simp, intro]: "range_order (\<lambda>xs. xs)"
  by (simp add: range_order_def)

lemma range_order_rev [simp, intro]: "range_order rev"
  by (simp add: range_order_def)

text \<open>Filtering what a loop sees and sorting it removes the effect of the order.\<close>

lemma sort_filter_range_order:
  assumes "range_order \<rho>"
  shows "sort (filter P (\<rho> xs)) = sort (filter P (xs :: 'k::linorder list))"
  using assms by (intro properties_for_sort) (auto simp: range_order_mset)

lemma sort_range_order:
  assumes "range_order \<rho>"
  shows "sort (\<rho> xs) = sort (xs :: 'k::linorder list)"
  using assms by (intro properties_for_sort) (auto simp: range_order_mset)

section \<open>Machine integers\<close>

text \<open>
  Go's \<open>int64\<close> arithmetic wraps around; \<open>wrap64\<close> reduces a mathematical result to it.
  Integer division truncates towards zero.
\<close>

definition wrap64 :: "int \<Rightarrow> int" where
  "wrap64 x = (x + 2 ^ 63) mod 2 ^ 64 - 2 ^ 63"

definition int64 :: "int \<Rightarrow> bool" where
  "int64 x \<longleftrightarrow> - (2 ^ 63) \<le> x \<and> x < 2 ^ 63"

definition go_div :: "int \<Rightarrow> int \<Rightarrow> int" where
  "go_div a b = (if 0 \<le> a * b then \<bar>a\<bar> div \<bar>b\<bar> else - (\<bar>a\<bar> div \<bar>b\<bar>))"

lemma wrap64_id [go_int_simps]: "int64 x \<Longrightarrow> wrap64 x = x"
  by (simp add: wrap64_def int64_def)

lemma wrap64_range: "int64 (wrap64 x)"
proof -
  have "0 \<le> (x + 2 ^ 63) mod 2 ^ 64" "(x + 2 ^ 63) mod 2 ^ 64 < (2::int) ^ 64"
    by (rule pos_mod_sign, simp, rule pos_mod_bound, simp)
  then show ?thesis by (simp add: wrap64_def int64_def)
qed

lemma wrap64_add_left: "wrap64 (wrap64 a + b) = wrap64 (a + b)"
proof -
  have "wrap64 a = a - 2 ^ 64 * ((a + 2 ^ 63) div 2 ^ 64)"
    unfolding wrap64_def using minus_mult_div_eq_mod [of "a + 2 ^ 63" "2 ^ 64"] by linarith
  then have "wrap64 a + b + 2 ^ 63 = (a + b + 2 ^ 63) + 2 ^ 64 * (- ((a + 2 ^ 63) div 2 ^ 64))"
    by (simp add: algebra_simps)
  then have "(wrap64 a + b + 2 ^ 63) mod 2 ^ 64 = (a + b + 2 ^ 63) mod 2 ^ 64"
    by (simp only: mod_mult_self2)
  then show ?thesis unfolding wrap64_def [of "wrap64 a + b"] wrap64_def [of "a + b"] by (rule arg_cong)
qed

lemma wrap64_add_right: "wrap64 (b + wrap64 a) = wrap64 (b + a)"
  using wrap64_add_left [of a b] by (simp add: add.commute)

lemma go_div_pos [go_int_simps]: "0 \<le> a \<Longrightarrow> 0 < b \<Longrightarrow> go_div a b = a div b"
  by (simp add: go_div_def)

section \<open>Lists\<close>

text \<open>Keeping the first occurrence of every element, as a loop with a \<open>seen\<close> set does.\<close>

definition dedup :: "'a list \<Rightarrow> 'a list" where
  "dedup xs = rev (remdups (rev xs))"

lemma set_dedup [simp]: "set (dedup xs) = set xs"
  by (simp add: dedup_def)

lemma distinct_dedup [simp]: "distinct (dedup xs)"
  by (simp add: dedup_def)

lemma dedup_snoc: "dedup (xs @ [x]) = (if x \<in> set xs then dedup xs else dedup xs @ [x])"
  by (simp add: dedup_def)

lemma dedup_distinct [simp]: "distinct xs \<Longrightarrow> dedup xs = xs"
  by (simp add: dedup_def distinct_remdups_id)

lemma dedup_Nil [simp]: "dedup [] = []"
  by (simp add: dedup_def)

lemma dedup_eq_Nil [simp]: "dedup xs = [] \<longleftrightarrow> xs = []"
  by (metis set_dedup set_empty)

lemma dedup_append_right: "dedup (xs @ dedup ys) = dedup (xs @ ys)"
proof (induction ys rule: rev_induct)
  case Nil
  then show ?case by simp
next
  case (snoc y ys)
  have "dedup (xs @ dedup ys @ [y]) = dedup (xs @ ys @ [y])"
    using snoc dedup_snoc [of "xs @ dedup ys" y] dedup_snoc [of "xs @ ys" y] by simp
  moreover have "dedup (xs @ ys @ [y]) = dedup (xs @ ys)" if "y \<in> set ys"
    using that dedup_snoc [of "xs @ ys" y] by simp
  ultimately show ?case using snoc by (simp add: dedup_snoc)
qed

lemma dedup_append_left: "dedup (dedup xs @ ys) = dedup (xs @ ys)"
proof (induction ys rule: rev_induct)
  case Nil
  then show ?case by simp
next
  case (snoc y ys)
  then show ?case
    using dedup_snoc [of "dedup xs @ ys" y] dedup_snoc [of "xs @ ys" y] by simp
qed

lemma map_of_zip_self: "map_of (map (\<lambda>x. (x, f x)) xs) k = (if k \<in> set xs then Some (f k) else None)"
  by (induction xs) auto

text \<open>The verb q of the formatter, on the names it prints as they are.\<close>

definition quoted :: "string \<Rightarrow> string" where
  "quoted s = [CHR 0x22] @ s @ [CHR 0x22]"

end
