(* ===== verification/Go_Strings.thy ===== *)
theory Go_Strings
  imports Prelude "HOL-Library.Sublist"
begin

text \<open>
  The functions of Go's package strings that the source calls, on byte strings. A \<open>char\<close> is a byte;
  text outside ASCII is its UTF-8 encoding. \<open>ToLower\<close> is exact on ASCII text and takes what the
  Unicode tables do to any other text as a parameter; white space outside ASCII is the finite
  set of encodings of the runes \<^verbatim>\<open>unicode.IsSpace\<close> accepts.
\<close>

section \<open>Prefixes and suffixes\<close>

definition HasPrefix :: "string \<Rightarrow> string \<Rightarrow> bool" where
  "HasPrefix s p \<longleftrightarrow> take (length p) s = p"

definition HasSuffix :: "string \<Rightarrow> string \<Rightarrow> bool" where
  "HasSuffix s p \<longleftrightarrow> HasPrefix (rev s) (rev p)"

definition TrimPrefix :: "string \<Rightarrow> string \<Rightarrow> string" where
  "TrimPrefix s p = (if HasPrefix s p then drop (length p) s else s)"

definition TrimSuffix :: "string \<Rightarrow> string \<Rightarrow> string" where
  "TrimSuffix s p = rev (TrimPrefix (rev s) (rev p))"

lemma HasPrefix_iff: "HasPrefix s p \<longleftrightarrow> (\<exists>r. s = p @ r)"
  unfolding HasPrefix_def by (metis append_eq_conv_conj append_take_drop_id)

lemma HasPrefix_append [simp]: "HasPrefix (p @ s) p"
  by (simp add: HasPrefix_def)

lemma HasPrefix_Nil [simp]: "HasPrefix s []"
  by (simp add: HasPrefix_def)

lemma HasSuffix_iff: "HasSuffix s p \<longleftrightarrow> (\<exists>r. s = r @ p)"
  unfolding HasSuffix_def HasPrefix_iff by (metis rev_append rev_rev_ident)

lemma TrimPrefix_append [simp]: "TrimPrefix (p @ s) p = s"
  by (simp add: TrimPrefix_def)

lemma TrimSuffix_append [simp]: "TrimSuffix (s @ p) p = s"
  by (simp add: TrimSuffix_def)

lemma TrimPrefix_none: "\<not> HasPrefix s p \<Longrightarrow> TrimPrefix s p = s"
  by (simp add: TrimPrefix_def)

lemma TrimSuffix_none: "\<not> HasSuffix s p \<Longrightarrow> TrimSuffix s p = s"
  by (simp add: TrimSuffix_def HasSuffix_def TrimPrefix_def)

section \<open>White space\<close>

definition space_encodings :: "string list" where
  "space_encodings =
     [[CHR 0x20], [CHR 0x09], [CHR 0x0A], [CHR 0x0B], [CHR 0x0C], [CHR 0x0D],
      [CHR 0xC2, CHR 0x85], [CHR 0xC2, CHR 0xA0], [CHR 0xE1, CHR 0x9A, CHR 0x80],
      [CHR 0xE2, CHR 0x80, CHR 0x80], [CHR 0xE2, CHR 0x80, CHR 0x81], [CHR 0xE2, CHR 0x80, CHR 0x82],
      [CHR 0xE2, CHR 0x80, CHR 0x83], [CHR 0xE2, CHR 0x80, CHR 0x84], [CHR 0xE2, CHR 0x80, CHR 0x85],
      [CHR 0xE2, CHR 0x80, CHR 0x86], [CHR 0xE2, CHR 0x80, CHR 0x87], [CHR 0xE2, CHR 0x80, CHR 0x88],
      [CHR 0xE2, CHR 0x80, CHR 0x89], [CHR 0xE2, CHR 0x80, CHR 0x8A], [CHR 0xE2, CHR 0x80, CHR 0xA8],
      [CHR 0xE2, CHR 0x80, CHR 0xA9], [CHR 0xE2, CHR 0x80, CHR 0xAF], [CHR 0xE2, CHR 0x81, CHR 0x9F],
      [CHR 0xE3, CHR 0x80, CHR 0x80]]"

text \<open>Removing leading members of a set of byte sequences, as long as there is one.\<close>

function strip_front :: "string list \<Rightarrow> string \<Rightarrow> string" where
  "strip_front encs s =
     (case find (\<lambda>e. e \<noteq> [] \<and> HasPrefix s e) encs of
        None \<Rightarrow> s | Some e \<Rightarrow> strip_front encs (drop (length e) s))"
  by pat_completeness auto
termination
proof (relation "measure (\<lambda>(encs, s). length s)")
  fix encs :: "string list" and s e
  assume "find (\<lambda>e. e \<noteq> [] \<and> HasPrefix s e) encs = Some e"
  then have "e \<noteq> []" "HasPrefix s e" by (auto simp: find_Some_iff)
  then show "((encs, drop (length e) s), (encs, s)) \<in> measure (\<lambda>(encs, s). length s)"
    by (auto simp: HasPrefix_iff)
qed simp

declare strip_front.simps [simp del]

definition TrimLeftSpace :: "string \<Rightarrow> string" where
  "TrimLeftSpace s = strip_front space_encodings s"

definition TrimRightSpace :: "string \<Rightarrow> string" where
  "TrimRightSpace s = rev (strip_front (map rev space_encodings) (rev s))"

definition TrimSpace :: "string \<Rightarrow> string" where
  "TrimSpace s = TrimRightSpace (TrimLeftSpace s)"

definition front_free :: "string list \<Rightarrow> string \<Rightarrow> bool" where
  "front_free encs s \<longleftrightarrow> (\<forall>e\<in>set encs. e \<noteq> [] \<longrightarrow> \<not> HasPrefix s e)"

lemma find_None_front_free: "find (\<lambda>e. e \<noteq> [] \<and> HasPrefix s e) encs = None \<longleftrightarrow> front_free encs s"
  by (auto simp: find_None_iff front_free_def)

lemma strip_front_free: "front_free encs (strip_front encs s)"
proof (induction encs s rule: strip_front.induct)
  case (1 encs s)
  then show ?case
    using find_None_front_free [of s encs]
    by (cases "find (\<lambda>e. e \<noteq> [] \<and> HasPrefix s e) encs") (simp_all add: strip_front.simps [of encs s])
qed

lemma strip_front_id: "front_free encs s \<Longrightarrow> strip_front encs s = s"
  by (simp add: strip_front.simps [of encs s] find_None_front_free [symmetric])

lemma strip_front_suffix: "\<exists>p. s = p @ strip_front encs s"
proof (induction encs s rule: strip_front.induct)
  case (1 encs s)
  show ?case
  proof (cases "find (\<lambda>e. e \<noteq> [] \<and> HasPrefix s e) encs")
    case None
    then show ?thesis by (simp add: strip_front.simps [of encs s])
  next
    case (Some e)
    then have "HasPrefix s e" by (auto simp: find_Some_iff)
    then have "s = e @ drop (length e) s" by (auto simp: HasPrefix_iff)
    moreover from "1.IH" [OF Some] obtain p where
      "drop (length e) s = p @ strip_front encs (drop (length e) s)" by blast
    ultimately have "s = (e @ p) @ strip_front encs s"
      using Some by (simp add: strip_front.simps [of encs s])
    then show ?thesis by blast
  qed
qed

lemma TrimLeftSpace_suffix: "\<exists>p. s = p @ TrimLeftSpace s"
  unfolding TrimLeftSpace_def by (rule strip_front_suffix)

lemma TrimRightSpace_prefix: "\<exists>q. s = TrimRightSpace s @ q"
proof -
  obtain p where "rev s = p @ strip_front (map rev space_encodings) (rev s)"
    using strip_front_suffix by blast
  then have "s = TrimRightSpace s @ rev p"
    unfolding TrimRightSpace_def by (metis rev_append rev_rev_ident)
  then show ?thesis by blast
qed

text \<open>Trimming keeps every byte that is part of no white space.\<close>

lemma strip_front_keeps:
  "c \<in> set s \<Longrightarrow> \<forall>e\<in>set encs. c \<notin> set e \<Longrightarrow> c \<in> set (strip_front encs s)"
proof (induction encs s rule: strip_front.induct)
  case (1 encs s)
  show ?case
  proof (cases "find (\<lambda>e. e \<noteq> [] \<and> HasPrefix s e) encs")
    case None
    with "1.prems" show ?thesis by (simp add: strip_front.simps [of encs s])
  next
    case (Some e)
    then have "e \<in> set encs" "HasPrefix s e" by (auto simp: find_Some_iff)
    with "1.prems" have "c \<in> set (drop (length e) s)" by (auto simp: HasPrefix_iff)
    with "1.IH" [OF Some] "1.prems"(2) Some show ?thesis by (simp add: strip_front.simps [of encs s])
  qed
qed

lemma TrimSpace_keeps:
  assumes "c \<in> set s" "\<forall>e\<in>set space_encodings. c \<notin> set e"
  shows "c \<in> set (TrimSpace s)"
  unfolding TrimSpace_def TrimRightSpace_def TrimLeftSpace_def
  using assms by (simp add: strip_front_keeps)

text \<open>A trimmed text: no white space at either end.\<close>

definition trimmed :: "string \<Rightarrow> bool" where
  "trimmed s \<longleftrightarrow> front_free space_encodings s \<and> front_free (map rev space_encodings) (rev s)"

lemma front_free_append: "front_free encs (s @ t) \<Longrightarrow> front_free encs s"
  by (auto simp: front_free_def HasPrefix_iff)

lemma trimmed_TrimSpace: "trimmed (TrimSpace s)"
proof -
  have "front_free space_encodings (TrimLeftSpace s)"
    unfolding TrimLeftSpace_def by (rule strip_front_free)
  then have "front_free space_encodings (TrimSpace s)"
    unfolding TrimSpace_def using TrimRightSpace_prefix [of "TrimLeftSpace s"] front_free_append by metis
  moreover have "front_free (map rev space_encodings) (rev (TrimSpace s))"
    unfolding TrimSpace_def TrimRightSpace_def by (simp add: strip_front_free)
  ultimately show ?thesis by (simp add: trimmed_def)
qed

lemma TrimSpace_trimmed [simp]: "trimmed s \<Longrightarrow> TrimSpace s = s"
  by (simp add: trimmed_def TrimSpace_def TrimLeftSpace_def TrimRightSpace_def strip_front_id)

lemma trimmed_ends:
  assumes "s \<noteq> []" "\<forall>e\<in>set space_encodings. hd s \<notin> set e \<and> last s \<notin> set e"
  shows "trimmed s"
proof -
  have front: "front_free encs t" if "t \<noteq> []" "\<forall>e\<in>set encs. hd t \<notin> set e" for encs and t :: string
    using that by (fastforce simp: front_free_def HasPrefix_iff)
  have "hd (rev s) = last s" using assms(1) by (simp add: hd_rev)
  with assms show ?thesis unfolding trimmed_def by (intro conjI front) auto
qed

lemma TrimSpace_blank: "TrimSpace (CHR 0x20 # s) = TrimSpace s"
proof -
  have "find (\<lambda>e. e \<noteq> [] \<and> HasPrefix (CHR 0x20 # s) e) space_encodings = Some [CHR 0x20]"
    by (simp add: space_encodings_def HasPrefix_iff)
  then have "strip_front space_encodings (CHR 0x20 # s) = strip_front space_encodings s"
    by (simp add: strip_front.simps [of space_encodings "CHR 0x20 # s"])
  then show ?thesis by (simp add: TrimSpace_def TrimLeftSpace_def)
qed

lemma TrimSpace_idem [simp]: "TrimSpace (TrimSpace s) = TrimSpace s"
  by (simp add: trimmed_TrimSpace)

lemma TrimSpace_inner: "\<exists>p q. s = p @ TrimSpace s @ q"
  unfolding TrimSpace_def using TrimLeftSpace_suffix [of s] TrimRightSpace_prefix [of "TrimLeftSpace s"]
  by metis

lemma trimmed_Nil [simp]: "trimmed []"
  by (auto simp: trimmed_def front_free_def HasPrefix_iff)

lemma TrimSpace_Nil [simp]: "TrimSpace [] = []"
  by simp

section \<open>Searching\<close>

text \<open>\<open>Index s p\<close> is the first position at which \<open>p\<close> occurs, \<open>None\<close> for Go's -1.\<close>

fun Index :: "string \<Rightarrow> string \<Rightarrow> nat option" where
  "Index s p =
     (if HasPrefix s p then Some 0
      else case s of [] \<Rightarrow> None | c # cs \<Rightarrow> map_option Suc (Index cs p))"

declare Index.simps [simp del]

definition Contains :: "string \<Rightarrow> string \<Rightarrow> bool" where
  "Contains s p \<longleftrightarrow> Index s p \<noteq> None"

lemma Index_Some:
  "Index s p = Some i \<Longrightarrow> i + length p \<le> length s \<and> take (length p) (drop i s) = p"
proof (induction s p arbitrary: i rule: Index.induct)
  case (1 s p)
  then show ?case
    by (auto simp: Index.simps [of s p] HasPrefix_iff split: if_splits list.splits)
qed

lemma Index_Some_split: "Index s p = Some i \<Longrightarrow> s = take i s @ p @ drop (i + length p) s"
  using Index_Some [of s p i] by (metis append_take_drop_id drop_drop add.commute)

lemma Index_None: "Index s p = None \<longleftrightarrow> (\<nexists>a b. s = a @ p @ b)"
proof (induction s)
  case Nil
  then show ?case by (auto simp: Index.simps [of "[]"] HasPrefix_iff)
next
  case (Cons c s)
  have "(\<exists>a b. c # s = a @ p @ b) \<longleftrightarrow> HasPrefix (c # s) p \<or> (\<exists>a b. s = a @ p @ b)"
  proof
    assume "\<exists>a b. c # s = a @ p @ b"
    then obtain a b where ab: "c # s = a @ p @ b" by blast
    then show "HasPrefix (c # s) p \<or> (\<exists>a b. s = a @ p @ b)"
      by (cases a) (simp_all, blast)
  next
    assume "HasPrefix (c # s) p \<or> (\<exists>a b. s = a @ p @ b)"
    then show "\<exists>a b. c # s = a @ p @ b"
      unfolding HasPrefix_iff by (metis append_Cons append_Nil)
  qed
  with Cons show ?case by (simp add: Index.simps [of "c # s"])
qed

lemma Contains_iff: "Contains s p \<longleftrightarrow> (\<exists>a b. s = a @ p @ b)"
  by (simp add: Contains_def Index_None)

text \<open>\<open>Split\<close> at every occurrence of a single byte, and the join that undoes it.\<close>

fun split_byte :: "char \<Rightarrow> string \<Rightarrow> string list" where
  "split_byte c [] = [[]]"
| "split_byte c (x # xs) =
     (if x = c then [] # split_byte c xs
      else case split_byte c xs of [] \<Rightarrow> [[x]] | p # ps \<Rightarrow> (x # p) # ps)"

definition join :: "string \<Rightarrow> string list \<Rightarrow> string" where
  "join sep parts = (case parts of [] \<Rightarrow> [] | p # ps \<Rightarrow> p @ concat (map (\<lambda>q. sep @ q) ps))"

lemma join_simps [simp]:
  "join sep [] = []" "join sep [p] = p" "join sep (p # q # ps) = p @ sep @ join sep (q # ps)"
  by (simp_all add: join_def)

lemma split_byte_not_Nil [simp]: "split_byte c s \<noteq> []"
  by (cases s) (auto split: list.splits)

lemma length_split_byte: "length (split_byte c s) = Suc (count_list s c)"
  by (induction s) (auto split: list.splits)

lemma join_split_byte: "join [c] (split_byte c s) = s"
proof (induction s)
  case Nil
  then show ?case by simp
next
  case (Cons x s)
  then show ?case by (cases "split_byte c s") (auto simp: join_def)
qed

lemma split_byte_no_sep: "p \<in> set (split_byte c s) \<Longrightarrow> c \<notin> set p"
  by (induction s arbitrary: p) (auto split: if_splits list.splits)

lemma split_byte_append: "split_byte c (r @ c # s) = split_byte c r @ split_byte c s"
proof (induction r)
  case Nil
  then show ?case by simp
next
  case (Cons x r)
  then show ?case by (cases "split_byte c r") auto
qed

lemma split_byte_prefix:
  "prefix (split_byte c r) (split_byte c p) \<longleftrightarrow> p = r \<or> HasPrefix p (r @ [c])"
proof
  assume "prefix (split_byte c r) (split_byte c p)"
  then obtain ts where ts: "split_byte c p = split_byte c r @ ts" by (auto simp: prefix_def)
  show "p = r \<or> HasPrefix p (r @ [c])"
  proof (cases ts)
    case Nil
    with ts show ?thesis by (metis append_Nil2 join_split_byte)
  next
    case (Cons t us)
    have "join [c] (xs @ t # us) = join [c] xs @ c # join [c] (t # us)" if "xs \<noteq> []" for xs
      using that by (cases xs) (auto simp: join_def)
    with ts Cons have "p = r @ c # join [c] (t # us)"
      by (metis join_split_byte split_byte_not_Nil)
    then show ?thesis by (auto simp: HasPrefix_iff)
  qed
next
  assume "p = r \<or> HasPrefix p (r @ [c])"
  then show "prefix (split_byte c r) (split_byte c p)"
    by (auto simp: HasPrefix_iff split_byte_append)
qed

section \<open>Letter case\<close>

definition ascii :: "string \<Rightarrow> bool" where
  "ascii s \<longleftrightarrow> (\<forall>c\<in>set s. of_char c < (128::nat))"

definition lower_byte :: "char \<Rightarrow> char" where
  "lower_byte c = (if (65::nat) \<le> of_char c \<and> of_char c \<le> (90::nat) then char_of (of_char c + 32 :: nat) else c)"

definition ToLower :: "(string \<Rightarrow> string) \<Rightarrow> string \<Rightarrow> string" where
  "ToLower uni_lower s = (if ascii s then map lower_byte s else uni_lower s)"

lemma length_ToLower_ascii: "ascii s \<Longrightarrow> length (ToLower ul s) = length s"
  by (simp add: ToLower_def)

section \<open>Decimal numbers\<close>

fun nat_digits :: "nat \<Rightarrow> string" where
  "nat_digits n =
     (if n < 10 then [char_of (48 + n)] else nat_digits (n div 10) @ [char_of (48 + n mod 10)])"

declare nat_digits.simps [simp del]

definition Itoa :: "int \<Rightarrow> string" where
  "Itoa i = (if i < 0 then ''-'' @ nat_digits (nat (- i)) else nat_digits (nat i))"

fun digits_value :: "nat \<Rightarrow> string \<Rightarrow> nat" where
  "digits_value acc [] = acc"
| "digits_value acc (c # cs) = digits_value (10 * acc + (of_char c - 48)) cs"

lemma digits_value_append: "digits_value acc (s @ t) = digits_value (digits_value acc s) t"
  by (induction s arbitrary: acc) auto

lemma digits_value_nat_digits: "digits_value 0 (nat_digits n) = n"
proof (induction n rule: nat_digits.induct)
  case (1 n)
  show ?case
  proof (cases "n < 10")
    case True
    then show ?thesis by (simp add: nat_digits.simps [of n])
  next
    case False
    with 1 have "digits_value 0 (nat_digits (n div 10)) = n div 10" by simp
    then show ?thesis using False by (simp add: nat_digits.simps [of n] digits_value_append)
  qed
qed

lemma nat_digits_inj: "nat_digits m = nat_digits n \<longleftrightarrow> m = n"
  by (metis digits_value_nat_digits)

lemma nat_digits_digit: "c \<in> set (nat_digits n) \<Longrightarrow> c \<in> set ''0123456789''"
proof (induction n rule: nat_digits.induct)
  case (1 n)
  have "\<forall>k\<in>set [0..<10::nat]. (char_of (48 + k) :: char) \<in> set ''0123456789''" by code_simp
  then have digit: "(char_of (48 + k) :: char) \<in> set ''0123456789''" if "k < 10" for k :: nat
    using that by simp
  have "n mod 10 < 10" by simp
  then show ?case
    using 1 digit [of n] digit [of "n mod 10"]
    by (subst (asm) nat_digits.simps) (auto split: if_splits)
qed

lemma minus_not_digit: "nat_digits n \<noteq> CHR ''-'' # s"
proof
  assume "nat_digits n = CHR ''-'' # s"
  then have "CHR ''-'' \<in> set (nat_digits n)" by simp
  from nat_digits_digit [OF this] show False by simp
qed

lemma Itoa_nonneg: "0 \<le> i \<Longrightarrow> Itoa i = nat_digits (nat i)"
  by (simp add: Itoa_def)

lemma Itoa_neg: "i < 0 \<Longrightarrow> Itoa i = CHR ''-'' # nat_digits (nat (- i))"
  by (simp add: Itoa_def)

lemma Itoa_inj: "Itoa i = Itoa j \<longleftrightarrow> i = j"
proof
  assume eq: "Itoa i = Itoa j"
  consider "i < 0" "j < 0" | "i < 0" "0 \<le> j" | "0 \<le> i" "j < 0" | "0 \<le> i" "0 \<le> j" by linarith
  then show "i = j"
  proof cases
    case 1
    with eq have "nat (- i) = nat (- j)" by (simp add: Itoa_neg nat_digits_inj)
    with 1 show ?thesis by (simp add: nat_eq_iff)
  next
    case 2
    with eq show ?thesis by (metis Itoa_neg Itoa_nonneg minus_not_digit)
  next
    case 3
    with eq show ?thesis by (metis Itoa_neg Itoa_nonneg minus_not_digit)
  next
    case 4
    with eq have "nat i = nat j" by (simp add: Itoa_nonneg nat_digits_inj)
    with 4 show ?thesis by arith
  qed
qed simp

end
