(* ===== verification/Plan.thy ===== *)
theory Plan
  imports Prelude
begin

text \<open>
  Package plan, file \<^verbatim>\<open>src/plan/plan.go\<close>: the serializable plan (a directed graph of named
  activities), the options of its nodes, its validation and its topological layers.

  Durations are integers (nanoseconds). Go maps are association lists (theory Prelude); the
  loop of \<open>Layers\<close> ranges over a map, so it takes the order in which each round sees the keys as
  an argument, and the theorems hold for every order.
\<close>

section \<open>Data\<close>

type_synonym NodeID = string

record Options =
  TaskQueue :: string
  Timeout :: int
  Heartbeat :: int
  MaxAttempts :: int
  NonRetryable :: "string list"

record Node =
  ID :: NodeID
  Activity :: string
  Args :: "string list"
  Requires :: "NodeID list"
  NodeOptions :: Options

record Plan =
  Nodes :: "Node list"
  Defaults :: Options

text \<open>The zero value of \<open>Options\<close>: every field "not set here".\<close>

definition zero_options :: Options where
  "zero_options = \<lparr>TaskQueue = [], Timeout = 0, Heartbeat = 0, MaxAttempts = 0, NonRetryable = []\<rparr>"

definition second :: int where "second = 1000000000"

definition DefaultOptions :: Options where
  "DefaultOptions = \<lparr>TaskQueue = [], Timeout = 3 * 60 * second, Heartbeat = 0, MaxAttempts = 3,
     NonRetryable = [''InvalidInput'', ''InvalidPlan'', ''ConfigurationError'']\<rparr>"

text \<open>The errors of the package, one constructor per message.\<close>

datatype option_error = NegativeTimeout int | NegativeHeartbeat int | NegativeMaxAttempts int

datatype plan_error =
    NoNodes
  | BadDefaults option_error
  | EmptyID
  | DuplicateID NodeID
  | NoActivity NodeID
  | BadNodeOptions NodeID option_error
  | UnknownRequirement NodeID NodeID
  | RequiresItself NodeID
  | CycleDetected int

section \<open>Options\<close>

text \<open>The merge loop of \<open>Options.Over\<close>: \<open>seen\<close> is its map, \<open>all\<close> its slice.\<close>

fun over_loop :: "string list \<Rightarrow> string list \<Rightarrow> string list \<Rightarrow> string list" where
  "over_loop seen all [] = all"
| "over_loop seen all (t # ts) =
     (if t \<notin> set seen then over_loop (t # seen) (all @ [t]) ts else over_loop seen all ts)"

definition Over :: "Options \<Rightarrow> Options \<Rightarrow> Options" where
  "Over o1 over = \<lparr>
     TaskQueue = (if TaskQueue over \<noteq> [] then TaskQueue over else TaskQueue o1),
     Timeout = (if Timeout over \<noteq> 0 then Timeout over else Timeout o1),
     Heartbeat = (if Heartbeat over \<noteq> 0 then Heartbeat over else Heartbeat o1),
     MaxAttempts = (if MaxAttempts over \<noteq> 0 then MaxAttempts over else MaxAttempts o1),
     NonRetryable = (if length (NonRetryable over) > 0
       then over_loop [] [] (NonRetryable o1 @ NonRetryable over) else NonRetryable o1)\<rparr>"

definition options_check :: "Options \<Rightarrow> option_error option" where
  "options_check opt =
     (if Timeout opt < 0 then Some (NegativeTimeout (Timeout opt))
      else if Heartbeat opt < 0 then Some (NegativeHeartbeat (Heartbeat opt))
      else if MaxAttempts opt < 0 then Some (NegativeMaxAttempts (MaxAttempts opt))
      else None)"

definition OptionsFor :: "Plan \<Rightarrow> Node \<Rightarrow> Options" where
  "OptionsFor p n = Over (Over DefaultOptions (Defaults p)) (NodeOptions n)"

lemma over_loop_dedup:
  "set seen = set all \<Longrightarrow> distinct all \<Longrightarrow> over_loop seen all ts = dedup (all @ ts)"
proof (induction seen all ts rule: over_loop.induct)
  case (1 seen all)
  then show ?case by simp
next
  case (2 seen all t ts)
  show ?case
  proof (cases "t \<in> set seen")
    case True
    have "dedup (all @ t # ts) = dedup (dedup (all @ [t]) @ ts)"
      by (simp add: dedup_append_left)
    also have "\<dots> = dedup (all @ ts)"
      using True 2 by (simp add: dedup_snoc)
    finally show ?thesis using True 2 by simp
  next
    case False
    with 2 show ?thesis by simp
  qed
qed

lemma NonRetryable_Over:
  "NonRetryable (Over a b) =
     (if NonRetryable b = [] then NonRetryable a else dedup (NonRetryable a @ NonRetryable b))"
  by (simp add: Over_def over_loop_dedup)

lemma set_NonRetryable_Over [simp]:
  "set (NonRetryable (Over a b)) = set (NonRetryable a) \<union> set (NonRetryable b)"
  by (simp add: NonRetryable_Over)

lemma Over_zero [simp]: "Over opt zero_options = opt"
  by (simp add: Over_def zero_options_def)

section \<open>Layers\<close>

text \<open>
  The first loop of \<open>Layers\<close>: the in-degree of every node (the number of its \<open>Requires\<close>
  entries, repetitions included) and the nodes each node feeds.
\<close>

definition add_dependent ::
  "NodeID \<Rightarrow> (NodeID, NodeID list) gomap \<Rightarrow> NodeID \<Rightarrow> (NodeID, NodeID list) gomap" where
  "add_dependent nid dependents req =
     gm_set req ((case gm_get dependents req of None \<Rightarrow> [] | Some ds \<Rightarrow> ds) @ [nid]) dependents"

fun build_graph :: "(NodeID, int) gomap \<Rightarrow> (NodeID, NodeID list) gomap \<Rightarrow> Node list \<Rightarrow>
    (NodeID, int) gomap \<times> (NodeID, NodeID list) gomap" where
  "build_graph indegree dependents [] = (indegree, dependents)"
| "build_graph indegree dependents (n # ns) =
     build_graph (gm_set (ID n) (int (length (Requires n))) indegree)
       (foldl (add_dependent (ID n)) dependents (Requires n)) ns"

text \<open>
  \<open>indegree[dep]--\<close>; a missing key would read as 0.
\<close>

definition decrement :: "(NodeID, int) gomap \<Rightarrow> NodeID \<Rightarrow> (NodeID, int) gomap" where
  "decrement indegree dep =
     gm_set dep ((case gm_get indegree dep of None \<Rightarrow> 0 | Some d \<Rightarrow> d) - 1) indegree"

fun finish_layer :: "(NodeID, NodeID list) gomap \<Rightarrow> (NodeID, int) gomap \<Rightarrow> NodeID list \<Rightarrow>
    NodeID list \<Rightarrow> (NodeID, int) gomap \<times> NodeID list" where
  "finish_layer dependents indegree done [] = (indegree, done)"
| "finish_layer dependents indegree done (nid # layer) =
     finish_layer dependents
       (foldl decrement indegree (case gm_get dependents nid of None \<Rightarrow> [] | Some ds \<Rightarrow> ds))
       (nid # done) layer"

definition runnable :: "(NodeID, int) gomap \<Rightarrow> NodeID list \<Rightarrow> NodeID list \<Rightarrow> NodeID list" where
  "runnable indegree done ids =
     filter (\<lambda>nid. gm_get indegree nid = Some 0 \<and> nid \<notin> set done) ids"

text \<open>
  The second loop. \<open>rng k\<close> is the order in which round \<open>k\<close> ranges over \<open>indegree\<close>. Each round
  removes at least one from \<open>remaining\<close>, so the loop ends.
\<close>

function layers_loop :: "(nat \<Rightarrow> NodeID list \<Rightarrow> NodeID list) \<Rightarrow> (NodeID, NodeID list) gomap \<Rightarrow>
    (NodeID, int) gomap \<Rightarrow> NodeID list \<Rightarrow> NodeID list list \<Rightarrow> int \<Rightarrow>
    plan_error + NodeID list list" where
  "layers_loop rng dependents indegree done layers remaining =
     (if remaining > 0 then
        (let layer = runnable indegree done (rng (length layers) (gm_keys indegree))
         in if layer = [] then Inl (CycleDetected remaining)
            else (let sorted_layer = sort layer;
                      (indegree', done') = finish_layer dependents indegree done sorted_layer
                  in layers_loop rng dependents indegree' done' (layers @ [sorted_layer])
                       (remaining - int (length sorted_layer))))
      else Inr layers)"
  by pat_completeness auto
termination
  by (relation "measure (\<lambda>(rng, dependents, indegree, done, layers, remaining). nat remaining)") auto

declare layers_loop.simps [simp del]

definition Layers :: "(nat \<Rightarrow> NodeID list \<Rightarrow> NodeID list) \<Rightarrow> Plan \<Rightarrow> plan_error + NodeID list list" where
  "Layers rng p =
     (case build_graph [] [] (Nodes p) of (indegree, dependents) \<Rightarrow>
        layers_loop rng dependents indegree [] [] (int (length (Nodes p))))"

section \<open>Validation\<close>

text \<open>The first loop of \<open>Validate\<close>; \<open>ids\<close> is its set of the IDs seen so far.\<close>

fun validate_nodes :: "NodeID list \<Rightarrow> Node list \<Rightarrow> plan_error + NodeID list" where
  "validate_nodes ids [] = Inr ids"
| "validate_nodes ids (n # ns) =
     (if ID n = [] then Inl EmptyID
      else if ID n \<in> set ids then Inl (DuplicateID (ID n))
      else if Activity n = [] then Inl (NoActivity (ID n))
      else case options_check (NodeOptions n) of
        Some e \<Rightarrow> Inl (BadNodeOptions (ID n) e)
      | None \<Rightarrow> validate_nodes (ID n # ids) ns)"

fun validate_requires_of :: "NodeID list \<Rightarrow> NodeID \<Rightarrow> NodeID list \<Rightarrow> plan_error option" where
  "validate_requires_of ids nid [] = None"
| "validate_requires_of ids nid (req # reqs) =
     (if req \<notin> set ids then Some (UnknownRequirement nid req)
      else if req = nid then Some (RequiresItself nid)
      else validate_requires_of ids nid reqs)"

fun validate_requires :: "NodeID list \<Rightarrow> Node list \<Rightarrow> plan_error option" where
  "validate_requires ids [] = None"
| "validate_requires ids (n # ns) =
     (case validate_requires_of ids (ID n) (Requires n) of
        Some e \<Rightarrow> Some e
      | None \<Rightarrow> validate_requires ids ns)"

definition Validate :: "(nat \<Rightarrow> NodeID list \<Rightarrow> NodeID list) \<Rightarrow> Plan \<Rightarrow> plan_error option" where
  "Validate rng p =
     (if length (Nodes p) = 0 then Some NoNodes
      else case options_check (Defaults p) of
        Some e \<Rightarrow> Some (BadDefaults e)
      | None \<Rightarrow>
        (case validate_nodes [] (Nodes p) of
           Inl e \<Rightarrow> Some e
         | Inr ids \<Rightarrow>
           (case validate_requires ids (Nodes p) of
              Some e \<Rightarrow> Some e
            | None \<Rightarrow> (case Layers rng p of Inl e \<Rightarrow> Some e | Inr _ \<Rightarrow> None))))"

section \<open>Lookup and leaves\<close>

fun find_node :: "NodeID \<Rightarrow> Node list \<Rightarrow> Node option" where
  "find_node nid [] = None"
| "find_node nid (n # ns) = (if ID n = nid then Some n else find_node nid ns)"

definition plan_node :: "Plan \<Rightarrow> NodeID \<Rightarrow> Node option" where
  "plan_node p nid = find_node nid (Nodes p)"

definition Leaves :: "Plan \<Rightarrow> NodeID list" where
  "Leaves p =
     (let hasDependents = concat (map Requires (Nodes p))
      in sort (map ID (filter (\<lambda>n. ID n \<notin> set hasDependents) (Nodes p))))"


section \<open>What the layers are: a reference definition\<close>

text \<open>
  The specification of the layers without counters: a node is ready when it is not done and all
  it requires is done; each layer is the sorted list of the nodes that are ready.
\<close>

definition well_formed :: "Node list \<Rightarrow> bool" where
  "well_formed ns \<longleftrightarrow> distinct (map ID ns) \<and> (\<forall>n\<in>set ns. set (Requires n) \<subseteq> set (map ID ns))"

definition ready :: "Node list \<Rightarrow> NodeID list \<Rightarrow> Node list" where
  "ready ns done = filter (\<lambda>n. ID n \<notin> set done \<and> set (Requires n) \<subseteq> set done) ns"

definition next_layer :: "Node list \<Rightarrow> NodeID list \<Rightarrow> NodeID list" where
  "next_layer ns done = sort (map ID (ready ns done))"

lemma set_next_layer: "set (next_layer ns done) = ID ` set (ready ns done)"
  by (simp add: next_layer_def)

lemma next_layer_new: "x \<in> set (next_layer ns done) \<Longrightarrow> x \<notin> set done"
  by (auto simp: set_next_layer ready_def)

lemma next_layer_ids: "set (next_layer ns done) \<subseteq> set (map ID ns)"
  by (auto simp: set_next_layer ready_def)

lemma next_layer_Nil [simp]: "next_layer ns done = [] \<longleftrightarrow> ready ns done = []"
  by (metis next_layer_def set_empty set_sort map_is_Nil_conv)

lemma distinct_next_layer: "distinct (map ID ns) \<Longrightarrow> distinct (next_layer ns done)"
  by (simp add: next_layer_def ready_def distinct_map_filter)

function ref_layers :: "Node list \<Rightarrow> NodeID list \<Rightarrow> NodeID list list" where
  "ref_layers ns done =
     (if next_layer ns done = [] then []
      else next_layer ns done # ref_layers ns (rev (next_layer ns done) @ done))"
  by pat_completeness auto
termination
proof (relation "measure (\<lambda>(ns, done). length (filter (\<lambda>n. ID n \<notin> set done) ns))")
  fix ns :: "Node list" and "done" :: "NodeID list"
  let ?undone = "\<lambda>d. filter (\<lambda>n. ID n \<notin> set d) ns"
  let ?done' = "rev (next_layer ns done) @ done"
  assume "next_layer ns done \<noteq> []"
  then obtain n where n: "n \<in> set (ready ns done)"
    by (metis next_layer_Nil list.set_intros(1) neq_Nil_conv)
  have "?undone ?done' = filter (\<lambda>n. ID n \<notin> set ?done') (?undone done)"
    by (simp add: conj_commute)
  also have "length \<dots> < length (?undone done)"
    using n by (intro length_filter_less [of n]) (auto simp: ready_def next_layer_def)
  finally show "((ns, ?done'), (ns, done)) \<in>
      measure (\<lambda>(ns, done). length (filter (\<lambda>n. ID n \<notin> set done) ns))" by simp
qed simp

declare ref_layers.simps [simp del]

section \<open>The counters implement the reference\<close>

definition deps_of :: "(NodeID, NodeID list) gomap \<Rightarrow> NodeID \<Rightarrow> NodeID list" where
  "deps_of dependents nid = (case gm_get dependents nid of None \<Rightarrow> [] | Some ds \<Rightarrow> ds)"

lemma deps_of_add_dependent:
  "deps_of (foldl (add_dependent nid) dp reqs) r = deps_of dp r @ replicate (count_list reqs r) nid"
proof (induction reqs arbitrary: dp)
  case Nil
  then show ?case by simp
next
  case (Cons q reqs)
  have "deps_of (add_dependent nid dp q) r = deps_of dp r @ (if q = r then [nid] else [])"
    by (simp add: deps_of_def add_dependent_def)
  then show ?case by (simp add: Cons)
qed

lemma deps_of_build_graph:
  "deps_of (snd (build_graph i d ns)) r =
     deps_of d r @ concat (map (\<lambda>n. replicate (count_list (Requires n) r) (ID n)) ns)"
  by (induction i d ns rule: build_graph.induct) (simp_all add: deps_of_add_dependent)

lemma keys_build_graph:
  "distinct (gm_keys i @ map ID ns) \<Longrightarrow> gm_keys (fst (build_graph i d ns)) = gm_keys i @ map ID ns"
  by (induction i d ns rule: build_graph.induct) (auto simp: gm_keys_set)

lemma get_build_graph_other:
  "k \<notin> ID ` set ns \<Longrightarrow> gm_get (fst (build_graph i d ns)) k = gm_get i k"
  by (induction i d ns rule: build_graph.induct) auto

lemma get_build_graph:
  "distinct (map ID ns) \<Longrightarrow> n \<in> set ns \<Longrightarrow>
     gm_get (fst (build_graph i d ns)) (ID n) = Some (int (length (Requires n)))"
  by (induction i d ns rule: build_graph.induct) (auto simp: get_build_graph_other)

lemma count_list_concat_replicate:
  assumes "distinct (map ID ns)" "n \<in> set ns"
  shows "count_list (concat (map (\<lambda>m. replicate (f m) (ID m)) ns)) (ID n) = f n"
proof -
  have count_rep: "count_list (replicate k x) y = (if x = y then k else 0)" for k and x y :: NodeID
    by (induction k) auto
  have none: "count_list (concat (map (\<lambda>m. replicate (f m) (ID m)) ms)) k = 0"
    if "k \<notin> ID ` set ms" for ms k
    using that by (induction ms) (auto simp: count_rep)
  from assms show ?thesis
    by (induction ns) (auto simp: count_rep none)
qed

lemma get_decrements:
  "gm_get i k = Some v \<Longrightarrow> gm_get (foldl decrement i ds) k = Some (v - int (count_list ds k))"
  by (induction ds arbitrary: i v) (auto simp: decrement_def)

lemma keys_decrements:
  "set ds \<subseteq> set (gm_keys i) \<Longrightarrow> gm_keys (foldl decrement i ds) = gm_keys i"
  by (induction ds arbitrary: i) (auto simp: decrement_def gm_keys_set)

lemma length_filter_remove:
  "x \<notin> set done \<Longrightarrow>
     length (filter (\<lambda>r. r \<notin> set (x # done)) rs) + count_list rs x
       = length (filter (\<lambda>r. r \<notin> set done) rs)"
  by (induction rs) auto

text \<open>The loop invariant: every counter is the number of requirements that are not done.\<close>

definition indeg_ok :: "Node list \<Rightarrow> (NodeID, int) gomap \<Rightarrow> NodeID list \<Rightarrow> bool" where
  "indeg_ok ns indegree done \<longleftrightarrow> gm_keys indegree = map ID ns \<and>
     (\<forall>n\<in>set ns. gm_get indegree (ID n) =
        Some (int (length (filter (\<lambda>r. r \<notin> set done) (Requires n)))))"

definition deps_ok :: "Node list \<Rightarrow> (NodeID, NodeID list) gomap \<Rightarrow> bool" where
  "deps_ok ns dependents \<longleftrightarrow> (\<forall>r. set (deps_of dependents r) \<subseteq> set (map ID ns)) \<and>
     (\<forall>n\<in>set ns. \<forall>r. count_list (deps_of dependents r) (ID n) = count_list (Requires n) r)"

lemma deps_of_Nil [simp]: "deps_of [] r = []"
  by (simp add: deps_of_def)

lemma build_graph_ok:
  assumes "distinct (map ID ns)"
  shows "indeg_ok ns (fst (build_graph [] [] ns)) []" "deps_ok ns (snd (build_graph [] [] ns))"
proof -
  have "gm_keys (fst (build_graph [] [] ns)) = map ID ns"
    using assms keys_build_graph [of "[]" ns "[]"] by (simp add: gm_keys_def)
  with assms show "indeg_ok ns (fst (build_graph [] [] ns)) []"
    by (simp add: indeg_ok_def get_build_graph)
  show "deps_ok ns (snd (build_graph [] [] ns))"
    using assms by (auto simp: deps_ok_def deps_of_build_graph count_list_concat_replicate)
qed

lemma indeg_ok_step:
  assumes "indeg_ok ns i done" "deps_ok ns d" "x \<notin> set done"
  shows "indeg_ok ns (foldl decrement i (deps_of d x)) (x # done)"
proof -
  have "gm_get (foldl decrement i (deps_of d x)) (ID n) =
      Some (int (length (filter (\<lambda>r. r \<notin> set (x # done)) (Requires n))))" if n: "n \<in> set ns" for n
  proof -
    have "gm_get (foldl decrement i (deps_of d x)) (ID n) =
        Some (int (length (filter (\<lambda>r. r \<notin> set done) (Requires n))) - int (count_list (Requires n) x))"
      using n assms by (subst get_decrements) (auto simp: indeg_ok_def deps_ok_def)
    then show ?thesis
      using length_filter_remove [OF assms(3), of "Requires n"] by simp
  qed
  moreover have "gm_keys (foldl decrement i (deps_of d x)) = map ID ns"
    using assms by (subst keys_decrements) (auto simp: indeg_ok_def deps_ok_def)
  ultimately show ?thesis by (simp add: indeg_ok_def)
qed

lemma finish_layer_ok:
  assumes "indeg_ok ns i done" "deps_ok ns d" "distinct layer" "set layer \<inter> set done = {}"
  shows "\<exists>i'. finish_layer d i done layer = (i', rev layer @ done) \<and> indeg_ok ns i' (rev layer @ done)"
  using assms
proof (induction layer arbitrary: i "done")
  case Nil
  then show ?case by simp
next
  case (Cons x layer)
  have "indeg_ok ns (foldl decrement i (deps_of d x)) (x # done)"
    using Cons.prems by (intro indeg_ok_step) auto
  then show ?case
    using Cons.IH [of "foldl decrement i (deps_of d x)" "x # done"] Cons.prems
    by (simp add: deps_of_def)
qed

lemma runnable_next_layer:
  assumes "indeg_ok ns i done" "distinct (map ID ns)" "range_order \<rho>"
  shows "sort (runnable i done (\<rho> (gm_keys i))) = next_layer ns done"
proof -
  have zero: "gm_get i (ID n) = Some 0 \<longleftrightarrow> set (Requires n) \<subseteq> set done" if "n \<in> set ns" for n
    using that assms(1) by (auto simp: indeg_ok_def filter_empty_conv)
  have "sort (runnable i done (\<rho> (gm_keys i))) = sort (runnable i done (map ID ns))"
    using assms by (simp add: runnable_def sort_filter_range_order indeg_ok_def)
  also have "runnable i done (map ID ns) = map ID (ready ns done)"
    using zero by (auto simp: runnable_def ready_def filter_map o_def intro!: arg_cong [of _ _ "map ID"] filter_cong)
  finally show ?thesis by (simp add: next_layer_def)
qed

text \<open>
  The refinement: from any state that satisfies the invariant the loop returns the reference
  layers, or reports the nodes that can never become ready.
\<close>

definition finish :: "NodeID list list \<Rightarrow> NodeID list list \<Rightarrow> int \<Rightarrow> plan_error + NodeID list list" where
  "finish layers ls remaining =
     (let rest = remaining - int (length (concat ls))
      in if rest > 0 then Inl (CycleDetected rest) else Inr (layers @ ls))"

lemma length_undone:
  assumes "distinct (map ID ns)" "distinct layer" "set layer \<subseteq> set (map ID ns)"
    "set layer \<inter> set done = {}"
  shows "length (filter (\<lambda>n. ID n \<notin> set done) ns) =
     length (filter (\<lambda>n. ID n \<notin> set (rev layer @ done)) ns) + length layer"
proof -
  let ?undone = "\<lambda>d. {x \<in> set (map ID ns). x \<notin> set d}"
  have len: "length (filter (\<lambda>n. ID n \<notin> set d) ns) = card (?undone d)" for d
  proof -
    have "length (filter (\<lambda>n. ID n \<notin> set d) ns) = length (filter (\<lambda>x. x \<notin> set d) (map ID ns))"
      by (simp add: filter_map o_def)
    also have "\<dots> = card (set (filter (\<lambda>x. x \<notin> set d) (map ID ns)))"
      using assms(1) by (intro distinct_card [symmetric] distinct_filter)
    finally show ?thesis by (simp only: set_filter)
  qed
  have "?undone done = ?undone (rev layer @ done) \<union> set layer"
    using assms(3,4) by auto
  then have "card (?undone done) = card (?undone (rev layer @ done)) + card (set layer)"
    by (simp add: card_Un_disjoint disjoint_iff)
  with assms(2) show ?thesis by (simp only: len distinct_card)
qed

lemma layers_loop_refines:
  assumes "distinct (map ID ns)" "deps_ok ns d" "\<And>k. range_order (rng k)"
    and "indeg_ok ns i done" "remaining = int (length (filter (\<lambda>n. ID n \<notin> set done) ns))"
  shows "layers_loop rng d i done layers remaining = finish layers (ref_layers ns done) remaining"
  using assms
proof (induction ns "done" arbitrary: i layers remaining rule: ref_layers.induct)
  case (1 ns "done")
  let ?L = "next_layer ns done"
  let ?R = "runnable i done (rng (length layers) (gm_keys i))"
  have L: "sort ?R = ?L"
    using "1.prems" by (intro runnable_next_layer) auto
  then have R_Nil: "?R = [] \<longleftrightarrow> ?L = []"
    by (metis set_empty set_sort)
  show ?case
  proof (cases "?L = []")
    case True
    with R_Nil "1.prems" show ?thesis
      by (simp add: layers_loop.simps [of rng d i "done" layers] ref_layers.simps [of ns "done"]
          finish_def Let_def)
  next
    case False
    obtain i' where i': "finish_layer d i done ?L = (i', rev ?L @ done)" "indeg_ok ns i' (rev ?L @ done)"
      using finish_layer_ok [of ns i "done" d ?L] "1.prems" distinct_next_layer next_layer_new by blast
    have len: "remaining = int (length (filter (\<lambda>n. ID n \<notin> set (rev ?L @ done)) ns)) + int (length ?L)"
      using "1.prems" length_undone [of ns ?L "done"] distinct_next_layer next_layer_ids next_layer_new
      by (metis (no_types, lifting) disjoint_iff of_nat_add)
    then have pos: "remaining > 0" using False by (cases ?L) simp_all
    have "layers_loop rng d i done layers remaining =
        layers_loop rng d i' (rev ?L @ done) (layers @ [?L]) (remaining - int (length ?L))"
      using False R_Nil pos
      by (subst layers_loop.simps) (simp add: L i'(1) Let_def)
    also have "\<dots> = finish (layers @ [?L]) (ref_layers ns (rev ?L @ done)) (remaining - int (length ?L))"
      using "1.prems" i'(2) len False by (intro "1.IH") auto
    also have "\<dots> = finish layers (ref_layers ns done) remaining"
      using False by (simp add: ref_layers.simps [of ns "done"] finish_def Let_def algebra_simps)
    finally show ?thesis .
  qed
qed

theorem Layers_refines:
  assumes "distinct (map ID (Nodes p))" "\<And>k. range_order (rng k)"
  shows "Layers rng p = finish [] (ref_layers (Nodes p) []) (int (length (Nodes p)))"
proof -
  obtain i d where g: "build_graph [] [] (Nodes p) = (i, d)" by fastforce
  with build_graph_ok [OF assms(1)] assms show ?thesis
    by (simp add: Layers_def layers_loop_refines)
qed


text \<open>The order in which the loop ranges over the map never shows in the result.\<close>

lemma layers_loop_order:
  assumes "\<And>k. range_order (rng k)"
  shows "layers_loop rng d i done layers remaining = layers_loop (\<lambda>_ xs. xs) d i done layers remaining"
proof (induction "nat remaining" arbitrary: i "done" layers remaining rule: less_induct)
  case less
  have srt: "sort (runnable i done (rng (length layers) ks)) = sort (runnable i done ks)" for ks
    using assms by (simp add: runnable_def sort_filter_range_order)
  then have Nil: "runnable i done (rng (length layers) ks) = [] \<longleftrightarrow> runnable i done ks = []" for ks
    by (metis set_empty set_sort)
  have len: "length (runnable i done (rng (length layers) ks)) = length (runnable i done ks)" for ks
    using srt by (metis length_sort)
  show ?case
  proof (cases "remaining > 0 \<and> runnable i done (gm_keys i) \<noteq> []")
    case True
    then have "nat (remaining - int (length (runnable i done (gm_keys i)))) < nat remaining" by auto
    from less [OF this] True show ?thesis
      by (subst (1 2) layers_loop.simps) (simp add: srt Nil len Let_def split: prod.splits)
  next
    case False
    then show ?thesis
      by (subst (1 2) layers_loop.simps) (auto simp: Nil Let_def)
  qed
qed

section \<open>Properties of the reference layers\<close>

definition requires_rel :: "Node list \<Rightarrow> (NodeID \<times> NodeID) set" where
  "requires_rel ns = set (concat (map (\<lambda>n. map (\<lambda>r. (r, ID n)) (Requires n)) ns))"

lemma in_requires_rel: "(r, x) \<in> requires_rel ns \<longleftrightarrow> (\<exists>n\<in>set ns. ID n = x \<and> r \<in> set (Requires n))"
  by (auto simp: requires_rel_def)

lemma ref_layers_nth:
  "k < length (ref_layers ns done) \<Longrightarrow>
     ref_layers ns done ! k = next_layer ns (rev (concat (take k (ref_layers ns done))) @ done)"
proof (induction ns "done" arbitrary: k rule: ref_layers.induct)
  case (1 ns "done")
  show ?case
  proof (cases k)
    case 0
    with "1.prems" show ?thesis
      by (auto simp: ref_layers.simps [of ns "done"] split: if_splits)
  next
    case (Suc m)
    with "1.prems" have ne: "next_layer ns done \<noteq> []"
      by (auto simp: ref_layers.simps [of ns "done"] split: if_splits)
    with Suc "1.prems" "1.IH" [of m] show ?thesis
      by (simp add: ref_layers.simps [of ns "done"])
  qed
qed

lemma ref_layers_stuck:
  "next_layer ns (rev (concat (ref_layers ns done)) @ done) = []"
proof (induction ns "done" rule: ref_layers.induct)
  case (1 ns "done")
  then show ?case
    by (cases "next_layer ns done = []") (simp_all add: ref_layers.simps [of ns "done"])
qed

lemma ref_layers_partition:
  "distinct (map ID ns) \<Longrightarrow>
     distinct (concat (ref_layers ns done)) \<and> set (concat (ref_layers ns done)) \<inter> set done = {}
     \<and> set (concat (ref_layers ns done)) \<subseteq> set (map ID ns)"
proof (induction ns "done" rule: ref_layers.induct)
  case (1 ns "done")
  show ?case
  proof (cases "next_layer ns done = []")
    case True
    then show ?thesis by (simp add: ref_layers.simps [of ns "done"])
  next
    case False
    let ?L = "next_layer ns done" and ?C = "concat (ref_layers ns (rev (next_layer ns done) @ done))"
    have "concat (ref_layers ns done) = ?L @ ?C"
      using False by (simp add: ref_layers.simps [of ns "done"])
    moreover have "set ?C \<inter> (set ?L \<union> set done) = {}" "distinct ?C" "set ?C \<subseteq> set (map ID ns)"
      using "1.IH" [OF False] "1.prems" by (simp_all add: Un_commute)
    ultimately show ?thesis
      using distinct_next_layer [of ns "done"] "1.prems" next_layer_ids [of ns "done"]
        next_layer_new [of _ ns "done"] by auto
  qed
qed

lemma ref_layers_shape:
  "L \<in> set (ref_layers ns done) \<Longrightarrow> L \<noteq> [] \<and> sorted L"
proof (induction ns "done" rule: ref_layers.induct)
  case (1 ns "done")
  then show ?case
    by (cases "next_layer ns done = []")
      (auto simp: ref_layers.simps [of ns "done"] next_layer_def)
qed

lemma node_in_layer:
  assumes "distinct (map ID ns)" "n \<in> set ns" "ID n \<in> set (next_layer ns d)"
  shows "ID n \<notin> set d" "set (Requires n) \<subseteq> set d"
  using assms eq_key_imp_eq_value [of "map (\<lambda>n. (ID n, n)) ns"]
  by (auto simp: set_next_layer ready_def o_def distinct_map inj_on_def)

lemma in_concat_take: "x \<in> set (concat (take k ls)) \<Longrightarrow> \<exists>j<k. j < length ls \<and> x \<in> set (ls ! j)"
proof -
  assume "x \<in> set (concat (take k ls))"
  then obtain L where "L \<in> set (take k ls)" "x \<in> set L" by auto
  then show ?thesis by (auto simp: in_set_conv_nth [of L])
qed

lemma ref_layers_topological:
  assumes "distinct (map ID ns)" "k < length (ref_layers ns [])" "n \<in> set ns"
    "ID n \<in> set (ref_layers ns [] ! k)" "r \<in> set (Requires n)"
  shows "\<exists>j<k. r \<in> set (ref_layers ns [] ! j)"
proof -
  have "ID n \<in> set (next_layer ns (rev (concat (take k (ref_layers ns []))) @ []))"
    using assms(4) ref_layers_nth [OF assms(2)] by simp
  from node_in_layer(2) [OF assms(1,3) this] assms(5)
  have "r \<in> set (concat (take k (ref_layers ns [])))" by auto
  then show ?thesis by (blast dest: in_concat_take)
qed

lemma ref_layers_greedy:
  assumes "distinct (map ID ns)" "Suc k < length (ref_layers ns [])" "n \<in> set ns"
    "ID n \<in> set (ref_layers ns [] ! Suc k)"
  shows "\<exists>r\<in>set (Requires n). r \<in> set (ref_layers ns [] ! k)"
proof (rule ccontr)
  let ?ls = "ref_layers ns []"
  let ?d = "rev (concat (take k ?ls))"
  assume none: "\<not> ?thesis"
  have split: "take (Suc k) ?ls = take k ?ls @ [?ls ! k]"
    using assms(2) by (simp add: take_Suc_conv_app_nth)
  have "ID n \<in> set (next_layer ns (rev (concat (take (Suc k) ?ls)) @ []))"
    using ref_layers_nth [OF assms(2)] assms(4) by simp
  from node_in_layer [OF assms(1,3) this]
  have "ID n \<notin> set ?d" "ID n \<notin> set (?ls ! k)" "set (Requires n) \<subseteq> set ?d"
    using none by (auto simp: split)
  then have "ID n \<in> set (next_layer ns (?d @ []))"
    using assms(3) by (auto simp: set_next_layer ready_def)
  moreover have "?ls ! k = next_layer ns (?d @ [])"
    using ref_layers_nth [of k ns "[]"] assms(2) by simp
  ultimately show False using \<open>ID n \<notin> set (?ls ! k)\<close> by simp
qed

text \<open>The layers hold every node exactly when the graph has no cycle.\<close>

lemma ref_layers_cover_acyclic:
  assumes "distinct (map ID ns)" and cover: "set (map ID ns) \<subseteq> set (concat (ref_layers ns []))"
  shows "acyclic (requires_rel ns)"
proof -
  let ?ls = "ref_layers ns []"
  let ?pos = "\<lambda>x. LEAST k. k < length ?ls \<and> x \<in> set (?ls ! k)"
  have "(r, x) \<in> measure ?pos" if rel: "(r, x) \<in> requires_rel ns" for r x
  proof -
    from rel obtain n where n: "n \<in> set ns" "ID n = x" "r \<in> set (Requires n)"
      by (auto simp: in_requires_rel)
    then have "x \<in> set (concat ?ls)" using cover by auto
    then obtain k where "k < length ?ls \<and> x \<in> set (?ls ! k)"
      using in_concat_take [of x "length ?ls" ?ls] by auto
    then have pos: "?pos x < length ?ls \<and> x \<in> set (?ls ! ?pos x)" by (rule LeastI)
    then obtain j where j: "j < ?pos x" "r \<in> set (?ls ! j)"
      using ref_layers_topological [OF assms(1) _ n(1) _ n(3), of "?pos x"] n(2) by blast
    with pos have "?pos r \<le> j" by (intro Least_le) auto
    with j show ?thesis by simp
  qed
  then have "requires_rel ns \<subseteq> measure ?pos" by auto
  then show ?thesis by (meson wf_acyclic wf_measure wf_subset)
qed

lemma finite_requires_rel: "finite (requires_rel ns)"
  unfolding requires_rel_def by (rule finite_set)

lemma acyclic_ref_layers_cover:
  assumes "well_formed ns" "acyclic (requires_rel ns)"
  shows "set (map ID ns) \<subseteq> set (concat (ref_layers ns []))"
proof (rule ccontr)
  let ?D = "set (concat (ref_layers ns []))"
  let ?U = "set (map ID ns) - ?D"
  assume "\<not> ?thesis"
  then obtain x where "x \<in> ?U" by blast
  moreover have "wf (requires_rel ns)"
    using assms(2) finite_requires_rel by (rule finite_acyclic_wf [rotated])
  ultimately obtain z where z: "z \<in> ?U" "\<And>y. (y, z) \<in> requires_rel ns \<Longrightarrow> y \<notin> ?U"
    by (metis wfE_min)
  then obtain n where n: "n \<in> set ns" "ID n = z" by auto
  have "set (Requires n) \<subseteq> ?D"
  proof
    fix r assume r: "r \<in> set (Requires n)"
    with n have "(r, z) \<in> requires_rel ns" by (auto simp: in_requires_rel)
    moreover have "r \<in> set (map ID ns)"
      using assms(1) n r by (auto simp: well_formed_def)
    ultimately show "r \<in> ?D" using z(2) by blast
  qed
  then have "n \<in> set (ready ns (rev (concat (ref_layers ns [])) @ []))"
    using n z(1) by (auto simp: ready_def)
  then show False
    using ref_layers_stuck [of ns "[]"] by simp
qed


section \<open>What validation accepts\<close>

definition node_ok :: "Node \<Rightarrow> bool" where
  "node_ok n \<longleftrightarrow> ID n \<noteq> [] \<and> Activity n \<noteq> [] \<and> options_check (NodeOptions n) = None"

lemma validate_nodes_iff:
  "validate_nodes ids ns = Inr ids' \<longleftrightarrow>
     ids' = rev (map ID ns) @ ids \<and> (\<forall>n\<in>set ns. node_ok n) \<and>
     distinct (map ID ns) \<and> set (map ID ns) \<inter> set ids = {}"
proof (induction ids ns rule: validate_nodes.induct)
  case (1 ids)
  then show ?case by auto
next
  case (2 ids n ns)
  then show ?case by (auto simp: node_ok_def split: option.splits)
qed

lemma validate_requires_of_iff:
  "validate_requires_of ids nid reqs = None \<longleftrightarrow> set reqs \<subseteq> set ids \<and> nid \<notin> set reqs"
  by (induction reqs) auto

lemma validate_requires_iff:
  "validate_requires ids ns = None \<longleftrightarrow>
     (\<forall>n\<in>set ns. set (Requires n) \<subseteq> set ids \<and> ID n \<notin> set (Requires n))"
proof (induction ns)
  case Nil
  then show ?case by simp
next
  case (Cons n ns)
  have "validate_requires ids (n # ns) = None \<longleftrightarrow>
      validate_requires_of ids (ID n) (Requires n) = None \<and> validate_requires ids ns = None"
    by (simp split: option.split)
  then show ?case by (simp add: validate_requires_of_iff Cons)
qed

lemma acyclic_not_self:
  assumes "acyclic (requires_rel ns)" "n \<in> set ns"
  shows "ID n \<notin> set (Requires n)"
proof
  assume "ID n \<in> set (Requires n)"
  with assms(2) have "(ID n, ID n) \<in> requires_rel ns" by (auto simp: in_requires_rel)
  with assms(1) show False by (auto simp: acyclic_def)
qed

lemma length_concat_cover:
  assumes "distinct (map ID ns)"
  shows "length (concat (ref_layers ns [])) \<le> length ns"
    and "length (concat (ref_layers ns [])) = length ns \<longleftrightarrow>
      set (map ID ns) \<subseteq> set (concat (ref_layers ns []))"
proof -
  let ?C = "concat (ref_layers ns [])"
  have part: "distinct ?C" "set ?C \<subseteq> set (map ID ns)"
    using ref_layers_partition [OF assms, of "[]"] by auto
  have cards: "length ?C = card (set ?C)" "length ns = card (set (map ID ns))"
    using part(1) assms distinct_card [of ?C] distinct_card [of "map ID ns"] by simp_all
  show "length ?C \<le> length ns"
    using part(2) by (simp only: cards card_mono List.finite_set)
  show "length ?C = length ns \<longleftrightarrow> set (map ID ns) \<subseteq> set ?C"
    using part(2) cards card_subset_eq [OF _ part(2)] by (metis List.finite_set order_refl subset_antisym)
qed

lemma Layers_cases:
  assumes "well_formed (Nodes p)" "\<And>k. range_order (rng k)"
  shows "Layers rng p =
    (if acyclic (requires_rel (Nodes p)) then Inr (ref_layers (Nodes p) [])
     else Inl (CycleDetected (int (length (Nodes p)) - int (length (concat (ref_layers (Nodes p) []))))))"
proof -
  have dist: "distinct (map ID (Nodes p))" using assms(1) by (simp add: well_formed_def)
  have "acyclic (requires_rel (Nodes p)) \<longleftrightarrow>
      length (concat (ref_layers (Nodes p) [])) = length (Nodes p)"
    using ref_layers_cover_acyclic [OF dist] acyclic_ref_layers_cover [OF assms(1)]
      length_concat_cover(2) [OF dist] by auto
  moreover have "length (concat (ref_layers (Nodes p) [])) \<le> length (Nodes p)"
    by (rule length_concat_cover [OF dist])
  ultimately show ?thesis
    using Layers_refines [OF dist assms(2)] by (simp add: finish_def Let_def)
qed

lemma Validate_None_iff:
  assumes "\<And>k. range_order (rng k)"
  shows "Validate rng p = None \<longleftrightarrow> Nodes p \<noteq> [] \<and> options_check (Defaults p) = None \<and>
    (\<forall>n\<in>set (Nodes p). node_ok n) \<and> well_formed (Nodes p) \<and> acyclic (requires_rel (Nodes p))"
proof -
  have "Validate rng p = None \<longleftrightarrow> Nodes p \<noteq> [] \<and> options_check (Defaults p) = None \<and>
      (\<exists>ids. validate_nodes [] (Nodes p) = Inr ids \<and> validate_requires ids (Nodes p) = None) \<and>
      (\<exists>ls. Layers rng p = Inr ls)"
    by (auto simp: Validate_def split: option.splits sum.splits)
  also have "\<dots> \<longleftrightarrow> Nodes p \<noteq> [] \<and> options_check (Defaults p) = None \<and>
      (\<forall>n\<in>set (Nodes p). node_ok n) \<and> well_formed (Nodes p) \<and>
      (\<forall>n\<in>set (Nodes p). ID n \<notin> set (Requires n)) \<and> (\<exists>ls. Layers rng p = Inr ls)"
    by (auto simp: validate_requires_iff validate_nodes_iff well_formed_def)
  finally have "Validate rng p = None \<longleftrightarrow> \<dots>" .
  moreover have "(\<exists>ls. Layers rng p = Inr ls) \<longleftrightarrow> acyclic (requires_rel (Nodes p))"
    if "well_formed (Nodes p)"
    using Layers_cases [OF that assms] by auto
  ultimately show ?thesis using acyclic_not_self by blast
qed

text \<open>A plan with a diamond, used to exercise the theorems at a concrete input.\<close>

definition plain_node :: "string \<Rightarrow> string list \<Rightarrow> Node" where
  "plain_node nid reqs =
     \<lparr>ID = nid, Activity = ''Echo'', Args = [nid], Requires = reqs, NodeOptions = zero_options\<rparr>"

definition diamond :: Plan where
  "diamond = \<lparr>Nodes = [plain_node ''join'' [''left'', ''right''], plain_node ''left'' [''src''],
     plain_node ''right'' [''src''], plain_node ''src'' []], Defaults = zero_options\<rparr>"

lemma diamond_valid: "Validate (\<lambda>_. rev) diamond = None"
  by code_simp


section \<open>Leaves\<close>

lemma set_Leaves:
  "set (Leaves p) = {x \<in> set (map ID (Nodes p)). \<forall>y. (x, y) \<notin> requires_rel (Nodes p)}"
  by (auto simp: Leaves_def Let_def requires_rel_def)

lemma acyclic_Leaves_nonempty:
  assumes "Nodes p \<noteq> []" "acyclic (requires_rel (Nodes p))"
  shows "Leaves p \<noteq> []"
proof -
  have "wf ((requires_rel (Nodes p))\<inverse>)"
    using assms(2) by (simp add: finite_acyclic_wf_converse finite_requires_rel)
  moreover have "ID (hd (Nodes p)) \<in> set (map ID (Nodes p))"
    using assms(1) by simp
  ultimately obtain z where z: "z \<in> set (map ID (Nodes p))"
      "\<And>y. (y, z) \<in> (requires_rel (Nodes p))\<inverse> \<Longrightarrow> y \<notin> set (map ID (Nodes p))"
    by (metis wfE_min)
  moreover have "y \<in> set (map ID (Nodes p))" if "(z, y) \<in> requires_rel (Nodes p)" for y
    using that by (auto simp: in_requires_rel)
  ultimately have "z \<in> set (Leaves p)" by (auto simp: set_Leaves)
  then show ?thesis by auto
qed

lemma sorted_distinct_Leaves:
  "distinct (map ID (Nodes p)) \<Longrightarrow> sorted (Leaves p) \<and> distinct (Leaves p)"
  by (simp add: Leaves_def Let_def distinct_map_filter)

section \<open>Properties\<close>

text \<open>
  C1: \<open>Validate\<close> accepts a plan exactly when it has a node, the defaults and every node's options
  have no negative field, every node has an ID and an activity, the IDs are distinct, every
  requirement names a node of the plan, and the graph of requirements has no cycle. This holds
  for every order in which Go may range over the in-degree map.
\<close>

theorem Validate_accepts_iff:
  assumes "\<And>k. range_order (rng k)"
  shows "Validate rng p = None \<longleftrightarrow>
    Nodes p \<noteq> [] \<and> options_check (Defaults p) = None \<and>
    (\<forall>n\<in>set (Nodes p). ID n \<noteq> [] \<and> Activity n \<noteq> [] \<and> options_check (NodeOptions n) = None) \<and>
    distinct (map ID (Nodes p)) \<and>
    (\<forall>n\<in>set (Nodes p). set (Requires n) \<subseteq> set (map ID (Nodes p))) \<and>
    acyclic (requires_rel (Nodes p))"
  unfolding Validate_None_iff [OF assms] node_ok_def well_formed_def by blast

theorem Validate_accepts_iff_witness: "acyclic (requires_rel (Nodes diamond))"
  using Validate_accepts_iff [of "\<lambda>_. rev" diamond] diamond_valid by simp

text \<open>
  C2: on a plan that \<open>Validate\<close> accepts, \<open>Layers\<close> succeeds; its layers are non-empty, sorted and
  partition the node IDs; every requirement of a node lies in an earlier layer; and a node is
  never later than it must be, since a node of layer k + 1 requires one of layer k. The order of
  the map loops in the two calls may differ, as in \<open>Workflow\<close>.
\<close>

theorem Layers_topological:
  assumes "Validate rng p = None" "\<And>k. range_order (rng k)" "\<And>k. range_order (rng' k)"
  shows "\<exists>ls. Layers rng' p = Inr ls \<and> distinct (concat ls) \<and>
    set (concat ls) = set (map ID (Nodes p)) \<and> (\<forall>l\<in>set ls. l \<noteq> [] \<and> sorted l) \<and>
    (\<forall>k<length ls. \<forall>n\<in>set (Nodes p). ID n \<in> set (ls ! k) \<longrightarrow>
       (\<forall>r\<in>set (Requires n). \<exists>j<k. r \<in> set (ls ! j)) \<and>
       (0 < k \<longrightarrow> (\<exists>r\<in>set (Requires n). r \<in> set (ls ! (k - 1)))))"
proof -
  have wf: "well_formed (Nodes p)" and ac: "acyclic (requires_rel (Nodes p))"
    using assms(1) Validate_None_iff [OF assms(2)] by auto
  then have dist: "distinct (map ID (Nodes p))" by (simp add: well_formed_def)
  let ?ls = "ref_layers (Nodes p) []"
  have "Layers rng' p = Inr ?ls"
    using Layers_cases [OF wf assms(3)] ac by simp
  moreover have "distinct (concat ?ls)" "set (concat ?ls) = set (map ID (Nodes p))"
    using ref_layers_partition [OF dist, of "[]"] acyclic_ref_layers_cover [OF wf ac] by auto
  moreover have "\<exists>r\<in>set (Requires n). r \<in> set (?ls ! (k - 1))"
    if "k < length ?ls" "n \<in> set (Nodes p)" "ID n \<in> set (?ls ! k)" "0 < k" for k n
    using ref_layers_greedy [OF dist, of "k - 1" n] that by simp
  ultimately show ?thesis
    using ref_layers_shape ref_layers_topological [OF dist] by blast
qed

theorem Layers_topological_witness:
  "\<exists>ls. Layers (\<lambda>_ xs. xs) diamond = Inr ls \<and> set (concat ls) = set (map ID (Nodes diamond))"
  using Layers_topological [of "\<lambda>_. rev" diamond "\<lambda>_ xs. xs"] diamond_valid by auto

text \<open>
  The layers, and the error, do not depend on the order in which Go ranges over the in-degree
  map, for every plan, valid or not: the schedule of a workflow is the same on every replay.
\<close>

theorem Layers_deterministic:
  assumes "\<And>k. range_order (rng k)" "\<And>k. range_order (rng' k)"
  shows "Layers rng p = Layers rng' p \<and> Validate rng p = Validate rng' p"
proof -
  have "Layers r p = Layers (\<lambda>_ xs. xs) p" if "\<And>k. range_order (r k)" for r
    using layers_loop_order [OF that] by (simp add: Layers_def split: prod.split)
  with assms have "Layers rng p = Layers rng' p" by metis
  then show ?thesis by (simp add: Validate_def cong: option.case_cong sum.case_cong)
qed

theorem Layers_deterministic_witness:
  "Layers (\<lambda>_. rev) diamond = Layers (\<lambda>_ xs. xs) diamond"
  using Layers_deterministic [of "\<lambda>_. rev" "\<lambda>_ xs. xs" diamond] by simp

text \<open>
  On a plan whose IDs are distinct and whose requirements are known, \<open>Layers\<close> fails exactly when
  the graph has a cycle, and then with the cycle error, which counts at least one node and at
  most all of them.
\<close>

theorem Layers_fails_iff_cycle:
  assumes "distinct (map ID (Nodes p))" "\<forall>n\<in>set (Nodes p). set (Requires n) \<subseteq> set (map ID (Nodes p))"
    and "\<And>k. range_order (rng k)"
  shows "(\<exists>remaining. Layers rng p = Inl (CycleDetected remaining) \<and> 0 < remaining \<and>
            remaining \<le> int (length (Nodes p)))
    \<longleftrightarrow> \<not> acyclic (requires_rel (Nodes p))"
proof -
  have wf: "well_formed (Nodes p)" using assms by (simp add: well_formed_def)
  have "length (concat (ref_layers (Nodes p) [])) < length (Nodes p)"
    if "\<not> acyclic (requires_rel (Nodes p))"
    using that length_concat_cover [OF assms(1)] ref_layers_cover_acyclic [OF assms(1)]
    by (meson le_neq_implies_less)
  then show ?thesis by (auto simp: Layers_cases [OF wf assms(3)])
qed

definition two_cycle :: Plan where
  "two_cycle = \<lparr>Nodes = [plain_node ''a'' [''b''], plain_node ''b'' [''a'']], Defaults = zero_options\<rparr>"

theorem Layers_fails_iff_cycle_witness: "\<not> acyclic (requires_rel (Nodes two_cycle))"
proof -
  have "Layers (\<lambda>_. rev) two_cycle = Inl (CycleDetected 2)" by code_simp
  then show ?thesis
    using Layers_fails_iff_cycle [of two_cycle "\<lambda>_. rev"]
    by (simp add: two_cycle_def plain_node_def)
qed

text \<open>
  A plan that \<open>Validate\<close> accepts has at least one leaf; the leaves are sorted, distinct, and
  are exactly the nodes that no node requires.
\<close>

theorem Leaves_correct:
  assumes "Validate rng p = None" "\<And>k. range_order (rng k)"
  shows "Leaves p \<noteq> [] \<and> sorted (Leaves p) \<and> distinct (Leaves p) \<and>
    set (Leaves p) = {x \<in> set (map ID (Nodes p)). \<forall>m\<in>set (Nodes p). x \<notin> set (Requires m)}"
proof -
  have v: "Nodes p \<noteq> []" "well_formed (Nodes p)" "acyclic (requires_rel (Nodes p))"
    using assms(1) Validate_None_iff [OF assms(2)] by auto
  then have "sorted (Leaves p) \<and> distinct (Leaves p)"
    by (intro sorted_distinct_Leaves) (simp add: well_formed_def)
  moreover have "set (Leaves p) = {x \<in> set (map ID (Nodes p)). \<forall>m\<in>set (Nodes p). x \<notin> set (Requires m)}"
    by (auto simp: set_Leaves in_requires_rel)
  ultimately show ?thesis using acyclic_Leaves_nonempty v by blast
qed

theorem Leaves_correct_witness: "Leaves diamond = [''join''] \<and> Leaves diamond \<noteq> []"
proof
  show "Leaves diamond = [''join'']" by code_simp
  show "Leaves diamond \<noteq> []" using Leaves_correct [OF diamond_valid] by simp
qed

text \<open>
  The options a node runs with: a field set by the node wins, else one set by the plan, else
  the package default; the non-retryable types of all three levels are kept, without repetition;
  and applying overrides is associative.
\<close>

theorem OptionsFor_precedence:
  "Timeout (OptionsFor p n) = (if Timeout (NodeOptions n) \<noteq> 0 then Timeout (NodeOptions n)
     else if Timeout (Defaults p) \<noteq> 0 then Timeout (Defaults p) else 180000000000) \<and>
   MaxAttempts (OptionsFor p n) = (if MaxAttempts (NodeOptions n) \<noteq> 0 then MaxAttempts (NodeOptions n)
     else if MaxAttempts (Defaults p) \<noteq> 0 then MaxAttempts (Defaults p) else 3) \<and>
   Heartbeat (OptionsFor p n) = (if Heartbeat (NodeOptions n) \<noteq> 0 then Heartbeat (NodeOptions n)
     else Heartbeat (Defaults p)) \<and>
   TaskQueue (OptionsFor p n) = (if TaskQueue (NodeOptions n) \<noteq> [] then TaskQueue (NodeOptions n)
     else TaskQueue (Defaults p)) \<and>
   set (NonRetryable (OptionsFor p n)) = {''InvalidInput'', ''InvalidPlan'', ''ConfigurationError''}
     \<union> set (NonRetryable (Defaults p)) \<union> set (NonRetryable (NodeOptions n)) \<and>
   distinct (NonRetryable (OptionsFor p n)) \<and>
   Over (Over a b) c = Over a (Over b c)"
proof -
  have "distinct (NonRetryable (OptionsFor p n))"
    by (simp add: OptionsFor_def NonRetryable_Over DefaultOptions_def)
  moreover have "Over (Over a b) c = Over a (Over b c)"
    by (simp add: Over_def over_loop_dedup dedup_append_left dedup_append_right)
  moreover have "set (NonRetryable DefaultOptions) = {''InvalidInput'', ''InvalidPlan'', ''ConfigurationError''}"
    by (simp add: DefaultOptions_def)
  ultimately show ?thesis
    by (simp add: OptionsFor_def) (simp add: Over_def DefaultOptions_def second_def)
qed

end
