(* ===== verification/Plan_Workflow.thy ===== *)
theory Plan_Workflow
  imports Plan Go_Strings
begin

text \<open>
  Package plan, file \<^verbatim>\<open>src/plan/workflow.go\<close>: the workflow that runs a plan, the Echo
  activity and the submission of a plan.

  The Temporal runtime is not part of the repository. \<open>exec\<close>, a parameter, is the final outcome of
  one dispatched activity after the retries its options allow: an error text or the output. A
  dispatch carries the ID of its node and every node is dispatched at most once, so a function of
  the dispatch describes any behaviour of the activities, deterministic or not. The log records
  the dispatches in the order in which the workflow makes them.
\<close>

section \<open>Data\<close>

record Input =
  InputNodeID :: string
  InputArgs :: "string list"
  Upstream :: "(string, string) gomap"

record RetryPolicy =
  InitialInterval :: int
  BackoffCoefficient :: int
  MaximumAttempts :: int
  NonRetryableErrorTypes :: "string list"

record ActivityOptions =
  ActivityTaskQueue :: string
  StartToCloseTimeout :: int
  HeartbeatTimeout :: int
  ActivityRetryPolicy :: RetryPolicy

record Dispatch =
  DispatchActivity :: string
  DispatchOptions :: ActivityOptions
  DispatchInput :: Input

record Result =
  Outputs :: "(string, string) gomap"
  ResultLeaves :: "string list"
  DurationMs :: int

datatype workflow_error = InvalidPlan plan_error | NodeFailed NodeID string

section \<open>The workflow\<close>

definition activityOptions :: "Options \<Rightarrow> ActivityOptions" where
  "activityOptions opt = \<lparr>ActivityTaskQueue = TaskQueue opt, StartToCloseTimeout = Timeout opt,
     HeartbeatTimeout = Heartbeat opt,
     ActivityRetryPolicy = \<lparr>InitialInterval = second, BackoffCoefficient = 2,
       MaximumAttempts = MaxAttempts opt, NonRetryableErrorTypes = NonRetryable opt\<rparr>\<rparr>"

text \<open>A read of a Go map of strings: a missing key reads as the empty string.\<close>

definition read_output :: "(string, string) gomap \<Rightarrow> string \<Rightarrow> string" where
  "read_output outputs k = (case gm_get outputs k of None \<Rightarrow> [] | Some v \<Rightarrow> v)"

definition upstream_of :: "(string, string) gomap \<Rightarrow> NodeID list \<Rightarrow> (string, string) gomap" where
  "upstream_of outputs reqs = foldl (\<lambda>up req. gm_set req (read_output outputs req) up) [] reqs"

definition node_dispatch :: "Plan \<Rightarrow> (string, string) gomap \<Rightarrow> Node \<Rightarrow> Dispatch" where
  "node_dispatch p outputs n = \<lparr>DispatchActivity = Activity n,
     DispatchOptions = activityOptions (OptionsFor p n),
     DispatchInput = \<lparr>InputNodeID = ID n, InputArgs = Args n,
       Upstream = upstream_of outputs (Requires n)\<rparr>\<rparr>"

definition zero_node :: Node where
  "zero_node = \<lparr>ID = [], Activity = [], Args = [], Requires = [], NodeOptions = zero_options\<rparr>"

text \<open>All nodes of a layer are dispatched before the first of them is awaited.\<close>

definition dispatch_layer :: "Plan \<Rightarrow> (string, string) gomap \<Rightarrow> NodeID list \<Rightarrow> (NodeID \<times> Dispatch) list" where
  "dispatch_layer p outputs layer =
     map (\<lambda>nid. let n = (case plan_node p nid of None \<Rightarrow> zero_node | Some n \<Rightarrow> n)
                in (ID n, node_dispatch p outputs n)) layer"

fun await_layer :: "(Dispatch \<Rightarrow> string + string) \<Rightarrow> (string, string) gomap \<Rightarrow>
    (NodeID \<times> Dispatch) list \<Rightarrow> workflow_error + (string, string) gomap" where
  "await_layer exec outputs [] = Inr outputs"
| "await_layer exec outputs ((nid, d) # futures) =
     (case exec d of
        Inl e \<Rightarrow> Inl (NodeFailed nid e)
      | Inr out \<Rightarrow> await_layer exec (gm_set nid out outputs) futures)"

fun run_layers :: "(Dispatch \<Rightarrow> string + string) \<Rightarrow> Plan \<Rightarrow> (string, string) gomap \<Rightarrow>
    Dispatch list \<Rightarrow> NodeID list list \<Rightarrow> Dispatch list \<times> (workflow_error + (string, string) gomap)" where
  "run_layers exec p outputs log [] = (log, Inr outputs)"
| "run_layers exec p outputs log (layer # layers) =
     (let futures = dispatch_layer p outputs layer;
          log' = log @ map snd futures
      in case await_layer exec outputs futures of
           Inl e \<Rightarrow> (log', Inl e)
         | Inr outputs' \<Rightarrow> run_layers exec p outputs' log' layers)"

text \<open>
  \<open>Workflow\<close> validates, computes the layers again and runs them. \<open>rng\<close> and \<open>rng'\<close> are the map
  orders of the two computations of the layers, \<open>start\<close> and \<open>finish_time\<close> the workflow clock in nanoseconds.
\<close>

definition Workflow :: "(nat \<Rightarrow> NodeID list \<Rightarrow> NodeID list) \<Rightarrow> (nat \<Rightarrow> NodeID list \<Rightarrow> NodeID list) \<Rightarrow>
    (Dispatch \<Rightarrow> string + string) \<Rightarrow> int \<Rightarrow> int \<Rightarrow> Plan \<Rightarrow> Dispatch list \<times> (workflow_error + Result)" where
  "Workflow rng rng' exec start finish_time p =
     (case Validate rng p of
        Some e \<Rightarrow> ([], Inl (InvalidPlan e))
      | None \<Rightarrow>
        (case Layers rng' p of
           Inl e \<Rightarrow> ([], Inl (InvalidPlan e))
         | Inr layers \<Rightarrow>
           (case run_layers exec p [] [] layers of
              (log, Inl e) \<Rightarrow> (log, Inl e)
            | (log, Inr outputs) \<Rightarrow>
                (log, Inr \<lparr>Outputs = outputs, ResultLeaves = Leaves p,
                           DurationMs = go_div (finish_time - start) 1000000\<rparr>))))"

section \<open>Echo\<close>

definition joinNonEmpty :: "string list \<Rightarrow> string" where
  "joinNonEmpty parts = join '' '' (filter (\<lambda>p. p \<noteq> []) parts)"

text \<open>\<open>\<rho>\<close> is the order in which \<open>Echo\<close> ranges over its upstream map.\<close>

definition Echo :: "(string list \<Rightarrow> string list) \<Rightarrow> Input \<Rightarrow> string" where
  "Echo \<rho> inp =
     (let argText = joinNonEmpty (InputArgs inp);
          upText = (if length (Upstream inp) > 0 then
             (let keys = sort (\<rho> (gm_keys (Upstream inp)))
              in joinNonEmpty (map (read_output (Upstream inp)) keys)) else [])
      in if argText \<noteq> [] \<and> upText \<noteq> [] then argText @ '' | '' @ upText
         else if argText \<noteq> [] then argText else upText)"

section \<open>Submission\<close>

datatype submit_error = ClientNil | TaskQueueEmpty | SubmitInvalid plan_error | StartFailed string

text \<open>
  \<open>Submit\<close>: \<open>client\<close> is \<open>None\<close> for a nil client, else the effect of \<open>ExecuteWorkflow\<close> (an error text or the
  handle of the run).
\<close>

definition Submit :: "(nat \<Rightarrow> NodeID list \<Rightarrow> NodeID list) \<Rightarrow> (Plan \<Rightarrow> string + 'run) option \<Rightarrow> Plan \<Rightarrow>
    string \<Rightarrow> submit_error + 'run" where
  "Submit rng client p task_queue =
     (case client of
        None \<Rightarrow> Inl ClientNil
      | Some start \<Rightarrow>
        if task_queue = [] then Inl TaskQueueEmpty
        else (case Validate rng p of
          Some e \<Rightarrow> Inl (SubmitInvalid e)
        | None \<Rightarrow> (case start p of Inl e \<Rightarrow> Inl (StartFailed e) | Inr run \<Rightarrow> Inr run)))"

section \<open>Running the layers\<close>

lemma find_node_iff:
  "distinct (map ID ns) \<Longrightarrow> find_node x ns = Some n \<longleftrightarrow> n \<in> set ns \<and> ID n = x"
  by (induction ns) auto

lemma dispatch_layer_nodes:
  assumes "distinct (map ID (Nodes p))" "ns \<subseteq> set (Nodes p)" "set layer \<subseteq> ID ` ns"
  shows "\<exists>ms. set ms \<subseteq> ns \<and> map ID ms = layer \<and>
    dispatch_layer p outputs layer = map (\<lambda>n. (ID n, node_dispatch p outputs n)) ms"
  using assms(3)
proof (induction layer)
  case Nil
  then show ?case by (intro exI [of _ "[]"]) (simp add: dispatch_layer_def)
next
  case (Cons x layer)
  then obtain ms where ms: "set ms \<subseteq> ns" "map ID ms = layer"
      "dispatch_layer p outputs layer = map (\<lambda>n. (ID n, node_dispatch p outputs n)) ms" by auto
  from Cons.prems obtain n where n: "n \<in> ns" "ID n = x" by auto
  with assms have "plan_node p x = Some n"
    unfolding plan_node_def by (subst find_node_iff) auto
  with ms n show ?case
    by (intro exI [of _ "n # ms"]) (auto simp: dispatch_layer_def)
qed

lemma upstream_of_cong:
  "(\<And>r. r \<in> set reqs \<Longrightarrow> gm_get o1 r = gm_get o2 r) \<Longrightarrow> upstream_of o1 reqs = upstream_of o2 reqs"
  unfolding upstream_of_def by (intro foldl_cong) (auto simp: read_output_def)

lemma node_dispatch_cong:
  "(\<And>r. r \<in> set (Requires n) \<Longrightarrow> gm_get o1 r = gm_get o2 r) \<Longrightarrow> node_dispatch p o1 n = node_dispatch p o2 n"
  unfolding node_dispatch_def by (simp add: upstream_of_cong [of "Requires n" o1 o2])

lemma get_upstream_of:
  "gm_get (upstream_of outputs reqs) r =
     (if r \<in> set reqs then Some (read_output outputs r) else None)"
proof -
  have "gm_get (foldl (\<lambda>up req. gm_set req (read_output outputs req) up) up reqs) r =
      (if r \<in> set reqs then Some (read_output outputs r) else gm_get up r)" for up
    by (induction reqs arbitrary: up) auto
  then show ?thesis by (simp add: upstream_of_def)
qed

text \<open>
  Awaiting a layer: with distinct nodes it stores every output, or reports the first node, in
  layer order, whose activity failed.
\<close>

definition exec_ok :: "(Dispatch \<Rightarrow> string + string) \<Rightarrow> Plan \<Rightarrow> (string, string) gomap \<Rightarrow> Node \<Rightarrow> bool" where
  "exec_ok exec p outputs n \<longleftrightarrow>
     (\<exists>v. gm_get outputs (ID n) = Some v \<and> exec (node_dispatch p outputs n) = Inr v)"

lemma await_layer_Inr:
  assumes "await_layer exec outputs (map (\<lambda>n. (ID n, D n)) ms) = Inr outputs'" "distinct (map ID ms)"
  shows "(\<forall>n\<in>set ms. \<exists>v. exec (D n) = Inr v \<and> gm_get outputs' (ID n) = Some v) \<and>
    (\<forall>k. k \<notin> ID ` set ms \<longrightarrow> gm_get outputs' k = gm_get outputs k)"
  using assms
proof (induction ms arbitrary: outputs)
  case Nil
  then show ?case by simp
next
  case (Cons n ms)
  from Cons.prems obtain v where v: "exec (D n) = Inr v"
      "await_layer exec (gm_set (ID n) v outputs) (map (\<lambda>n. (ID n, D n)) ms) = Inr outputs'"
    by (auto split: sum.splits)
  from Cons.IH [OF v(2)] Cons.prems(2)
  have IH: "\<forall>m\<in>set ms. \<exists>w. exec (D m) = Inr w \<and> gm_get outputs' (ID m) = Some w"
    "\<forall>k. k \<notin> ID ` set ms \<longrightarrow> gm_get outputs' k = gm_get (gm_set (ID n) v outputs) k" by auto
  moreover from IH(2) Cons.prems(2) have "gm_get outputs' (ID n) = Some v" by auto
  ultimately show ?case using v(1) by auto
qed

lemma await_layer_Inl:
  assumes "await_layer exec outputs (map (\<lambda>n. (ID n, D n)) ms) = Inl e"
  shows "\<exists>ms1 n ms2 msg. ms = ms1 @ n # ms2 \<and> e = NodeFailed (ID n) msg \<and> exec (D n) = Inl msg \<and>
    (\<forall>m\<in>set ms1. \<exists>v. exec (D m) = Inr v)"
  using assms
proof (induction ms arbitrary: outputs)
  case Nil
  then show ?case by simp
next
  case (Cons n ms)
  show ?case
  proof (cases "exec (D n)")
    case (Inl msg)
    with Cons.prems show ?thesis by (intro exI [of _ "[]"]) auto
  next
    case (Inr v)
    with Cons.prems Cons.IH [of "gm_set (ID n) v outputs"]
    obtain ms1 m ms2 msg where "ms = ms1 @ m # ms2" "e = NodeFailed (ID m) msg" "exec (D m) = Inl msg"
        "\<forall>m\<in>set ms1. \<exists>v. exec (D m) = Inr v" by auto
    with Inr show ?thesis by (intro exI [of _ "n # ms1"]) auto
  qed
qed


text \<open>What running a list of layers needs: each is new, and requires only what is done.\<close>

fun schedule :: "Node list \<Rightarrow> NodeID set \<Rightarrow> NodeID list list \<Rightarrow> bool" where
  "schedule ns done [] \<longleftrightarrow> True"
| "schedule ns done (layer # layers) \<longleftrightarrow> distinct layer \<and> set layer \<subseteq> ID ` set ns \<and>
     set layer \<inter> done = {} \<and> (\<forall>n\<in>set ns. ID n \<in> set layer \<longrightarrow> set (Requires n) \<subseteq> done) \<and>
     schedule ns (done \<union> set layer) layers"

lemma schedule_ref_layers:
  "distinct (map ID ns) \<Longrightarrow> schedule ns (set done) (ref_layers ns done)"
proof (induction ns "done" rule: ref_layers.induct)
  case (1 ns "done")
  show ?case
  proof (cases "next_layer ns done = []")
    case True
    then show ?thesis by (simp add: ref_layers.simps [of ns "done"])
  next
    case False
    have "schedule ns (set done \<union> set (next_layer ns done)) (ref_layers ns (rev (next_layer ns done) @ done))"
      using "1.IH" [OF False "1.prems"] by (simp add: Un_commute)
    moreover have "set (Requires n) \<subseteq> set done"
      if "n \<in> set ns" "ID n \<in> set (next_layer ns done)" for n
      using node_in_layer(2) [OF "1.prems" that] .
    moreover have "set (next_layer ns done) \<inter> set done = {}"
      using next_layer_new by blast
    ultimately show ?thesis
      using False distinct_next_layer [OF "1.prems", of "done"] next_layer_ids [of ns "done"]
      by (simp add: ref_layers.simps [of ns "done"])
  qed
qed

text \<open>
  The state between two layers: the outputs are those of the nodes that are done, each is what its
  activity returns on the outputs of its requirements, and the log holds one dispatch per node that
  is done, made from those same outputs.
\<close>

definition layers_inv :: "(Dispatch \<Rightarrow> string + string) \<Rightarrow> Plan \<Rightarrow> NodeID set \<Rightarrow>
    (string, string) gomap \<Rightarrow> Dispatch list \<Rightarrow> Node list \<Rightarrow> bool" where
  "layers_inv exec p done outputs log ms \<longleftrightarrow>
     set ms \<subseteq> set (Nodes p) \<and> distinct (map ID ms) \<and> ID ` set ms = done \<and>
     (\<forall>k. gm_get outputs k \<noteq> None \<longleftrightarrow> k \<in> done) \<and>
     (\<forall>m\<in>set ms. set (Requires m) \<subseteq> done \<and> exec_ok exec p outputs m) \<and>
     log = map (node_dispatch p outputs) ms"

lemma layers_inv_empty: "layers_inv exec p {} [] [] []"
  by (simp add: layers_inv_def)

text \<open>One layer: dispatches are made from the outputs so far; success extends the invariant.\<close>

lemma layer_dispatch:
  assumes "layers_inv exec p done outputs log ms" "distinct (map ID (Nodes p))"
    and "schedule (Nodes p) done (layer # layers)"
  shows "\<exists>ns. set ns \<subseteq> set (Nodes p) \<and> map ID ns = layer \<and> (\<forall>n\<in>set ns. set (Requires n) \<subseteq> done) \<and>
    dispatch_layer p outputs layer = map (\<lambda>n. (ID n, node_dispatch p outputs n)) ns"
proof -
  obtain ns where ns: "set ns \<subseteq> set (Nodes p)" "map ID ns = layer"
      "dispatch_layer p outputs layer = map (\<lambda>n. (ID n, node_dispatch p outputs n)) ns"
    using dispatch_layer_nodes [OF assms(2) order_refl, of layer outputs] assms(3) by auto
  then have "\<forall>n\<in>set ns. set (Requires n) \<subseteq> done"
    using assms(3) by (auto simp: subset_iff)
  with ns show ?thesis by blast
qed

lemma layer_step:
  assumes inv: "layers_inv exec p done outputs log ms"
    and sched: "schedule (Nodes p) done (layer # layers)"
    and ns: "set ns \<subseteq> set (Nodes p)" "map ID ns = layer" "\<forall>n\<in>set ns. set (Requires n) \<subseteq> done"
    and await: "await_layer exec outputs (map (\<lambda>n. (ID n, node_dispatch p outputs n)) ns) = Inr outputs'"
  shows "layers_inv exec p (done \<union> set layer) outputs' (log @ map (node_dispatch p outputs) ns) (ms @ ns)"
    and "\<forall>k\<in>done. gm_get outputs' k = gm_get outputs k"
proof -
  have "set layer = ID ` set ns" using ns(2) by (metis set_map)
  with sched ns(2) have dist: "distinct (map ID ns)" and disj: "ID ` set ns \<inter> done = {}" by simp_all
  from await_layer_Inr [OF await dist]
  have new: "\<forall>n\<in>set ns. \<exists>v. exec (node_dispatch p outputs n) = Inr v \<and> gm_get outputs' (ID n) = Some v"
    and other: "\<forall>k. k \<notin> ID ` set ns \<longrightarrow> gm_get outputs' k = gm_get outputs k" by auto
  with disj show same: "\<forall>k\<in>done. gm_get outputs' k = gm_get outputs k" by blast
  have req: "\<forall>m\<in>set ms \<union> set ns. set (Requires m) \<subseteq> done"
    using inv ns(3) by (auto simp: layers_inv_def)
  have disp: "node_dispatch p outputs m = node_dispatch p outputs' m" if "m \<in> set ms \<union> set ns" for m
    using that req same by (intro node_dispatch_cong) (auto simp: subset_iff)
  have "exec_ok exec p outputs' m" if "m \<in> set ms" for m
    using inv that same disp [of m] by (auto simp: layers_inv_def exec_ok_def)
  moreover have "exec_ok exec p outputs' n" if "n \<in> set ns" for n
    using new that disp [of n] by (auto simp: exec_ok_def)
  moreover have "gm_get outputs' k \<noteq> None \<longleftrightarrow> k \<in> done \<union> set layer" for k
    using inv new other ns(2) by (cases "k \<in> ID ` set ns") (auto simp: layers_inv_def)
  moreover have "distinct (map ID (ms @ ns))" "ID ` set (ms @ ns) = done \<union> set layer"
    using inv dist disj ns(2) by (auto simp: layers_inv_def)
  moreover have "log @ map (node_dispatch p outputs) ns = map (node_dispatch p outputs') (ms @ ns)"
    using inv disp by (simp add: layers_inv_def)
  ultimately show "layers_inv exec p (done \<union> set layer) outputs'
      (log @ map (node_dispatch p outputs) ns) (ms @ ns)"
    using inv ns(1) req by (auto simp: layers_inv_def)
qed

text \<open>A run that succeeds ends in the invariant for all its layers.\<close>

lemma run_layers_Inr:
  assumes "layers_inv exec p done outputs log ms" "distinct (map ID (Nodes p))"
    and "schedule (Nodes p) done layers" "run_layers exec p outputs log layers = (log', Inr outputs')"
  shows "\<exists>ns. layers_inv exec p (done \<union> set (concat layers)) outputs' log' (ms @ ns) \<and>
    map ID ns = concat layers"
  using assms
proof (induction layers arbitrary: "done" outputs log ms)
  case Nil
  then show ?case by (intro exI [of _ "[]"]) simp
next
  case (Cons layer layers)
  obtain ns where ns: "set ns \<subseteq> set (Nodes p)" "map ID ns = layer" "\<forall>n\<in>set ns. set (Requires n) \<subseteq> done"
      "dispatch_layer p outputs layer = map (\<lambda>n. (ID n, node_dispatch p outputs n)) ns"
    using layer_dispatch [OF Cons.prems(1-3)] by blast
  from Cons.prems(4) ns(4) obtain outputs1 where
    aw: "await_layer exec outputs (map (\<lambda>n. (ID n, node_dispatch p outputs n)) ns) = Inr outputs1" and
    run: "run_layers exec p outputs1 (log @ map (node_dispatch p outputs) ns) layers = (log', Inr outputs')"
    by (auto simp: o_def Let_def split: sum.splits)
  from layer_step(1) [OF Cons.prems(1,3) ns(1-3) aw]
  have "layers_inv exec p (done \<union> set layer) outputs1 (log @ map (node_dispatch p outputs) ns) (ms @ ns)" .
  from Cons.IH [OF this Cons.prems(2) _ run] Cons.prems(3)
  obtain ns' where "layers_inv exec p (done \<union> set layer \<union> set (concat layers)) outputs' log' ((ms @ ns) @ ns')"
      "map ID ns' = concat layers" by auto
  then show ?case
    using ns(2) by (intro exI [of _ "ns @ ns'"]) (simp add: Un_assoc)
qed

text \<open>
  A run that fails has dispatched some further nodes, all of whose requirements are done, and
  reports one of them, whose activity failed.
\<close>

lemma run_layers_Inl:
  assumes "layers_inv exec p done outputs log ms" "distinct (map ID (Nodes p))"
    and "schedule (Nodes p) done layers" "run_layers exec p outputs log layers = (log', Inl e)"
  shows "\<exists>done' outs ms' ns n msg. layers_inv exec p done' outs (map (node_dispatch p outs) ms') ms' \<and>
    set ns \<subseteq> set (Nodes p) \<and> distinct (map ID ns) \<and> ID ` set ns \<inter> done' = {} \<and>
    (\<forall>n\<in>set ns. set (Requires n) \<subseteq> done') \<and> log' = map (node_dispatch p outs) (ms' @ ns) \<and>
    n \<in> set ns \<and> e = NodeFailed (ID n) msg \<and> exec (node_dispatch p outs n) = Inl msg"
  using assms
proof (induction layers arbitrary: "done" outputs log ms)
  case Nil
  then show ?case by simp
next
  case (Cons layer layers)
  obtain ns where ns: "set ns \<subseteq> set (Nodes p)" "map ID ns = layer" "\<forall>n\<in>set ns. set (Requires n) \<subseteq> done"
      "dispatch_layer p outputs layer = map (\<lambda>n. (ID n, node_dispatch p outputs n)) ns"
    using layer_dispatch [OF Cons.prems(1-3)] by blast
  let ?fs = "map (\<lambda>n. (ID n, node_dispatch p outputs n)) ns"
  show ?case
  proof (cases "await_layer exec outputs ?fs")
    case (Inl e')
    then obtain n msg where n: "n \<in> set ns" "e' = NodeFailed (ID n) msg"
        "exec (node_dispatch p outputs n) = Inl msg"
      using await_layer_Inl [OF Inl] by (metis in_set_conv_decomp)
    moreover have "e' = e" "log' = map (node_dispatch p outputs) (ms @ ns)"
      using Inl Cons.prems(1,4) ns(4) by (auto simp: o_def Let_def layers_inv_def)
    moreover have "distinct (map ID ns)" "ID ` set ns \<inter> done = {}"
      using Cons.prems(3) ns(2) set_map [of ID ns] by simp_all
    moreover have "layers_inv exec p done outputs (map (node_dispatch p outputs) ms) ms"
      using Cons.prems(1) by (simp add: layers_inv_def)
    ultimately show ?thesis using ns(1,3) by blast
  next
    case (Inr outputs1)
    from Inr Cons.prems(4) ns(4) have
      run: "run_layers exec p outputs1 (log @ map (node_dispatch p outputs) ns) layers = (log', Inl e)"
      by (auto simp: o_def Let_def)
    have "schedule (Nodes p) (done \<union> set layer) layers" using Cons.prems(3) by simp
    from Cons.IH [OF layer_step(1) [OF Cons.prems(1,3) ns(1-3) Inr] Cons.prems(2) this run]
    show ?thesis .
  qed
qed

text \<open>Where the plan's equations have a solution, the run follows it and does not fail.\<close>

lemma run_layers_solution:
  assumes "layers_inv exec p done outputs log ms" "distinct (map ID (Nodes p))"
    and "schedule (Nodes p) done layers" "\<forall>n\<in>set (Nodes p). exec_ok exec p sol n"
    and "\<forall>k\<in>done. gm_get outputs k = gm_get sol k"
  shows "\<exists>log' outputs'. run_layers exec p outputs log layers = (log', Inr outputs') \<and>
    (\<forall>k\<in>done \<union> set (concat layers). gm_get outputs' k = gm_get sol k)"
  using assms
proof (induction layers arbitrary: "done" outputs log ms)
  case Nil
  then show ?case by simp
next
  case (Cons layer layers)
  obtain ns where ns: "set ns \<subseteq> set (Nodes p)" "map ID ns = layer" "\<forall>n\<in>set ns. set (Requires n) \<subseteq> done"
      "dispatch_layer p outputs layer = map (\<lambda>n. (ID n, node_dispatch p outputs n)) ns"
    using layer_dispatch [OF Cons.prems(1-3)] by blast
  let ?fs = "map (\<lambda>n. (ID n, node_dispatch p outputs n)) ns"
  have exec_sol: "\<exists>v. exec (node_dispatch p outputs n) = Inr v \<and> gm_get sol (ID n) = Some v"
    if "n \<in> set ns" for n
  proof -
    have "node_dispatch p outputs n = node_dispatch p sol n"
      using that ns(3) Cons.prems(5) by (intro node_dispatch_cong) (auto simp: subset_iff)
    then show ?thesis using that ns(1) Cons.prems(4) by (auto simp: exec_ok_def subset_iff)
  qed
  then obtain outputs1 where aw: "await_layer exec outputs ?fs = Inr outputs1"
    using await_layer_Inl [of exec outputs "node_dispatch p outputs" ns]
    by (cases "await_layer exec outputs ?fs") fastforce+
  note step = layer_step [OF Cons.prems(1,3) ns(1-3) aw]
  have agree: "\<forall>k\<in>done \<union> set layer. gm_get outputs1 k = gm_get sol k"
    using step(2) Cons.prems(3,5) exec_sol await_layer_Inr [OF aw] ns(2) by fastforce
  have "schedule (Nodes p) (done \<union> set layer) layers" using Cons.prems(3) by simp
  from Cons.IH [OF step(1) Cons.prems(2) this Cons.prems(4) agree] show ?case
    using ns(4) aw by (auto simp: o_def Let_def Un_assoc)
qed


text \<open>The workflow on a valid plan runs the reference layers.\<close>

lemma Workflow_valid:
  assumes "Validate rng p = None" "\<And>k. range_order (rng k)" "\<And>k. range_order (rng' k)"
  shows "distinct (map ID (Nodes p))"
    and "schedule (Nodes p) {} (ref_layers (Nodes p) [])"
    and "set (concat (ref_layers (Nodes p) [])) = set (map ID (Nodes p))"
    and "Workflow rng rng' exec t0 t1 p =
      (case run_layers exec p [] [] (ref_layers (Nodes p) []) of
         (log, Inl e) \<Rightarrow> (log, Inl e)
       | (log, Inr outputs) \<Rightarrow> (log, Inr \<lparr>Outputs = outputs, ResultLeaves = Leaves p,
           DurationMs = go_div (t1 - t0) 1000000\<rparr>))"
proof -
  have wf: "well_formed (Nodes p)" and ac: "acyclic (requires_rel (Nodes p))"
    using assms(1) Validate_None_iff [OF assms(2)] by auto
  then show dist: "distinct (map ID (Nodes p))" by (simp add: well_formed_def)
  then show "schedule (Nodes p) {} (ref_layers (Nodes p) [])"
    using schedule_ref_layers [of "Nodes p" "[]"] by simp
  show "set (concat (ref_layers (Nodes p) [])) = set (map ID (Nodes p))"
    using ref_layers_partition [OF dist, of "[]"] acyclic_ref_layers_cover [OF wf ac] by auto
  show "Workflow rng rng' exec t0 t1 p =
      (case run_layers exec p [] [] (ref_layers (Nodes p) []) of
         (log, Inl e) \<Rightarrow> (log, Inl e)
       | (log, Inr outputs) \<Rightarrow> (log, Inr \<lparr>Outputs = outputs, ResultLeaves = Leaves p,
           DurationMs = go_div (t1 - t0) 1000000\<rparr>))"
    using Layers_cases [OF wf assms(3)] ac assms(1) by (simp add: Workflow_def)
qed

lemma same_nodes_mset:
  assumes "distinct (map ID ns)" "distinct (map ID ms)" "set ms \<subseteq> set ns" "ID ` set ms = ID ` set ns"
  shows "mset ms = mset ns"
proof -
  have "inj_on ID (set ns)" using assms(1) by (simp add: distinct_map)
  then have "set ms = set ns"
    using assms(3,4) by (metis inj_on_image_eq_iff order_refl)
  with assms(1,2) show ?thesis
    by (intro set_eq_iff_mset_eq_distinct [THEN iffD1]) (auto simp: distinct_map)
qed

section \<open>Properties\<close>

text \<open>
  When the workflow of a valid plan succeeds, it has dispatched every node exactly once, and its
  outputs solve the plan's equations: the output of a node is what its activity returns on the
  node's arguments, its options and the outputs of the nodes it requires. There is an output for
  every node and for nothing else, and the reported leaves are the plan's.
\<close>

theorem Workflow_success:
  assumes "Validate rng p = None" "\<And>k. range_order (rng k)" "\<And>k. range_order (rng' k)"
    and "Workflow rng rng' exec t0 t1 p = (log, Inr res)"
  shows "(\<forall>n\<in>set (Nodes p). \<exists>v. gm_get (Outputs res) (ID n) = Some v \<and>
      exec (node_dispatch p (Outputs res) n) = Inr v) \<and>
    (\<forall>k. gm_get (Outputs res) k \<noteq> None \<longleftrightarrow> k \<in> ID ` set (Nodes p)) \<and>
    mset log = mset (map (node_dispatch p (Outputs res)) (Nodes p)) \<and>
    ResultLeaves res = Leaves p"
proof -
  note v = Workflow_valid [OF assms(1-3)]
  from assms(4) obtain outputs where
    run: "run_layers exec p [] [] (ref_layers (Nodes p) []) = (log, Inr outputs)" and
    res: "Outputs res = outputs" "ResultLeaves res = Leaves p"
    by (auto simp: v(4) split: prod.splits sum.splits)
  from run_layers_Inr [OF layers_inv_empty v(1,2) run] obtain ms where
    inv: "layers_inv exec p (set (map ID (Nodes p))) outputs log ms"
    using v(3) by auto
  then have "mset ms = mset (Nodes p)"
    using v(1) by (intro same_nodes_mset) (auto simp: layers_inv_def)
  then have "mset log = mset (map (node_dispatch p outputs) (Nodes p))" "set ms = set (Nodes p)"
    using inv by (auto simp: layers_inv_def dest: mset_eq_setD)
  with inv res show ?thesis by (auto simp: layers_inv_def exec_ok_def)
qed

text \<open>An activity for the concrete runs: Echo, by its registered name.\<close>

definition echo_exec :: "Dispatch \<Rightarrow> string + string" where
  "echo_exec d = (if DispatchActivity d = ''Echo'' then Inr (Echo rev (DispatchInput d))
     else Inl ''activity not registered'')"

definition diamond_result :: "Dispatch list \<times> (workflow_error + Result)" where
  "diamond_result = Workflow (\<lambda>_. rev) (\<lambda>_. rev) echo_exec 0 5000000 diamond"

lemma diamond_run: "case diamond_result of
    (log, Inr res) \<Rightarrow> DurationMs res = 5 \<and>
      gm_get (Outputs res) ''join'' = Some ''join | left | src right | src''
  | _ \<Rightarrow> False"
  unfolding diamond_result_def by code_simp

lemma diamond_succeeds: "\<exists>log res. Workflow (\<lambda>_. rev) (\<lambda>_. rev) echo_exec 0 5000000 diamond = (log, Inr res)"
  using diamond_run by (auto simp: diamond_result_def split: prod.splits sum.splits)

theorem Workflow_success_witness:
  "\<exists>log res. diamond_result = (log, Inr res) \<and>
     mset log = mset (map (node_dispatch diamond (Outputs res)) (Nodes diamond))"
proof -
  obtain log res where r: "Workflow (\<lambda>_. rev) (\<lambda>_. rev) echo_exec 0 5000000 diamond = (log, Inr res)"
    using diamond_succeeds by blast
  from Workflow_success [OF diamond_valid _ _ r]
  show ?thesis using r by (auto simp: diamond_result_def)
qed

text \<open>
  C3: the workflow of a valid plan succeeds exactly when the plan's equations have a solution, and
  then its outputs are the only one: no schedule or order of a map loop changes them.
\<close>

theorem Workflow_refines_equations:
  assumes "Validate rng p = None" "\<And>k. range_order (rng k)" "\<And>k. range_order (rng' k)"
  shows "((\<exists>log res. Workflow rng rng' exec t0 t1 p = (log, Inr res)) \<longleftrightarrow>
      (\<exists>sol. \<forall>n\<in>set (Nodes p). exec_ok exec p sol n)) \<and>
    (\<forall>log res sol. Workflow rng rng' exec t0 t1 p = (log, Inr res) \<longrightarrow>
      (\<forall>n\<in>set (Nodes p). exec_ok exec p sol n) \<longrightarrow>
      (\<forall>n\<in>set (Nodes p). gm_get (Outputs res) (ID n) = gm_get sol (ID n)))"
proof -
  note v = Workflow_valid [OF assms]
  have follow: "\<exists>log outputs. run_layers exec p [] [] (ref_layers (Nodes p) []) = (log, Inr outputs) \<and>
      (\<forall>n\<in>set (Nodes p). gm_get outputs (ID n) = gm_get sol (ID n))"
    if "\<forall>n\<in>set (Nodes p). exec_ok exec p sol n" for sol
    using run_layers_solution [OF layers_inv_empty v(1,2) that]
    unfolding v(3) Un_empty_left set_map by auto
  have solves: "\<exists>sol. \<forall>n\<in>set (Nodes p). exec_ok exec p sol n"
    if "run_layers exec p [] [] (ref_layers (Nodes p) []) = (log, Inr outputs)" for log outputs
  proof -
    from run_layers_Inr [OF layers_inv_empty v(1,2) that] obtain ms where
      "layers_inv exec p (set (map ID (Nodes p))) outputs log ms" using v(3) by auto
    then have "set ms = set (Nodes p)" "\<forall>m\<in>set ms. exec_ok exec p outputs m"
      using same_nodes_mset [OF v(1), of ms] by (auto simp: layers_inv_def dest: mset_eq_setD)
    then show ?thesis by blast
  qed
  have "(\<exists>log res. Workflow rng rng' exec t0 t1 p = (log, Inr res)) \<longleftrightarrow>
      (\<exists>sol. \<forall>n\<in>set (Nodes p). exec_ok exec p sol n)"
    using solves follow by (fastforce simp: v(4) split: prod.splits sum.splits)
  moreover have "gm_get (Outputs res) (ID n) = gm_get sol (ID n)"
    if "Workflow rng rng' exec t0 t1 p = (log, Inr res)" "\<forall>n\<in>set (Nodes p). exec_ok exec p sol n"
      "n \<in> set (Nodes p)" for log res sol n
    using that(1,3) follow [OF that(2)] by (auto simp: v(4))
  ultimately show ?thesis by blast
qed

theorem Workflow_refines_equations_witness: "\<exists>sol. \<forall>n\<in>set (Nodes diamond). exec_ok echo_exec diamond sol n"
proof -
  have "range_order rev" by (simp add: range_order_def)
  with diamond_succeeds Workflow_refines_equations [OF diamond_valid, of "\<lambda>_. rev" echo_exec 0 5000000]
  show ?thesis by blast
qed

text \<open>
  C4: a workflow that fails on a valid plan reports a node it dispatched whose activity failed with
  the reported error. Whatever it dispatched, it dispatched at most once, and only after every
  requirement had completed, with the requirements' actual outputs.
\<close>

theorem Workflow_failure:
  assumes "Validate rng p = None" "\<And>k. range_order (rng k)" "\<And>k. range_order (rng' k)"
    and "Workflow rng rng' exec t0 t1 p = (log, Inl e)"
  shows "\<exists>outs ms n msg. log = map (node_dispatch p outs) ms \<and> set ms \<subseteq> set (Nodes p) \<and>
    distinct (map ID ms) \<and> n \<in> set ms \<and> e = NodeFailed (ID n) msg \<and>
    exec (node_dispatch p outs n) = Inl msg \<and>
    (\<forall>m\<in>set ms. \<forall>r\<in>set (Requires m). \<exists>m'\<in>set ms. ID m' = r \<and> exec_ok exec p outs m')"
proof -
  note v = Workflow_valid [OF assms(1-3)]
  from assms(4) have "run_layers exec p [] [] (ref_layers (Nodes p) []) = (log, Inl e)"
    by (auto simp: v(4) split: prod.splits sum.splits)
  from run_layers_Inl [OF layers_inv_empty v(1,2) this]
  obtain done' outs ms ns n msg where
    inv: "layers_inv exec p done' outs (map (node_dispatch p outs) ms) ms" and
    ns: "set ns \<subseteq> set (Nodes p)" "distinct (map ID ns)" "ID ` set ns \<inter> done' = {}"
      "\<forall>n\<in>set ns. set (Requires n) \<subseteq> done'" and
    log: "log = map (node_dispatch p outs) (ms @ ns)" and
    n: "n \<in> set ns" "e = NodeFailed (ID n) msg" "exec (node_dispatch p outs n) = Inl msg"
    by blast
  have "\<exists>m'\<in>set (ms @ ns). ID m' = r \<and> exec_ok exec p outs m'"
    if "m \<in> set (ms @ ns)" "r \<in> set (Requires m)" for m r
  proof -
    have "r \<in> done'" using that inv ns(4) by (auto simp: layers_inv_def)
    then show ?thesis using inv by (auto simp: layers_inv_def)
  qed
  moreover have "set (ms @ ns) \<subseteq> set (Nodes p)" "distinct (map ID (ms @ ns))"
    using inv ns by (auto simp: layers_inv_def)
  ultimately show ?thesis
    using log n by (intro exI [of _ outs] exI [of _ "ms @ ns"] exI [of _ n] exI [of _ msg]) auto
qed

text \<open>The diamond with an activity that fails on \<open>right\<close>: \<open>join\<close> is never dispatched.\<close>

definition failing_exec :: "Dispatch \<Rightarrow> string + string" where
  "failing_exec d = (if InputNodeID (DispatchInput d) = ''right'' then Inl ''boom'' else echo_exec d)"

lemma diamond_fails: "case Workflow (\<lambda>_. rev) (\<lambda>_. rev) failing_exec 0 0 diamond of
    (log, Inl e) \<Rightarrow> length log = 3 \<and> e = NodeFailed ''right'' ''boom'' | _ \<Rightarrow> False"
  by code_simp

theorem Workflow_failure_witness:
  "\<exists>log e outs ms. Workflow (\<lambda>_. rev) (\<lambda>_. rev) failing_exec 0 0 diamond = (log, Inl e) \<and>
     log = map (node_dispatch diamond outs) ms \<and> distinct (map ID ms)"
proof -
  obtain log e where r: "Workflow (\<lambda>_. rev) (\<lambda>_. rev) failing_exec 0 0 diamond = (log, Inl e)"
    using diamond_fails by (auto split: prod.splits sum.splits)
  from Workflow_failure [OF diamond_valid _ _ r] show ?thesis using r by auto
qed

text \<open>
  An invalid plan dispatches nothing: the workflow fails with the error of \<open>Validate\<close>, and \<open>Submit\<close>
  refuses the plan with the same error before it reaches the client.
\<close>

theorem invalid_plan_rejected:
  assumes "Validate rng p = Some e"
  shows "Workflow rng rng' exec t0 t1 p = ([], Inl (InvalidPlan e)) \<and>
    (tq \<noteq> [] \<longrightarrow> Submit rng (Some start) p tq = Inl (SubmitInvalid e))"
  using assms by (simp add: Workflow_def Submit_def)

theorem invalid_plan_rejected_witness:
  "Workflow (\<lambda>_. rev) (\<lambda>_. rev) echo_exec 0 0 two_cycle = ([], Inl (InvalidPlan (CycleDetected 2)))"
proof -
  have "Validate (\<lambda>_. rev) two_cycle = Some (CycleDetected 2)" by code_simp
  from invalid_plan_rejected [OF this] show ?thesis by blast
qed

text \<open>Echo does not depend on the order of its map, and passes through what it is given.\<close>

lemma Echo_order: "range_order \<rho> \<Longrightarrow> Echo \<rho> inp = Echo (\<lambda>xs. xs) inp"
  by (simp add: Echo_def sort_range_order Let_def)

lemma Echo_no_upstream: "Upstream inp = [] \<Longrightarrow> Echo \<rho> inp = joinNonEmpty (InputArgs inp)"
  by (simp add: Echo_def Let_def)

end
