(* ===== verification/Completion.thy ===== *)
theory Completion
  imports Go_Strings
begin

text \<open>
  Package agent, files \<^verbatim>\<open>llm.go\<close>, \<^verbatim>\<open>middleware.go\<close>, \<^verbatim>\<open>tokens.go\<close> and \<^verbatim>\<open>lift.go\<close>: completion functions,
  their middleware, and their lifting to arrows.

  A completion function takes the system prompt, the user message and the state of the world it
  acts on (a scripted client, a cache, the network), and gives the reply with the new state. A
  panic is a reply of its own, so that every middleware lets it through as Go does. Loggers,
  caches and sinks are interfaces in the source: they are functions on the state.
\<close>

section \<open>Completion functions\<close>

datatype llm_error =
    ProviderError string
  | NoResponses
  | ScriptExhausted nat
  | ContextDone string
  | AfterAttempts int llm_error

datatype reply = Returned string "llm_error option" | Panicked string

type_synonym 's CompleteFunc = "string \<Rightarrow> string \<Rightarrow> 's \<Rightarrow> reply \<times> 's"

type_synonym 's Middleware = "'s CompleteFunc \<Rightarrow> 's CompleteFunc"

text \<open>The loop of \<open>Chain\<close> runs from the last middleware down to the first.\<close>

fun chain_down :: "nat \<Rightarrow> 's Middleware list \<Rightarrow> 's CompleteFunc \<Rightarrow> 's CompleteFunc" where
  "chain_down 0 mws inner = inner"
| "chain_down (Suc i) mws inner = chain_down i mws ((mws ! i) inner)"

definition Chain :: "'s CompleteFunc \<Rightarrow> 's Middleware list \<Rightarrow> 's CompleteFunc" where
  "Chain inner mws = chain_down (length mws) mws inner"

section \<open>The scripted client\<close>

record ScriptedCall =
  CallSystem :: string
  CallUser :: string

record ScriptedLLM =
  Responses :: "string list"
  Cycle :: bool
  calls :: "ScriptedCall list"
  idx :: nat

definition scripted_complete :: "ScriptedLLM CompleteFunc" where
  "scripted_complete sys user s =
     (let s1 = s\<lparr>calls := calls s @ [\<lparr>CallSystem = sys, CallUser = user\<rparr>]\<rparr>
      in if Responses s1 = [] then (Returned [] (Some NoResponses), s1)
         else if idx s1 \<ge> length (Responses s1) \<and> \<not> Cycle s1
           then (Returned [] (Some (ScriptExhausted (idx s1))), s1)
         else (let s2 = (if idx s1 \<ge> length (Responses s1) then s1\<lparr>idx := 0\<rparr> else s1)
               in (Returned (Responses s2 ! idx s2) None, s2\<lparr>idx := idx s2 + 1\<rparr>)))"

definition CallCount :: "ScriptedLLM \<Rightarrow> nat" where
  "CallCount s = length (calls s)"

definition trimResponse :: "string \<Rightarrow> string" where
  "trimResponse s =
     (let s1 = TrimSpace s;
          s2 = TrimPrefix s1 ''```json'';
          s3 = TrimPrefix s2 ''```'';
          s4 = TrimSuffix s3 ''```''
      in TrimSpace s4)"

section \<open>Middleware\<close>

text \<open>Logging: the records hold lengths, durations and errors. \<open>now\<close> reads the clock.\<close>

datatype log_record = CallStart nat nat | CallFailed llm_error int | CallOk int nat

definition WithLogging :: "(log_record \<Rightarrow> 's \<Rightarrow> 's) \<Rightarrow> ('s \<Rightarrow> int) \<Rightarrow> 's Middleware" where
  "WithLogging logger now nxt sys user s =
     (let start = now s;
          s1 = logger (CallStart (length sys) (length user)) s
      in case nxt sys user s1 of
           (Panicked p, s2) \<Rightarrow> (Panicked p, s2)
         | (Returned out err, s2) \<Rightarrow>
             (let dur = now s2 - start
              in case err of
                   Some e \<Rightarrow> (Returned out (Some e), logger (CallFailed e dur) s2)
                 | None \<Rightarrow> (Returned out None, logger (CallOk dur (length out)) s2)))"

text \<open>
  Retry. \<open>rand63 s n\<close> is the number \<^verbatim>\<open>rand.Int63n(n)\<close> draws in state \<open>s\<close>; the library panics unless
  \<open>n > 0\<close>. \<open>wait s d\<close> is the outcome of the select on the context and the timer of \<open>d\<close> nanoseconds:
  the error of the context when that is done first. Durations are 64-bit.
\<close>

function retry_loop :: "('s \<Rightarrow> int \<Rightarrow> int) \<Rightarrow> ('s \<Rightarrow> int \<Rightarrow> llm_error option) \<Rightarrow> int \<Rightarrow> 's CompleteFunc \<Rightarrow>
    string \<Rightarrow> string \<Rightarrow> int \<Rightarrow> int \<Rightarrow> llm_error \<Rightarrow> 's \<Rightarrow> reply \<times> 's" where
  "retry_loop rand63 wait attempts nxt sys user i delay lastErr s =
     (if i < attempts then
        (case nxt sys user s of
           (Panicked p, s1) \<Rightarrow> (Panicked p, s1)
         | (Returned out None, s1) \<Rightarrow> (Returned out None, s1)
         | (Returned out (Some e), s1) \<Rightarrow>
             if i = attempts - 1 then (Returned [] (Some (AfterAttempts attempts e)), s1)
             else if go_div delay 2 \<le> 0 then (Panicked ''invalid argument to Int63n'', s1)
             else (case wait s1 (wrap64 (delay + rand63 s1 (go_div delay 2))) of
                     Some e' \<Rightarrow> (Returned [] (Some e'), s1)
                   | None \<Rightarrow> retry_loop rand63 wait attempts nxt sys user (i + 1) (wrap64 (delay * 2)) e s1))
      else (Returned [] (Some (AfterAttempts attempts lastErr)), s))"
  by pat_completeness auto
termination
  by (relation "measure (\<lambda>(rand63, wait, attempts, nxt, sys, user, i, delay, lastErr, s). nat (attempts - i))") auto

declare retry_loop.simps [simp del]

definition WithRetry :: "('s \<Rightarrow> int \<Rightarrow> int) \<Rightarrow> ('s \<Rightarrow> int \<Rightarrow> llm_error option) \<Rightarrow> int \<Rightarrow> int \<Rightarrow> 's Middleware" where
  "WithRetry rand63 wait attempts initial nxt sys user s =
     (let attempts' = (if attempts < 1 then 1 else attempts);
          initial' = (if initial \<le> 0 then 100 * 1000000 else initial)
      in retry_loop rand63 wait attempts' nxt sys user 0 initial' (ProviderError []) s)"

text \<open>The in-memory cache; \<open>now\<close> is the time at which an operation reads the clock.\<close>

record memoryCacheEntry =
  entry_value :: string
  entry_expires :: int

record MemoryCache =
  cache_ttl :: int
  store :: "(string, memoryCacheEntry) gomap"

definition NewMemoryCache :: "int \<Rightarrow> MemoryCache" where
  "NewMemoryCache ttl = \<lparr>cache_ttl = ttl, store = []\<rparr>"

definition MemoryCache_Get :: "int \<Rightarrow> string \<Rightarrow> MemoryCache \<Rightarrow> string option \<times> MemoryCache" where
  "MemoryCache_Get now key c =
     (case gm_get (store c) key of
        None \<Rightarrow> (None, c)
      | Some entry \<Rightarrow>
          if cache_ttl c > 0 \<and> now > entry_expires entry then (None, c\<lparr>store := gm_del key (store c)\<rparr>)
          else (Some (entry_value entry), c))"

definition MemoryCache_Set :: "int \<Rightarrow> string \<Rightarrow> string \<Rightarrow> MemoryCache \<Rightarrow> MemoryCache" where
  "MemoryCache_Set now key value c =
     (let expires = (if cache_ttl c > 0 then now + cache_ttl c else 0)
      in c\<lparr>store := gm_set key \<lparr>entry_value = value, entry_expires = expires\<rparr> (store c)\<rparr>)"

definition MemoryCache_Len :: "MemoryCache \<Rightarrow> nat" where
  "MemoryCache_Len c = length (store c)"

text \<open>The key: a hash \<open>sha\<close> of the two prompts with a zero byte between them, in hexadecimal.\<close>

definition hex_digit :: "nat \<Rightarrow> char" where
  "hex_digit n = ''0123456789abcdef'' ! n"

definition hex_encode :: "string \<Rightarrow> string" where
  "hex_encode bs = concat (map (\<lambda>b. [hex_digit (of_char b div 16), hex_digit (of_char b mod 16)]) bs)"

definition cacheKey :: "(string \<Rightarrow> string) \<Rightarrow> string \<Rightarrow> string \<Rightarrow> string" where
  "cacheKey sha sys user = hex_encode (sha (sys @ [CHR 0x00] @ user))"

definition WithCache :: "(string \<Rightarrow> string) \<Rightarrow> (string \<Rightarrow> 's \<Rightarrow> string option \<times> 's) \<Rightarrow>
    (string \<Rightarrow> string \<Rightarrow> 's \<Rightarrow> 's) \<Rightarrow> 's Middleware" where
  "WithCache sha cget cset nxt sys user s =
     (let key = cacheKey sha sys user
      in case cget key s of
           (Some hit, s1) \<Rightarrow> (Returned hit None, s1)
         | (None, s1) \<Rightarrow>
             (case nxt sys user s1 of
                (Panicked p, s2) \<Rightarrow> (Panicked p, s2)
              | (Returned out (Some e), s2) \<Rightarrow> (Returned out (Some e), s2)
              | (Returned out None, s2) \<Rightarrow> (Returned out None, cset key out s2)))"

section \<open>Token accounting\<close>

record TokenUsage =
  InputTokens :: int
  OutputTokens :: int

definition usage_total :: "TokenUsage \<Rightarrow> int" where
  "usage_total t = wrap64 (InputTokens t + OutputTokens t)"

definition usage_add :: "TokenUsage \<Rightarrow> TokenUsage \<Rightarrow> TokenUsage" where
  "usage_add t u = \<lparr>InputTokens = wrap64 (InputTokens t + InputTokens u),
     OutputTokens = wrap64 (OutputTokens t + OutputTokens u)\<rparr>"

record AtomicTokenSink =
  sink_input :: int
  sink_output :: int
  sink_calls :: int

definition RecordCall :: "TokenUsage \<Rightarrow> AtomicTokenSink \<Rightarrow> AtomicTokenSink" where
  "RecordCall u s = \<lparr>sink_input = wrap64 (sink_input s + InputTokens u),
     sink_output = wrap64 (sink_output s + OutputTokens u), sink_calls = wrap64 (sink_calls s + 1)\<rparr>"

definition Snapshot :: "AtomicTokenSink \<Rightarrow> int \<times> int \<times> int" where
  "Snapshot s = (sink_input s, sink_output s, sink_calls s)"

definition sink_total :: "AtomicTokenSink \<Rightarrow> int" where
  "sink_total s = wrap64 (sink_input s + sink_output s)"

definition approxTokens :: "string \<Rightarrow> int" where
  "approxTokens s =
     (if s = [] then 0
      else (let n = (int (length s) + 3) div 4 in if n < 1 then 1 else n))"

definition WithTokenAccounting :: "(TokenUsage \<Rightarrow> 's \<Rightarrow> 's) option \<Rightarrow> 's Middleware" where
  "WithTokenAccounting sink nxt sys user s =
     (case nxt sys user s of
        (Panicked p, s1) \<Rightarrow> (Panicked p, s1)
      | (Returned out err, s1) \<Rightarrow>
          (case sink of
             None \<Rightarrow> (Returned out err, s1)
           | Some report \<Rightarrow>
               (Returned out err,
                report \<lparr>InputTokens = approxTokens sys + approxTokens user,
                        OutputTokens = approxTokens out\<rparr> s1)))"

section \<open>Arrows\<close>

record CompletionRequest =
  SystemPrompt :: string
  UserMessage :: string

definition CompleteAsArrow :: "'s CompleteFunc \<Rightarrow> CompletionRequest \<Rightarrow> 's \<Rightarrow> reply \<times> 's" where
  "CompleteAsArrow c req = c (SystemPrompt req) (UserMessage req)"


text \<open>The other direction, and the shape Temporal registers.\<close>

definition ArrowAsComplete :: "(CompletionRequest \<Rightarrow> 's \<Rightarrow> reply \<times> 's) \<Rightarrow> 's CompleteFunc" where
  "ArrowAsComplete a sys user = a \<lparr>SystemPrompt = sys, UserMessage = user\<rparr>"

definition ArrowAsActivity :: "('a \<Rightarrow> 's \<Rightarrow> 'b \<times> 's) \<Rightarrow> 'a \<Rightarrow> 's \<Rightarrow> 'b \<times> 's" where
  "ArrowAsActivity a inp = a inp"

lemma arrow_complete_inverse:
  "ArrowAsComplete (CompleteAsArrow c) = c" "CompleteAsArrow (ArrowAsComplete a) = a"
  by (auto simp: fun_eq_iff ArrowAsComplete_def CompleteAsArrow_def intro!: arg_cong [of _ _ "\<lambda>req. a req _"])

section \<open>Sequences of calls\<close>

text \<open>A conversation: the calls of a list of prompts, one after the other.\<close>

fun run_calls :: "'s CompleteFunc \<Rightarrow> (string \<times> string) list \<Rightarrow> 's \<Rightarrow> reply list \<times> 's" where
  "run_calls f [] s = ([], s)"
| "run_calls f ((sys, user) # reqs) s =
     (case f sys user s of (r, s1) \<Rightarrow> (case run_calls f reqs s1 of (rs, s2) \<Rightarrow> (r # rs, s2)))"

text \<open>The state after \<open>n\<close> calls with the same prompts, and the reply of call \<open>n\<close> (from 0).\<close>

fun after_calls :: "'s CompleteFunc \<Rightarrow> string \<Rightarrow> string \<Rightarrow> nat \<Rightarrow> 's \<Rightarrow> 's" where
  "after_calls f sys user 0 s = s"
| "after_calls f sys user (Suc n) s = after_calls f sys user n (snd (f sys user s))"

definition nth_reply :: "'s CompleteFunc \<Rightarrow> string \<Rightarrow> string \<Rightarrow> 's \<Rightarrow> nat \<Rightarrow> reply" where
  "nth_reply f sys user s n = fst (f sys user (after_calls f sys user n s))"

fun failed :: "reply \<Rightarrow> bool" where
  "failed (Returned out (Some e)) = True"
| "failed (Returned out None) = False"
| "failed (Panicked p) = False"

fun error_of :: "reply \<Rightarrow> llm_error option" where
  "error_of (Returned out err) = err"
| "error_of (Panicked p) = None"

lemma after_calls_Suc: "after_calls f sys user (Suc n) s = snd (f sys user (after_calls f sys user n s))"
  by (induction n arbitrary: s) auto

lemma nth_reply_Suc: "nth_reply f sys user s (Suc n) = nth_reply f sys user (snd (f sys user s)) n"
  by (simp add: nth_reply_def)

lemma nth_reply_0: "nth_reply f sys user s 0 = fst (f sys user s)"
  by (simp add: nth_reply_def)

lemma failed_cases: "failed r \<Longrightarrow> \<exists>out e. r = Returned out (Some e)"
  by (cases r rule: failed.cases) auto

section \<open>Chain\<close>

lemma chain_down_append: "i \<le> length mws \<Longrightarrow> chain_down i (mws @ xs) inner = chain_down i mws inner"
  by (induction i arbitrary: inner) (auto simp: nth_append)

lemma chain_down_foldr: "chain_down (length mws) mws inner = foldr (\<lambda>mw f. mw f) mws inner"
proof (induction mws arbitrary: inner rule: rev_induct)
  case Nil
  then show ?case by simp
next
  case (snoc mw mws)
  then show ?case by (simp add: chain_down_append)
qed

lemma Chain_foldr: "Chain inner mws = foldr (\<lambda>mw f. mw f) mws inner"
  by (simp add: Chain_def chain_down_foldr)

lemma Chain_simps [simp]:
  "Chain inner [] = inner" "Chain inner (mw # mws) = mw (Chain inner mws)"
  by (simp_all add: Chain_foldr)

lemma Chain_append: "Chain inner (xs @ ys) = Chain (Chain inner ys) xs"
  by (simp add: Chain_foldr)

section \<open>Retry\<close>

text \<open>
  The delay before retry \<open>j\<close> is the initial delay doubled \<open>j\<close> times. Where that stays between 2
  and \<open>2^63 - 1\<close> nanoseconds for every retry, the jitter can be drawn.
\<close>

definition delays_ok :: "int \<Rightarrow> int \<Rightarrow> bool" where
  "delays_ok attempts initial \<longleftrightarrow> 2 \<le> initial \<and> initial * 2 ^ nat (attempts - 2) < 2 ^ 63"

text \<open>The specification: up to \<open>m\<close> calls, no delays and no integers.\<close>

fun retry_spec :: "int \<Rightarrow> 's CompleteFunc \<Rightarrow> string \<Rightarrow> string \<Rightarrow> nat \<Rightarrow> 's \<Rightarrow> reply \<times> 's" where
  "retry_spec attempts nxt sys user 0 s = (Returned [] (Some (AfterAttempts attempts (ProviderError []))), s)"
| "retry_spec attempts nxt sys user (Suc m) s =
     (case nxt sys user s of
        (Returned out (Some e), s1) \<Rightarrow>
          if m = 0 then (Returned [] (Some (AfterAttempts attempts e)), s1)
          else retry_spec attempts nxt sys user m s1
      | (r, s1) \<Rightarrow> (r, s1))"

lemma delay_step:
  fixes delay :: int
  assumes "2 \<le> delay" "delay * 2 ^ Suc k < 2 ^ 63"
  shows "wrap64 (delay * 2) = delay * 2" "2 \<le> delay * 2" "delay * 2 * 2 ^ k < 2 ^ 63"
proof -
  have "(delay * 2) * 1 \<le> (delay * 2) * 2 ^ k"
    using assms(1) by (intro mult_left_mono) auto
  also have "(delay * 2) * 2 ^ k = delay * 2 ^ Suc k" by simp
  finally have "delay * 2 < 2 ^ 63" using assms(2) by linarith
  with assms(1) have "int64 (delay * 2)" by (simp add: int64_def)
  then show "wrap64 (delay * 2) = delay * 2" by (rule wrap64_id)
qed (use assms in simp_all)

lemma go_div2_pos: "2 \<le> d \<Longrightarrow> 0 < go_div d 2"
  by (simp add: go_div_def)

lemma retry_loop_spec:
  assumes "attempts = i + 1 + int m" "\<And>s d. wait s d = None" "2 \<le> delay"
    and "m = 0 \<or> delay * 2 ^ (m - 1) < 2 ^ 63"
  shows "retry_loop rand63 wait attempts nxt sys user i delay e0 s =
    retry_spec attempts nxt sys user (Suc m) s"
  using assms
proof (induction m arbitrary: i delay e0 s)
  case 0
  then show ?case
    by (subst retry_loop.simps) (auto split: prod.splits reply.splits option.splits)
next
  case (Suc m)
  have next_ok: "retry_loop rand63 wait attempts nxt sys user (i + 1) (wrap64 (delay * 2)) e s1 =
      retry_spec attempts nxt sys user (Suc m) s1" for e s1
  proof (cases m)
    case 0
    then show ?thesis
      using Suc.prems(1) by (subst retry_loop.simps) (auto split: prod.splits reply.splits option.splits)
  next
    case (Suc k)
    then have "delay * 2 ^ Suc k < 2 ^ 63" using Suc.prems(4) by simp
    note d = delay_step [OF Suc.prems(3) this]
    have "retry_loop rand63 wait attempts nxt sys user (i + 1) (delay * 2) e s1 =
        retry_spec attempts nxt sys user (Suc m) s1"
      using Suc d Suc.prems(1,2) by (intro Suc.IH) simp_all
    with d(1) show ?thesis by simp
  qed
  have "i < attempts" "i \<noteq> attempts - 1" "0 < go_div delay 2"
    using Suc.prems(1,3) go_div2_pos by auto
  then show ?case
    using Suc.prems(2) next_ok
    by (subst retry_loop.simps) (auto split: prod.splits reply.splits option.splits)
qed

lemma WithRetry_spec:
  assumes "1 \<le> attempts" "delays_ok attempts initial" "\<And>s d. wait s d = None"
  shows "WithRetry rand63 wait attempts initial nxt sys user s =
    retry_spec attempts nxt sys user (nat attempts) s"
proof -
  obtain m where m: "nat attempts = Suc m" using assms(1) by (cases "nat attempts") auto
  then have "attempts = 0 + 1 + int m" using assms(1) by linarith
  moreover have "m = 0 \<or> initial * 2 ^ (m - 1) < 2 ^ 63"
    using assms(2) m by (cases "m = 0") (auto simp: delays_ok_def nat_diff_distrib)
  ultimately show ?thesis
    using retry_loop_spec [of attempts 0 m wait initial] assms m
    by (simp add: WithRetry_def delays_ok_def)
qed

lemma retry_spec_success:
  assumes "n < m" "\<forall>j<n. failed (nth_reply nxt sys user s j)" "\<not> failed (nth_reply nxt sys user s n)"
  shows "retry_spec attempts nxt sys user m s = (nth_reply nxt sys user s n, after_calls nxt sys user (Suc n) s)"
  using assms
proof (induction n arbitrary: m s)
  case 0
  then show ?case
    by (cases m) (auto simp: nth_reply_0 split: prod.splits reply.splits option.splits)
next
  case (Suc n)
  then have "failed (nth_reply nxt sys user s 0)" by blast
  then obtain out e where first: "fst (nxt sys user s) = Returned out (Some e)"
    using failed_cases unfolding nth_reply_0 by blast
  obtain k where m: "m = Suc (Suc k)"
    using less_imp_Suc_add [OF Suc.prems(1)] by auto
  have "retry_spec attempts nxt sys user (Suc k) (snd (nxt sys user s)) =
      (nth_reply nxt sys user (snd (nxt sys user s)) n, after_calls nxt sys user (Suc n) (snd (nxt sys user s)))"
  proof (rule Suc.IH)
    show "n < Suc k" using Suc.prems(1) m by simp
    show "\<forall>j<n. failed (nth_reply nxt sys user (snd (nxt sys user s)) j)"
      using Suc.prems(2) by (metis Suc_less_eq nth_reply_Suc)
    show "\<not> failed (nth_reply nxt sys user (snd (nxt sys user s)) n)"
      using Suc.prems(3) by (simp add: nth_reply_Suc)
  qed
  then show ?case
    using first m by (simp add: nth_reply_Suc prod.case_eq_if)
qed

lemma retry_spec_exhausted:
  assumes "\<forall>j<Suc m. failed (nth_reply nxt sys user s j)"
  shows "retry_spec attempts nxt sys user (Suc m) s =
    (Returned [] (Some (AfterAttempts attempts (the (error_of (nth_reply nxt sys user s m))))),
     after_calls nxt sys user (Suc m) s)"
  using assms
proof (induction m arbitrary: s)
  case 0
  then obtain out e where "fst (nxt sys user s) = Returned out (Some e)"
    using failed_cases by (metis nth_reply_0 lessI)
  then show ?case by (simp add: nth_reply_0 prod.case_eq_if)
next
  case (Suc m)
  then obtain out e where first: "fst (nxt sys user s) = Returned out (Some e)"
    using failed_cases by (metis nth_reply_0 zero_less_Suc)
  have "\<forall>j<Suc m. failed (nth_reply nxt sys user (snd (nxt sys user s)) j)"
    using Suc.prems by (metis Suc_less_eq nth_reply_Suc)
  from Suc.IH [OF this] first show ?case by (simp add: nth_reply_Suc prod.case_eq_if)
qed


section \<open>Caching\<close>

text \<open>
  What \<open>WithCache\<close> relies on: a hit is something stored, a read stores nothing new, a write stores
  nothing but its value, if it does not fail. \<open>stored\<close> abstracts the cache inside the state to a map.
\<close>

locale cache =
  fixes cget :: "string \<Rightarrow> 's \<Rightarrow> string option \<times> 's"
    and cset :: "string \<Rightarrow> string \<Rightarrow> 's \<Rightarrow> 's"
    and stored :: "'s \<Rightarrow> string \<Rightarrow> string option"
  assumes get_hit: "cget k s = (Some v, s') \<Longrightarrow> stored s k = Some v"
    and get_shrinks: "cget k s = (r, s') \<Longrightarrow> stored s' k' = Some v \<Longrightarrow> stored s k' = Some v"
    and set_adds: "stored (cset k v s) k' = Some v' \<Longrightarrow> k' = k \<and> v' = v \<or> stored s k' = Some v'"

text \<open>
  The prompts of \<open>P\<close> have the answers \<open>f\<close>: a completion function whose successes are those answers and
  which adds nothing to the cache itself, and a cache that holds nothing else for them.
\<close>

definition answers :: "('s \<Rightarrow> string \<Rightarrow> string option) \<Rightarrow> (string \<Rightarrow> string \<Rightarrow> string) \<Rightarrow> 's CompleteFunc \<Rightarrow> bool" where
  "answers stored f nxt \<longleftrightarrow> (\<forall>sys user s r s'. nxt sys user s = (r, s') \<longrightarrow>
     (\<forall>out. r = Returned out None \<longrightarrow> out = f sys user) \<and>
     (\<forall>k v. stored s' k = Some v \<longrightarrow> stored s k = Some v))"

definition coherent :: "('s \<Rightarrow> string \<Rightarrow> string option) \<Rightarrow> (string \<Rightarrow> string) \<Rightarrow> (string \<times> string) set \<Rightarrow>
    (string \<Rightarrow> string \<Rightarrow> string) \<Rightarrow> 's \<Rightarrow> bool" where
  "coherent stored sha P f s \<longleftrightarrow> (\<forall>sys user v. (sys, user) \<in> P \<longrightarrow>
     stored s (cacheKey sha sys user) = Some v \<longrightarrow> v = f sys user)"

definition keys_distinct :: "(string \<Rightarrow> string) \<Rightarrow> (string \<times> string) set \<Rightarrow> bool" where
  "keys_distinct sha P \<longleftrightarrow> inj_on (\<lambda>(sys, user). cacheKey sha sys user) P"

fun reply_agrees :: "(string \<Rightarrow> string \<Rightarrow> string) \<Rightarrow> string \<times> string \<Rightarrow> reply \<Rightarrow> bool" where
  "reply_agrees f (sys, user) (Returned out None) \<longleftrightarrow> out = f sys user"
| "reply_agrees f req r \<longleftrightarrow> True"

lemma reply_agrees_iff: "reply_agrees f (sys, user) r \<longleftrightarrow> (\<forall>out. r = Returned out None \<longrightarrow> out = f sys user)"
  by (cases r rule: failed.cases) auto

lemma keys_distinctD:
  "keys_distinct sha P \<Longrightarrow> (s1, u1) \<in> P \<Longrightarrow> (s2, u2) \<in> P \<Longrightarrow>
     cacheKey sha s1 u1 = cacheKey sha s2 u2 \<Longrightarrow> s1 = s2 \<and> u1 = u2"
  by (fastforce simp: keys_distinct_def inj_on_def)

context cache
begin

lemma WithCache_step:
  assumes "coherent stored sha P f s" "answers stored f nxt" "keys_distinct sha P" "(sys, user) \<in> P"
    and "WithCache sha cget cset nxt sys user s = (r, s')"
  shows "reply_agrees f (sys, user) r \<and> coherent stored sha P f s'"
proof (cases "cget (cacheKey sha sys user) s")
  case (Pair hit s1)
  have coh1: "coherent stored sha P f s1"
    using assms(1) get_shrinks [OF Pair] by (auto simp: coherent_def)
  show ?thesis
  proof (cases hit)
    case (Some v)
    with assms Pair coh1 get_hit [of "cacheKey sha sys user" s v s1] show ?thesis
      by (auto simp: WithCache_def coherent_def)
  next
    case None
    obtain r2 s2 where inner: "nxt sys user s1 = (r2, s2)" by (cases "nxt sys user s1")
    with assms(2) have out: "\<forall>out. r2 = Returned out None \<longrightarrow> out = f sys user"
      and coh2: "coherent stored sha P f s2"
      using coh1 unfolding answers_def coherent_def by blast+
    have "coherent stored sha P f (cset (cacheKey sha sys user) (f sys user) s2)"
      using coh2 by (auto simp: coherent_def dest!: set_adds dest: keys_distinctD [OF assms(3) _ assms(4)])
    with out coh2 inner None Pair assms(5) show ?thesis
      by (auto simp: WithCache_def reply_agrees_iff Let_def split: reply.splits option.splits)
  qed
qed

lemma WithCache_run:
  assumes "coherent stored sha P f s" "answers stored f nxt" "keys_distinct sha P" "set reqs \<subseteq> P"
    and "run_calls (WithCache sha cget cset nxt) reqs s = (rs, s')"
  shows "list_all2 (reply_agrees f) reqs rs"
  using assms(1,4,5)
proof (induction reqs arbitrary: s rs s')
  case Nil
  then show ?case by simp
next
  case (Cons req reqs)
  obtain sys user where req: "req = (sys, user)" by (cases req)
  obtain r1 s1 where one: "WithCache sha cget cset nxt sys user s = (r1, s1)"
    by (cases "WithCache sha cget cset nxt sys user s")
  obtain rs1 s2 where rest: "run_calls (WithCache sha cget cset nxt) reqs s1 = (rs1, s2)"
    by (cases "run_calls (WithCache sha cget cset nxt) reqs s1")
  have "reply_agrees f (sys, user) r1" "coherent stored sha P f s1"
    using WithCache_step [OF Cons.prems(1) assms(2,3) _ one] Cons.prems(2) req by auto
  with Cons.IH [OF _ _ rest] Cons.prems req one rest show ?case by auto
qed

end

text \<open>A cache that keeps what it stores as long as the state is \<open>lasting\<close>.\<close>

locale lasting_cache = cache cget cset stored
  for cget :: "string \<Rightarrow> 's \<Rightarrow> string option \<times> 's"
    and cset :: "string \<Rightarrow> string \<Rightarrow> 's \<Rightarrow> 's"
    and stored :: "'s \<Rightarrow> string \<Rightarrow> string option" +
  fixes lasting :: "'s \<Rightarrow> bool"
  assumes get_lasting: "lasting s \<Longrightarrow> stored s k = Some v \<Longrightarrow> cget k s = (Some v, s)"
    and set_lasting: "lasting s \<Longrightarrow> lasting (cset k v s)"
    and set_stored: "lasting s \<Longrightarrow> stored (cset k v s) k = Some v"
    and miss_lasting: "lasting s \<Longrightarrow> lasting (snd (cget k s))"

context lasting_cache
begin

lemma WithCache_repeat:
  assumes "lasting s" "\<And>sys user s. lasting s \<Longrightarrow> lasting (snd (nxt sys user s))"
    and "WithCache sha cget cset nxt sys user s = (Returned out None, s')"
  shows "WithCache sha cget cset nxt' sys user s' = (Returned out None, s')"
proof (cases "cget (cacheKey sha sys user) s")
  case (Pair hit s1)
  show ?thesis
  proof (cases hit)
    case (Some v)
    with Pair have "stored s (cacheKey sha sys user) = Some v" by (auto intro: get_hit)
    with get_lasting [OF assms(1)] Pair Some have "s1 = s" by simp
    with Some Pair assms(3) get_lasting [OF assms(1)] show ?thesis by (auto simp: WithCache_def)
  next
    case None
    then obtain s2 where inner: "nxt sys user s1 = (Returned out None, s2)"
        "s' = cset (cacheKey sha sys user) out s2"
      using assms(3) Pair
      by (auto simp: WithCache_def Let_def split: prod.splits reply.splits option.splits)
    have "lasting s1" using miss_lasting [OF assms(1), of "cacheKey sha sys user"] Pair by simp
    then have "lasting s2" using assms(2) [of s1 sys user] inner(1) by simp
    then have "lasting s'" using inner(2) set_lasting by simp
    moreover have "stored s' (cacheKey sha sys user) = Some out" using inner(2) set_stored \<open>lasting s2\<close> by simp
    ultimately show ?thesis using get_lasting by (simp add: WithCache_def)
  qed
qed

end

text \<open>\<open>MemoryCache\<close> in a world with a clock and any other state provides the interface.\<close>

record 'r World =
  world_clock :: int
  world_cache :: MemoryCache
  world_rest :: 'r

definition mem_get :: "string \<Rightarrow> 'r World \<Rightarrow> string option \<times> 'r World" where
  "mem_get k w = (case MemoryCache_Get (world_clock w) k (world_cache w) of
     (r, c) \<Rightarrow> (r, w\<lparr>world_cache := c\<rparr>))"

definition mem_set :: "string \<Rightarrow> string \<Rightarrow> 'r World \<Rightarrow> 'r World" where
  "mem_set k v w = w\<lparr>world_cache := MemoryCache_Set (world_clock w) k v (world_cache w)\<rparr>"

definition mem_stored :: "'r World \<Rightarrow> string \<Rightarrow> string option" where
  "mem_stored w k = map_option entry_value (gm_get (store (world_cache w)) k)"

definition mem_lasting :: "'r World \<Rightarrow> bool" where
  "mem_lasting w \<longleftrightarrow> cache_ttl (world_cache w) \<le> 0"

lemmas memory_cache_defs = mem_get_def mem_set_def mem_stored_def mem_lasting_def
  MemoryCache_Get_def MemoryCache_Set_def

interpretation memory: lasting_cache mem_get mem_set mem_stored mem_lasting
  by unfold_locales (auto simp: memory_cache_defs Let_def split: option.splits if_splits)


section \<open>Token sinks\<close>

text \<open>What accounting relies on: a report adds to the totals (input, output, calls), modulo \<open>2^64\<close>.\<close>

definition add_totals :: "int \<times> int \<times> int \<Rightarrow> int \<times> int \<times> int \<Rightarrow> int \<times> int \<times> int" where
  "add_totals a b = (case (a, b) of ((i, out, n), (i', out', n')) \<Rightarrow>
     (wrap64 (i + i'), wrap64 (out + out'), wrap64 (n + n')))"

locale usage_sink =
  fixes report :: "TokenUsage \<Rightarrow> 's \<Rightarrow> 's"
    and totals :: "'s \<Rightarrow> int \<times> int \<times> int"
  assumes totals_report: "totals (report u s) = add_totals (totals s) (InputTokens u, OutputTokens u, 1)"
    and totals_range: "totals s = add_totals (totals s) (0, 0, 0)"

fun usage_of :: "string \<times> string \<Rightarrow> reply \<Rightarrow> int \<times> int \<times> int" where
  "usage_of (sys, user) (Returned out err) = (approxTokens sys + approxTokens user, approxTokens out, 1)"
| "usage_of (sys, user) (Panicked p) = (0, 0, 0)"

fun add3 :: "int \<times> int \<times> int \<Rightarrow> int \<times> int \<times> int \<Rightarrow> int \<times> int \<times> int" where
  "add3 (a, b, c) (d, e, f) = (a + d, b + e, c + f)"

fun sum_usage :: "(string \<times> string) list \<Rightarrow> reply list \<Rightarrow> int \<times> int \<times> int" where
  "sum_usage (req # reqs) (r # rs) = add3 (usage_of req r) (sum_usage reqs rs)"
| "sum_usage reqs rs = (0, 0, 0)"

lemma add_totals_assoc: "add_totals (add_totals a b) c = add_totals a (add3 b c)"
  by (cases a; cases b; cases c) (simp add: add_totals_def wrap64_add_left add.assoc)

context usage_sink
begin

lemma run_accounting:
  assumes "\<And>sys user s. totals (snd (nxt sys user s)) = totals s"
    and "run_calls (WithTokenAccounting (Some report) nxt) reqs s = (rs, s')"
  shows "totals s' = add_totals (totals s) (sum_usage reqs rs)"
  using assms(2)
proof (induction reqs arbitrary: s rs s')
  case Nil
  then show ?case using totals_range [of s] by auto
next
  case (Cons req reqs)
  obtain sys user where req: "req = (sys, user)" by (cases req)
  let ?f = "WithTokenAccounting (Some report) nxt"
  obtain r1 s1 where one: "?f sys user s = (r1, s1)" by (cases "?f sys user s")
  obtain rs1 s2 where rest: "run_calls ?f reqs s1 = (rs1, s2)" by (cases "run_calls ?f reqs s1")
  have "totals s1 = add_totals (totals s) (usage_of (sys, user) r1)"
    using one assms(1) [of sys user s] totals_range [of s]
    by (auto simp: WithTokenAccounting_def totals_report split: prod.splits reply.splits)
  with Cons.IH [OF rest] Cons.prems req one rest show ?case
    by (auto simp: add_totals_assoc)
qed

end

text \<open>The atomic sink beside any other state.\<close>

definition atomic_report :: "TokenUsage \<Rightarrow> AtomicTokenSink \<times> 'r \<Rightarrow> AtomicTokenSink \<times> 'r" where
  "atomic_report u s = (RecordCall u (fst s), snd s)"

definition atomic_totals :: "AtomicTokenSink \<times> 'r \<Rightarrow> int \<times> int \<times> int" where
  "atomic_totals s = add_totals (Snapshot (fst s)) (0, 0, 0)"

interpretation atomic_sink: usage_sink atomic_report atomic_totals
  by unfold_locales
    (simp_all add: atomic_report_def atomic_totals_def add_totals_assoc,
     simp add: add_totals_def Snapshot_def RecordCall_def wrap64_add_left)

lemma approxTokens_bounds: "4 * approxTokens s \<ge> int (length s) \<and> 4 * approxTokens s \<le> int (length s) + 3"
  by (cases s) (auto simp: approxTokens_def Let_def)

section \<open>The cache key\<close>

lemma hex_digit_inj: "a < 16 \<Longrightarrow> b < 16 \<Longrightarrow> hex_digit a = hex_digit b \<Longrightarrow> a = b"
proof -
  have "\<forall>a\<in>set [0..<16]. \<forall>b\<in>set [0..<16]. hex_digit a = hex_digit b \<longrightarrow> a = b" by code_simp
  then show "a < 16 \<Longrightarrow> b < 16 \<Longrightarrow> hex_digit a = hex_digit b \<Longrightarrow> a = b" by simp
qed

lemma of_char_less: "(of_char c :: nat) < 256"
  using nat_of_char_less_256 .

lemma hex_encode_inj: "hex_encode xs = hex_encode ys \<Longrightarrow> xs = ys"
proof (induction xs arbitrary: ys)
  case Nil
  then show ?case by (cases ys) (auto simp: hex_encode_def)
next
  case (Cons x xs)
  then obtain y ys' where ys: "ys = y # ys'" by (cases ys) (auto simp: hex_encode_def)
  with Cons.prems have "hex_encode xs = hex_encode ys'"
    and digits: "hex_digit (of_char x div 16) = hex_digit (of_char y div 16)"
      "hex_digit (of_char x mod 16) = hex_digit (of_char y mod 16)"
    by (simp_all add: hex_encode_def)
  have "(of_char x :: nat) div 16 < 16" "(of_char y :: nat) div 16 < 16"
    by (rule less_mult_imp_div_less, simp)+
  then have "(of_char x :: nat) div 16 = of_char y div 16"
    using digits(1) by (rule hex_digit_inj)
  moreover have "(of_char x :: nat) mod 16 = of_char y mod 16"
    using digits(2) by (intro hex_digit_inj) simp_all
  ultimately have "(of_char x :: nat) = of_char y" by (metis div_mult_mod_eq)
  with Cons.IH [of ys'] \<open>hex_encode xs = hex_encode ys'\<close> ys show ?case by simp
qed

lemma separator_inj:
  "c \<notin> set s1 \<Longrightarrow> c \<notin> set s2 \<Longrightarrow> s1 @ [c] @ u1 = s2 @ [c] @ u2 \<Longrightarrow> s1 = s2 \<and> u1 = u2"
proof (induction s1 arbitrary: s2)
  case Nil
  then show ?case by (cases s2) auto
next
  case (Cons a s1)
  then show ?case by (cases s2) auto
qed

lemma cacheKey_eq_iff:
  assumes "inj_on sha X" "s1 @ [CHR 0x00] @ u1 \<in> X" "s2 @ [CHR 0x00] @ u2 \<in> X"
  shows "cacheKey sha s1 u1 = cacheKey sha s2 u2 \<longleftrightarrow> s1 @ [CHR 0x00] @ u1 = s2 @ [CHR 0x00] @ u2"
  using assms by (auto simp: cacheKey_def dest!: hex_encode_inj dest: inj_onD)

section \<open>The scripted client and trimming\<close>

definition scripted_reply :: "ScriptedLLM \<Rightarrow> nat \<Rightarrow> reply" where
  "scripted_reply s i =
     (let n = length (Responses s)
      in if n = 0 then Returned [] (Some NoResponses)
         else if Cycle s then Returned (Responses s ! (i mod n)) None
         else if i < n then Returned (Responses s ! i) None
         else Returned [] (Some (ScriptExhausted n)))"

lemma scripted_step:
  assumes "idx s \<le> length (Responses s)"
  shows "\<exists>s'. scripted_complete sys user s = (scripted_reply s (idx s), s') \<and>
    Responses s' = Responses s \<and> Cycle s' = Cycle s \<and> idx s' \<le> length (Responses s) \<and>
    calls s' = calls s @ [\<lparr>CallSystem = sys, CallUser = user\<rparr>] \<and>
    (\<forall>i. scripted_reply s (idx s' + i) = scripted_reply s (Suc (idx s) + i))"
proof (cases "Responses s = []")
  case True
  then show ?thesis using assms by (simp add: scripted_complete_def scripted_reply_def)
next
  case False
  show ?thesis
  proof (cases "idx s < length (Responses s)")
    case True
    with False show ?thesis by (auto simp: scripted_complete_def scripted_reply_def Let_def)
  next
    case end_reached: False
    with assms have "idx s = length (Responses s)" by simp
    moreover have "Suc (n + i) mod n = Suc i mod n" for n i :: nat
      by (metis add_Suc_right mod_add_self1)
    ultimately show ?thesis using False
      by (cases "Cycle s") (auto simp: scripted_complete_def scripted_reply_def Let_def Suc_le_eq)
  qed
qed


lemma scripted_run:
  assumes "idx s \<le> length (Responses s)" "run_calls scripted_complete reqs s = (rs, s')"
  shows "rs = map (\<lambda>i. scripted_reply s (idx s + i)) [0..<length reqs] \<and>
    calls s' = calls s @ map (\<lambda>(sys, user). \<lparr>CallSystem = sys, CallUser = user\<rparr>) reqs"
  using assms
proof (induction reqs arbitrary: s rs s')
  case Nil
  then show ?case by simp
next
  case (Cons req reqs)
  obtain sys user where req: "req = (sys, user)" by (cases req)
  obtain s1 where one: "scripted_complete sys user s = (scripted_reply s (idx s), s1)"
    "Responses s1 = Responses s" "Cycle s1 = Cycle s" "idx s1 \<le> length (Responses s)"
    "calls s1 = calls s @ [\<lparr>CallSystem = sys, CallUser = user\<rparr>]"
    "\<forall>i. scripted_reply s (idx s1 + i) = scripted_reply s (Suc (idx s) + i)"
    using scripted_step [OF Cons.prems(1)] by blast
  obtain rs1 s2 where rest: "run_calls scripted_complete reqs s1 = (rs1, s2)"
    by (cases "run_calls scripted_complete reqs s1")
  have "scripted_reply s1 = scripted_reply s" using one(2,3) by (intro ext) (simp add: scripted_reply_def Let_def)
  with Cons.IH [OF _ rest] one have
    IH: "rs1 = map (\<lambda>i. scripted_reply s (Suc (idx s) + i)) [0..<length reqs]"
      "calls s2 = calls s1 @ map (\<lambda>(sys, user). \<lparr>CallSystem = sys, CallUser = user\<rparr>) reqs"
    by auto
  have "map (\<lambda>i. scripted_reply s (idx s + i)) [0..<Suc (length reqs)] =
      scripted_reply s (idx s) # map (\<lambda>i. scripted_reply s (Suc (idx s) + i)) [0..<length reqs]"
    by (simp only: map_upt_Suc) simp
  with IH one req rest Cons.prems(2) show ?case by simp
qed

section \<open>Properties\<close>

text \<open>
  C5: where the context stays alive and the delays fit (at least 2 nanoseconds, no overflow),
  \<open>WithRetry\<close> calls the inner function until the first reply that is not an error and returns that
  reply, having made no further call; when all attempts fail it has made exactly that many calls
  and returns the last error with the number of attempts.
\<close>

theorem WithRetry_correct:
  assumes "1 \<le> attempts" "delays_ok attempts initial" "\<And>s d. wait s d = None"
  shows "(\<forall>n<nat attempts. (\<forall>j<n. failed (nth_reply nxt sys user s j)) \<longrightarrow>
      \<not> failed (nth_reply nxt sys user s n) \<longrightarrow>
      WithRetry rand63 wait attempts initial nxt sys user s =
        (nth_reply nxt sys user s n, after_calls nxt sys user (Suc n) s)) \<and>
    ((\<forall>j<nat attempts. failed (nth_reply nxt sys user s j)) \<longrightarrow>
      WithRetry rand63 wait attempts initial nxt sys user s =
        (Returned [] (Some (AfterAttempts attempts
           (the (error_of (nth_reply nxt sys user s (nat attempts - 1)))))),
         after_calls nxt sys user (nat attempts) s))"
proof -
  obtain m where m: "nat attempts = Suc m" using assms(1) by (cases "nat attempts") auto
  show ?thesis
    unfolding WithRetry_spec [OF assms] m
    using retry_spec_success [of _ "Suc m" nxt sys user s attempts]
      retry_spec_exhausted [of m nxt sys user s attempts] by (simp del: retry_spec.simps after_calls.simps)
qed

definition flaky :: "nat CompleteFunc" where
  "flaky sys user n = (if n < 2 then (Returned [] (Some (ProviderError ''busy'')), Suc n)
     else (Returned ''ok'' None, Suc n))"

theorem WithRetry_correct_witness:
  "WithRetry (\<lambda>s n. n - 1) (\<lambda>s d. None) 3 200000000 flaky ''s'' ''u'' 0 = (Returned ''ok'' None, 3)"
proof -
  have "delays_ok 3 200000000" by (simp add: delays_ok_def)
  from WithRetry_correct [OF _ this, of "\<lambda>s d. None" flaky "''s''" "''u''" 0 "\<lambda>s n. n - 1"]
  have "WithRetry (\<lambda>s n. n - 1) (\<lambda>s d. None) 3 200000000 flaky ''s'' ''u'' 0 =
      (nth_reply flaky ''s'' ''u'' 0 2, after_calls flaky ''s'' ''u'' (Suc 2) 0)"
    by (simp add: nth_reply_def flaky_def less_Suc_eq numeral_2_eq_2 numeral_3_eq_3)
  then show ?thesis by (simp add: nth_reply_def flaky_def numeral_2_eq_2 numeral_3_eq_3)
qed

text \<open>
  With an initial delay of one nanosecond and more than one attempt, \<open>WithRetry\<close> does not retry:
  the first error of the inner function makes the jitter call panic.
\<close>

theorem WithRetry_short_delay_panics:
  assumes "2 \<le> attempts" "nxt sys user s = (Returned out (Some e), s1)"
  shows "WithRetry rand63 wait attempts 1 nxt sys user s = (Panicked ''invalid argument to Int63n'', s1)"
  using assms by (simp add: WithRetry_def retry_loop.simps [of _ _ _ _ _ _ 0] go_div_def)

theorem WithRetry_short_delay_panics_witness:
  "WithRetry (\<lambda>s n. 0) (\<lambda>s d. None) 3 1 flaky ''s'' ''u'' 0 = (Panicked ''invalid argument to Int63n'', 1)"
  by (rule WithRetry_short_delay_panics) (auto simp: flaky_def)

lemma keys_distinct_prompts:
  assumes "\<forall>(sys, user)\<in>set reqs. CHR 0x00 \<notin> set sys"
    and "inj_on sha ((\<lambda>(sys, user). sys @ [CHR 0x00] @ user) ` set reqs)"
  shows "keys_distinct sha (set reqs)"
  unfolding keys_distinct_def
proof (rule inj_onI, clarify)
  fix s1 u1 s2 u2
  assume P: "(s1, u1) \<in> set reqs" "(s2, u2) \<in> set reqs"
    and eq: "cacheKey sha s1 u1 = cacheKey sha s2 u2"
  have "s1 @ [CHR 0x00] @ u1 = s2 @ [CHR 0x00] @ u2"
    using cacheKey_eq_iff [OF assms(2)] P eq by force
  moreover have "CHR 0x00 \<notin> set s1" "CHR 0x00 \<notin> set s2" using assms(1) P by auto
  ultimately show "s1 = s2 \<and> u1 = u2" by (intro separator_inj)
qed

text \<open>
  C6: caching changes no answer. Over any conversation that starts with an empty in-memory cache, with
  any time to live and any passing of time, every success \<open>WithCache\<close> returns is the answer the inner
  function gives to those prompts. It needs that the hash does not collide on the conversation's
  prompts and that no system prompt holds a zero byte.
\<close>

theorem WithCache_transparent:
  assumes "answers mem_stored f nxt" "\<forall>(sys, user)\<in>set reqs. CHR 0x00 \<notin> set sys"
    and "inj_on sha ((\<lambda>(sys, user). sys @ [CHR 0x00] @ user) ` set reqs)"
    and "run_calls (WithCache sha mem_get mem_set nxt) reqs (w\<lparr>world_cache := NewMemoryCache ttl\<rparr>) = (rs, w')"
  shows "list_all2 (reply_agrees f) reqs rs"
proof (rule memory.WithCache_run [OF _ assms(1) _ order_refl assms(4)])
  show "coherent mem_stored sha (set reqs) f (w\<lparr>world_cache := NewMemoryCache ttl\<rparr>)"
    by (simp add: coherent_def mem_stored_def NewMemoryCache_def)
  show "keys_distinct sha (set reqs)" by (rule keys_distinct_prompts [OF assms(2,3)])
qed

definition upper_llm :: "unit World CompleteFunc" where
  "upper_llm sys user w = (Returned (user @ ''!'') None, w\<lparr>world_clock := world_clock w + 7\<rparr>)"

definition fresh_world :: "unit World" where
  "fresh_world = \<lparr>world_clock = 0, world_cache = NewMemoryCache 10, world_rest = ()\<rparr>"

theorem WithCache_transparent_witness:
  "list_all2 (reply_agrees (\<lambda>sys user. user @ ''!'')) [(''s'', ''a''), (''s'', ''b''), (''s'', ''a'')]
     (fst (run_calls (WithCache (\<lambda>x. x) mem_get mem_set upper_llm)
        [(''s'', ''a''), (''s'', ''b''), (''s'', ''a'')] fresh_world))"
proof -
  have "answers mem_stored (\<lambda>sys user. user @ ''!'') upper_llm"
    by (auto simp: answers_def upper_llm_def mem_stored_def)
  from WithCache_transparent [OF this, where reqs = "[(''s'', ''a''), (''s'', ''b''), (''s'', ''a'')]" and sha = "\<lambda>x. x"
    and w = fresh_world and ttl = 10, OF _ _ prod.collapse [symmetric]]
  show ?thesis by (simp add: fresh_world_def inj_on_def)
qed

text \<open>
  With a cache that does not expire, a success is cached for good: repeating the prompts returns
  the same text, calls no inner function and leaves the state as it is.
\<close>

theorem WithCache_hit:
  assumes "cache_ttl (world_cache w) \<le> 0"
    and "\<And>sys user w. cache_ttl (world_cache w) \<le> 0 \<Longrightarrow> cache_ttl (world_cache (snd (nxt sys user w))) \<le> 0"
    and "WithCache sha mem_get mem_set nxt sys user w = (Returned out None, w')"
  shows "WithCache sha mem_get mem_set nxt' sys user w' = (Returned out None, w')"
  using memory.WithCache_repeat [of w nxt sha sys user out w' nxt'] assms by (simp add: mem_lasting_def)

theorem WithCache_hit_witness:
  "\<exists>w'. WithCache (\<lambda>x. x) mem_get mem_set upper_llm ''s'' ''a'' (fresh_world\<lparr>world_cache := NewMemoryCache 0\<rparr>)
       = (Returned ''a!'' None, w') \<and>
     WithCache (\<lambda>x. x) mem_get mem_set (\<lambda>sys user w. (Panicked ''called'', w)) ''s'' ''a'' w' = (Returned ''a!'' None, w')"
proof -
  let ?w = "fresh_world\<lparr>world_cache := NewMemoryCache 0\<rparr>"
  obtain w' where r: "WithCache (\<lambda>x. x) mem_get mem_set upper_llm ''s'' ''a'' ?w = (Returned ''a!'' None, w')"
    by (simp add: WithCache_def upper_llm_def mem_get_def MemoryCache_Get_def NewMemoryCache_def)
  then show ?thesis
    using WithCache_hit [OF _ _ r] by (auto simp: NewMemoryCache_def upper_llm_def)
qed

text \<open>
  Token accounting is complete and invisible: over any conversation the replies are those of the
  inner function, and the atomic sink holds, modulo \<open>2^64\<close>, the sum of the estimates of every call
  that returned, failed calls included, and their number.
\<close>

theorem WithTokenAccounting_totals:
  assumes "\<And>sys user s. fst (snd (nxt sys user s)) = fst s"
    and "run_calls (WithTokenAccounting (Some atomic_report) nxt) reqs s = (rs, s')"
  shows "atomic_totals s' = add_totals (atomic_totals s) (sum_usage reqs rs)"
  by (rule atomic_sink.run_accounting [OF _ assms(2)]) (simp add: atomic_totals_def assms(1))

theorem WithTokenAccounting_totals_witness:
  "atomic_totals (snd (run_calls (WithTokenAccounting (Some atomic_report) (\<lambda>sys user s. (Returned ''abcde'' None, s)))
     [(''s'', ''user''), (''s'', [])] (\<lparr>sink_input = 0, sink_output = 0, sink_calls = 0\<rparr>, ()))) = (3, 4, 2)"
proof -
  let ?nxt = "\<lambda>sys user (s::AtomicTokenSink \<times> unit). (Returned ''abcde'' None, s)"
  let ?reqs = "[(''s'', ''user''), (''s'', [])]"
  let ?s = "(\<lparr>sink_input = 0, sink_output = 0, sink_calls = 0\<rparr>, ())"
  obtain rs s' where r: "run_calls (WithTokenAccounting (Some atomic_report) ?nxt) ?reqs ?s = (rs, s')"
    by (cases "run_calls (WithTokenAccounting (Some atomic_report) ?nxt) ?reqs ?s")
  then have "rs = [Returned ''abcde'' None, Returned ''abcde'' None]"
    by (auto simp: WithTokenAccounting_def)
  with WithTokenAccounting_totals [OF _ r] r show ?thesis
    by (simp add: approxTokens_def atomic_totals_def add_totals_def Snapshot_def wrap64_def)
qed

text \<open>
  The scripted client answers call \<open>i\<close> of any conversation with response \<open>i\<close>, cycling through the
  responses when told to and failing past the last one otherwise, and records every call in order.
\<close>

theorem scripted_conversation:
  assumes "idx s = 0" "calls s = []" "run_calls scripted_complete reqs s = (rs, s')"
  shows "rs = map (scripted_reply s) [0..<length reqs] \<and>
    calls s' = map (\<lambda>(sys, user). \<lparr>CallSystem = sys, CallUser = user\<rparr>) reqs"
  using scripted_run [OF _ assms(3)] assms(1,2) by simp

theorem scripted_conversation_witness:
  "fst (run_calls scripted_complete [(''s'', ''a''), (''s'', ''b''), (''s'', ''c'')]
     \<lparr>Responses = [''x'', ''y''], Cycle = True, calls = [], idx = 0\<rparr>) =
   [Returned ''x'' None, Returned ''y'' None, Returned ''x'' None]"
proof -
  let ?s = "\<lparr>Responses = [''x'', ''y''], Cycle = True, calls = [], idx = 0\<rparr>"
  obtain rs s' where r: "run_calls scripted_complete [(''s'', ''a''), (''s'', ''b''), (''s'', ''c'')] ?s = (rs, s')"
    by (cases "run_calls scripted_complete [(''s'', ''a''), (''s'', ''b''), (''s'', ''c'')] ?s")
  from scripted_conversation [OF _ _ r] r show ?thesis
    by (simp add: scripted_reply_def upt_rec numeral_2_eq_2)
qed

end
