(* ===== verification/Events.thy ===== *)
theory Events
  imports Go_Strings
begin

text \<open>
  Package agent, files \<^verbatim>\<open>events.go\<close> and the emitter of \<^verbatim>\<open>broker.go\<close>: the event types, their
  constructors, and the stamping of an event with a workflow ID.

  Payloads of Go type \<open>any\<close> are values of the type parameter. A timestamp is \<open>None\<close> for Go's zero
  time; \<open>now\<close> is the clock reading of a constructor. \<open>ForeignEvent\<close> stands for an implementation of
  the Event interface outside the package: its kind, workflow ID and timestamp.
\<close>

section \<open>Data\<close>

record eventBase =
  WID :: string
  TS :: "int option"

datatype 'a event =
    WorkflowStarted eventBase string 'a
  | WorkflowCompleted eventBase 'a int
  | WorkflowFailed eventBase string int
  | NodeStarted eventBase string string
  | NodeCompleted eventBase string string 'a int
  | NodeFailed eventBase string string string int
  | ActivityStarted eventBase string string
  | ActivityCompleted eventBase string string string int
  | TokenChunkEvent eventBase string int string bool
  | ToolCalled eventBase string "(string \<times> 'a) list" int
  | ToolCompleted eventBase string int string string int
  | TokenUsageEvent eventBase string int int
  | ForeignEvent string string "int option"

fun event_kind :: "'a event \<Rightarrow> string" where
  "event_kind (WorkflowStarted b t i) = ''workflow.started''"
| "event_kind (WorkflowCompleted b p d) = ''workflow.completed''"
| "event_kind (WorkflowFailed b e d) = ''workflow.failed''"
| "event_kind (NodeStarted b n l) = ''node.started''"
| "event_kind (NodeCompleted b n l p d) = ''node.completed''"
| "event_kind (NodeFailed b n l e d) = ''node.failed''"
| "event_kind (ActivityStarted b a n) = ''activity.started''"
| "event_kind (ActivityCompleted b a n e d) = ''activity.completed''"
| "event_kind (TokenChunkEvent b c i t f) = ''llm.token''"
| "event_kind (ToolCalled b t a s) = ''tool.called''"
| "event_kind (ToolCompleted b t s r e d) = ''tool.completed''"
| "event_kind (TokenUsageEvent b c i p) = ''llm.usage''"
| "event_kind (ForeignEvent k w t) = k"

fun event_base :: "'a event \<Rightarrow> eventBase" where
  "event_base (WorkflowStarted b t i) = b"
| "event_base (WorkflowCompleted b p d) = b"
| "event_base (WorkflowFailed b e d) = b"
| "event_base (NodeStarted b n l) = b"
| "event_base (NodeCompleted b n l p d) = b"
| "event_base (NodeFailed b n l e d) = b"
| "event_base (ActivityStarted b a n) = b"
| "event_base (ActivityCompleted b a n e d) = b"
| "event_base (TokenChunkEvent b c i t f) = b"
| "event_base (ToolCalled b t a s) = b"
| "event_base (ToolCompleted b t s r e d) = b"
| "event_base (TokenUsageEvent b c i p) = b"
| "event_base (ForeignEvent k w t) = \<lparr>WID = w, TS = t\<rparr>"

definition event_workflow :: "'a event \<Rightarrow> string" where
  "event_workflow e = WID (event_base e)"

definition event_timestamp :: "int \<Rightarrow> 'a event \<Rightarrow> int" where
  "event_timestamp now e = (case TS (event_base e) of None \<Rightarrow> now | Some t \<Rightarrow> t)"

section \<open>Constructors\<close>

definition milliseconds :: "int \<Rightarrow> int" where
  "milliseconds d = go_div d 1000000"

definition error_message :: "string option \<Rightarrow> string" where
  "error_message err = (let msg = [] in case err of None \<Rightarrow> msg | Some e \<Rightarrow> e)"

definition stamp :: "int \<Rightarrow> string \<Rightarrow> eventBase" where
  "stamp now wid = \<lparr>WID = wid, TS = Some now\<rparr>"

definition NewWorkflowStarted :: "int \<Rightarrow> string \<Rightarrow> string \<Rightarrow> 'a \<Rightarrow> 'a event" where
  "NewWorkflowStarted now wid workflowType inp = WorkflowStarted (stamp now wid) workflowType inp"

definition NewWorkflowCompleted :: "int \<Rightarrow> string \<Rightarrow> 'a \<Rightarrow> int \<Rightarrow> 'a event" where
  "NewWorkflowCompleted now wid out duration = WorkflowCompleted (stamp now wid) out (milliseconds duration)"

definition NewWorkflowFailed :: "int \<Rightarrow> string \<Rightarrow> string option \<Rightarrow> int \<Rightarrow> 'a event" where
  "NewWorkflowFailed now wid err duration =
     WorkflowFailed (stamp now wid) (error_message err) (milliseconds duration)"

definition NewNodeStarted :: "int \<Rightarrow> string \<Rightarrow> string \<Rightarrow> string \<Rightarrow> 'a event" where
  "NewNodeStarted now wid nodeID label = NodeStarted (stamp now wid) nodeID label"

definition NewNodeCompleted :: "int \<Rightarrow> string \<Rightarrow> string \<Rightarrow> string \<Rightarrow> 'a \<Rightarrow> int \<Rightarrow> 'a event" where
  "NewNodeCompleted now wid nodeID label out duration =
     NodeCompleted (stamp now wid) nodeID label out (milliseconds duration)"

definition NewNodeFailed :: "int \<Rightarrow> string \<Rightarrow> string \<Rightarrow> string \<Rightarrow> string option \<Rightarrow> int \<Rightarrow> 'a event" where
  "NewNodeFailed now wid nodeID label err duration =
     NodeFailed (stamp now wid) nodeID label (error_message err) (milliseconds duration)"

definition NewActivityStarted :: "int \<Rightarrow> string \<Rightarrow> string \<Rightarrow> string \<Rightarrow> 'a event" where
  "NewActivityStarted now wid activityName nodeID = ActivityStarted (stamp now wid) activityName nodeID"

definition NewActivityCompleted :: "int \<Rightarrow> string \<Rightarrow> string \<Rightarrow> string \<Rightarrow> string option \<Rightarrow> int \<Rightarrow> 'a event" where
  "NewActivityCompleted now wid activityName nodeID err duration =
     ActivityCompleted (stamp now wid) activityName nodeID (error_message err) (milliseconds duration)"

definition NewToolCalled :: "int \<Rightarrow> string \<Rightarrow> string \<Rightarrow> (string \<times> 'a) list \<Rightarrow> int \<Rightarrow> 'a event" where
  "NewToolCalled now wid toolName args step = ToolCalled (stamp now wid) toolName args step"

definition NewToolCompleted :: "int \<Rightarrow> string \<Rightarrow> string \<Rightarrow> int \<Rightarrow> string \<Rightarrow> string option \<Rightarrow> int \<Rightarrow> 'a event" where
  "NewToolCompleted now wid toolName step result err duration =
     ToolCompleted (stamp now wid) toolName step result (error_message err) (milliseconds duration)"

section \<open>Stamping\<close>

fun withWorkflowID :: "'a event \<Rightarrow> string \<Rightarrow> 'a event" where
  "withWorkflowID (WorkflowStarted b t i) wid = WorkflowStarted (b\<lparr>WID := wid\<rparr>) t i"
| "withWorkflowID (WorkflowCompleted b p d) wid = WorkflowCompleted (b\<lparr>WID := wid\<rparr>) p d"
| "withWorkflowID (WorkflowFailed b e d) wid = WorkflowFailed (b\<lparr>WID := wid\<rparr>) e d"
| "withWorkflowID (NodeStarted b n l) wid = NodeStarted (b\<lparr>WID := wid\<rparr>) n l"
| "withWorkflowID (NodeCompleted b n l p d) wid = NodeCompleted (b\<lparr>WID := wid\<rparr>) n l p d"
| "withWorkflowID (NodeFailed b n l e d) wid = NodeFailed (b\<lparr>WID := wid\<rparr>) n l e d"
| "withWorkflowID (ActivityStarted b a n) wid = ActivityStarted (b\<lparr>WID := wid\<rparr>) a n"
| "withWorkflowID (ActivityCompleted b a n e d) wid = ActivityCompleted (b\<lparr>WID := wid\<rparr>) a n e d"
| "withWorkflowID (TokenChunkEvent b c i t f) wid = TokenChunkEvent (b\<lparr>WID := wid\<rparr>) c i t f"
| "withWorkflowID (ToolCalled b t a s) wid = ToolCalled (b\<lparr>WID := wid\<rparr>) t a s"
| "withWorkflowID (ToolCompleted b t s r e d) wid = ToolCompleted (b\<lparr>WID := wid\<rparr>) t s r e d"
| "withWorkflowID (TokenUsageEvent b c i p) wid = TokenUsageEvent (b\<lparr>WID := wid\<rparr>) c i p"
| "withWorkflowID (ForeignEvent k w t) wid = ForeignEvent k w t"

definition foreign :: "'a event \<Rightarrow> bool" where
  "foreign e \<longleftrightarrow> (\<exists>k w t. e = ForeignEvent k w t)"

lemma withWorkflowID_base:
  "\<not> foreign e \<Longrightarrow> event_base (withWorkflowID e wid) = (event_base e)\<lparr>WID := wid\<rparr>"
  by (cases e) (auto simp: foreign_def)

lemma withWorkflowID_kind [simp]: "event_kind (withWorkflowID e wid) = event_kind e"
  by (cases e) auto

lemma withWorkflowID_workflow:
  "event_workflow (withWorkflowID e wid) = (if foreign e then event_workflow e else wid)"
  by (cases e) (auto simp: foreign_def event_workflow_def)

lemma withWorkflowID_again [simp]: "withWorkflowID (withWorkflowID e v) w = withWorkflowID e w"
  by (cases e) auto

end
