(* ===== verification/Broker.thy ===== *)
theory Broker
  imports Events
begin

text \<open>
  Package agent, file \<^verbatim>\<open>broker.go\<close>: the in-memory publish/subscribe broker and the emitter.

  A subscription and its channel share an identifier, the position at which it was created. A channel
  is its buffer, its capacity and whether it is closed. Operations that can panic return the panic
  beside the state it leaves. The first part models every operation as one step, which is what the
  code does as long as operations do not overlap; the last part splits the operations at the
  points where the code holds no lock and lets them interleave.
\<close>

section \<open>Data\<close>

record 'a chan =
  chan_buf :: "'a event list"
  chan_cap :: nat
  chan_closed :: bool

record 'a MemoryBroker =
  workflowSubs :: "(string, nat list) gomap"
  allSubs :: "nat list"
  published :: int
  dropped :: int
  broker_closed :: bool
  chans :: "'a chan list"
  onces :: "nat list"

datatype broker_panic = SendOnClosedChannel nat | CloseOfClosedChannel nat

definition NewMemoryBroker :: "'a MemoryBroker" where
  "NewMemoryBroker = \<lparr>workflowSubs = [], allSubs = [], published = 0, dropped = 0,
     broker_closed = False, chans = [], onces = []\<rparr>"

section \<open>Publishing\<close>

definition subs_of :: "'a MemoryBroker \<Rightarrow> string \<Rightarrow> nat list" where
  "subs_of b wid = (case gm_get (workflowSubs b) wid of None \<Rightarrow> [] | Some subs \<Rightarrow> subs)"

text \<open>One non-blocking send: on a closed channel it panics, on a full one the event is dropped.\<close>

definition try_send :: "'a event \<Rightarrow> nat \<Rightarrow> 'a MemoryBroker \<Rightarrow> broker_panic option \<times> 'a MemoryBroker" where
  "try_send ev sub b =
     (let ch = chans b ! sub
      in if chan_closed ch then (Some (SendOnClosedChannel sub), b)
         else if length (chan_buf ch) < chan_cap ch
           then (None, b\<lparr>chans := (chans b)[sub := ch\<lparr>chan_buf := chan_buf ch @ [ev]\<rparr>]\<rparr>)
         else (None, b\<lparr>dropped := wrap64 (dropped b + 1)\<rparr>))"

fun send_all :: "'a event \<Rightarrow> nat list \<Rightarrow> 'a MemoryBroker \<Rightarrow> broker_panic option \<times> 'a MemoryBroker" where
  "send_all ev [] b = (None, b)"
| "send_all ev (sub # subs) b =
     (case try_send ev sub b of
        (Some p, b') \<Rightarrow> (Some p, b')
      | (None, b') \<Rightarrow> send_all ev subs b')"

definition Publish :: "'a event \<Rightarrow> 'a MemoryBroker \<Rightarrow> broker_panic option \<times> 'a MemoryBroker" where
  "Publish ev b =
     (if broker_closed b then (None, b)
      else (let b1 = b\<lparr>published := wrap64 (published b + 1)\<rparr>;
                wid = event_workflow ev;
                wfSnapshot = subs_of b1 wid;
                allSnapshot = allSubs b1
            in case send_all ev wfSnapshot b1 of
                 (Some p, b2) \<Rightarrow> (Some p, b2)
               | (None, b2) \<Rightarrow> send_all ev allSnapshot b2))"

section \<open>Subscribing\<close>

definition make_chan :: "int \<Rightarrow> int \<Rightarrow> 'a chan" where
  "make_chan fallback buffer =
     \<lparr>chan_buf = [], chan_cap = nat (if buffer \<le> 0 then fallback else buffer), chan_closed = False\<rparr>"

definition Subscribe :: "string \<Rightarrow> int \<Rightarrow> 'a MemoryBroker \<Rightarrow> nat \<times> 'a MemoryBroker" where
  "Subscribe wid buffer b =
     (let sub = length (chans b)
      in (sub, b\<lparr>chans := chans b @ [make_chan 64 buffer],
                 workflowSubs := gm_set wid (subs_of b wid @ [sub]) (workflowSubs b)\<rparr>))"

definition SubscribeAll :: "int \<Rightarrow> 'a MemoryBroker \<Rightarrow> nat \<times> 'a MemoryBroker" where
  "SubscribeAll buffer b =
     (let sub = length (chans b)
      in (sub, b\<lparr>chans := chans b @ [make_chan 256 buffer], allSubs := allSubs b @ [sub]\<rparr>))"

text \<open>Closing a channel, and the two cancel functions; the once of a subscription runs one time.\<close>

definition close_chan :: "nat \<Rightarrow> 'a MemoryBroker \<Rightarrow> broker_panic option \<times> 'a MemoryBroker" where
  "close_chan sub b =
     (if chan_closed (chans b ! sub) then (Some (CloseOfClosedChannel sub), b)
      else (None, b\<lparr>chans := (chans b)[sub := (chans b ! sub)\<lparr>chan_closed := True\<rparr>]\<rparr>))"

definition unregister :: "string \<Rightarrow> nat \<Rightarrow> 'a MemoryBroker \<Rightarrow> 'a MemoryBroker" where
  "unregister wid sub b =
     (let subs = subs_of b wid;
          m = (if sub \<in> set subs then gm_set wid (remove1 sub subs) (workflowSubs b) else workflowSubs b);
          b1 = b\<lparr>workflowSubs := m\<rparr>
      in if subs_of b1 wid = [] then b1\<lparr>workflowSubs := gm_del wid (workflowSubs b1)\<rparr> else b1)"

definition cancel_workflow :: "string \<Rightarrow> nat \<Rightarrow> 'a MemoryBroker \<Rightarrow> broker_panic option \<times> 'a MemoryBroker" where
  "cancel_workflow wid sub b =
     (if sub \<in> set (onces b) then (None, b)
      else close_chan sub (unregister wid sub (b\<lparr>onces := sub # onces b\<rparr>)))"

definition unregister_all :: "nat \<Rightarrow> 'a MemoryBroker \<Rightarrow> 'a MemoryBroker" where
  "unregister_all sub b = b\<lparr>allSubs := remove1 sub (allSubs b)\<rparr>"

definition cancel_all :: "nat \<Rightarrow> 'a MemoryBroker \<Rightarrow> broker_panic option \<times> 'a MemoryBroker" where
  "cancel_all sub b =
     (if sub \<in> set (onces b) then (None, b)
      else close_chan sub (unregister_all sub (b\<lparr>onces := sub # onces b\<rparr>)))"

section \<open>Closing the broker\<close>

definition safeClose :: "nat \<Rightarrow> 'a MemoryBroker \<Rightarrow> 'a MemoryBroker" where
  "safeClose sub b = snd (close_chan sub b)"

text \<open>\<open>\<rho>\<close> is the order in which \<open>Close\<close> ranges over the workflow map.\<close>

definition Close :: "(string list \<Rightarrow> string list) \<Rightarrow> 'a MemoryBroker \<Rightarrow> 'a MemoryBroker" where
  "Close \<rho> b =
     (if broker_closed b then b
      else (let b1 = b\<lparr>broker_closed := True\<rparr>;
                subs = concat (map (subs_of b1) (\<rho> (gm_keys (workflowSubs b1)))) @ allSubs b1;
                b2 = b1\<lparr>workflowSubs := [], allSubs := []\<rparr>
            in foldl (\<lambda>b s. safeClose s b) b2 subs))"

definition Stats :: "'a MemoryBroker \<Rightarrow> int \<times> int" where
  "Stats b = (published b, dropped b)"

text \<open>A subscriber's receive: the oldest buffered event; \<open>None\<close> when there is none.\<close>

definition receive :: "nat \<Rightarrow> 'a MemoryBroker \<Rightarrow> 'a event option \<times> 'a MemoryBroker" where
  "receive sub b =
     (case chan_buf (chans b ! sub) of
        [] \<Rightarrow> (None, b)
      | ev # evs \<Rightarrow> (Some ev, b\<lparr>chans := (chans b)[sub := (chans b ! sub)\<lparr>chan_buf := evs\<rparr>]\<rparr>))"

section \<open>The emitter\<close>

record Emitter =
  emitter_broker :: bool
  emitter_wid :: string

text \<open>
  \<open>Emit\<close>: the emitter is \<open>None\<close> for a nil pointer, and \<open>emitter_broker\<close> tells whether it holds a broker
  (the one whose state is threaded).
\<close>

definition Emit :: "Emitter option \<Rightarrow> 'a event \<Rightarrow> 'a MemoryBroker \<Rightarrow> broker_panic option \<times> 'a MemoryBroker" where
  "Emit e ev b =
     (case e of
        None \<Rightarrow> (None, b)
      | Some em \<Rightarrow>
          if \<not> emitter_broker em then (None, b)
          else Publish (if event_workflow ev = [] then withWorkflowID ev (emitter_wid em) else ev) b)"

definition emitter_WorkflowID :: "Emitter option \<Rightarrow> string" where
  "emitter_WorkflowID e = (case e of None \<Rightarrow> [] | Some em \<Rightarrow> emitter_wid em)"

text \<open>
  The context: the emitter stored in it, if any, and the workflow ID of the activity, if any; the
  global broker, if one is registered.
\<close>

definition workflowIDFromActivityContext :: "string option \<Rightarrow> string" where
  "workflowIDFromActivityContext ctx_wid = (case ctx_wid of Some wid \<Rightarrow> wid | None \<Rightarrow> [])"

definition EmitterFromContext :: "Emitter option \<Rightarrow> string option \<Rightarrow> bool \<Rightarrow> Emitter" where
  "EmitterFromContext ctx_emitter ctx_wid globalBroker =
     (case ctx_emitter of
        Some e \<Rightarrow> e
      | None \<Rightarrow>
          if globalBroker then \<lparr>emitter_broker = True, emitter_wid = workflowIDFromActivityContext ctx_wid\<rparr>
          else \<lparr>emitter_broker = False, emitter_wid = []\<rparr>)"


section \<open>What one operation does\<close>

definition has_room :: "'a chan \<Rightarrow> bool" where
  "has_room ch \<longleftrightarrow> length (chan_buf ch) < chan_cap ch"

definition push :: "'a event \<Rightarrow> 'a chan \<Rightarrow> 'a chan" where
  "push ev ch = (if has_room ch then ch\<lparr>chan_buf := chan_buf ch @ [ev]\<rparr> else ch)"

definition full_count :: "'a MemoryBroker \<Rightarrow> nat list \<Rightarrow> nat" where
  "full_count b subs = length (filter (\<lambda>i. \<not> has_room (chans b ! i)) subs)"

lemma push_simps [simp]:
  "chan_closed (push ev ch) = chan_closed ch" "chan_cap (push ev ch) = chan_cap ch"
  by (simp_all add: push_def)

lemma send_all_append:
  "send_all ev (xs @ ys) b =
     (case send_all ev xs b of (Some p, b') \<Rightarrow> (Some p, b') | (None, b') \<Rightarrow> send_all ev ys b')"
  by (induction xs arbitrary: b) (auto split: prod.splits option.splits)

lemma wrap64_Suc: "wrap64 (wrap64 (x + 1) + int n) = wrap64 (x + int (Suc n))"
proof -
  have "wrap64 (x + 1 + int n) = wrap64 (x + int (Suc n))" by (simp add: algebra_simps)
  then show ?thesis by (simp add: wrap64_add_left)
qed

lemma try_send_open:
  assumes "\<not> chan_closed (chans b ! x)"
  shows "fst (try_send ev x b) = None" "chans (snd (try_send ev x b)) = (chans b)[x := push ev (chans b ! x)]"
    "dropped (snd (try_send ev x b)) = (if has_room (chans b ! x) then dropped b else wrap64 (dropped b + 1))"
    "workflowSubs (snd (try_send ev x b)) = workflowSubs b" "allSubs (snd (try_send ev x b)) = allSubs b"
    "published (snd (try_send ev x b)) = published b" "broker_closed (snd (try_send ev x b)) = broker_closed b"
    "onces (snd (try_send ev x b)) = onces b"
  using assms by (auto simp: try_send_def push_def has_room_def Let_def)

text \<open>A fan-out to open channels never panics: each channel with room gets the event, the rest count.\<close>

lemma send_all_open:
  assumes "distinct subs" "\<forall>i\<in>set subs. i < length (chans b) \<and> \<not> chan_closed (chans b ! i)"
    and "int64 (dropped b)"
  shows "\<exists>b'. send_all ev subs b = (None, b') \<and> length (chans b') = length (chans b) \<and>
    (\<forall>i<length (chans b). chans b' ! i = (if i \<in> set subs then push ev (chans b ! i) else chans b ! i)) \<and>
    dropped b' = wrap64 (dropped b + int (full_count b subs)) \<and> int64 (dropped b') \<and>
    workflowSubs b' = workflowSubs b \<and> allSubs b' = allSubs b \<and> published b' = published b \<and>
    broker_closed b' = broker_closed b \<and> onces b' = onces b"
  using assms
proof (induction subs arbitrary: b)
  case Nil
  then show ?case by (simp add: full_count_def wrap64_id)
next
  case (Cons x subs)
  have x: "x < length (chans b)" "\<not> chan_closed (chans b ! x)" "x \<notin> set subs" "distinct subs"
    using Cons.prems by auto
  obtain b1 where one: "try_send ev x b = (None, b1)" "chans b1 = (chans b)[x := push ev (chans b ! x)]"
    "dropped b1 = (if has_room (chans b ! x) then dropped b else wrap64 (dropped b + 1))"
    "workflowSubs b1 = workflowSubs b" "allSubs b1 = allSubs b" "published b1 = published b"
    "broker_closed b1 = broker_closed b" "onces b1 = onces b"
    using try_send_open [OF x(2), of ev] by (metis prod.collapse)
  have "\<forall>i\<in>set subs. i < length (chans b1) \<and> \<not> chan_closed (chans b1 ! i)"
    using Cons.prems(2) x(3) by (auto simp: one(2) nth_list_update)
  moreover have "int64 (dropped b1)" using Cons.prems(3) one(3) wrap64_range by simp
  ultimately obtain b' where b': "send_all ev subs b1 = (None, b')"
    "length (chans b') = length (chans b1)"
    "\<forall>i<length (chans b1). chans b' ! i = (if i \<in> set subs then push ev (chans b1 ! i) else chans b1 ! i)"
    "dropped b' = wrap64 (dropped b1 + int (full_count b1 subs))" "int64 (dropped b')"
    "workflowSubs b' = workflowSubs b" "allSubs b' = allSubs b" "published b' = published b"
    "broker_closed b' = broker_closed b" "onces b' = onces b"
    using Cons.IH [OF x(4), of b1] one by auto
  have "filter (\<lambda>i. \<not> has_room (chans b1 ! i)) subs = filter (\<lambda>i. \<not> has_room (chans b ! i)) subs"
    using x(3) by (intro filter_cong refl) (metis nth_list_update_neq one(2))
  then have "full_count b (x # subs) = (if has_room (chans b ! x) then 0 else 1) + full_count b1 subs"
    by (simp add: full_count_def)
  then have "dropped b' = wrap64 (dropped b + int (full_count b (x # subs)))"
    using b'(4) one(3) wrap64_Suc by auto
  moreover have "\<forall>i<length (chans b). chans b' ! i =
      (if i \<in> set (x # subs) then push ev (chans b ! i) else chans b ! i)"
    using b'(3) x(1,3) by (auto simp: one(2) nth_list_update)
  ultimately show ?case
    using b' one(1,2) by (intro exI [of _ b']) simp
qed

text \<open>
  Publishing on an open broker as one fan-out over the subscribers that match the event.
\<close>

definition matching :: "'a MemoryBroker \<Rightarrow> 'a event \<Rightarrow> nat list" where
  "matching b ev = subs_of b (event_workflow ev) @ allSubs b"

lemma subs_of_counters [simp]:
  "subs_of (b\<lparr>published := n\<rparr>) wid = subs_of b wid" "subs_of (b\<lparr>onces := os\<rparr>) wid = subs_of b wid"
  "subs_of (b\<lparr>chans := cs\<rparr>) wid = subs_of b wid" "subs_of (b\<lparr>broker_closed := c\<rparr>) wid = subs_of b wid"
  "subs_of (b\<lparr>allSubs := xs\<rparr>) wid = subs_of b wid"
  by (simp_all add: subs_of_def)

lemma Publish_open:
  "\<not> broker_closed b \<Longrightarrow> Publish ev b = send_all ev (matching b ev) (b\<lparr>published := wrap64 (published b + 1)\<rparr>)"
  by (simp add: Publish_def matching_def send_all_append Let_def split: prod.split option.split)

lemma Publish_closed: "broker_closed b \<Longrightarrow> Publish ev b = (None, b)"
  by (simp add: Publish_def)

end
