(* ===== verification/Broker_Runs.thy ===== *)
theory Broker_Runs
  imports Broker
begin

text \<open>
  Runs of the broker's operations, one after the other, with the history of every subscription:
  the events that matched it while it was registered, those its reader took, and those dropped. The
  invariant relates the history to the broker's state; the properties say when an operation can
  panic, what a subscriber gets, and what the counters count.
\<close>

section \<open>Sessions\<close>

record 'a session =
  broker :: "'a MemoryBroker"
  kinds :: "string option list"
  offered :: "nat \<Rightarrow> 'a event list"
  received :: "nat \<Rightarrow> 'a event list"
  drops :: "nat \<Rightarrow> nat"
  publishes :: nat

datatype 'a broker_op =
    OpPublish "'a event"
  | OpSubscribe string int
  | OpSubscribeAll int
  | OpCancel nat
  | OpReceive nat
  | OpClose

definition new_session :: "'a session" where
  "new_session = \<lparr>broker = NewMemoryBroker, kinds = [], offered = (\<lambda>_. []), received = (\<lambda>_. []),
     drops = (\<lambda>_. 0), publishes = 0\<rparr>"

text \<open>
  \<open>kinds\<close> remembers what each subscription is for: a workflow, or (\<open>None\<close>) everything. A cancel calls
  the function its subscription returned; there is none for an unknown number.
\<close>

fun exec_op :: "(string list \<Rightarrow> string list) \<Rightarrow> 'a broker_op \<Rightarrow> 'a session \<Rightarrow> broker_panic option \<times> 'a session" where
  "exec_op \<rho> (OpPublish ev) s =
     (let b = broker s; M = (if broker_closed b then [] else matching b ev)
      in case Publish ev b of (p, b') \<Rightarrow>
        (p, s\<lparr>broker := b', offered := (\<lambda>i. if i \<in> set M then offered s i @ [ev] else offered s i),
              drops := (\<lambda>i. if i \<in> set M \<and> \<not> has_room (chans b ! i) then Suc (drops s i) else drops s i),
              publishes := publishes s + (if broker_closed b then 0 else 1)\<rparr>))"
| "exec_op \<rho> (OpSubscribe wid buffer) s =
     (None, s\<lparr>broker := snd (Subscribe wid buffer (broker s)), kinds := kinds s @ [Some wid]\<rparr>)"
| "exec_op \<rho> (OpSubscribeAll buffer) s =
     (None, s\<lparr>broker := snd (SubscribeAll buffer (broker s)), kinds := kinds s @ [None]\<rparr>)"
| "exec_op \<rho> (OpCancel i) s =
     (if i < length (kinds s) then
        (case (case kinds s ! i of Some wid \<Rightarrow> cancel_workflow wid i (broker s) | None \<Rightarrow> cancel_all i (broker s)) of
           (p, b') \<Rightarrow> (p, s\<lparr>broker := b'\<rparr>))
      else (None, s))"
| "exec_op \<rho> (OpReceive i) s =
     (if i < length (kinds s) then
        (case receive i (broker s) of
           (None, b') \<Rightarrow> (None, s\<lparr>broker := b'\<rparr>)
         | (Some ev, b') \<Rightarrow>
             (None, s\<lparr>broker := b', received := (received s)(i := received s i @ [ev])\<rparr>))
      else (None, s))"
| "exec_op \<rho> OpClose s = (None, s\<lparr>broker := Close \<rho> (broker s)\<rparr>)"

fun run_ops :: "(string list \<Rightarrow> string list) \<Rightarrow> 'a broker_op list \<Rightarrow> 'a session \<Rightarrow> broker_panic option \<times> 'a session" where
  "run_ops \<rho> [] s = (None, s)"
| "run_ops \<rho> (op # ops) s =
     (case exec_op \<rho> op s of (Some p, s') \<Rightarrow> (Some p, s') | (None, s') \<Rightarrow> run_ops \<rho> ops s')"

section \<open>The invariant\<close>

fun wants :: "string option \<Rightarrow> 'a event \<Rightarrow> bool" where
  "wants None ev \<longleftrightarrow> True"
| "wants (Some wid) ev \<longleftrightarrow> event_workflow ev = wid"

definition open_subs :: "'a session \<Rightarrow> string option \<Rightarrow> nat set" where
  "open_subs s k = {i. i < length (kinds s) \<and> kinds s ! i = k \<and> \<not> chan_closed (chans (broker s) ! i)}"

definition registry_ok :: "'a session \<Rightarrow> bool" where
  "registry_ok s \<longleftrightarrow> length (chans (broker s)) = length (kinds s) \<and> gm_wf (workflowSubs (broker s)) \<and>
     (\<forall>wid. distinct (subs_of (broker s) wid) \<and> set (subs_of (broker s) wid) = open_subs s (Some wid)) \<and>
     distinct (allSubs (broker s)) \<and> set (allSubs (broker s)) = open_subs s None"

definition sub_ok :: "'a session \<Rightarrow> nat \<Rightarrow> bool" where
  "sub_ok s i \<longleftrightarrow> (let ch = chans (broker s) ! i in
     subseq (received s i @ chan_buf ch) (offered s i) \<and>
     length (offered s i) = length (received s i) + length (chan_buf ch) + drops s i \<and>
     (\<forall>ev\<in>set (offered s i). wants (kinds s ! i) ev) \<and>
     length (chan_buf ch) \<le> chan_cap ch \<and>
     (i \<in> set (onces (broker s)) \<longrightarrow> chan_closed ch) \<and>
     (chan_closed ch \<and> i \<notin> set (onces (broker s)) \<longrightarrow> broker_closed (broker s)))"

definition counters_ok :: "'a session \<Rightarrow> bool" where
  "counters_ok s \<longleftrightarrow> published (broker s) = wrap64 (int (publishes s)) \<and>
     dropped (broker s) = wrap64 (int (\<Sum>i<length (kinds s). drops s i))"

definition fresh_ok :: "'a session \<Rightarrow> bool" where
  "fresh_ok s \<longleftrightarrow> (\<forall>i\<ge>length (kinds s). offered s i = [] \<and> received s i = [] \<and> drops s i = 0 \<and>
     i \<notin> set (onces (broker s)))"

definition session_inv :: "'a session \<Rightarrow> bool" where
  "session_inv s \<longleftrightarrow> registry_ok s \<and> (\<forall>i<length (kinds s). sub_ok s i) \<and> counters_ok s \<and> fresh_ok s"

lemmas session_inv_defs = session_inv_def registry_ok_def sub_ok_def counters_ok_def fresh_ok_def
  open_subs_def Let_def

lemma session_inv_new: "session_inv new_session"
  by (simp add: session_inv_defs new_session_def NewMemoryBroker_def subs_of_def gm_wf_def wrap64_def)

lemma sum_indicator:
  fixes n :: nat
  assumes "distinct xs" "set xs \<subseteq> {..<n}"
  shows "(\<Sum>i<n. if i \<in> set xs \<and> P i then Suc (f i) else f i) = (\<Sum>i<n. f i) + length (filter P xs)"
proof -
  have count: "(\<Sum>i<n. if i \<in> A then 1 else (0::nat)) = card ({..<n} \<inter> A)" for A
    by (simp add: sum.If_cases)
  have "(\<Sum>i<n. if i \<in> set xs \<and> P i then Suc (f i) else f i) =
      (\<Sum>i<n. f i + (if i \<in> set (filter P xs) then 1 else 0))"
    by (intro sum.cong) auto
  also have "\<dots> = (\<Sum>i<n. f i) + card ({..<n} \<inter> set (filter P xs))"
    using count [of "set (filter P xs)"] by (simp add: sum.distrib)
  also have "{..<n} \<inter> set (filter P xs) = set (filter P xs)" using assms(2) by auto
  also have "card (set (filter P xs)) = length (filter P xs)"
    using assms(1) by (intro distinct_card) simp
  finally show ?thesis .
qed

section \<open>Publishing\<close>

lemma matching_open:
  assumes "registry_ok s"
  shows "distinct (matching (broker s) ev)"
    and "set (matching (broker s) ev) =
      {i. i < length (kinds s) \<and> wants (kinds s ! i) ev \<and> \<not> chan_closed (chans (broker s) ! i)}"
proof -
  show "distinct (matching (broker s) ev)"
    using assms by (auto simp: matching_def registry_ok_def open_subs_def)
  have "wants k ev \<longleftrightarrow> k = None \<or> k = Some (event_workflow ev)" for k
    by (cases k) auto
  then show "set (matching (broker s) ev) =
      {i. i < length (kinds s) \<and> wants (kinds s ! i) ev \<and> \<not> chan_closed (chans (broker s) ! i)}"
    using assms by (auto simp: matching_def registry_ok_def open_subs_def)
qed

lemma publish_broker:
  assumes "session_inv s" "\<not> broker_closed (broker s)"
  shows "\<exists>b'. Publish ev (broker s) = (None, b') \<and> length (chans b') = length (chans (broker s)) \<and>
    (\<forall>i<length (kinds s). chans b' ! i = (if i \<in> set (matching (broker s) ev)
       then push ev (chans (broker s) ! i) else chans (broker s) ! i)) \<and>
    dropped b' = wrap64 (dropped (broker s) + int (full_count (broker s) (matching (broker s) ev))) \<and>
    workflowSubs b' = workflowSubs (broker s) \<and> allSubs b' = allSubs (broker s) \<and>
    published b' = wrap64 (published (broker s) + 1) \<and> broker_closed b' = broker_closed (broker s) \<and>
    onces b' = onces (broker s)"
proof -
  let ?b = "(broker s)\<lparr>published := wrap64 (published (broker s) + 1)\<rparr>"
  have reg: "registry_ok s" using assms(1) by (simp add: session_inv_def)
  have "int64 (dropped (broker s))"
    using assms(1) wrap64_range by (simp add: session_inv_def counters_ok_def)
  then have "\<exists>b'. send_all ev (matching (broker s) ev) ?b = (None, b') \<and> length (chans b') = length (chans ?b) \<and>
    (\<forall>i<length (chans ?b). chans b' ! i =
       (if i \<in> set (matching (broker s) ev) then push ev (chans ?b ! i) else chans ?b ! i)) \<and>
    dropped b' = wrap64 (dropped ?b + int (full_count ?b (matching (broker s) ev))) \<and> int64 (dropped b') \<and>
    workflowSubs b' = workflowSubs ?b \<and> allSubs b' = allSubs ?b \<and> published b' = published ?b \<and>
    broker_closed b' = broker_closed ?b \<and> onces b' = onces ?b"
    using matching_open [OF reg, of ev] reg by (intro send_all_open) (auto simp: registry_ok_def)
  then show ?thesis
    using assms(2) reg by (auto simp: Publish_open registry_ok_def full_count_def)
qed

lemma exec_publish:
  assumes "session_inv s"
  shows "fst (exec_op \<rho> (OpPublish ev) s) = None \<and> session_inv (snd (exec_op \<rho> (OpPublish ev) s))"
proof (cases "broker_closed (broker s)")
  case True
  then have "exec_op \<rho> (OpPublish ev) s = (None, s)" by (simp add: Publish_closed Let_def)
  with assms show ?thesis by simp
next
  case False
  let ?M = "matching (broker s) ev"
  from publish_broker [OF assms False, of ev] obtain b' where b': "Publish ev (broker s) = (None, b')"
    "length (chans b') = length (chans (broker s))"
    "\<forall>i<length (kinds s). chans b' ! i = (if i \<in> set ?M then push ev (chans (broker s) ! i) else chans (broker s) ! i)"
    "dropped b' = wrap64 (dropped (broker s) + int (full_count (broker s) ?M))"
    "workflowSubs b' = workflowSubs (broker s)" "allSubs b' = allSubs (broker s)"
    "published b' = wrap64 (published (broker s) + 1)" "broker_closed b' = broker_closed (broker s)"
    "onces b' = onces (broker s)" by blast
  define s' where "s' = snd (exec_op \<rho> (OpPublish ev) s)"
  have ex: "exec_op \<rho> (OpPublish ev) s = (None, s')" and s': "broker s' = b'" "kinds s' = kinds s"
    "offered s' = (\<lambda>i. if i \<in> set ?M then offered s i @ [ev] else offered s i)" "received s' = received s"
    "drops s' = (\<lambda>i. if i \<in> set ?M \<and> \<not> has_room (chans (broker s) ! i) then Suc (drops s i) else drops s i)"
    "publishes s' = Suc (publishes s)"
    unfolding s'_def using False b'(1) by (simp_all add: Let_def)
  have reg: "registry_ok s" using assms by (simp add: session_inv_def)
  note M = matching_open [OF reg, of ev]
  have closed_same: "chan_closed (chans b' ! i) = chan_closed (chans (broker s) ! i)" if "i < length (kinds s)" for i
    using b'(3) that by simp
  then have "open_subs s' k = open_subs s k" for k by (auto simp: open_subs_def s')
  then have "registry_ok s'" using reg b' by (simp add: registry_ok_def s' subs_of_def)
  moreover have "sub_ok s' i" if i: "i < length (kinds s)" for i
  proof -
    have "sub_ok s i" using assms i by (simp add: session_inv_def)
    then show ?thesis
      using b' i M(2) by (auto simp: sub_ok_def s' Let_def push_def has_room_def
          intro: list_emb_append_mono list_emb_append2 simp flip: append_assoc)
  qed
  moreover have "counters_ok s'"
  proof -
    have "(\<Sum>i<length (kinds s). drops s' i) = (\<Sum>i<length (kinds s). drops s i) + full_count (broker s) ?M"
      unfolding s' full_count_def using M by (intro sum_indicator) auto
    then show ?thesis
      using assms b'(4,7) by (simp add: session_inv_def counters_ok_def s' wrap64_add_left wrap64_add_right add.commute)
  qed
  moreover have "fresh_ok s'"
    using assms M(2) b'(9) by (auto simp: session_inv_def fresh_ok_def s')
  ultimately show ?thesis using ex by (simp add: session_inv_def s')
qed


section \<open>Subscribing, receiving, cancelling\<close>

lemma open_subs_append:
  assumes "length (chans (broker s)) = length (kinds s)"
    and "chans (broker s') = chans (broker s) @ [ch]" "kinds s' = kinds s @ [k]" "\<not> chan_closed ch"
  shows "open_subs s' k' = (if k' = k then insert (length (kinds s)) (open_subs s k') else open_subs s k')"
  using assms by (auto simp: open_subs_def nth_append less_Suc_eq)

text \<open>What both kinds of subscription share: a new, empty, open channel without history.\<close>

lemma new_sub_inv:
  assumes "session_inv s" "chans (broker s') = chans (broker s) @ [\<lparr>chan_buf = [], chan_cap = c, chan_closed = False\<rparr>]"
    and "kinds s' = kinds s @ [k]" "offered s' = offered s" "received s' = received s" "drops s' = drops s"
    and "publishes s' = publishes s" "published (broker s') = published (broker s)"
    and "dropped (broker s') = dropped (broker s)" "onces (broker s') = onces (broker s)"
    and "broker_closed (broker s') = broker_closed (broker s)" "registry_ok s'"
  shows "session_inv s'"
proof -
  have len: "length (chans (broker s)) = length (kinds s)"
    using assms(1) by (simp add: session_inv_def registry_ok_def)
  have "sub_ok s' i" if "i < length (kinds s')" for i
  proof (cases "i < length (kinds s)")
    case True
    then have "sub_ok s i" using assms(1) by (simp add: session_inv_def)
    with True len show ?thesis using assms(2-) by (simp add: sub_ok_def nth_append Let_def)
  next
    case False
    then have "i = length (kinds s)" using that assms(3) by simp
    then show ?thesis using assms len
      by (simp add: sub_ok_def session_inv_def fresh_ok_def nth_append Let_def)
  qed
  moreover have "counters_ok s'" "fresh_ok s'"
    using assms by (auto simp: session_inv_def counters_ok_def fresh_ok_def)
  ultimately show ?thesis using assms(12) by (simp add: session_inv_def)
qed

lemma subs_of_set: "subs_of (b\<lparr>workflowSubs := gm_set wid xs m\<rparr>) w = (if w = wid then xs else
    subs_of (b\<lparr>workflowSubs := m\<rparr>) w)"
  by (simp add: subs_of_def)

lemma exec_subscribe: "session_inv s \<Longrightarrow> session_inv (snd (exec_op \<rho> (OpSubscribe wid buffer) s))"
proof (rule new_sub_inv [where k = "Some wid"])
  assume inv: "session_inv s"
  let ?s' = "snd (exec_op \<rho> (OpSubscribe wid buffer) s)"
  have len: "length (chans (broker s)) = length (kinds s)" and reg: "registry_ok s"
    using inv by (simp_all add: session_inv_def registry_ok_def)
  have "open_subs ?s' k' = (if k' = Some wid then insert (length (kinds s)) (open_subs s k') else open_subs s k')" for k'
    by (rule open_subs_append [OF len, where ch = "make_chan 64 buffer"])
      (simp_all add: Subscribe_def make_chan_def Let_def)
  moreover have "subs_of (broker ?s') w = (if w = wid then subs_of (broker s) wid @ [length (kinds s)]
      else subs_of (broker s) w)" for w
    using len by (simp add: Subscribe_def Let_def subs_of_def)
  moreover have "length (kinds s) \<notin> open_subs s k" for k by (simp add: open_subs_def)
  ultimately show "registry_ok ?s'"
    using reg len by (simp add: registry_ok_def Subscribe_def Let_def gm_wf_set)
qed (simp_all add: Subscribe_def make_chan_def Let_def)

lemma exec_subscribe_all: "session_inv s \<Longrightarrow> session_inv (snd (exec_op \<rho> (OpSubscribeAll buffer) s))"
proof (rule new_sub_inv [where k = None])
  assume inv: "session_inv s"
  let ?s' = "snd (exec_op \<rho> (OpSubscribeAll buffer) s)"
  have len: "length (chans (broker s)) = length (kinds s)" and reg: "registry_ok s"
    using inv by (simp_all add: session_inv_def registry_ok_def)
  have "open_subs ?s' k' = (if k' = None then insert (length (kinds s)) (open_subs s k') else open_subs s k')" for k'
    by (rule open_subs_append [OF len, where ch = "make_chan 256 buffer"])
      (simp_all add: SubscribeAll_def make_chan_def Let_def)
  moreover have "subs_of (broker ?s') w = subs_of (broker s) w" for w
    by (simp add: SubscribeAll_def Let_def)
  moreover have "length (kinds s) \<notin> open_subs s k" for k by (simp add: open_subs_def)
  ultimately show "registry_ok ?s'"
    using reg len by (simp add: registry_ok_def SubscribeAll_def Let_def)
qed (simp_all add: SubscribeAll_def make_chan_def Let_def)

lemma exec_receive: "session_inv s \<Longrightarrow> session_inv (snd (exec_op \<rho> (OpReceive i) s))"
proof (cases "i < length (kinds s) \<and> chan_buf (chans (broker s) ! i) \<noteq> []")
  case False
  moreover assume "session_inv s"
  ultimately show ?thesis by (auto simp: receive_def)
next
  case True
  assume inv: "session_inv s"
  from True obtain ev evs where buf: "chan_buf (chans (broker s) ! i) = ev # evs" and i: "i < length (kinds s)"
    by (metis list.exhaust)
  define s' where "s' = snd (exec_op \<rho> (OpReceive i) s)"
  have s': "broker s' = (broker s)\<lparr>chans := (chans (broker s))[i := (chans (broker s) ! i)\<lparr>chan_buf := evs\<rparr>]\<rparr>"
    "kinds s' = kinds s" "received s' = (received s)(i := received s i @ [ev])" "offered s' = offered s"
    "drops s' = drops s" "publishes s' = publishes s"
    unfolding s'_def using buf i by (simp_all add: receive_def)
  have len: "length (chans (broker s)) = length (kinds s)"
    using inv by (simp add: session_inv_def registry_ok_def)
  then have "open_subs s' k = open_subs s k" for k
    using i by (auto simp: open_subs_def s' nth_list_update)
  then have "registry_ok s'" using inv by (simp add: session_inv_def registry_ok_def s')
  moreover have "sub_ok s' j" if "j < length (kinds s)" for j
  proof -
    have "sub_ok s j" using inv that by (simp add: session_inv_def)
    then show ?thesis using buf i len by (cases "j = i") (auto simp: sub_ok_def s' Let_def)
  qed
  moreover have "counters_ok s'" "fresh_ok s'"
    using inv i by (auto simp: session_inv_def counters_ok_def fresh_ok_def s')
  ultimately show ?thesis unfolding s'_def [symmetric] by (simp add: session_inv_def s')
qed

text \<open>
  Closing the channel of an open subscription that has been taken out of the registry.
\<close>

lemma cancel_inv:
  assumes "session_inv s" "i < length (kinds s)" "\<not> chan_closed (chans (broker s) ! i)"
    and "chans b' = (chans (broker s))[i := (chans (broker s) ! i)\<lparr>chan_closed := True\<rparr>]"
    and "\<And>wid. subs_of b' wid = (if kinds s ! i = Some wid then remove1 i (subs_of (broker s) wid) else subs_of (broker s) wid)"
    and "allSubs b' = remove1 i (allSubs (broker s))" "gm_wf (workflowSubs b')"
    and "published b' = published (broker s)" "dropped b' = dropped (broker s)"
    and "broker_closed b' = broker_closed (broker s)" "onces b' = i # onces (broker s)"
  shows "session_inv (s\<lparr>broker := b'\<rparr>)"
proof -
  have len: "length (chans (broker s)) = length (kinds s)" and reg: "registry_ok s"
    using assms(1) by (simp_all add: session_inv_def registry_ok_def)
  have "open_subs (s\<lparr>broker := b'\<rparr>) k = open_subs s k - {i}" for k
    using assms(2,4) len by (auto simp: open_subs_def nth_list_update)
  moreover have "set (remove1 i (subs_of (broker s) wid)) = open_subs s (Some wid) - {i}" for wid
    using reg by (simp add: registry_ok_def)
  moreover have "i \<notin> open_subs s k" if "kinds s ! i \<noteq> k" for k using that by (simp add: open_subs_def)
  moreover have "set (remove1 i (allSubs (broker s))) = open_subs s None - {i}"
    using reg by (simp add: registry_ok_def)
  ultimately have "registry_ok (s\<lparr>broker := b'\<rparr>)"
    using reg assms(4,5,6,7) len by (auto simp: registry_ok_def)
  moreover have "sub_ok (s\<lparr>broker := b'\<rparr>) j" if "j < length (kinds s)" for j
  proof -
    have "sub_ok s j" using assms(1) that by (simp add: session_inv_def)
    then show ?thesis using assms(2,4,10,11) len by (cases "j = i") (auto simp: sub_ok_def Let_def)
  qed
  moreover have "counters_ok (s\<lparr>broker := b'\<rparr>)" "fresh_ok (s\<lparr>broker := b'\<rparr>)"
    using assms by (auto simp: session_inv_def counters_ok_def fresh_ok_def)
  ultimately show ?thesis by (simp add: session_inv_def)
qed


lemma unregister_simps [simp]:
  "chans (unregister wid i b) = chans b" "allSubs (unregister wid i b) = allSubs b"
  "published (unregister wid i b) = published b" "dropped (unregister wid i b) = dropped b"
  "broker_closed (unregister wid i b) = broker_closed b" "onces (unregister wid i b) = onces b"
  by (simp_all add: unregister_def Let_def)

lemma subs_of_unregister:
  "subs_of (unregister wid i b) w = (if w = wid then remove1 i (subs_of b wid) else subs_of b w)"
  by (auto simp: unregister_def Let_def subs_of_def remove1_idem split: if_splits option.splits)

lemma gm_wf_unregister: "gm_wf (workflowSubs b) \<Longrightarrow> gm_wf (workflowSubs (unregister wid i b))"
  by (auto simp: unregister_def Let_def)

definition stale_cancel :: "'a session \<Rightarrow> nat \<Rightarrow> bool" where
  "stale_cancel s i \<longleftrightarrow> i < length (kinds s) \<and> i \<notin> set (onces (broker s)) \<and> chan_closed (chans (broker s) ! i)"

lemma exec_cancel_stale:
  assumes "stale_cancel s i"
  shows "fst (exec_op \<rho> (OpCancel i) s) = Some (CloseOfClosedChannel i)"
  using assms
  by (auto simp: stale_cancel_def cancel_workflow_def cancel_all_def close_chan_def unregister_all_def
      split: option.splits)

lemma exec_cancel:
  assumes "session_inv s" "\<not> stale_cancel s i"
  shows "fst (exec_op \<rho> (OpCancel i) s) = None \<and> session_inv (snd (exec_op \<rho> (OpCancel i) s))"
proof (cases "i < length (kinds s) \<and> i \<notin> set (onces (broker s))")
  case False
  then have "exec_op \<rho> (OpCancel i) s = (None, s)"
    by (auto simp: cancel_workflow_def cancel_all_def split: option.splits)
  with assms show ?thesis by simp
next
  case True
  then have opn: "\<not> chan_closed (chans (broker s) ! i)" and i: "i < length (kinds s)"
    using assms(2) by (auto simp: stale_cancel_def)
  have reg: "registry_ok s" using assms(1) by (simp add: session_inv_def)
  show ?thesis
  proof (cases "kinds s ! i")
    case None
    let ?b' = "snd (cancel_all i (broker s))"
    have ex: "exec_op \<rho> (OpCancel i) s = (None, s\<lparr>broker := ?b'\<rparr>)"
      using True None opn by (simp add: cancel_all_def close_chan_def unregister_all_def)
    have "session_inv (s\<lparr>broker := ?b'\<rparr>)"
      by (rule cancel_inv [OF assms(1) i opn])
        (use True None opn reg in \<open>simp_all add: cancel_all_def close_chan_def unregister_all_def registry_ok_def subs_of_def\<close>)
    with ex show ?thesis by simp
  next
    case (Some wid)
    let ?b' = "snd (cancel_workflow wid i (broker s))"
    have ex: "exec_op \<rho> (OpCancel i) s = (None, s\<lparr>broker := ?b'\<rparr>)"
      using True Some opn by (simp add: cancel_workflow_def close_chan_def)
    have "i \<notin> set (allSubs (broker s))"
      using reg Some by (simp add: registry_ok_def open_subs_def)
    then have "session_inv (s\<lparr>broker := ?b'\<rparr>)"
      by (intro cancel_inv [OF assms(1) i opn])
        (use True Some opn reg in \<open>simp_all add: cancel_workflow_def close_chan_def registry_ok_def
           subs_of_unregister gm_wf_unregister remove1_idem\<close>)
    with ex show ?thesis by simp
  qed
qed

section \<open>Closing\<close>

lemma safeClose_simps [simp]:
  "length (chans (safeClose i b)) = length (chans b)" "workflowSubs (safeClose i b) = workflowSubs b"
  "allSubs (safeClose i b) = allSubs b" "published (safeClose i b) = published b"
  "dropped (safeClose i b) = dropped b" "broker_closed (safeClose i b) = broker_closed b"
  "onces (safeClose i b) = onces b"
  by (simp_all add: safeClose_def close_chan_def)

lemma safeClose_chan:
  "j < length (chans b) \<Longrightarrow> chans (safeClose i b) ! j =
     (if j = i then (chans b ! j)\<lparr>chan_closed := True\<rparr> else chans b ! j)"
  by (auto simp: safeClose_def close_chan_def nth_list_update)

lemma close_fold:
  defines "close_all subs b \<equiv> foldl (\<lambda>b s. safeClose s b) b subs"
  shows "length (chans (close_all subs b)) = length (chans b)"
    "workflowSubs (close_all subs b) = workflowSubs b" "allSubs (close_all subs b) = allSubs b"
    "published (close_all subs b) = published b" "dropped (close_all subs b) = dropped b"
    "broker_closed (close_all subs b) = broker_closed b" "onces (close_all subs b) = onces b"
    "j < length (chans b) \<Longrightarrow> chans (close_all subs b) ! j =
       (if j \<in> set subs then (chans b ! j)\<lparr>chan_closed := True\<rparr> else chans b ! j)"
  unfolding close_all_def
  by (induction subs arbitrary: b) (auto simp: safeClose_chan)

definition registered :: "(string list \<Rightarrow> string list) \<Rightarrow> 'a MemoryBroker \<Rightarrow> nat list" where
  "registered \<rho> b = concat (map (\<lambda>wid. subs_of b wid) (\<rho> (gm_keys (workflowSubs b)))) @ allSubs b"

lemma Close_open: "\<not> broker_closed b \<Longrightarrow> Close \<rho> b = foldl (\<lambda>b s. safeClose s b)
    (b\<lparr>broker_closed := True, workflowSubs := [], allSubs := []\<rparr>) (registered \<rho> b)"
proof -
  have "subs_of (b\<lparr>broker_closed := True\<rparr>) = subs_of b" by (intro ext) simp
  then show "\<not> broker_closed b \<Longrightarrow> ?thesis" by (simp add: Close_def registered_def Let_def)
qed

lemma registered_all:
  assumes "registry_ok s" "range_order \<rho>" "i < length (kinds s)" "\<not> chan_closed (chans (broker s) ! i)"
  shows "i \<in> set (registered \<rho> (broker s))"
proof (cases "kinds s ! i")
  case None
  then show ?thesis using assms by (simp add: registered_def registry_ok_def open_subs_def)
next
  case (Some wid)
  then have sub: "i \<in> set (subs_of (broker s) wid)"
    using assms by (simp add: registry_ok_def open_subs_def)
  then have "wid \<in> set (gm_keys (workflowSubs (broker s)))"
    by (cases "gm_get (workflowSubs (broker s)) wid") (auto simp: subs_of_def intro: gm_get_Some_key)
  with sub show ?thesis
    by (auto simp: registered_def range_order_set [OF assms(2)])
qed

lemma registered_open:
  assumes "registry_ok s" "i \<in> set (registered \<rho> (broker s))"
  shows "i < length (kinds s) \<and> \<not> chan_closed (chans (broker s) ! i)"
  using assms by (auto simp: registered_def registry_ok_def open_subs_def)

lemma exec_close:
  assumes "session_inv s" "range_order \<rho>"
  shows "session_inv (snd (exec_op \<rho> OpClose s))"
    and "broker_closed (broker (snd (exec_op \<rho> OpClose s)))"
    and "\<not> broker_closed (broker s) \<Longrightarrow> i < length (kinds s) \<Longrightarrow>
      chan_closed (chans (broker (snd (exec_op \<rho> OpClose s))) ! i)"
proof -
  let ?b = "broker s" and ?s' = "snd (exec_op \<rho> OpClose s)"
  have reg: "registry_ok s" using assms(1) by (simp add: session_inv_def)
  have len: "length (chans ?b) = length (kinds s)" using reg by (simp add: registry_ok_def)
  show closed: "broker_closed (broker ?s')"
    by (cases "broker_closed ?b") (simp_all add: Close_open close_fold, simp add: Close_def)
  have all: "chan_closed (chans (broker ?s') ! i)" if "\<not> broker_closed ?b" "i < length (kinds s)" for i
    using registered_all [OF reg assms(2) that(2)] that len by (auto simp: Close_open close_fold)
  then show "\<not> broker_closed ?b \<Longrightarrow> i < length (kinds s) \<Longrightarrow> chan_closed (chans (broker ?s') ! i)" .
  show "session_inv ?s'"
  proof (cases "broker_closed ?b")
    case True
    then show ?thesis using assms(1) by (simp add: Close_def)
  next
    case False
    have "open_subs ?s' k = {}" for k using all [OF False] by (auto simp: open_subs_def)
    then have "registry_ok ?s'"
      using False len by (simp add: registry_ok_def Close_open close_fold subs_of_def gm_wf_empty)
    moreover have "sub_ok ?s' i" if "i < length (kinds s)" for i
    proof -
      have "sub_ok s i" using assms(1) that by (simp add: session_inv_def)
      then show ?thesis
        using that False len closed registered_open [OF reg, of i \<rho>]
        by (auto simp: sub_ok_def Close_open close_fold Let_def)
    qed
    moreover have "counters_ok ?s'" "fresh_ok ?s'"
      using assms(1) False by (auto simp: session_inv_def counters_ok_def fresh_ok_def Close_open close_fold)
    ultimately show ?thesis by (simp add: session_inv_def)
  qed
qed

section \<open>Runs\<close>

lemma exec_op_inv:
  assumes "session_inv s" "range_order \<rho>" "fst (exec_op \<rho> op s) = None"
  shows "session_inv (snd (exec_op \<rho> op s))"
proof (cases op)
  case (OpCancel i)
  then show ?thesis
    using assms exec_cancel [OF assms(1)] exec_cancel_stale [of s i \<rho>] by (cases "stale_cancel s i") auto
qed (use assms exec_publish [THEN conjunct2] exec_subscribe exec_subscribe_all exec_receive exec_close(1) in \<open>simp_all del: exec_op.simps\<close>)

lemma exec_op_panic:
  assumes "session_inv s" "fst (exec_op \<rho> op s) = Some p"
  shows "\<exists>i. op = OpCancel i \<and> p = CloseOfClosedChannel i \<and> stale_cancel s i"
proof (cases op)
  case (OpPublish ev)
  with assms exec_publish [OF assms(1), of \<rho> ev] show ?thesis by (simp del: exec_op.simps)
next
  case (OpCancel i)
  then show ?thesis
    using assms exec_cancel [OF assms(1), of i \<rho>] exec_cancel_stale [of s i \<rho>]
    by (cases "stale_cancel s i") (auto simp del: exec_op.simps)
next
  case (OpReceive i)
  with assms show ?thesis by (auto split: prod.splits option.splits if_splits)
qed (use assms in auto)

lemma run_ops_inv:
  assumes "session_inv s" "range_order \<rho>" "run_ops \<rho> ops s = (None, s')"
  shows "session_inv s'"
  using assms(1,3)
proof (induction ops arbitrary: s)
  case Nil
  then show ?case by simp
next
  case (Cons op ops)
  obtain r s1 where one: "exec_op \<rho> op s = (r, s1)" by (cases "exec_op \<rho> op s")
  with Cons.prems(2) have "r = None" "run_ops \<rho> ops s1 = (None, s')"
    by (auto split: option.splits)
  with Cons.IH [of s1] exec_op_inv [OF Cons.prems(1) assms(2), of op] one show ?case by simp
qed


section \<open>The contract of the broker\<close>

text \<open>
  What a broker promises, without registries, channels or buffers: which subscriptions are live, and
  the events each one has to be offered.
\<close>

record 'a contract =
  con_kinds :: "string option list"
  con_closed :: bool
  con_live :: "nat \<Rightarrow> bool"
  con_history :: "nat \<Rightarrow> 'a event list"
  con_published :: nat

definition new_contract :: "'a contract" where
  "new_contract = \<lparr>con_kinds = [], con_closed = False, con_live = (\<lambda>_. False), con_history = (\<lambda>_. []),
     con_published = 0\<rparr>"

definition con_subscribe :: "string option \<Rightarrow> 'a contract \<Rightarrow> 'a contract" where
  "con_subscribe k a = a\<lparr>con_kinds := con_kinds a @ [k], con_live := (con_live a)(length (con_kinds a) := True)\<rparr>"

fun con_op :: "'a broker_op \<Rightarrow> 'a contract \<Rightarrow> 'a contract" where
  "con_op (OpPublish ev) a =
     (if con_closed a then a
      else a\<lparr>con_history := (\<lambda>i. if con_live a i \<and> wants (con_kinds a ! i) ev
               then con_history a i @ [ev] else con_history a i),
             con_published := Suc (con_published a)\<rparr>)"
| "con_op (OpSubscribe wid buffer) a = con_subscribe (Some wid) a"
| "con_op (OpSubscribeAll buffer) a = con_subscribe None a"
| "con_op (OpCancel i) a = a\<lparr>con_live := (con_live a)(i := False)\<rparr>"
| "con_op (OpReceive i) a = a"
| "con_op OpClose a = (if con_closed a then a else a\<lparr>con_closed := True, con_live := (\<lambda>_. False)\<rparr>)"

definition con_run :: "'a broker_op list \<Rightarrow> 'a contract" where
  "con_run ops = foldl (\<lambda>a op. con_op op a) new_contract ops"

definition con_of :: "'a session \<Rightarrow> 'a contract" where
  "con_of s = \<lparr>con_kinds = kinds s, con_closed = broker_closed (broker s),
     con_live = (\<lambda>i. i < length (kinds s) \<and> \<not> chan_closed (chans (broker s) ! i)),
     con_history = offered s, con_published = publishes s\<rparr>"

lemma con_of_new: "con_of new_session = new_contract"
  by (simp add: con_of_def new_session_def new_contract_def NewMemoryBroker_def)

text \<open>The broker implements the contract: one step of the one is one step of the other.\<close>

lemma con_step_publish:
  assumes "session_inv s"
  shows "con_of (snd (exec_op \<rho> (OpPublish ev) s)) = con_op (OpPublish ev) (con_of s)"
proof (cases "broker_closed (broker s)")
  case True
  then show ?thesis by (simp add: Publish_closed con_of_def Let_def)
next
  case False
  have reg: "registry_ok s" using assms by (simp add: session_inv_def)
  from publish_broker [OF assms False, of ev] obtain b' where b': "Publish ev (broker s) = (None, b')"
    "\<forall>i<length (kinds s). chans b' ! i = (if i \<in> set (matching (broker s) ev)
       then push ev (chans (broker s) ! i) else chans (broker s) ! i)"
    "broker_closed b' = broker_closed (broker s)" by blast
  then have "chan_closed (chans b' ! i) = chan_closed (chans (broker s) ! i)" if "i < length (kinds s)" for i
    using that by simp
  then show ?thesis
    using False b'(1,3) matching_open(2) [OF reg, of ev]
    by (auto simp: con_of_def Let_def fun_eq_iff)
qed

lemma con_step_close:
  assumes "session_inv s" "range_order \<rho>"
  shows "con_of (snd (exec_op \<rho> OpClose s)) = con_op OpClose (con_of s)"
proof (cases "broker_closed (broker s)")
  case True
  then show ?thesis by (simp add: con_of_def Close_def)
next
  case False
  with exec_close(2,3) [OF assms] show ?thesis by (auto simp: con_of_def fun_eq_iff)
qed

lemma con_step_cancel:
  assumes "session_inv s" "\<not> stale_cancel s i"
  shows "con_of (snd (exec_op \<rho> (OpCancel i) s)) = con_op (OpCancel i) (con_of s)"
proof -
  have len: "length (chans (broker s)) = length (kinds s)"
    and onced: "i < length (kinds s) \<Longrightarrow> i \<in> set (onces (broker s)) \<Longrightarrow> chan_closed (chans (broker s) ! i)"
    using assms(1) by (auto simp: session_inv_def registry_ok_def sub_ok_def Let_def)
  show ?thesis
    using assms(2) len onced
    by (auto simp: stale_cancel_def con_of_def cancel_workflow_def cancel_all_def close_chan_def
        unregister_all_def fun_eq_iff nth_list_update split: option.splits)
qed

lemma con_step:
  assumes "session_inv s" "range_order \<rho>" "fst (exec_op \<rho> op s) = None"
  shows "con_of (snd (exec_op \<rho> op s)) = con_op op (con_of s)"
proof (cases op)
  case (OpPublish ev)
  then show ?thesis using con_step_publish [OF assms(1)] by (simp only:)
next
  case (OpSubscribe wid buffer)
  moreover have "length (chans (broker s)) = length (kinds s)"
    using assms(1) by (simp add: session_inv_def registry_ok_def)
  ultimately show ?thesis
    by (auto simp: con_of_def con_subscribe_def Subscribe_def make_chan_def fun_eq_iff nth_append Let_def)
next
  case (OpSubscribeAll buffer)
  moreover have "length (chans (broker s)) = length (kinds s)"
    using assms(1) by (simp add: session_inv_def registry_ok_def)
  ultimately show ?thesis
    by (auto simp: con_of_def con_subscribe_def SubscribeAll_def make_chan_def fun_eq_iff nth_append Let_def)
next
  case (OpCancel i)
  then show ?thesis
    using assms exec_cancel_stale [of s i \<rho>] con_step_cancel [OF assms(1), of i \<rho>]
    by (cases "stale_cancel s i") (simp_all del: exec_op.simps con_op.simps)
next
  case (OpReceive i)
  moreover have "length (chans (broker s)) = length (kinds s)"
    using assms(1) by (simp add: session_inv_def registry_ok_def)
  ultimately show ?thesis
    by (auto simp: con_of_def receive_def fun_eq_iff nth_list_update split: list.splits)
next
  case OpClose
  then show ?thesis using con_step_close [OF assms(1,2)] by (simp only:)
qed

lemma con_run_sim:
  assumes "session_inv s" "range_order \<rho>" "run_ops \<rho> ops s = (None, s')"
  shows "con_of s' = foldl (\<lambda>a op. con_op op a) (con_of s) ops"
  using assms(1,3)
proof (induction ops arbitrary: s)
  case Nil
  then show ?case by simp
next
  case (Cons op ops)
  obtain r s1 where one: "exec_op \<rho> op s = (r, s1)" by (cases "exec_op \<rho> op s")
  with Cons.prems(2) have "r = None" "run_ops \<rho> ops s1 = (None, s')"
    by (auto split: option.splits)
  with Cons.IH [of s1] exec_op_inv [OF Cons.prems(1) assms(2), of op] con_step [OF Cons.prems(1) assms(2), of op] one
  show ?case by simp
qed


lemma run_ops_contract:
  assumes "range_order \<rho>" "run_ops \<rho> ops new_session = (None, s)"
  shows "session_inv s" "con_of s = con_run ops"
  using run_ops_inv [OF session_inv_new assms] con_run_sim [OF session_inv_new assms]
  by (simp_all add: con_of_new con_run_def)

lemma run_ops_panic:
  assumes "session_inv s" "range_order \<rho>" "run_ops \<rho> ops s = (Some p, s')"
  shows "\<exists>ops1 i ops2 s1. ops = ops1 @ OpCancel i # ops2 \<and> p = CloseOfClosedChannel i \<and>
    run_ops \<rho> ops1 s = (None, s1) \<and> stale_cancel s1 i"
  using assms(1,3)
proof (induction ops arbitrary: s)
  case Nil
  then show ?case by simp
next
  case (Cons op ops)
  obtain r s1 where one: "exec_op \<rho> op s = (r, s1)" by (cases "exec_op \<rho> op s")
  show ?case
  proof (cases r)
    case None
    then have "session_inv s1" using exec_op_inv [OF Cons.prems(1) assms(2), of op] one by simp
    moreover have "run_ops \<rho> ops s1 = (Some p, s')" using Cons.prems(2) one None by simp
    ultimately obtain ops1 i ops2 s2 where "ops = ops1 @ OpCancel i # ops2" "p = CloseOfClosedChannel i"
      "run_ops \<rho> ops1 s1 = (None, s2)" "stale_cancel s2 i" using Cons.IH by blast
    then show ?thesis using one None by (intro exI [of _ "op # ops1"]) auto
  next
    case (Some q)
    with Cons.prems(2) one have "fst (exec_op \<rho> op s) = Some p" by simp
    from exec_op_panic [OF Cons.prems(1) this] show ?thesis
      by (intro exI [of _ "[]"]) auto
  qed
qed

lemma run_ops_append:
  "run_ops \<rho> (xs @ ys) s =
     (case run_ops \<rho> xs s of (Some p, s') \<Rightarrow> (Some p, s') | (None, s') \<Rightarrow> run_ops \<rho> ys s')"
  by (induction xs arbitrary: s) (auto split: prod.splits option.splits)

lemma con_closed_run: "con_closed (foldl (\<lambda>a op. con_op op a) a ops) \<longleftrightarrow> con_closed a \<or> OpClose \<in> set ops"
proof (induction ops arbitrary: a)
  case (Cons op ops)
  then show ?case by (cases op) (auto simp: con_subscribe_def)
qed simp

section \<open>Properties\<close>

text \<open>
  C7: what a subscriber gets. After any run, the events a subscription has taken and those still in
  its buffer are, in order, a subsequence of the events it had to be offered: those published on
  the open broker while it was live and that match it. What is missing is exactly what was dropped,
  so a subscription that never overflowed has lost nothing; and it never sees an event of another
  workflow.
\<close>

theorem broker_delivery:
  assumes "range_order \<rho>" "run_ops \<rho> ops new_session = (None, s)" "i < length (con_kinds (con_run ops))"
  shows "let got = received s i @ chan_buf (chans (broker s) ! i); due = con_history (con_run ops) i in
    subseq got due \<and> length due = length got + drops s i \<and> (drops s i = 0 \<longrightarrow> got = due) \<and>
    (\<forall>ev\<in>set got. wants (con_kinds (con_run ops) ! i) ev)"
proof -
  note c = run_ops_contract [OF assms(1,2)]
  from c(2) [symmetric] have con: "con_kinds (con_run ops) = kinds s" "con_history (con_run ops) = offered s"
    by (simp_all add: con_of_def)
  with assms(3) c(1) have "sub_ok s i" by (simp add: session_inv_def)
  then have sub: "subseq (received s i @ chan_buf (chans (broker s) ! i)) (offered s i)"
    "length (offered s i) = length (received s i @ chan_buf (chans (broker s) ! i)) + drops s i"
    "\<forall>ev\<in>set (offered s i). wants (kinds s ! i) ev" by (simp_all add: sub_ok_def Let_def)
  then have "drops s i = 0 \<longrightarrow> received s i @ chan_buf (chans (broker s) ! i) = offered s i"
    by (metis add.right_neutral subseq_same_length)
  moreover have "\<forall>ev\<in>set (received s i @ chan_buf (chans (broker s) ! i)). wants (kinds s ! i) ev"
    using sub(3) list_emb_set [OF sub(1)] by metis
  ultimately show ?thesis using sub con by (simp add: Let_def)
qed


text \<open>Two subscribers, one of them with room for one event only, and three events.\<close>

definition demo_event :: "string \<Rightarrow> string \<Rightarrow> unit event" where
  "demo_event wid node = NodeStarted \<lparr>WID = wid, TS = Some 0\<rparr> node []"

definition demo_ops :: "unit broker_op list" where
  "demo_ops = [OpSubscribe ''w1'' 1, OpSubscribeAll 0, OpPublish (demo_event ''w1'' ''a''),
     OpPublish (demo_event ''w2'' ''b''), OpPublish (demo_event ''w1'' ''c''), OpReceive 0, OpReceive 1]"

lemma demo_run: "case run_ops rev demo_ops new_session of
    (None, s) \<Rightarrow> received s 0 = [demo_event ''w1'' ''a''] \<and> drops s 0 = 1 \<and> drops s 1 = 0 \<and>
      chan_buf (chans (broker s) ! 1) = [demo_event ''w2'' ''b'', demo_event ''w1'' ''c''] \<and>
      Stats (broker s) = (3, 1)
  | _ \<Rightarrow> False"
  by code_simp

theorem broker_delivery_witness:
  "\<exists>s. run_ops rev demo_ops new_session = (None, s) \<and>
     length (con_history (con_run demo_ops) 0) = length (received s 0 @ chan_buf (chans (broker s) ! 0)) + 1"
proof -
  obtain s where s: "run_ops rev demo_ops new_session = (None, s)" "drops s 0 = 1"
    using demo_run by (auto split: prod.splits option.splits)
  have "length (con_kinds (con_run demo_ops)) = 2" by code_simp
  with broker_delivery [OF _ s(1), of 0] s show ?thesis by (simp add: Let_def)
qed

text \<open>
  C8: the broker refines its contract: after any run the live subscriptions, the open or closed state
  and the offered histories are those of the contract. The published counter is the number of
  publishes on the open broker, and the dropped counter the number of events that were due to some
  subscriber and did not reach it, both modulo \<open>2^64\<close>.
\<close>

theorem broker_refines_contract:
  assumes "range_order \<rho>" "run_ops \<rho> ops new_session = (None, s)"
  shows "con_of s = con_run ops \<and>
    Stats (broker s) = (wrap64 (int (con_published (con_run ops))),
      wrap64 (int (\<Sum>i<length (con_kinds (con_run ops)).
        length (con_history (con_run ops) i) - length (received s i @ chan_buf (chans (broker s) ! i)))))"
proof -
  note c = run_ops_contract [OF assms]
  from c(2) [symmetric] have con: "con_kinds (con_run ops) = kinds s" "con_history (con_run ops) = offered s"
    "con_published (con_run ops) = publishes s" by (simp_all add: con_of_def)
  have "sub_ok s i" if "i < length (kinds s)" for i using c(1) that by (simp add: session_inv_def)
  then have "length (offered s i) - length (received s i @ chan_buf (chans (broker s) ! i)) = drops s i"
    if "i < length (kinds s)" for i
    using that by (simp add: sub_ok_def Let_def)
  then have "(\<Sum>i<length (kinds s). length (offered s i) - length (received s i @ chan_buf (chans (broker s) ! i))) =
      (\<Sum>i<length (kinds s). drops s i)"
    by (intro sum.cong) auto
  with c con show ?thesis by (simp add: session_inv_def counters_ok_def Stats_def)
qed

theorem broker_refines_contract_witness:
  "\<exists>s. run_ops rev demo_ops new_session = (None, s) \<and> con_of s = con_run demo_ops"
proof -
  obtain s where s: "run_ops rev demo_ops new_session = (None, s)"
    using demo_run by (auto split: prod.splits option.splits)
  from broker_refines_contract [OF _ s] s show ?thesis by auto
qed

text \<open>
  As long as operations do not overlap, no publish, subscription, receive or close ever panics.
  The one operation that can is a cancel, and only after the broker was closed.
\<close>

theorem broker_panics_only_cancel:
  assumes "range_order \<rho>" "run_ops \<rho> ops new_session = (Some p, s)"
  shows "\<exists>ops1 i ops2. ops = ops1 @ OpCancel i # ops2 \<and> p = CloseOfClosedChannel i \<and> OpClose \<in> set ops1"
proof -
  from run_ops_panic [OF session_inv_new assms] obtain ops1 i ops2 s1 where
    split: "ops = ops1 @ OpCancel i # ops2" "p = CloseOfClosedChannel i" and
    run: "run_ops \<rho> ops1 new_session = (None, s1)" and stale: "stale_cancel s1 i" by blast
  note c = run_ops_contract [OF assms(1) run]
  from stale c(1) have "broker_closed (broker s1)"
    by (auto simp: stale_cancel_def session_inv_def sub_ok_def Let_def)
  then have "con_closed (con_run ops1)" by (simp add: c(2) [symmetric] con_of_def)
  then have "OpClose \<in> set ops1"
    using con_closed_run [of new_contract ops1] by (simp add: con_run_def new_contract_def)
  with split show ?thesis by blast
qed

text \<open>
  Cancelling a subscription that was live when the broker was closed panics: \<open>Close\<close> closes its
  channel without running the once of its cancel function, which closes the channel again.
\<close>

theorem cancel_after_Close_panics:
  assumes "range_order \<rho>" "run_ops \<rho> ops new_session = (None, s)" "con_live (con_run ops) i"
    and "OpClose \<notin> set ops"
  shows "fst (run_ops \<rho> (ops @ [OpClose, OpCancel i]) new_session) = Some (CloseOfClosedChannel i)"
proof -
  note c = run_ops_contract [OF assms(1,2)]
  have i: "i < length (kinds s)" "\<not> chan_closed (chans (broker s) ! i)"
    using assms(3) by (simp_all add: c(2) [symmetric] con_of_def)
  have "\<not> con_closed (con_run ops)"
    using con_closed_run [of new_contract ops] assms(4) by (simp add: con_run_def new_contract_def)
  then have opn: "\<not> broker_closed (broker s)" by (simp add: c(2) [symmetric] con_of_def)
  have "i \<notin> set (onces (broker s))"
    using c(1) i by (auto simp: session_inv_def sub_ok_def Let_def)
  with i(1) opn exec_close(3) [OF c(1) assms(1) opn i(1)]
  have "stale_cancel (snd (exec_op \<rho> OpClose s)) i"
    by (simp add: stale_cancel_def Close_open close_fold)
  from exec_cancel_stale [OF this, of \<rho>] assms(2) show ?thesis
    by (auto simp: run_ops_append split: prod.splits option.splits simp del: exec_op.simps(4))
qed

theorem broker_panics_only_cancel_witness:
  "\<exists>p s ops1 i ops2. run_ops rev (demo_ops @ [OpClose, OpCancel 1]) new_session = (Some p, s) \<and>
     p = CloseOfClosedChannel i \<and> demo_ops @ [OpClose, OpCancel 1] = ops1 @ OpCancel i # ops2"
proof -
  have "case run_ops rev (demo_ops @ [OpClose, OpCancel 1]) new_session of (Some p, s) \<Rightarrow> True | _ \<Rightarrow> False"
    by code_simp
  then obtain p s where r: "run_ops rev (demo_ops @ [OpClose, OpCancel 1]) new_session = (Some p, s)"
    by (auto split: prod.splits option.splits)
  from broker_panics_only_cancel [OF _ r] r show ?thesis by blast
qed

theorem cancel_after_Close_panics_witness:
  "fst (run_ops rev (demo_ops @ [OpClose, OpCancel 1]) new_session) = Some (CloseOfClosedChannel 1)"
proof -
  obtain s where s: "run_ops rev demo_ops new_session = (None, s)"
    using demo_run by (auto split: prod.splits option.splits)
  have "con_live (con_run demo_ops) 1" by code_simp
  then show ?thesis by (intro cancel_after_Close_panics [OF _ s]) (auto simp: demo_ops_def)
qed

end
