(* ===== verification/Broker_Race.thy ===== *)
theory Broker_Race
  imports Broker
begin

text \<open>
  The broker under concurrency. Every goroutine that runs an operation of \<^verbatim>\<open>broker.go\<close> is a thread
  whose position is a constructor of \<open>bthread\<close>; a step runs one thread to its next position. The
  positions are the points at which the code holds no lock: a publisher between the test of the
  closed flag and the snapshot, and between the snapshot and each of its sends; a cancel between the
  removal from the registry and the close of the channel; a shutdown between the compare-and-swap,
  the reset of the registry and each close.
\<close>

section \<open>Threads and steps\<close>

datatype 'a bthread =
    Publishing "'a event"
  | Snapshotting "'a event"
  | Sending "'a event" "nat list"
  | Cancelling "string option" nat
  | ClosingChannel nat
  | ShuttingDown
  | Swapping
  | Draining "nat list"
  | Finished

record 'a bworld =
  wbroker :: "'a MemoryBroker"
  wkinds :: "string option list"
  wthreads :: "'a bthread list"
  wpanic :: "broker_panic option"

definition goto :: "nat \<Rightarrow> 'a bthread \<Rightarrow> 'a MemoryBroker \<Rightarrow> 'a bworld \<Rightarrow> 'a bworld" where
  "goto t th b w = w\<lparr>wbroker := b, wthreads := (wthreads w)[t := th]\<rparr>"

text \<open>What cancel does under the lock: the once is taken and the subscription leaves the registry.\<close>

definition cancel_locked :: "string option \<Rightarrow> nat \<Rightarrow> 'a MemoryBroker \<Rightarrow> 'a MemoryBroker" where
  "cancel_locked k i b =
     (let b1 = b\<lparr>onces := i # onces b\<rparr>
      in case k of Some wid \<Rightarrow> unregister wid i b1 | None \<Rightarrow> unregister_all i b1)"

text \<open>What \<open>Close\<close> does under the lock: the registered channels, and an empty registry.\<close>

definition all_registered :: "(string list \<Rightarrow> string list) \<Rightarrow> 'a MemoryBroker \<Rightarrow> nat list" where
  "all_registered \<rho> b = concat (map (subs_of b) (\<rho> (gm_keys (workflowSubs b)))) @ allSubs b"

text \<open>
  The next position of a thread and its effect; \<open>None\<close> for a thread that has finished. A panic leaves
  the broker as it is and stops the process.
\<close>

fun thread_step :: "(string list \<Rightarrow> string list) \<Rightarrow> 'a bthread \<Rightarrow> 'a MemoryBroker \<Rightarrow>
    (broker_panic + 'a bthread \<times> 'a MemoryBroker) option" where
  "thread_step \<rho> (Publishing ev) b =
     Some (Inr (if broker_closed b then (Finished, b)
                else (Snapshotting ev, b\<lparr>published := wrap64 (published b + 1)\<rparr>)))"
| "thread_step \<rho> (Snapshotting ev) b =
     Some (Inr (Sending ev (subs_of b (event_workflow ev) @ allSubs b), b))"
| "thread_step \<rho> (Sending ev []) b = Some (Inr (Finished, b))"
| "thread_step \<rho> (Sending ev (i # is)) b =
     Some (case try_send ev i b of (Some p, b') \<Rightarrow> Inl p | (None, b') \<Rightarrow> Inr (Sending ev is, b'))"
| "thread_step \<rho> (Cancelling k i) b =
     Some (Inr (if i \<in> set (onces b) then (Finished, b) else (ClosingChannel i, cancel_locked k i b)))"
| "thread_step \<rho> (ClosingChannel i) b =
     Some (case close_chan i b of (Some p, b') \<Rightarrow> Inl p | (None, b') \<Rightarrow> Inr (Finished, b'))"
| "thread_step \<rho> ShuttingDown b =
     Some (Inr (if broker_closed b then (Finished, b) else (Swapping, b\<lparr>broker_closed := True\<rparr>)))"
| "thread_step \<rho> Swapping b =
     Some (Inr (Draining (all_registered \<rho> b), b\<lparr>workflowSubs := [], allSubs := []\<rparr>))"
| "thread_step \<rho> (Draining []) b = Some (Inr (Finished, b))"
| "thread_step \<rho> (Draining (i # is)) b = Some (Inr (Draining is, safeClose i b))"
| "thread_step \<rho> Finished b = None"

inductive bstep :: "(string list \<Rightarrow> string list) \<Rightarrow> 'a bworld \<Rightarrow> 'a bworld \<Rightarrow> bool" for \<rho> where
  step_run: "wpanic w = None \<Longrightarrow> t < length (wthreads w) \<Longrightarrow>
     thread_step \<rho> (wthreads w ! t) (wbroker w) = Some (Inr (th, b)) \<Longrightarrow> bstep \<rho> w (goto t th b w)"
| step_panic: "wpanic w = None \<Longrightarrow> t < length (wthreads w) \<Longrightarrow>
     thread_step \<rho> (wthreads w ! t) (wbroker w) = Some (Inl p) \<Longrightarrow> bstep \<rho> w (w\<lparr>wpanic := Some p\<rparr>)"
| step_publish: "wpanic w = None \<Longrightarrow> bstep \<rho> w (w\<lparr>wthreads := wthreads w @ [Publishing ev]\<rparr>)"
| step_cancel: "wpanic w = None \<Longrightarrow> i < length (wkinds w) \<Longrightarrow>
     bstep \<rho> w (w\<lparr>wthreads := wthreads w @ [Cancelling (wkinds w ! i) i]\<rparr>)"
| step_close: "wpanic w = None \<Longrightarrow> bstep \<rho> w (w\<lparr>wthreads := wthreads w @ [ShuttingDown]\<rparr>)"
| step_subscribe: "wpanic w = None \<Longrightarrow>
     bstep \<rho> w (w\<lparr>wbroker := snd (Subscribe wid n (wbroker w)), wkinds := wkinds w @ [Some wid]\<rparr>)"
| step_subscribe_all: "wpanic w = None \<Longrightarrow>
     bstep \<rho> w (w\<lparr>wbroker := snd (SubscribeAll n (wbroker w)), wkinds := wkinds w @ [None]\<rparr>)"
| step_receive: "wpanic w = None \<Longrightarrow> i < length (chans (wbroker w)) \<Longrightarrow>
     bstep \<rho> w (w\<lparr>wbroker := snd (receive i (wbroker w))\<rparr>)"

abbreviation breach :: "(string list \<Rightarrow> string list) \<Rightarrow> 'a bworld \<Rightarrow> 'a bworld \<Rightarrow> bool" where
  "breach \<rho> \<equiv> (bstep \<rho>)\<^sup>*\<^sup>*"

definition new_world :: "'a bworld" where
  "new_world = \<lparr>wbroker = NewMemoryBroker, wkinds = [], wthreads = [], wpanic = None\<rparr>"

inductive_cases bstepE: "bstep \<rho> w w'"

section \<open>The operations as schedules\<close>

text \<open>A thread that runs alone to its end.\<close>

inductive runs_alone :: "(string list \<Rightarrow> string list) \<Rightarrow> 'a bthread \<Rightarrow> 'a MemoryBroker \<Rightarrow>
    broker_panic option \<times> 'a MemoryBroker \<Rightarrow> bool" for \<rho> where
  alone_done: "runs_alone \<rho> Finished b (None, b)"
| alone_panic: "thread_step \<rho> th b = Some (Inl p) \<Longrightarrow> runs_alone \<rho> th b (Some p, b)"
| alone_step: "thread_step \<rho> th b = Some (Inr (th', b')) \<Longrightarrow> runs_alone \<rho> th' b' r \<Longrightarrow> runs_alone \<rho> th b r"

lemma alone_finish: "thread_step \<rho> th b = Some (Inr (Finished, b')) \<Longrightarrow> runs_alone \<rho> th b (None, b')"
  by (rule alone_step [OF _ alone_done])

lemma try_send_panic: "try_send ev i b = (Some p, b') \<Longrightarrow> b' = b"
  by (auto simp: try_send_def Let_def split: if_splits)

lemma close_chan_panic: "close_chan i b = (Some p, b') \<Longrightarrow> b' = b"
  by (auto simp: close_chan_def split: if_splits)

lemma runs_alone_Sending: "runs_alone \<rho> (Sending ev is) b (send_all ev is b)"
proof (induction "is" arbitrary: b)
  case Nil
  show ?case by (simp add: alone_finish)
next
  case (Cons i "is")
  obtain r b' where one: "try_send ev i b = (r, b')" by (cases "try_send ev i b")
  show ?case
  proof (cases r)
    case None
    with one have "thread_step \<rho> (Sending ev (i # is)) b = Some (Inr (Sending ev is, b'))" by simp
    from alone_step [OF this Cons.IH] one None show ?thesis by simp
  next
    case (Some p)
    with one try_send_panic have "thread_step \<rho> (Sending ev (i # is)) b = Some (Inl p)" "b' = b" by auto
    with alone_panic one Some show ?thesis by fastforce
  qed
qed

lemma runs_alone_Publish: "runs_alone \<rho> (Publishing ev) b (Publish ev b)"
proof (cases "broker_closed b")
  case True
  then show ?thesis by (simp add: Publish_def alone_finish)
next
  case False
  let ?b = "b\<lparr>published := wrap64 (published b + 1)\<rparr>"
  have "runs_alone \<rho> (Snapshotting ev) ?b (send_all ev (subs_of ?b (event_workflow ev) @ allSubs ?b) ?b)"
    by (rule alone_step [OF _ runs_alone_Sending]) simp
  then have "runs_alone \<rho> (Snapshotting ev) ?b (Publish ev b)"
    using False by (simp add: Publish_open matching_def)
  with False show ?thesis by (intro alone_step [of \<rho> "Publishing ev"]) simp_all
qed

lemma runs_alone_Draining: "runs_alone \<rho> (Draining is) b (None, foldl (\<lambda>b i. safeClose i b) b is)"
proof (induction "is" arbitrary: b)
  case Nil
  show ?case by (simp add: alone_finish)
next
  case (Cons i "is")
  show ?case by (rule alone_step [where th' = "Draining is" and b' = "safeClose i b"]) (simp_all add: Cons)
qed

lemma runs_alone_Close: "runs_alone \<rho> ShuttingDown b (None, Close \<rho> b)"
proof (cases "broker_closed b")
  case True
  then show ?thesis by (simp add: Close_def alone_finish)
next
  case False
  let ?b = "b\<lparr>broker_closed := True\<rparr>"
  have "Close \<rho> b = foldl (\<lambda>b i. safeClose i b) (?b\<lparr>workflowSubs := [], allSubs := []\<rparr>) (all_registered \<rho> ?b)"
    using False by (simp add: Close_def all_registered_def Let_def)
  then have "runs_alone \<rho> Swapping ?b (None, Close \<rho> b)"
    using alone_step [OF _ runs_alone_Draining, of \<rho> Swapping ?b "all_registered \<rho> ?b"] by simp
  with False show ?thesis by (intro alone_step [of \<rho> ShuttingDown]) simp_all
qed

definition cancel_sub :: "string option \<Rightarrow> nat \<Rightarrow> 'a MemoryBroker \<Rightarrow> broker_panic option \<times> 'a MemoryBroker" where
  "cancel_sub k i b = (case k of Some wid \<Rightarrow> cancel_workflow wid i b | None \<Rightarrow> cancel_all i b)"

lemma cancel_sub_locked:
  "i \<notin> set (onces b) \<Longrightarrow> cancel_sub k i b = close_chan i (cancel_locked k i b)"
  by (auto simp: cancel_sub_def cancel_locked_def cancel_workflow_def cancel_all_def Let_def split: option.split)

lemma runs_alone_cancel: "runs_alone \<rho> (Cancelling k i) b (cancel_sub k i b)"
proof (cases "i \<in> set (onces b)")
  case True
  then have "cancel_sub k i b = (None, b)"
    by (auto simp: cancel_sub_def cancel_workflow_def cancel_all_def split: option.split)
  with True show ?thesis by (simp add: alone_finish)
next
  case False
  let ?b = "cancel_locked k i b"
  have "runs_alone \<rho> (ClosingChannel i) ?b (close_chan i ?b)"
  proof (cases "close_chan i ?b")
    case (Pair r b')
    show ?thesis
    proof (cases r)
      case None
      with Pair show ?thesis by (simp add: alone_finish)
    next
      case (Some p)
      with Pair close_chan_panic [of i ?b p b'] alone_panic [of \<rho> "ClosingChannel i" ?b p]
      show ?thesis by simp
    qed
  qed
  with False show ?thesis
    unfolding cancel_sub_locked [OF False] by (intro alone_step [of \<rho> "Cancelling k i"]) simp_all
qed

section \<open>Races\<close>

text \<open>Executing a given schedule: the thread to run at each step.\<close>

fun run_schedule :: "(string list \<Rightarrow> string list) \<Rightarrow> nat list \<Rightarrow> 'a bworld \<Rightarrow> 'a bworld" where
  "run_schedule \<rho> [] w = w"
| "run_schedule \<rho> (t # ts) w =
     (if wpanic w = None \<and> t < length (wthreads w) then
        (case thread_step \<rho> (wthreads w ! t) (wbroker w) of
           None \<Rightarrow> run_schedule \<rho> ts w
         | Some (Inl p) \<Rightarrow> run_schedule \<rho> ts (w\<lparr>wpanic := Some p\<rparr>)
         | Some (Inr (th, b)) \<Rightarrow> run_schedule \<rho> ts (goto t th b w))
      else run_schedule \<rho> ts w)"

lemma run_schedule_reach: "breach \<rho> w (run_schedule \<rho> ts w)"
proof (induction ts arbitrary: w)
  case Nil
  show ?case by simp
next
  case (Cons t ts)
  show ?case
  proof (cases "wpanic w = None \<and> t < length (wthreads w)")
    case False
    then show ?thesis using Cons by auto
  next
    case True
    show ?thesis
    proof (cases "thread_step \<rho> (wthreads w ! t) (wbroker w)")
      case None
      then show ?thesis using Cons True by simp
    next
      case (Some r)
      show ?thesis
      proof (cases r)
        case (Inl p)
        with True Some have "bstep \<rho> w (w\<lparr>wpanic := Some p\<rparr>)" by (intro step_panic) auto
        with Cons [of "w\<lparr>wpanic := Some p\<rparr>"] True Some Inl show ?thesis
          by (simp add: converse_rtranclp_into_rtranclp)
      next
        case (Inr q)
        obtain th b where q: "q = (th, b)" by (cases q)
        with True Some Inr have "bstep \<rho> w (goto t th b w)" by (intro step_run) auto
        with Cons [of "goto t th b w"] True Some Inr q show ?thesis
          by (simp add: converse_rtranclp_into_rtranclp)
      qed
    qed
  qed
qed


section \<open>What a panic needs\<close>

abbreviation nchans :: "'a MemoryBroker \<Rightarrow> nat" where
  "nchans b \<equiv> length (chans b)"

definition chan_open :: "'a MemoryBroker \<Rightarrow> nat \<Rightarrow> bool" where
  "chan_open b i \<longleftrightarrow> \<not> chan_closed (chans b ! i)"

fun thread_ok :: "'a MemoryBroker \<Rightarrow> 'a bthread \<Rightarrow> bool" where
  "thread_ok b (Sending ev is) \<longleftrightarrow> set is \<subseteq> {..<nchans b}"
| "thread_ok b (Cancelling k i) \<longleftrightarrow> i < nchans b"
| "thread_ok b (ClosingChannel i) \<longleftrightarrow> i < nchans b \<and> i \<in> set (onces b) \<and> (broker_closed b \<or> chan_open b i)"
| "thread_ok b Swapping \<longleftrightarrow> broker_closed b"
| "thread_ok b (Draining is) \<longleftrightarrow> broker_closed b \<and> set is \<subseteq> {..<nchans b}"
| "thread_ok b th \<longleftrightarrow> True"

definition broker_ok :: "'a MemoryBroker \<Rightarrow> bool" where
  "broker_ok b \<longleftrightarrow> (\<forall>wid. \<forall>i\<in>set (subs_of b wid). i < nchans b) \<and> (\<forall>i\<in>set (allSubs b). i < nchans b) \<and>
     (\<forall>i<nchans b. chan_open b i \<or> i \<in> set (onces b) \<or> broker_closed b)"

text \<open>
  How the broker may change under the other threads: nothing is forgotten, and while it is open only
  the channel \<open>x\<close> of the stepping thread may be closed.
\<close>

definition evolves :: "nat option \<Rightarrow> 'a MemoryBroker \<Rightarrow> 'a MemoryBroker \<Rightarrow> bool" where
  "evolves x b b' \<longleftrightarrow> nchans b \<le> nchans b' \<and> set (onces b) \<subseteq> set (onces b') \<and>
     (broker_closed b \<longrightarrow> broker_closed b') \<and>
     (\<forall>i<nchans b. x \<noteq> Some i \<longrightarrow> chan_open b i \<longrightarrow> broker_closed b' \<or> chan_open b' i)"

lemma thread_ok_evolves:
  "thread_ok b th \<Longrightarrow> evolves x b b' \<Longrightarrow> (\<And>i. x = Some i \<Longrightarrow> th \<noteq> ClosingChannel i) \<Longrightarrow> thread_ok b' th"
  by (cases "(b, th)" rule: thread_ok.cases) (auto simp: evolves_def)

fun closing :: "'a bthread \<Rightarrow> nat option" where
  "closing (ClosingChannel i) = Some i"
| "closing th = None"

lemma closing_Some [simp]: "closing th = Some i \<longleftrightarrow> th = ClosingChannel i"
  by (cases th) auto

lemma try_send_ok:
  assumes "try_send ev i b = (None, b')" "i < nchans b"
  shows "evolves None b b' \<and> (broker_ok b \<longrightarrow> broker_ok b') \<and> nchans b' = nchans b"
proof -
  have same: "nchans b' = nchans b" "onces b' = onces b" "broker_closed b' = broker_closed b"
    "workflowSubs b' = workflowSubs b" "allSubs b' = allSubs b"
    "\<forall>j<nchans b. chan_closed (chans b' ! j) = chan_closed (chans b ! j)"
    using assms by (auto simp: try_send_def Let_def nth_list_update split: if_splits)
  then show ?thesis by (auto simp: evolves_def broker_ok_def chan_open_def subs_of_def)
qed

lemma close_chan_ok:
  assumes "close_chan i b = (None, b')" "i < nchans b" "i \<in> set (onces b)"
  shows "evolves (Some i) b b' \<and> (broker_ok b \<longrightarrow> broker_ok b')"
  using assms by (auto simp: close_chan_def evolves_def broker_ok_def chan_open_def nth_list_update split: if_splits)

lemma safeClose_ok:
  assumes "broker_closed b"
  shows "evolves None b (safeClose i b) \<and> (broker_ok b \<longrightarrow> broker_ok (safeClose i b)) \<and>
    nchans (safeClose i b) = nchans b \<and> broker_closed (safeClose i b)"
  using assms by (auto simp: safeClose_def close_chan_def evolves_def broker_ok_def)

lemma cancel_locked_fields:
  "chans (cancel_locked k i b) = chans b" "broker_closed (cancel_locked k i b) = broker_closed b"
  "onces (cancel_locked k i b) = i # onces b"
  "set (subs_of (cancel_locked k i b) wid) \<subseteq> set (subs_of b wid)"
  "set (allSubs (cancel_locked k i b)) \<subseteq> set (allSubs b)"
proof -
  show "set (subs_of (cancel_locked k i b) wid) \<subseteq> set (subs_of b wid)"
    by (auto simp: cancel_locked_def Let_def unregister_def unregister_all_def subs_of_def
        dest: set_remove1_subset [THEN subsetD] split: option.splits if_splits)
  show "set (allSubs (cancel_locked k i b)) \<subseteq> set (allSubs b)"
    by (auto simp: cancel_locked_def Let_def unregister_def unregister_all_def
        dest: set_remove1_subset [THEN subsetD] split: option.splits if_splits)
qed (auto simp: cancel_locked_def Let_def unregister_def unregister_all_def split: option.split)

lemma cancel_locked_ok:
  assumes "broker_ok b"
  shows "evolves None b (cancel_locked k i b) \<and> broker_ok (cancel_locked k i b)"
proof -
  note c = cancel_locked_fields [of k i b]
  have "\<forall>wid. \<forall>j\<in>set (subs_of (cancel_locked k i b) wid). j < nchans b"
    "\<forall>j\<in>set (allSubs (cancel_locked k i b)). j < nchans b"
    using assms c(4,5) unfolding broker_ok_def by blast+
  then show ?thesis using assms c(1-3) by (auto simp: evolves_def broker_ok_def chan_open_def)
qed

lemma subs_of_reset: "subs_of (b\<lparr>workflowSubs := []\<rparr>) wid = []"
  by (simp add: subs_of_def)

lemma thread_step_ok:
  assumes "broker_ok b" "thread_ok b th" "thread_step \<rho> th b = Some (Inr (th', b'))"
  shows "broker_ok b' \<and> thread_ok b' th' \<and> evolves (closing th) b b' \<and>
    (\<forall>i. th' = ClosingChannel i \<longrightarrow> i \<notin> set (onces b))"
  using assms(3,2)
proof (cases rule: thread_step.cases [of "(\<rho>, th, b)"])
  case (1 \<rho>' ev b0)
  then show ?thesis using assms
    by (auto simp: evolves_def broker_ok_def chan_open_def split: if_splits)
next
  case (2 \<rho>' ev b0)
  then show ?thesis using assms by (auto simp: evolves_def broker_ok_def)
next
  case (4 \<rho>' ev i "is" b0)
  then show ?thesis using assms try_send_ok [of ev i b b']
    by (auto split: prod.splits option.splits)
next
  case (5 \<rho>' k i b0)
  then show ?thesis using assms cancel_locked_ok [OF assms(1), of k i] cancel_locked_fields [of k i b]
    by (auto simp: evolves_def broker_ok_def chan_open_def split: if_splits)
next
  case (6 \<rho>' i b0)
  then show ?thesis using assms close_chan_ok [of i b b']
    by (auto split: prod.splits option.splits)
next
  case (7 \<rho>' b0)
  then show ?thesis using assms
    by (auto simp: evolves_def broker_ok_def chan_open_def split: if_splits)
next
  case (8 \<rho>' b0)
  then show ?thesis using assms
    by (auto simp: evolves_def broker_ok_def chan_open_def all_registered_def subs_of_reset)
next
  case (10 \<rho>' i "is" b0)
  then show ?thesis using assms safeClose_ok [of b i] by auto
qed (use assms in \<open>auto simp: evolves_def\<close>)


definition world_ok :: "'a bworld \<Rightarrow> bool" where
  "world_ok w \<longleftrightarrow> nchans (wbroker w) = length (wkinds w) \<and> broker_ok (wbroker w) \<and>
     (\<forall>t<length (wthreads w). thread_ok (wbroker w) (wthreads w ! t)) \<and>
     (\<forall>t<length (wthreads w). \<forall>t'<length (wthreads w). \<forall>i.
        wthreads w ! t = ClosingChannel i \<longrightarrow> wthreads w ! t' = ClosingChannel i \<longrightarrow> t = t')"

definition panic_excused :: "'a bworld \<Rightarrow> bool" where
  "panic_excused w \<longleftrightarrow> (\<forall>i. wpanic w = Some (SendOnClosedChannel i) \<longrightarrow>
       i \<in> set (onces (wbroker w)) \<or> broker_closed (wbroker w)) \<and>
     (\<forall>i. wpanic w = Some (CloseOfClosedChannel i) \<longrightarrow> broker_closed (wbroker w))"

lemma thread_step_nchans:
  "thread_step \<rho> th b = Some (Inr (th', b')) \<Longrightarrow> nchans b' = nchans b"
  by (cases "(\<rho>, th, b)" rule: thread_step.cases)
    (auto simp: try_send_def close_chan_def safeClose_def Let_def cancel_locked_fields
      split: if_splits prod.splits option.splits)

lemma world_ok_goto:
  assumes "world_ok w" "t < length (wthreads w)" "thread_step \<rho> (wthreads w ! t) (wbroker w) = Some (Inr (th, b))"
  shows "world_ok (goto t th b w)"
proof -
  let ?b = "wbroker w"
  have ok: "broker_ok ?b" "thread_ok ?b (wthreads w ! t)" using assms by (auto simp: world_ok_def)
  note st = thread_step_ok [OF ok assms(3)]
  have other: "thread_ok b (wthreads w ! t')" if "t' < length (wthreads w)" "t' \<noteq> t" for t'
  proof (rule thread_ok_evolves)
    show "thread_ok ?b (wthreads w ! t')" using assms(1) that by (simp add: world_ok_def)
    show "evolves (closing (wthreads w ! t)) ?b b" using st by blast
    show "wthreads w ! t' \<noteq> ClosingChannel i" if "closing (wthreads w ! t) = Some i" for i
      using assms(1,2) that \<open>t' < _\<close> \<open>t' \<noteq> t\<close> unfolding world_ok_def by (metis closing_Some)
  qed
  have fresh: "wthreads w ! t' \<noteq> ClosingChannel i" if "th = ClosingChannel i" "t' < length (wthreads w)" for i t'
    using assms(1) that st unfolding world_ok_def by fastforce
  show ?thesis
    unfolding world_ok_def
  proof (intro conjI allI impI)
    show "nchans (wbroker (goto t th b w)) = length (wkinds (goto t th b w))"
      using assms(1) thread_step_nchans [OF assms(3)] by (simp add: goto_def world_ok_def)
    show "broker_ok (wbroker (goto t th b w))" using st by (simp add: goto_def)
    show "thread_ok (wbroker (goto t th b w)) (wthreads (goto t th b w) ! t')"
      if "t' < length (wthreads (goto t th b w))" for t'
      using that st other by (cases "t' = t") (auto simp: goto_def)
    show "t1 = t2" if "t1 < length (wthreads (goto t th b w))" "t2 < length (wthreads (goto t th b w))"
      "wthreads (goto t th b w) ! t1 = ClosingChannel i" "wthreads (goto t th b w) ! t2 = ClosingChannel i"
      for t1 t2 i
    proof (rule ccontr)
      assume "t1 \<noteq> t2"
      with that fresh [of i t1] fresh [of i t2] have "t1 \<noteq> t" "t2 \<noteq> t" by (auto simp: goto_def)
      with that assms(1) \<open>t1 \<noteq> t2\<close> show False unfolding goto_def world_ok_def by auto
    qed
  qed
qed

lemma world_ok_spawn:
  assumes "world_ok w" "thread_ok (wbroker w) th" "closing th = None"
  shows "world_ok (w\<lparr>wthreads := wthreads w @ [th]\<rparr>)"
proof -
  have "th \<noteq> ClosingChannel i" for i using assms(3) by auto
  then show ?thesis
    using assms(1,2) unfolding world_ok_def by (auto simp: nth_append less_Suc_eq)
qed

lemma world_ok_evolves:
  assumes "world_ok w" "evolves None (wbroker w) b" "broker_ok b" "nchans b = length ks"
  shows "world_ok (w\<lparr>wbroker := b, wkinds := ks\<rparr>)"
  using assms thread_ok_evolves [OF _ assms(2)] by (auto simp: world_ok_def)

lemma new_chan_ok:
  assumes "broker_ok b" "chans b' = chans b @ [ch]" "\<not> chan_closed ch" "onces b' = onces b"
    and "broker_closed b' = broker_closed b"
    and "\<And>wid. set (subs_of b' wid) \<subseteq> insert (nchans b) (set (subs_of b wid))"
    and "set (allSubs b') \<subseteq> insert (nchans b) (set (allSubs b))"
  shows "evolves None b b' \<and> broker_ok b'"
proof -
  have "\<forall>wid. \<forall>i\<in>set (subs_of b' wid). i < nchans b'" "\<forall>i\<in>set (allSubs b'). i < nchans b'"
    using assms(1,2,6,7) unfolding broker_ok_def by fastforce+
  then show ?thesis
    using assms(1-5) by (auto simp: evolves_def broker_ok_def chan_open_def nth_append less_Suc_eq)
qed

lemma bstep_ok:
  assumes "bstep \<rho> w w'" "world_ok w"
  shows "world_ok w' \<and> panic_excused w'"
  using assms
proof cases
  case (step_run t th b)
  then show ?thesis using world_ok_goto [OF assms(2)] by (auto simp: panic_excused_def goto_def)
next
  case (step_panic t p)
  have ok: "broker_ok (wbroker w)" "thread_ok (wbroker w) (wthreads w ! t)"
    using step_panic assms(2) by (auto simp: world_ok_def)
  have "(\<forall>i. p = SendOnClosedChannel i \<longrightarrow> i \<in> set (onces (wbroker w)) \<or> broker_closed (wbroker w)) \<and>
      (\<forall>i. p = CloseOfClosedChannel i \<longrightarrow> broker_closed (wbroker w))"
    using step_panic(4) ok
    by (cases "(\<rho>, wthreads w ! t, wbroker w)" rule: thread_step.cases)
      (auto simp: try_send_def close_chan_def broker_ok_def chan_open_def Let_def split: if_splits)
  then show ?thesis using step_panic assms(2) by (auto simp: panic_excused_def world_ok_def)
next
  case (step_publish ev)
  then show ?thesis using world_ok_spawn [OF assms(2)] by (auto simp: panic_excused_def)
next
  case (step_cancel i)
  moreover have "i < nchans (wbroker w)" using step_cancel assms(2) by (simp add: world_ok_def)
  ultimately show ?thesis using world_ok_spawn [OF assms(2)] by (auto simp: panic_excused_def)
next
  case step_close
  then show ?thesis using world_ok_spawn [OF assms(2)] by (auto simp: panic_excused_def)
next
  case (step_subscribe wid n)
  let ?b = "wbroker w"
  have "evolves None ?b (snd (Subscribe wid n ?b)) \<and> broker_ok (snd (Subscribe wid n ?b))"
    using assms(2) by (intro new_chan_ok [where ch = "make_chan 64 n"])
      (auto simp: world_ok_def Subscribe_def make_chan_def subs_of_def Let_def)
  moreover have "nchans (snd (Subscribe wid n ?b)) = length (wkinds w @ [Some wid])"
    using assms(2) by (simp add: world_ok_def Subscribe_def Let_def)
  ultimately have "world_ok w'"
    unfolding step_subscribe by (intro world_ok_evolves [OF assms(2)]) auto
  then show ?thesis using step_subscribe by (simp add: panic_excused_def)
next
  case (step_subscribe_all n)
  let ?b = "wbroker w"
  have "evolves None ?b (snd (SubscribeAll n ?b)) \<and> broker_ok (snd (SubscribeAll n ?b))"
    using assms(2) by (intro new_chan_ok [where ch = "make_chan 256 n"])
      (auto simp: world_ok_def SubscribeAll_def make_chan_def subs_of_def Let_def)
  moreover have "nchans (snd (SubscribeAll n ?b)) = length (wkinds w @ [None])"
    using assms(2) by (simp add: world_ok_def SubscribeAll_def Let_def)
  ultimately have "world_ok w'"
    unfolding step_subscribe_all by (intro world_ok_evolves [OF assms(2)]) auto
  then show ?thesis using step_subscribe_all by (simp add: panic_excused_def)
next
  case (step_receive i)
  let ?b = "wbroker w" and ?b' = "snd (receive i (wbroker w))"
  have "evolves None ?b ?b' \<and> broker_ok ?b' \<and> nchans ?b' = nchans ?b"
    using assms(2) step_receive
    by (auto simp: world_ok_def receive_def evolves_def broker_ok_def chan_open_def nth_list_update split: list.splits)
  then have "world_ok (w\<lparr>wbroker := ?b', wkinds := wkinds w\<rparr>)"
    using assms(2) by (intro world_ok_evolves) (auto simp: world_ok_def)
  then show ?thesis using step_receive by (auto simp: panic_excused_def)
qed

lemma new_world_ok: "world_ok new_world \<and> panic_excused new_world"
  by (simp add: world_ok_def new_world_def NewMemoryBroker_def broker_ok_def subs_of_def panic_excused_def)

lemma reachable_ok: "breach \<rho> new_world w \<Longrightarrow> world_ok w \<and> panic_excused w"
  by (induction rule: rtranclp_induct) (auto simp: new_world_ok dest: bstep_ok)


section \<open>Properties\<close>

text \<open>
  The atomic operations are schedules of the concurrent ones: a publisher, a shutdown or a cancel
  that runs without interruption does what \<open>Publish\<close>, \<open>Close\<close> or the cancel function does, the panic
  included.
\<close>

theorem operations_are_schedules:
  "runs_alone \<rho> (Publishing ev) b (Publish ev b) \<and>
   runs_alone \<rho> ShuttingDown b (None, Close \<rho> b) \<and>
   runs_alone \<rho> (Cancelling (Some wid) i) b (cancel_workflow wid i b) \<and>
   runs_alone \<rho> (Cancelling None i) b (cancel_all i b)"
  using runs_alone_cancel [of \<rho> "Some wid" i b] runs_alone_cancel [of \<rho> None i b]
  by (simp add: cancel_sub_def runs_alone_Publish runs_alone_Close)

text \<open>
  C9: whatever operations run at the same time and however they interleave, a send panics only when
  the subscription's cancel has begun or the broker has been closed, and a cancel only when the
  broker has been closed. So a process that never cancels and never closes cannot panic here.
\<close>

theorem interleaved_panic_needs_close:
  assumes "breach \<rho> new_world w" "wpanic w = Some p"
  shows "(\<exists>i. p = SendOnClosedChannel i \<and> (i \<in> set (onces (wbroker w)) \<or> broker_closed (wbroker w))) \<or>
    (\<exists>i. p = CloseOfClosedChannel i \<and> broker_closed (wbroker w))"
  using reachable_ok [OF assms(1)] assms(2) by (cases p) (auto simp: panic_excused_def)

text \<open>One subscriber, a publisher and a canceller; and a publisher and a shutdown.\<close>

definition race_event :: "unit event" where
  "race_event = NodeStarted \<lparr>WID = ''w'', TS = None\<rparr> [] []"

definition race_world :: "unit bthread \<Rightarrow> unit bworld" where
  "race_world th = \<lparr>wbroker = snd (Subscribe ''w'' 8 NewMemoryBroker), wkinds = [Some ''w''],
     wthreads = [Publishing race_event, th], wpanic = None\<rparr>"

lemma three_steps: "bstep \<rho> a b \<Longrightarrow> bstep \<rho> b c \<Longrightarrow> bstep \<rho> c d \<Longrightarrow> breach \<rho> a d"
  by (blast intro: rtranclp.rtrancl_into_rtrancl rtranclp.rtrancl_refl)

lemma race_world_reach:
  assumes "th = Cancelling (Some ''w'') 0 \<or> th = ShuttingDown"
  shows "breach \<rho> new_world (race_world th)"
proof -
  let ?w1 = "(new_world :: unit bworld)\<lparr>wbroker := snd (Subscribe ''w'' 8 (wbroker (new_world :: unit bworld))), wkinds := wkinds (new_world :: unit bworld) @ [Some ''w'']\<rparr>"
  let ?w2 = "?w1\<lparr>wthreads := wthreads ?w1 @ [Publishing race_event]\<rparr>"
  have s1: "bstep \<rho> new_world ?w1" by (rule step_subscribe) (simp add: new_world_def)
  have s2: "bstep \<rho> ?w1 ?w2" by (rule step_publish) (simp add: new_world_def)
  have s3: "bstep \<rho> ?w2 (?w2\<lparr>wthreads := wthreads ?w2 @ [th]\<rparr>)"
  proof (cases "th = ShuttingDown")
    case True
    then show ?thesis using step_close [of ?w2 \<rho>] by (simp add: new_world_def)
  next
    case False
    with assms have th: "th = Cancelling (wkinds ?w2 ! 0) 0" by (simp add: new_world_def)
    show ?thesis unfolding th by (rule step_cancel) (simp_all add: new_world_def)
  qed
  have "?w2\<lparr>wthreads := wthreads ?w2 @ [th]\<rparr> = race_world th"
    by (simp add: race_world_def new_world_def)
  moreover have "breach \<rho> new_world (?w2\<lparr>wthreads := wthreads ?w2 @ [th]\<rparr>)"
    by (rule three_steps [OF s1 s2 s3])
  ultimately show ?thesis by (simp only:)
qed

text \<open>
  Cancelling a subscription while an event is being published can crash the process: the publisher
  takes its snapshot, the cancel unregisters the subscription and closes its channel, and the
  publisher sends on the closed channel. The broker itself was never closed.
\<close>

theorem publish_cancel_race:
  "\<exists>w. breach rev (new_world :: unit bworld) w \<and> wpanic w = Some (SendOnClosedChannel 0) \<and>
     \<not> broker_closed (wbroker w)"
proof -
  let ?w = "run_schedule rev [0, 0, 1, 1, 0] (race_world (Cancelling (Some ''w'') 0))"
  have "wpanic ?w = Some (SendOnClosedChannel 0)" "\<not> broker_closed (wbroker ?w)" by code_simp+
  then show ?thesis
    using race_world_reach [of "Cancelling (Some ''w'') 0" rev] run_schedule_reach
    by (meson rtranclp_trans)
qed

text \<open>
  The closed flag does not guard a publish against \<open>Close\<close>: a publisher that has tested the flag sends
  on a channel that the shutdown closed in the meantime, and no subscription was cancelled.
\<close>

theorem publish_close_race:
  "\<exists>w. breach rev (new_world :: unit bworld) w \<and> wpanic w = Some (SendOnClosedChannel 0) \<and>
     onces (wbroker w) = []"
proof -
  let ?w = "run_schedule rev [0, 0, 1, 1, 1, 1, 0] (race_world ShuttingDown)"
  have "wpanic ?w = Some (SendOnClosedChannel 0)" "onces (wbroker ?w) = []" by code_simp+
  then show ?thesis
    using race_world_reach [of ShuttingDown rev] run_schedule_reach by (meson rtranclp_trans)
qed

theorem interleaved_panic_needs_close_witness:
  "\<exists>w. breach rev (new_world :: unit bworld) w \<and> wpanic w = Some (SendOnClosedChannel 0) \<and>
     0 \<in> set (onces (wbroker w))"
proof -
  let ?w = "run_schedule rev [0, 0, 1, 1, 0] (race_world (Cancelling (Some ''w'') 0))"
  have p: "wpanic ?w = Some (SendOnClosedChannel 0)" and o: "\<not> broker_closed (wbroker ?w)" by code_simp+
  have r: "breach rev new_world ?w"
    using race_world_reach [of "Cancelling (Some ''w'') 0" rev] run_schedule_reach by (meson rtranclp_trans)
  from interleaved_panic_needs_close [OF r p] o r p show ?thesis by auto
qed

end
