(* ===== verification/Converge.thy ===== *)
theory Converge
  imports Complex_Main Completion Events
begin

text \<open>
  Package agent, files \<^verbatim>\<open>types.go\<close>, \<^verbatim>\<open>workflow.go\<close> and \<^verbatim>\<open>activities.go\<close>: the researcher and critic
  activities and the workflow that loops over them until the critic approves.

  Activities run on Temporal, which is not part of the repository: \<open>research\<close> and \<open>critique\<close> are the
  outcomes of the two named activities, as functions of the input and of the state of the world.
  A confidence is a finite double decoded from JSON, hence a rational; comparing it with 0 and 1 is
  exact.
\<close>

section \<open>Data\<close>

record Verdict =
  Approved :: bool
  Confidence :: rat
  Feedback :: string

record Round =
  RoundNumber :: int
  RoundResearch :: string
  RoundVerdict :: Verdict

record Answer =
  AnswerText :: string
  Rounds :: int
  Converged :: bool
  History :: "Round list"

record Question =
  QuestionText :: string
  MaxRounds :: int

record ResearchInput =
  ResearchQuestion :: string
  PreviousAnswer :: string
  CriticFeedback :: string

record CritiqueInput =
  CritiqueQuestion :: string
  CritiqueAnswer :: string
  CritiqueRound :: int

datatype converge_error =
    MaxRoundsNotPositive
  | EmptyQuestion
  | ResearchFailed int string
  | CritiqueFailed int string
  | ConvergePanic

section \<open>The workflow\<close>

definition empty_answer :: Answer where
  "empty_answer = \<lparr>AnswerText = [], Rounds = 0, Converged = False, History = []\<rparr>"

type_synonym ('i, 'o, 's) activity = "'i \<Rightarrow> 's \<Rightarrow> (string + 'o) \<times> 's"

text \<open>
  The loop over \<open>rnd\<close>, the source's round; \<open>answer\<close> collects the history. After the last round the last entry of the
  history is read, which would panic on an empty history.
\<close>

function converge_loop :: "(ResearchInput, string, 's) activity \<Rightarrow> (CritiqueInput, Verdict, 's) activity \<Rightarrow>
    Question \<Rightarrow> int \<Rightarrow> string \<Rightarrow> string \<Rightarrow> Answer \<Rightarrow> 's \<Rightarrow> (converge_error + Answer) \<times> 's" where
  "converge_loop research critique q rnd previousAnswer criticFeedback answer s =
     (if rnd \<le> MaxRounds q then
        (case research \<lparr>ResearchQuestion = QuestionText q, PreviousAnswer = previousAnswer,
                         CriticFeedback = criticFeedback\<rparr> s of
           (Inl e, s1) \<Rightarrow> (Inl (ResearchFailed rnd e), s1)
         | (Inr candidate, s1) \<Rightarrow>
             (case critique \<lparr>CritiqueQuestion = QuestionText q, CritiqueAnswer = candidate,
                              CritiqueRound = rnd\<rparr> s1 of
                (Inl e, s2) \<Rightarrow> (Inl (CritiqueFailed rnd e), s2)
              | (Inr verdict, s2) \<Rightarrow>
                  (let answer1 = answer\<lparr>History := History answer @
                         [\<lparr>RoundNumber = rnd, RoundResearch = candidate, RoundVerdict = verdict\<rparr>]\<rparr>
                   in if Approved verdict
                      then (Inr (answer1\<lparr>AnswerText := candidate, Rounds := rnd, Converged := True\<rparr>), s2)
                      else converge_loop research critique q (rnd + 1) candidate (Feedback verdict) answer1 s2)))
      else if History answer = [] then (Inl ConvergePanic, s)
      else (Inr (answer\<lparr>AnswerText := RoundResearch (last (History answer)), Rounds := MaxRounds q,
                        Converged := False\<rparr>), s))"
  by pat_completeness auto
termination
  by (relation "measure (\<lambda>(research, critique, q, rnd, prev, fb, answer, s). nat (MaxRounds q + 1 - rnd))") auto

declare converge_loop.simps [simp del]

definition ConvergeWorkflow :: "(ResearchInput, string, 's) activity \<Rightarrow> (CritiqueInput, Verdict, 's) activity \<Rightarrow>
    Question \<Rightarrow> 's \<Rightarrow> (converge_error + Answer) \<times> 's" where
  "ConvergeWorkflow research critique q s =
     (if MaxRounds q \<le> 0 then (Inl MaxRoundsNotPositive, s)
      else if QuestionText q = [] then (Inl EmptyQuestion, s)
      else converge_loop research critique q 1 [] [] empty_answer s)"

section \<open>Arrows and activities\<close>

text \<open>
  An arrow's result: a failure or a value. The value Go returns beside an error is not looked at by
  any caller, so it is not kept.
\<close>

datatype arrow_failure = Failed llm_error | Crashed string | BadResponse string string | Unconfigured string

type_synonym ('a, 'b, 's) arrow = "'a \<Rightarrow> 's \<Rightarrow> (arrow_failure + 'b) \<times> 's"

definition complete_arrow :: "'s CompleteFunc \<Rightarrow> (CompletionRequest, string, 's) arrow" where
  "complete_arrow c req s =
     (case CompleteAsArrow c req s of
        (Panicked p, s1) \<Rightarrow> (Inl (Crashed p), s1)
      | (Returned out (Some e), s1) \<Rightarrow> (Inl (Failed e), s1)
      | (Returned out None, s1) \<Rightarrow> (Inr out, s1))"

text \<open>
  The library weft provides \<open>Pipe3\<close> and \<open>Pure\<close>; they are parameters below. \<open>kleisli3\<close> states what
  composition means: the stages in order, up to the first failure.
\<close>

definition kleisli3 :: "('a, 'b, 's) arrow \<Rightarrow> ('b, 'c, 's) arrow \<Rightarrow> ('c, 'd, 's) arrow \<Rightarrow> ('a, 'd, 's) arrow" where
  "kleisli3 f g h x s =
     (case f x s of (Inl e, s1) \<Rightarrow> (Inl e, s1)
      | (Inr y, s1) \<Rightarrow> (case g y s1 of (Inl e, s2) \<Rightarrow> (Inl e, s2) | (Inr z, s2) \<Rightarrow> h z s2))"

definition newline :: string where "newline = [CHR 0x0A]"

definition research_system :: string where
  "research_system = ''You are a careful researcher. Answer the user's question concisely (2-4 sentences).'' @ newline
     @ ''If you previously answered and received critic feedback, revise your answer to address it.'' @ newline
     @ ''Return only the answer text, no preamble.''"

definition buildResearchRequest :: "(ResearchInput, CompletionRequest, 's) arrow" where
  "buildResearchRequest inp s =
     (let user = ''Question: '' @ ResearchQuestion inp @ newline;
          user1 = (if PreviousAnswer inp \<noteq> [] then
             user @ newline @ ''Your previous answer:'' @ newline @ PreviousAnswer inp @ newline else user);
          user2 = (if CriticFeedback inp \<noteq> [] then
             user1 @ newline @ ''Critic feedback to address:'' @ newline @ CriticFeedback inp @ newline else user1)
      in (Inr \<lparr>SystemPrompt = research_system, UserMessage = user2\<rparr>, s))"

type_synonym ('a, 'b, 's) pipe = "('a, CompletionRequest, 's) arrow \<Rightarrow> (CompletionRequest, string, 's) arrow \<Rightarrow>
  (string, 'b, 's) arrow \<Rightarrow> ('a, 'b, 's) arrow"

definition makeResearcherArrow :: "(ResearchInput, string, 's) pipe \<Rightarrow>
    ((string \<Rightarrow> string) \<Rightarrow> (string, string, 's) arrow) \<Rightarrow> 's CompleteFunc \<Rightarrow> (ResearchInput, string, 's) arrow" where
  "makeResearcherArrow Pipe3 Pure c = Pipe3 buildResearchRequest (complete_arrow c) (Pure trimResponse)"

definition critic_system :: string where
  "critic_system = ''You are a strict critic evaluating an answer to a question.'' @ newline
     @ ''Return a single JSON object with these fields:'' @ newline
     @ ''  - \"approved\": boolean, true only if the answer is clearly correct and complete'' @ newline
     @ ''  - \"confidence\": number between 0.0 and 1.0'' @ newline
     @ ''  - \"feedback\":  string, short critique pointing out what to improve (empty if approved)'' @ newline
     @ ''Do not include any text outside the JSON object.''"

definition buildCriticRequest :: "(CritiqueInput, CompletionRequest, 's) arrow" where
  "buildCriticRequest inp s =
     (Inr \<lparr>SystemPrompt = critic_system,
            UserMessage = ''Question: '' @ CritiqueQuestion inp @ newline @ newline @ ''Answer to evaluate (round ''
              @ Itoa (CritiqueRound inp) @ ''):'' @ newline @ CritiqueAnswer inp\<rparr>, s)"

text \<open>\<open>decode\<close> is the JSON decoder into a verdict: an error text or the value.\<close>

definition parseVerdict :: "(string \<Rightarrow> string + Verdict) \<Rightarrow> (string, Verdict, 's) arrow" where
  "parseVerdict decode raw s =
     (case decode (trimResponse raw) of
        Inl e \<Rightarrow> (Inl (BadResponse e raw), s)
      | Inr v \<Rightarrow>
          (Inr (if Confidence v < 0 then v\<lparr>Confidence := 0\<rparr>
                else if Confidence v > 1 then v\<lparr>Confidence := 1\<rparr> else v), s))"

definition makeCriticArrow :: "(CritiqueInput, Verdict, 's) pipe \<Rightarrow> (string \<Rightarrow> string + Verdict) \<Rightarrow>
    's CompleteFunc \<Rightarrow> (CritiqueInput, Verdict, 's) arrow" where
  "makeCriticArrow Pipe3 decode c = Pipe3 buildCriticRequest (complete_arrow c) (parseVerdict decode)"

text \<open>
  The activity methods. \<open>llm\<close> is \<open>None\<close> for a nil \<open>Activities.Complete\<close>; \<open>emit\<close> is the effect of the
  emitter of the activity, \<open>now\<close> the clock, \<open>show_failure\<close> the text of an error. Tracing spans
  are not modelled.
\<close>

definition Research :: "(ResearchInput, string, 's) pipe \<Rightarrow> ((string \<Rightarrow> string) \<Rightarrow> (string, string, 's) arrow) \<Rightarrow>
    (arrow_failure \<Rightarrow> string) \<Rightarrow> ('s \<Rightarrow> int) \<Rightarrow> ('p event \<Rightarrow> 's \<Rightarrow> 's) \<Rightarrow> 's CompleteFunc option \<Rightarrow>
    (ResearchInput, string, 's) arrow" where
  "Research Pipe3 Pure show_failure now emit llm inp s =
     (case llm of
        None \<Rightarrow> (Inl (Unconfigured ''Activities.Complete is nil''), s)
      | Some c \<Rightarrow>
          (let start = now s;
               s1 = emit (NewActivityStarted (now s) [] ''Research'' []) s
           in case makeResearcherArrow Pipe3 Pure c inp s1 of
                (Inl (Crashed p), s2) \<Rightarrow> (Inl (Crashed p), s2)
              | (Inl e, s2) \<Rightarrow>
                  (Inl e, emit (NewActivityCompleted (now s2) [] ''Research'' [] (Some (show_failure e)) (now s2 - start)) s2)
              | (Inr out, s2) \<Rightarrow>
                  (Inr out, emit (NewActivityCompleted (now s2) [] ''Research'' [] None (now s2 - start)) s2)))"

definition Critique :: "(CritiqueInput, Verdict, 's) pipe \<Rightarrow> (string \<Rightarrow> string + Verdict) \<Rightarrow>
    (arrow_failure \<Rightarrow> string) \<Rightarrow> ('s \<Rightarrow> int) \<Rightarrow> ('p event \<Rightarrow> 's \<Rightarrow> 's) \<Rightarrow> 's CompleteFunc option \<Rightarrow>
    (CritiqueInput, Verdict, 's) arrow" where
  "Critique Pipe3 decode show_failure now emit llm inp s =
     (case llm of
        None \<Rightarrow> (Inl (Unconfigured ''Activities.Complete is nil''), s)
      | Some c \<Rightarrow>
          (let start = now s;
               s1 = emit (NewActivityStarted (now s) [] ''Critique'' []) s
           in case makeCriticArrow Pipe3 decode c inp s1 of
                (Inl (Crashed p), s2) \<Rightarrow> (Inl (Crashed p), s2)
              | (Inl e, s2) \<Rightarrow>
                  (Inl e, emit (NewActivityCompleted (now s2) [] ''Critique'' [] (Some (show_failure e)) (now s2 - start)) s2)
              | (Inr v, s2) \<Rightarrow>
                  (Inr v, emit (NewActivityCompleted (now s2) [] ''Critique'' [] None (now s2 - start)) s2)))"

section \<open>The chain of rounds\<close>

text \<open>
  A history as a chain of calls: each round's research is asked with the candidate and the feedback
  of the round before, and its critique with that research and the round's number.
\<close>

fun rounds_chain :: "(ResearchInput, string, 's) activity \<Rightarrow> (CritiqueInput, Verdict, 's) activity \<Rightarrow>
    string \<Rightarrow> int \<Rightarrow> string \<Rightarrow> string \<Rightarrow> 's \<Rightarrow> Round list \<Rightarrow> 's \<Rightarrow> bool" where
  "rounds_chain research critique q n prev fb s [] s' \<longleftrightarrow> s' = s"
| "rounds_chain research critique q n prev fb s (r # rs) s' \<longleftrightarrow> RoundNumber r = n \<and>
     (\<exists>s1 s2. research \<lparr>ResearchQuestion = q, PreviousAnswer = prev, CriticFeedback = fb\<rparr> s =
          (Inr (RoundResearch r), s1) \<and>
        critique \<lparr>CritiqueQuestion = q, CritiqueAnswer = RoundResearch r, CritiqueRound = n\<rparr> s1 =
          (Inr (RoundVerdict r), s2) \<and>
        rounds_chain research critique q (n + 1) (RoundResearch r) (Feedback (RoundVerdict r)) s2 rs s')"

definition rejected :: "Round list \<Rightarrow> bool" where
  "rejected rs \<longleftrightarrow> (\<forall>r\<in>set rs. \<not> Approved (RoundVerdict r))"

lemma rejected_simps [simp]:
  "rejected []" "rejected (r # rs) \<longleftrightarrow> \<not> Approved (RoundVerdict r) \<and> rejected rs"
  by (auto simp: rejected_def)

text \<open>What the loop returns, from round \<open>n\<close> on: the new rounds, and how they end.\<close>

lemma converge_loop_Inr:
  assumes "converge_loop research critique q n prev fb answer s = (Inr a, s')"
  shows "\<exists>rs. History a = History answer @ rs \<and>
    rounds_chain research critique (QuestionText q) n prev fb s rs s' \<and>
    (if Converged a then rs \<noteq> [] \<and> rejected (butlast rs) \<and> Approved (RoundVerdict (last rs)) \<and>
       Rounds a = n + int (length rs) - 1 \<and> Rounds a \<le> MaxRounds q
     else rejected rs \<and> Rounds a = MaxRounds q \<and> int (length rs) = max 0 (MaxRounds q + 1 - n)) \<and>
    History a \<noteq> [] \<and> AnswerText a = RoundResearch (last (History a))"
  using assms
proof (induction research critique q n prev fb answer s arbitrary: a s' rule: converge_loop.induct)
  case (1 research critique q n prev fb answer s)
  show ?case
  proof (cases "n \<le> MaxRounds q")
    case False
    with "1.prems" show ?thesis
      by (subst (asm) converge_loop.simps) (auto split: if_splits)
  next
    case True
    let ?ri = "\<lparr>ResearchQuestion = QuestionText q, PreviousAnswer = prev, CriticFeedback = fb\<rparr>"
    obtain cand s1 where r: "research ?ri s = (Inr cand, s1)"
      using True "1.prems" by (subst (asm) converge_loop.simps) (auto split: prod.splits sum.splits)
    let ?ci = "\<lparr>CritiqueQuestion = QuestionText q, CritiqueAnswer = cand, CritiqueRound = n\<rparr>"
    obtain v s2 where c: "critique ?ci s1 = (Inr v, s2)"
      using True "1.prems" r by (subst (asm) converge_loop.simps) (auto split: prod.splits sum.splits)
    let ?round = "\<lparr>RoundNumber = n, RoundResearch = cand, RoundVerdict = v\<rparr>"
    let ?answer = "answer\<lparr>History := History answer @ [?round]\<rparr>"
    show ?thesis
    proof (cases "Approved v")
      case True
      with "1.prems" \<open>n \<le> MaxRounds q\<close> r c show ?thesis
        by (subst (asm) converge_loop.simps) (auto intro!: exI [of _ "[?round]"])
    next
      case False
      with "1.prems" \<open>n \<le> MaxRounds q\<close> r c
      have rest: "converge_loop research critique q (n + 1) cand (Feedback v) ?answer s2 = (Inr a, s')"
        by (subst (asm) converge_loop.simps) simp
      from "1.IH" [OF \<open>n \<le> MaxRounds q\<close> r [symmetric] refl c [symmetric] refl refl False this]
      obtain rs where rs: "History a = History ?answer @ rs"
        "rounds_chain research critique (QuestionText q) (n + 1) cand (Feedback v) s2 rs s'"
        "if Converged a then rs \<noteq> [] \<and> rejected (butlast rs) \<and> Approved (RoundVerdict (last rs)) \<and>
           Rounds a = n + 1 + int (length rs) - 1 \<and> Rounds a \<le> MaxRounds q
         else rejected rs \<and> Rounds a = MaxRounds q \<and> int (length rs) = max 0 (MaxRounds q + 1 - (n + 1))"
        "AnswerText a = RoundResearch (last (History a))" by blast
      with r c False \<open>n \<le> MaxRounds q\<close> show ?thesis
        by (intro exI [of _ "?round # rs"]) (auto split: if_splits)
    qed
  qed
qed


text \<open>Where a failing loop stops: after \<open>rs\<close> rejected rounds, at a call that failed.\<close>

definition fails_at :: "(ResearchInput, string, 's) activity \<Rightarrow> (CritiqueInput, Verdict, 's) activity \<Rightarrow>
    string \<Rightarrow> int \<Rightarrow> string \<Rightarrow> string \<Rightarrow> 's \<Rightarrow> converge_error \<Rightarrow> 's \<Rightarrow> bool" where
  "fails_at research critique q n prev fb s e s' \<longleftrightarrow>
     (let ri = \<lparr>ResearchQuestion = q, PreviousAnswer = prev, CriticFeedback = fb\<rparr>
      in (\<exists>msg. e = ResearchFailed n msg \<and> research ri s = (Inl msg, s')) \<or>
         (\<exists>msg cand s1. e = CritiqueFailed n msg \<and> research ri s = (Inr cand, s1) \<and>
            critique \<lparr>CritiqueQuestion = q, CritiqueAnswer = cand, CritiqueRound = n\<rparr> s1 = (Inl msg, s')))"

definition carried :: "string \<Rightarrow> string \<Rightarrow> Round list \<Rightarrow> string \<times> string" where
  "carried prev fb rs = (if rs = [] then (prev, fb)
     else (RoundResearch (last rs), Feedback (RoundVerdict (last rs))))"

lemma converge_loop_Inl:
  assumes "converge_loop research critique q n prev fb answer s = (Inl e, s')" "n \<le> MaxRounds q \<or> History answer \<noteq> []"
  shows "\<exists>rs s1. rounds_chain research critique (QuestionText q) n prev fb s rs s1 \<and> rejected rs \<and>
    n + int (length rs) \<le> MaxRounds q \<and>
    fails_at research critique (QuestionText q) (n + int (length rs)) (fst (carried prev fb rs))
      (snd (carried prev fb rs)) s1 e s'"
  using assms
proof (induction research critique q n prev fb answer s arbitrary: s' rule: converge_loop.induct)
  case (1 research critique q n prev fb answer s)
  let ?ri = "\<lparr>ResearchQuestion = QuestionText q, PreviousAnswer = prev, CriticFeedback = fb\<rparr>"
  have n: "n \<le> MaxRounds q"
    using "1.prems" by (subst (asm) converge_loop.simps) (auto split: if_splits)
  show ?case
  proof (cases "research ?ri s")
    case (Pair r s1)
    show ?thesis
    proof (cases r)
      case (Inl msg)
      with "1.prems" n Pair have "e = ResearchFailed n msg" "s' = s1"
        by (subst (asm) converge_loop.simps, simp)+
      with Pair Inl n show ?thesis
        by (intro exI [of _ "[]"] exI [of _ s]) (simp add: fails_at_def carried_def)
    next
      case (Inr cand)
      let ?ci = "\<lparr>CritiqueQuestion = QuestionText q, CritiqueAnswer = cand, CritiqueRound = n\<rparr>"
      obtain c s2 where c: "critique ?ci s1 = (c, s2)" by (cases "critique ?ci s1")
      show ?thesis
      proof (cases c)
        case (Inl msg)
        with "1.prems" n Pair Inr c have "e = CritiqueFailed n msg" "s' = s2"
          by (subst (asm) converge_loop.simps, simp)+
        with Pair Inr Inl c n show ?thesis
          by (intro exI [of _ "[]"] exI [of _ s]) (simp add: fails_at_def carried_def)
      next
        case v: (Inr v)
        let ?round = "\<lparr>RoundNumber = n, RoundResearch = cand, RoundVerdict = v\<rparr>"
        let ?answer = "answer\<lparr>History := History answer @ [?round]\<rparr>"
        have app: "\<not> Approved v"
          using "1.prems" n Pair Inr c v by (subst (asm) converge_loop.simps) (auto split: if_splits)
        with "1.prems" n Pair Inr c v
        have rest: "converge_loop research critique q (n + 1) cand (Feedback v) ?answer s2 = (Inl e, s')"
          by (subst (asm) converge_loop.simps) simp
        have r': "(Inr cand, s1) = research ?ri s" "(Inr v, s2) = critique ?ci s1" using Pair Inr c v by auto
        from "1.IH" [OF n r'(1) refl r'(2) refl refl app rest]
        obtain rs s3 where rs: "rounds_chain research critique (QuestionText q) (n + 1) cand (Feedback v) s2 rs s3"
          "rejected rs" "n + 1 + int (length rs) \<le> MaxRounds q"
          "fails_at research critique (QuestionText q) (n + 1 + int (length rs)) (fst (carried cand (Feedback v) rs))
             (snd (carried cand (Feedback v) rs)) s3 e s'" by auto
        have "carried prev fb (?round # rs) = carried cand (Feedback v) rs"
          by (simp add: carried_def)
        with rs app Pair Inr c v show ?thesis
          by (intro exI [of _ "?round # rs"] exI [of _ s3]) (auto simp: algebra_simps)
      qed
    qed
  qed
qed

section \<open>Properties\<close>

text \<open>
  C10: an answer of the workflow is the end of a genuine chain of rounds, numbered from 1, in which every
  research was asked with the previous candidate and the critic's feedback on it. The workflow
  returns at the first approval, and converged answers are approved answers; without approval it
  has run exactly \<open>MaxRounds\<close> rounds and returns the last candidate.
\<close>

theorem ConvergeWorkflow_answer:
  assumes "ConvergeWorkflow research critique q s = (Inr a, s')"
  shows "0 < MaxRounds q \<and> rounds_chain research critique (QuestionText q) 1 [] [] s (History a) s' \<and>
    rejected (butlast (History a)) \<and> History a \<noteq> [] \<and>
    (Converged a \<longleftrightarrow> Approved (RoundVerdict (last (History a)))) \<and>
    AnswerText a = RoundResearch (last (History a)) \<and>
    Rounds a = int (length (History a)) \<and> Rounds a \<le> MaxRounds q \<and>
    (\<not> Converged a \<longrightarrow> Rounds a = MaxRounds q)"
proof -
  have q: "0 < MaxRounds q" and loop: "converge_loop research critique q 1 [] [] empty_answer s = (Inr a, s')"
    using assms by (auto simp: ConvergeWorkflow_def split: if_splits)
  from converge_loop_Inr [OF loop] obtain rs where rs: "History a = rs"
    "rounds_chain research critique (QuestionText q) 1 [] [] s rs s'"
    "if Converged a then rs \<noteq> [] \<and> rejected (butlast rs) \<and> Approved (RoundVerdict (last rs)) \<and>
       Rounds a = 1 + int (length rs) - 1 \<and> Rounds a \<le> MaxRounds q
     else rejected rs \<and> Rounds a = MaxRounds q \<and> int (length rs) = max 0 (MaxRounds q + 1 - 1)"
    "History a \<noteq> []" "AnswerText a = RoundResearch (last (History a))"
    by (auto simp: empty_answer_def)
  have "rejected rs \<Longrightarrow> rejected (butlast rs) \<and> \<not> Approved (RoundVerdict (last rs))" if "rs \<noteq> []"
    using that by (auto simp: rejected_def dest: in_set_butlastD)
  with rs q show ?thesis by (auto split: if_splits)
qed

text \<open>A world that counts its calls: the critic approves from its second verdict on.\<close>

definition demo_research :: "(ResearchInput, string, nat) activity" where
  "demo_research inp n = (Inr (''answer '' @ Itoa (int n)), Suc n)"

definition demo_critique :: "(CritiqueInput, Verdict, nat) activity" where
  "demo_critique inp n =
     (Inr \<lparr>Approved = CritiqueRound inp \<ge> 2, Confidence = 1, Feedback = ''more''\<rparr>, Suc n)"

lemma demo_converge:
  "case ConvergeWorkflow demo_research demo_critique \<lparr>QuestionText = ''q'', MaxRounds = 3\<rparr> 0 of
     (Inr a, s) \<Rightarrow> Rounds a = 2 \<and> s = 4 \<and> AnswerText a = ''answer 2'' | _ \<Rightarrow> False"
  by code_simp

theorem ConvergeWorkflow_answer_witness:
  "\<exists>a s'. ConvergeWorkflow demo_research demo_critique \<lparr>QuestionText = ''q'', MaxRounds = 3\<rparr> 0 = (Inr a, s') \<and>
     Rounds a = 2 \<and> length (History a) = 2"
proof -
  obtain a s' where r: "ConvergeWorkflow demo_research demo_critique \<lparr>QuestionText = ''q'', MaxRounds = 3\<rparr> 0 = (Inr a, s')"
    and "Rounds a = 2"
    using demo_converge by (auto split: prod.splits sum.splits)
  with ConvergeWorkflow_answer [OF r] show ?thesis by auto
qed

text \<open>
  A failing workflow either refused its input without calling any activity, or stopped at the first
  failing call, within \<open>MaxRounds\<close>, after a genuine chain of rejected rounds; it reports that round and
  that error, and never reads an empty history.
\<close>

theorem ConvergeWorkflow_error:
  assumes "ConvergeWorkflow research critique q s = (Inl e, s')"
  shows "(MaxRounds q \<le> 0 \<and> e = MaxRoundsNotPositive \<and> s' = s) \<or>
    (0 < MaxRounds q \<and> QuestionText q = [] \<and> e = EmptyQuestion \<and> s' = s) \<or>
    (\<exists>rs s1. rounds_chain research critique (QuestionText q) 1 [] [] s rs s1 \<and> rejected rs \<and>
       1 + int (length rs) \<le> MaxRounds q \<and>
       fails_at research critique (QuestionText q) (1 + int (length rs)) (fst (carried [] [] rs))
         (snd (carried [] [] rs)) s1 e s')"
  using assms converge_loop_Inl [of research critique q 1 "[]" "[]" empty_answer s e s']
  by (auto simp: ConvergeWorkflow_def split: if_splits)

theorem ConvergeWorkflow_error_witness:
  "\<exists>rs s1. rejected rs \<and> fails_at demo_research (\<lambda>inp n. (Inl ''down'', n)) ''q'' (1 + int (length rs))
     (fst (carried [] [] rs)) (snd (carried [] [] rs)) s1 (CritiqueFailed 1 ''down'') 1"
proof -
  have "ConvergeWorkflow demo_research (\<lambda>inp n. (Inl ''down'', n)) \<lparr>QuestionText = ''q'', MaxRounds = 3\<rparr> 0 =
      (Inl (CritiqueFailed 1 ''down''), 1)"
    by (simp add: ConvergeWorkflow_def converge_loop.simps [of _ _ _ 1] demo_research_def)
  from ConvergeWorkflow_error [OF this] show ?thesis by auto
qed

lemma parseVerdict_bounds:
  "parseVerdict decode raw s = (Inr v, s') \<Longrightarrow> 0 \<le> Confidence v \<and> Confidence v \<le> 1 \<and> s' = s \<and>
     (\<exists>v0. decode (trimResponse raw) = Inr v0 \<and> Approved v = Approved v0 \<and> Feedback v = Feedback v0)"
  by (auto simp: parseVerdict_def split: sum.splits if_splits)

text \<open>
  A verdict of the critic activity has a confidence between 0 and 1 whatever the model wrote, and
  its approval and feedback are those of the decoded reply of one call to the model on the critic's
  prompt.
\<close>

theorem Critique_verdict:
  assumes "Pipe3 = kleisli3" "Critique Pipe3 decode show_failure now emit (Some c) inp s = (Inr v, s')"
  shows "0 \<le> Confidence v \<and> Confidence v \<le> 1 \<and>
    (\<exists>raw v0 s1 s2. c critic_system (UserMessage (projr (fst (buildCriticRequest inp s)))) s1 = (Returned raw None, s2) \<and>
       decode (trimResponse raw) = Inr v0 \<and> Approved v = Approved v0 \<and> Feedback v = Feedback v0)"
proof -
  let ?s1 = "emit (NewActivityStarted (now s) [] ''Critique'' []) s"
  let ?req = "projr (fst (buildCriticRequest inp s))"
  obtain s2 where k: "makeCriticArrow Pipe3 decode c inp ?s1 = (Inr v, s2)"
    using assms(2) by (auto simp: Critique_def Let_def split: prod.splits sum.splits arrow_failure.splits)
  have req: "buildCriticRequest inp ?s1 = (Inr ?req, ?s1)" "SystemPrompt ?req = critic_system"
    by (simp_all add: buildCriticRequest_def)
  obtain raw s3 where ca: "complete_arrow c ?req ?s1 = (Inr raw, s3)" and pv: "parseVerdict decode raw s3 = (Inr v, s2)"
    using k req(1) by (auto simp: makeCriticArrow_def assms(1) kleisli3_def split: prod.splits sum.splits)
  from ca req(2) have "c critic_system (UserMessage ?req) ?s1 = (Returned raw None, s3)"
    by (auto simp: complete_arrow_def CompleteAsArrow_def split: prod.splits reply.splits option.splits)
  with parseVerdict_bounds [OF pv] show ?thesis by blast
qed

theorem Critique_verdict_witness:
  "\<exists>v s'. Critique kleisli3 (\<lambda>raw. Inr \<lparr>Approved = True, Confidence = 7, Feedback = raw\<rparr>) (\<lambda>_. []) (\<lambda>_. 0)
     (\<lambda>(ev :: unit event) n. Suc n) (Some (\<lambda>sys user n. (Returned ''ok'' None, n)))
     \<lparr>CritiqueQuestion = ''q'', CritiqueAnswer = ''a'', CritiqueRound = 1\<rparr> (0::nat) = (Inr v, s') \<and>
     s' = 2 \<and> Confidence v \<le> 1"
proof -
  let ?c = "Critique kleisli3 (\<lambda>raw. Inr \<lparr>Approved = True, Confidence = 7, Feedback = raw\<rparr>) (\<lambda>_. []) (\<lambda>_. 0)
     (\<lambda>(ev :: unit event) n. Suc n) (Some (\<lambda>sys user n. (Returned ''ok'' None, n)))
     \<lparr>CritiqueQuestion = ''q'', CritiqueAnswer = ''a'', CritiqueRound = 1\<rparr> (0::nat)"
  obtain v s' where r: "?c = (Inr v, s')" "s' = 2"
    by (simp add: Critique_def makeCriticArrow_def kleisli3_def buildCriticRequest_def complete_arrow_def
        CompleteAsArrow_def parseVerdict_def Let_def)
  from Critique_verdict [OF refl r(1)] r show ?thesis by blast
qed

end
