(* ===== verification/Supervisor.thy ===== *)
theory Supervisor
  imports Converge "HOL-Library.Sublist"
begin

text \<open>
  Package agent, files \<^verbatim>\<open>decompose.go\<close>, \<^verbatim>\<open>supervisor.go\<close>, \<^verbatim>\<open>synthesize_llm.go\<close> and
  \<^verbatim>\<open>convergence_arrows.go\<close>: splitting a question, answering the parts by child workflows, and merging
  the answers.

  A slice expression outside its string panics in Go: the functions that slice return \<open>None\<close> then.
  Activities and child workflows are parameters, as in theory Converge. \<open>ul\<close> is what lower-casing
  does to text outside ASCII, \<open>quote\<close> the quoting of the verb q of Go's formatter.
\<close>

section \<open>Data\<close>

record SubQuestion =
  SubIndex :: int
  SubText :: string

record SubAnswer =
  AnsSubQuestion :: SubQuestion
  AnsAnswer :: string
  AnsConverged :: bool
  AnsRounds :: int
  AnsError :: string

record SupervisorInput =
  SupQuestion :: string
  MaxRoundsPerChild :: int
  MaxSubQuestions :: int

record SupervisorOutput =
  Synthesis :: string
  SubAnswers :: "SubAnswer list"
  SuccessCount :: int
  FailureCount :: int

record DecomposeInput =
  DecQuestion :: string
  DecMaxSubQuestions :: int

section \<open>Splitting\<close>

text \<open>
  The loop of \<open>splitCaseInsensitive\<close>, from \<open>start\<close> on. Its caller has returned when \<open>sep\<close> is empty. The
  indices come from the lower-cased text and slice both texts.
\<close>

function split_loop :: "string \<Rightarrow> string \<Rightarrow> string \<Rightarrow> string \<Rightarrow> nat \<Rightarrow> string list \<Rightarrow> string list option" where
  "split_loop s sep lowerS lowerSep start out =
     (if sep = [] \<or> start > length lowerS then None
      else case Index (drop start lowerS) lowerSep of
        None \<Rightarrow> if start > length s then None else Some (out @ [drop start s])
      | Some found \<Rightarrow>
          if start + found > length s then None
          else split_loop s sep lowerS lowerSep (start + found + length sep)
                 (out @ [take found (drop start s)]))"
  by pat_completeness auto
termination
  by (relation "measure (\<lambda>(s, sep, lowerS, lowerSep, start, out). Suc (length lowerS) - start)")
    (auto intro!: diff_less_mono2)

declare split_loop.simps [simp del]

definition splitCaseInsensitive :: "(string \<Rightarrow> string) \<Rightarrow> string \<Rightarrow> string \<Rightarrow> string list option" where
  "splitCaseInsensitive ul s sep =
     (if sep = [] then Some [s] else split_loop s sep (ToLower ul s) (ToLower ul sep) 0 [])"

definition keep_nonempty :: "string list \<Rightarrow> string list" where
  "keep_nonempty parts = filter (\<lambda>p. p \<noteq> []) (map TrimSpace parts)"

definition splitters :: "string list" where
  "splitters = [''; '', '' versus '', '' compared to '', '' vs. '', '' vs '', '' and '']"

fun try_splitters :: "(string \<Rightarrow> string) \<Rightarrow> string \<Rightarrow> string list \<Rightarrow> string list option" where
  "try_splitters ul text [] = Some [text]"
| "try_splitters ul text (sep # seps) =
     (case Index (ToLower ul text) sep of
        None \<Rightarrow> try_splitters ul text seps
      | Some found \<Rightarrow>
          (case splitCaseInsensitive ul text sep of
             None \<Rightarrow> None
           | Some parts \<Rightarrow>
               (let out = keep_nonempty parts
                in if length out \<ge> 2 then Some out else try_splitters ul text seps)))"

definition question_parts :: "string \<Rightarrow> string list" where
  "question_parts text = map (\<lambda>r. r @ ''?'') (keep_nonempty (split_byte CHR ''?'' text))"

definition splitHeuristic :: "(string \<Rightarrow> string) \<Rightarrow> string \<Rightarrow> string list option" where
  "splitHeuristic ul text0 =
     (let text = TrimSpace text0
      in if text = [] then Some []
         else if count_list text CHR ''?'' \<ge> 2 \<and> length (question_parts text) \<ge> 2
           then Some (question_parts text)
         else try_splitters ul text splitters)"

definition decomposeArrow :: "(string \<Rightarrow> string) \<Rightarrow> Question \<Rightarrow> SubQuestion list option" where
  "decomposeArrow ul q =
     (case splitHeuristic ul (QuestionText q) of
        None \<Rightarrow> None
      | Some parts \<Rightarrow> Some (map (\<lambda>(i, p). \<lparr>SubIndex = int i, SubText = p\<rparr>) (enumerate 0 parts)))"

definition applyMaxSubQuestions :: "SubQuestion list \<Rightarrow> int \<Rightarrow> SubQuestion list" where
  "applyMaxSubQuestions qs n = (if n \<le> 0 \<or> int (length qs) \<le> n then qs else take (nat n) qs)"

definition Decompose :: "(string \<Rightarrow> string) \<Rightarrow> DecomposeInput \<Rightarrow> SubQuestion list option" where
  "Decompose ul inp =
     (case decomposeArrow ul \<lparr>QuestionText = DecQuestion inp, MaxRounds = 0\<rparr> of
        None \<Rightarrow> None
      | Some qs \<Rightarrow> Some (applyMaxSubQuestions qs (DecMaxSubQuestions inp)))"

section \<open>Synthesis\<close>

text \<open>The loop of \<open>synthesizeArrow\<close>: the text built so far and the failures met.\<close>

fun synth_loop :: "string \<Rightarrow> SubAnswer list \<Rightarrow> SubAnswer list \<Rightarrow> string \<times> SubAnswer list" where
  "synth_loop b failures [] = (b, failures)"
| "synth_loop b failures (a # as) =
     (if AnsError a \<noteq> [] then synth_loop b (failures @ [a]) as
      else synth_loop ((if length b > 0 then b @ newline @ newline else b) @ ''## '' @ SubText (AnsSubQuestion a)
             @ newline @ newline @ AnsAnswer a) failures as)"

definition synthesizeArrow :: "(string \<Rightarrow> string) \<Rightarrow> SubAnswer list \<Rightarrow> string" where
  "synthesizeArrow quote sas =
     (if length sas = 0 then []
      else (case synth_loop [] [] sas of
        (b, failures) \<Rightarrow>
          if length failures > 0 then
            (if length b > 0 then b @ newline @ newline else b) @ ''---'' @ newline @ newline
              @ ''The following sub-questions could not be answered:''
              @ concat (map (\<lambda>f. newline @ ''- '' @ quote (SubText (AnsSubQuestion f)) @ '' ('' @ AnsError f @ '')'') failures)
          else b))"

text \<open>\<open>syn\<close> is the synthesizer field of the activities, \<open>None\<close> when it is not set.\<close>

definition Synthesize :: "(string \<Rightarrow> string) \<Rightarrow> (SubAnswer list, string, 's) arrow option \<Rightarrow>
    (SubAnswer list, string, 's) arrow" where
  "Synthesize quote syn sas s =
     (case syn of None \<Rightarrow> (Inr (synthesizeArrow quote sas), s) | Some f \<Rightarrow> f sas s)"

fun strip_trailing :: "char \<Rightarrow> string \<Rightarrow> string" where
  "strip_trailing c s = rev (dropWhile (\<lambda>x. x = c) (rev s))"

definition synthesis_system :: string where
  "synthesis_system = ''You are a synthesis editor merging multiple research sub-answers into one coherent final answer.''
     @ newline @ newline @ ''Guidelines:'' @ newline
     @ ''- Produce a single, unified answer in clean prose. Do NOT keep sub-headings or use bullet-per-subquestion format.'' @ newline
     @ ''- Cross-reference between sub-answers when relevant '' @ [CHR 0xE2, CHR 0x80, CHR 0x94]
     @ '' show how they relate, contradict, or complement each other.'' @ newline
     @ ''- Drop redundancies. Keep specifics (numbers, names, terms) that any sub-answer mentioned.'' @ newline
     @ ''- If some sub-answers failed (Error set, Answer empty), briefly note what couldn't be answered at the end, in one sentence.'' @ newline
     @ ''- Match the granularity of the inputs: don't add new facts the sub-answers didn't already cover.'' @ newline
     @ ''Return only the synthesized answer, no preamble.''"

definition synthesis_entry :: "SubAnswer \<Rightarrow> string" where
  "synthesis_entry sa =
     (if AnsError sa \<noteq> [] then ''### Sub-question (FAILED): '' @ SubText (AnsSubQuestion sa) @ newline
        @ ''Error: '' @ AnsError sa @ newline @ newline
      else ''### Sub-question: '' @ SubText (AnsSubQuestion sa) @ newline @ AnsAnswer sa @ newline @ newline)"

definition buildSynthesisRequest :: "(SubAnswer list, CompletionRequest, 's) arrow" where
  "buildSynthesisRequest sas s =
     (Inr \<lparr>SystemPrompt = synthesis_system,
            UserMessage = strip_trailing CHR 0x0A
              (''Sub-answers to merge:'' @ newline @ newline @ concat (map synthesis_entry sas))\<rparr>, s)"

definition LLMSynthesizer :: "(SubAnswer list, string, 's) pipe \<Rightarrow> ((string \<Rightarrow> string) \<Rightarrow> (string, string, 's) arrow) \<Rightarrow>
    's CompleteFunc option \<Rightarrow> (SubAnswer list, string, 's) arrow" where
  "LLMSynthesizer Pipe3 Pure c =
     (case c of
        None \<Rightarrow> (\<lambda>sas s. (Inl (Unconfigured ''LLMSynthesizer: CompleteFunc is nil''), s))
      | Some f \<Rightarrow> Pipe3 buildSynthesisRequest (complete_arrow f) (Pure trimResponse))"

section \<open>The supervisor workflow\<close>

text \<open>
  The outcomes of the workflow. When all children fail, Go returns the partial output beside the error.
\<close>

datatype supervisor_error =
    NoQuestion
  | NoRounds
  | DecomposeFailed string
  | AllChildrenFailed SupervisorOutput int string
  | SynthesisFailed string
  | SupervisorPanic string

record ChildStart =
  ChildID :: string
  ChildQuestion :: Question

definition start_child :: "string \<Rightarrow> int \<Rightarrow> SubQuestion \<Rightarrow> ChildStart" where
  "start_child parentID maxRounds sq =
     \<lparr>ChildID = parentID @ ''-sub-'' @ Itoa (SubIndex sq),
      ChildQuestion = \<lparr>QuestionText = SubText sq, MaxRounds = maxRounds\<rparr>\<rparr>"

text \<open>One awaited child: its answer or the text of its error.\<close>

definition collect_child :: "SubQuestion \<Rightarrow> string + Answer \<Rightarrow> SubAnswer" where
  "collect_child sq r =
     (case r of
        Inl e \<Rightarrow> \<lparr>AnsSubQuestion = sq, AnsAnswer = [], AnsConverged = False, AnsRounds = 0, AnsError = e\<rparr>
      | Inr a \<Rightarrow> \<lparr>AnsSubQuestion = sq, AnsAnswer = AnswerText a, AnsConverged = Converged a,
                  AnsRounds = Rounds a, AnsError = []\<rparr>)"

fun collect_children :: "(ChildStart \<Rightarrow> string + Answer) \<Rightarrow> (SubQuestion \<times> ChildStart) list \<Rightarrow>
    SubAnswer list \<Rightarrow> int \<Rightarrow> int \<Rightarrow> SubAnswer list \<times> int \<times> int" where
  "collect_children child [] subAnswers successCount failureCount = (subAnswers, successCount, failureCount)"
| "collect_children child ((sq, f) # futures) subAnswers successCount failureCount =
     (case child f of
        Inl e \<Rightarrow> collect_children child futures (subAnswers @ [collect_child sq (Inl e)]) successCount (failureCount + 1)
      | Inr a \<Rightarrow> collect_children child futures (subAnswers @ [collect_child sq (Inr a)]) (successCount + 1) failureCount)"

text \<open>
  \<open>decompose\<close>, \<open>child\<close> and \<open>synthesize\<close> are the outcomes of the activities and of the child workflows;
  the first component of the result lists the children started, in order.
\<close>

definition SupervisorWorkflow :: "(DecomposeInput \<Rightarrow> string + SubQuestion list) \<Rightarrow> (ChildStart \<Rightarrow> string + Answer) \<Rightarrow>
    (SubAnswer list \<Rightarrow> string + string) \<Rightarrow> string \<Rightarrow> SupervisorInput \<Rightarrow>
    ChildStart list \<times> (supervisor_error + SupervisorOutput)" where
  "SupervisorWorkflow decompose child synthesize parentID inp =
     (if SupQuestion inp = [] then ([], Inl NoQuestion)
      else if MaxRoundsPerChild inp \<le> 0 then ([], Inl NoRounds)
      else (let maxSubs = (if MaxSubQuestions inp = 0 then 5 else MaxSubQuestions inp)
        in case decompose \<lparr>DecQuestion = SupQuestion inp, DecMaxSubQuestions = maxSubs\<rparr> of
          Inl e \<Rightarrow> ([], Inl (DecomposeFailed e))
        | Inr subQuestions \<Rightarrow>
            (let starts = map (start_child parentID (MaxRoundsPerChild inp)) subQuestions
             in case collect_children child (zip subQuestions starts) [] 0 0 of
               (subAnswers, successCount, failureCount) \<Rightarrow>
                 (starts,
                  if successCount = 0 then
                    (case subAnswers of
                       [] \<Rightarrow> Inl (SupervisorPanic ''index out of range'')
                     | a # _ \<Rightarrow> Inl (AllChildrenFailed
                         \<lparr>Synthesis = [], SubAnswers = subAnswers, SuccessCount = 0, FailureCount = failureCount\<rparr>
                         failureCount (AnsError a)))
                  else (case synthesize subAnswers of
                    Inl e \<Rightarrow> Inl (SynthesisFailed e)
                  | Inr synthesis \<Rightarrow> Inr \<lparr>Synthesis = synthesis, SubAnswers = subAnswers,
                      SuccessCount = successCount, FailureCount = failureCount\<rparr>)))))"

section \<open>The workflows as arrows\<close>

text \<open>
  \<open>run\<close> is what starting the child workflow and awaiting it gives; \<open>client\<close> is \<open>None\<close> for a nil client,
  else the outcome of \<open>ExecuteWorkflow\<close>: an error, or a run whose \<open>Get\<close> gives the result.
\<close>

datatype arrow_error = ChildFailed string | NilClient | NoTaskQueue | StartError string | RunFailed string

definition ChildConvergeArrow :: "(string \<Rightarrow> Question \<Rightarrow> string + Answer) \<Rightarrow> Question \<Rightarrow> arrow_error + Answer" where
  "ChildConvergeArrow run q =
     (case run ''ConvergeWorkflow'' q of Inl e \<Rightarrow> Inl (ChildFailed e) | Inr out \<Rightarrow> Inr out)"

definition ConvergeArrow :: "(string \<Rightarrow> Question \<Rightarrow> string + (string + Answer)) option \<Rightarrow> string \<Rightarrow>
    Question \<Rightarrow> arrow_error + Answer" where
  "ConvergeArrow client taskQueue q =
     (case client of
        None \<Rightarrow> Inl NilClient
      | Some execute \<Rightarrow>
          if taskQueue = [] then Inl NoTaskQueue
          else (case execute ''ConvergeWorkflow'' q of
            Inl e \<Rightarrow> Inl (StartError e)
          | Inr we \<Rightarrow> (case we of Inl e \<Rightarrow> Inl (RunFailed e) | Inr out \<Rightarrow> Inr out)))"

definition ChildSupervisorArrow :: "(string \<Rightarrow> SupervisorInput \<Rightarrow> string + SupervisorOutput) \<Rightarrow>
    SupervisorInput \<Rightarrow> arrow_error + SupervisorOutput" where
  "ChildSupervisorArrow run inp =
     (case run ''SupervisorWorkflow'' inp of Inl e \<Rightarrow> Inl (ChildFailed e) | Inr out \<Rightarrow> Inr out)"

definition SupervisorArrow :: "(string \<Rightarrow> SupervisorInput \<Rightarrow> string + (string + SupervisorOutput)) option \<Rightarrow> string \<Rightarrow>
    SupervisorInput \<Rightarrow> arrow_error + SupervisorOutput" where
  "SupervisorArrow client taskQueue inp =
     (case client of
        None \<Rightarrow> Inl NilClient
      | Some execute \<Rightarrow>
          if taskQueue = [] then Inl NoTaskQueue
          else (case execute ''SupervisorWorkflow'' inp of
            Inl e \<Rightarrow> Inl (StartError e)
          | Inr we \<Rightarrow> (case we of Inl e \<Rightarrow> Inl (RunFailed e) | Inr out \<Rightarrow> Inr out)))"


section \<open>Splitting loses nothing but separators\<close>

text \<open>\<open>parts\<close> and occurrences of the separator, equal to it up to \<open>f\<close>, alternate in \<open>t\<close>.\<close>

fun woven :: "(char \<Rightarrow> char) \<Rightarrow> string \<Rightarrow> string list \<Rightarrow> string \<Rightarrow> bool" where
  "woven f sep [] t \<longleftrightarrow> False"
| "woven f sep [p] t \<longleftrightarrow> t = p"
| "woven f sep (p # q # ps) t \<longleftrightarrow> (\<exists>x r. t = p @ x @ r \<and> map f x = map f sep \<and> woven f sep (q # ps) r)"

lemma woven_Cons: "ps \<noteq> [] \<Longrightarrow> woven f sep (p # ps) t \<longleftrightarrow>
    (\<exists>x r. t = p @ x @ r \<and> map f x = map f sep \<and> woven f sep ps r)"
  by (cases ps) auto

lemma woven_sublist: "woven f sep parts t \<Longrightarrow> p \<in> set parts \<Longrightarrow> sublist p t"
proof (induction f sep parts t rule: woven.induct)
  case (3 f sep q q' ps t)
  then obtain x r where t: "t = q @ x @ r" "woven f sep (q' # ps) r" by auto
  show ?case
  proof (cases "p = q")
    case True
    then show ?thesis using t by (auto simp: sublist_def)
  next
    case False
    then have "sublist p r" using 3 t(2) by simp
    then show ?thesis using t(1) by (auto simp: sublist_append)
  qed
qed auto

lemma split_loop_woven:
  assumes "sep \<noteq> []" "start \<le> length s" "lowerS = map f s" "lowerSep = map f sep"
  shows "\<exists>parts. split_loop s sep lowerS lowerSep start out = Some (out @ parts) \<and> parts \<noteq> [] \<and>
    woven f sep parts (drop start s)"
  using assms
proof (induction s sep lowerS lowerSep start out rule: split_loop.induct)
  case (1 s sep lowerS lowerSep start out)
  have start: "\<not> (sep = [] \<or> start > length lowerS)" using "1.prems" by simp
  show ?case
  proof (cases "Index (drop start lowerS) lowerSep")
    case None
    then show ?thesis using start "1.prems"
      by (intro exI [of _ "[drop start s]"]) (simp add: split_loop.simps [of s])
  next
    case (Some i)
    from Index_Some [OF Some] "1.prems" have i: "start + i + length sep \<le> length s"
      "take (length sep) (drop (start + i) (map f s)) = map f sep"
      by (auto simp: add.commute)
    then have "\<not> start + i > length s" by simp
    from "1.IH" [OF start Some this] "1.prems" i(1) obtain parts where
      parts: "split_loop s sep lowerS lowerSep (start + i + length sep) (out @ [take i (drop start s)]) =
        Some ((out @ [take i (drop start s)]) @ parts)" "parts \<noteq> []"
      "woven f sep parts (drop (start + i + length sep) s)" by auto
    have "drop start s = take i (drop start s) @ take (length sep) (drop (start + i) s) @
        drop (start + i + length sep) s"
      by (metis append_take_drop_id drop_drop add.commute)
    moreover have "map f (take (length sep) (drop (start + i) s)) = map f sep"
      using i(2) by (simp add: take_map drop_map)
    ultimately have "woven f sep (take i (drop start s) # parts) (drop start s)"
      unfolding woven_Cons [OF parts(2)] using parts(3) by blast
    moreover have "split_loop s sep lowerS lowerSep start out =
        Some (out @ take i (drop start s) # parts)"
      using start Some i(1) parts(1) by (simp add: split_loop.simps [of s sep lowerS lowerSep start])
    ultimately show ?thesis by blast
  qed
qed

lemma split_ascii:
  assumes "ascii s" "ascii sep" "sep \<noteq> []"
  shows "\<exists>parts. splitCaseInsensitive ul s sep = Some parts \<and> woven lower_byte sep parts s"
  using split_loop_woven [OF assms(3), of 0 s "map lower_byte s" lower_byte "map lower_byte sep" "[]"] assms
  by (auto simp: splitCaseInsensitive_def ToLower_def)

text \<open>A part of a text: trimmed, not empty, and a contiguous piece of it.\<close>

definition piece_of :: "string \<Rightarrow> string \<Rightarrow> bool" where
  "piece_of text r \<longleftrightarrow> trimmed r \<and> r \<noteq> [] \<and> sublist r text"

lemma sublist_TrimSpace: "sublist (TrimSpace s) s"
  using TrimSpace_inner [of s] by (metis sublist_def append_assoc)

lemma keep_nonempty_pieces:
  assumes "\<forall>p\<in>set parts. sublist p text" "r \<in> set (keep_nonempty parts)"
  shows "piece_of text r"
  using assms sublist_TrimSpace sublist_order.order_trans
  by (fastforce simp: keep_nonempty_def piece_of_def trimmed_TrimSpace)

lemma ascii_sublist: "ascii s \<Longrightarrow> sublist t s \<Longrightarrow> ascii t"
  unfolding ascii_def using set_mono_sublist by blast

lemma try_splitters_pieces:
  assumes "ascii text" "\<forall>sep\<in>set seps. ascii sep \<and> sep \<noteq> []" "piece_of text text"
  shows "\<exists>parts. try_splitters ul text seps = Some parts \<and> parts \<noteq> [] \<and> (\<forall>p\<in>set parts. piece_of text p)"
  using assms(2)
proof (induction seps)
  case Nil
  then show ?case using assms(3) by simp
next
  case (Cons sep seps)
  then have IH: "\<exists>parts. try_splitters ul text seps = Some parts \<and> parts \<noteq> [] \<and> (\<forall>p\<in>set parts. piece_of text p)"
    by simp
  obtain parts where parts: "splitCaseInsensitive ul text sep = Some parts" "woven lower_byte sep parts text"
    using split_ascii [OF assms(1), of sep ul] Cons.prems by auto
  have "\<forall>r\<in>set (keep_nonempty parts). piece_of text r"
    using woven_sublist [OF parts(2)] keep_nonempty_pieces [of parts "text"] by blast
  moreover have "length (keep_nonempty parts) \<ge> 2 \<Longrightarrow> keep_nonempty parts \<noteq> []" by auto
  ultimately show ?case
    using IH parts(1) by (cases "Index (ToLower ul text) sep") (simp_all add: Let_def)
qed

lemma split_byte_sublist: "p \<in> set (split_byte c s) \<Longrightarrow> sublist p s"
proof (induction s arbitrary: p)
  case Nil
  then show ?case by simp
next
  case (Cons x s)
  obtain q qs where split: "split_byte c s = q # qs" by (meson list.exhaust split_byte_not_Nil)
  have "s = join [c] (q # qs)" using join_split_byte [of c s] split by simp
  then have pre: "prefix q s" by (cases qs) (auto simp: prefix_def)
  show ?case
  proof (cases "x = c")
    case True
    then show ?thesis using Cons split by (auto simp: sublist_Cons_right)
  next
    case False
    then have "p = x # q \<or> p \<in> set qs" using Cons.prems split by auto
    then show ?thesis
    proof
      assume "p = x # q"
      then show ?thesis using pre by (simp add: prefix_imp_sublist)
    next
      assume "p \<in> set qs"
      then show ?thesis using Cons.IH [of p] split by (simp add: sublist_Cons_right)
    qed
  qed
qed

lemma splitters_ascii: "\<forall>sep\<in>set splitters. ascii sep \<and> sep \<noteq> []"
  by code_simp

lemma splitHeuristic_pieces:
  assumes "ascii text0"
  shows "\<exists>parts. splitHeuristic ul text0 = Some parts \<and> (parts = [] \<longleftrightarrow> TrimSpace text0 = []) \<and>
    (\<forall>p\<in>set parts. \<exists>r. piece_of text0 r \<and> (p = r \<or> p = r @ ''?''))"
proof (cases "TrimSpace text0 = []")
  case True
  then show ?thesis by (simp add: splitHeuristic_def)
next
  case False
  let ?t = "TrimSpace text0"
  have t: "ascii ?t" "piece_of ?t ?t" using assms False ascii_sublist sublist_TrimSpace
    by (auto simp: piece_of_def trimmed_TrimSpace)
  have lift: "piece_of ?t r \<Longrightarrow> piece_of text0 r" for r
    using sublist_TrimSpace sublist_order.order_trans by (auto simp: piece_of_def)
  show ?thesis
  proof (cases "count_list ?t CHR ''?'' \<ge> 2 \<and> length (question_parts ?t) \<ge> 2")
    case True
    have "\<forall>r\<in>set (keep_nonempty (split_byte CHR ''?'' ?t)). piece_of ?t r"
      using keep_nonempty_pieces [of "split_byte CHR ''?'' ?t" ?t] split_byte_sublist by blast
    then show ?thesis using True False lift
      by (auto simp: splitHeuristic_def Let_def question_parts_def)
  next
    case no_questions: False
    obtain parts where "try_splitters ul ?t splitters = Some parts" "parts \<noteq> []" "\<forall>p\<in>set parts. piece_of ?t p"
      using try_splitters_pieces [OF t(1) splitters_ascii t(2)] by blast
    then show ?thesis using no_questions False lift by (auto simp: splitHeuristic_def Let_def)
  qed
qed

section \<open>Collecting the children\<close>

lemma collect_children_eq:
  "collect_children child futures subAnswers sc fc =
     (subAnswers @ map (\<lambda>(sq, f). collect_child sq (child f)) futures,
      sc + int (length (filter (\<lambda>(sq, f). \<not> isl (child f)) futures)),
      fc + int (length (filter (\<lambda>(sq, f). isl (child f)) futures)))"
  by (induction child futures subAnswers sc fc rule: collect_children.induct)
    (auto split: sum.splits)

lemma map_zip_starts:
  "map (\<lambda>(sq, f). g sq f) (zip sqs (map h sqs)) = map (\<lambda>sq. g sq (h sq)) sqs"
  by (induction sqs) auto

lemma filter_zip_starts:
  "length (filter (\<lambda>(sq, f). P f) (zip sqs (map h sqs))) = length (filter (\<lambda>sq. P (h sq)) sqs)"
  by (induction sqs) auto


lemma ChildID_inj: "ChildID (start_child pid mr a) = ChildID (start_child pid mr b) \<longleftrightarrow> SubIndex a = SubIndex b"
  by (simp add: start_child_def Itoa_inj)

lemma distinct_ChildIDs:
  assumes "distinct (map SubIndex sqs)"
  shows "distinct (map (\<lambda>sq. ChildID (start_child pid mr sq)) sqs)"
  using assms by (induction sqs) (auto simp: ChildID_inj image_iff)

lemma filter_split_length: "length (filter P xs) + length (filter (\<lambda>x. \<not> P x) xs) = length xs"
  by (induction xs) auto

text \<open>What the workflow does once the question is accepted and decomposed.\<close>

definition sup_answers :: "(ChildStart \<Rightarrow> string + Answer) \<Rightarrow> string \<Rightarrow> int \<Rightarrow> SubQuestion list \<Rightarrow> SubAnswer list" where
  "sup_answers child pid mr sqs = map (\<lambda>sq. collect_child sq (child (start_child pid mr sq))) sqs"

definition sup_failed :: "(ChildStart \<Rightarrow> string + Answer) \<Rightarrow> string \<Rightarrow> int \<Rightarrow> SubQuestion list \<Rightarrow> nat" where
  "sup_failed child pid mr sqs = length (filter (\<lambda>sq. isl (child (start_child pid mr sq))) sqs)"

lemma Supervisor_unfold:
  assumes "SupQuestion inp \<noteq> []" "0 < MaxRoundsPerChild inp"
    and "decompose \<lparr>DecQuestion = SupQuestion inp, DecMaxSubQuestions = (if MaxSubQuestions inp = 0 then 5 else MaxSubQuestions inp)\<rparr> = Inr sqs"
  defines "mr \<equiv> MaxRoundsPerChild inp"
  shows "SupervisorWorkflow decompose child synthesize pid inp =
    (map (start_child pid mr) sqs,
     if sup_failed child pid mr sqs = length sqs then
       (case sup_answers child pid mr sqs of [] \<Rightarrow> Inl (SupervisorPanic ''index out of range'')
        | a # _ \<Rightarrow> Inl (AllChildrenFailed \<lparr>Synthesis = [], SubAnswers = sup_answers child pid mr sqs,
            SuccessCount = 0, FailureCount = int (length sqs)\<rparr> (int (length sqs)) (AnsError a)))
     else (case synthesize (sup_answers child pid mr sqs) of
        Inl e \<Rightarrow> Inl (SynthesisFailed e)
      | Inr syn \<Rightarrow> Inr \<lparr>Synthesis = syn, SubAnswers = sup_answers child pid mr sqs,
          SuccessCount = int (length sqs - sup_failed child pid mr sqs), FailureCount = int (sup_failed child pid mr sqs)\<rparr>))"
proof -
  have total: "length (filter (\<lambda>sq. \<not> isl (child (start_child pid mr sq))) sqs) = length sqs - sup_failed child pid mr sqs"
    using filter_split_length [of "\<lambda>sq. isl (child (start_child pid mr sq))" sqs]
    unfolding sup_failed_def by linarith
  have le: "sup_failed child pid mr sqs \<le> length sqs" by (simp add: sup_failed_def)
  have collect: "collect_children child (zip sqs (map (start_child pid mr) sqs)) [] 0 0 =
      (sup_answers child pid mr sqs, int (length sqs - sup_failed child pid mr sqs), int (sup_failed child pid mr sqs))"
    by (simp only: collect_children_eq map_zip_starts filter_zip_starts total)
      (simp add: sup_answers_def sup_failed_def)
  have zero: "int (length sqs - sup_failed child pid mr sqs) = 0 \<longleftrightarrow> sup_failed child pid mr sqs = length sqs"
    using le by linarith
  show ?thesis
  proof (cases "sup_failed child pid mr sqs = length sqs")
    case True
    then show ?thesis using assms(1-3) collect
      by (simp add: SupervisorWorkflow_def Let_def mr_def split: list.split)
  next
    case False
    then show ?thesis using assms(1-3) collect zero
      by (simp add: SupervisorWorkflow_def Let_def mr_def split: sum.split)
  qed
qed

section \<open>Properties\<close>

text \<open>
  Decomposing a question of ASCII text never fails. The sub-questions are numbered from 0 in order and
  respect a positive cap; there is none exactly when the question is blank; and each of them is a
  trimmed, non-empty, contiguous piece of the question, with a question mark when it was cut at one.
\<close>

theorem Decompose_pieces:
  assumes "ascii (DecQuestion inp)"
  shows "\<exists>qs. Decompose ul inp = Some qs \<and> map SubIndex qs = map int [0..<length qs] \<and>
    (0 < DecMaxSubQuestions inp \<longrightarrow> int (length qs) \<le> DecMaxSubQuestions inp) \<and>
    (qs = [] \<longleftrightarrow> TrimSpace (DecQuestion inp) = []) \<and>
    (\<forall>q\<in>set qs. \<exists>r. piece_of (DecQuestion inp) r \<and> (SubText q = r \<or> SubText q = r @ ''?''))"
proof -
  let ?mk = "\<lambda>(i, p). \<lparr>SubIndex = int i, SubText = p\<rparr>"
  obtain parts where parts: "splitHeuristic ul (DecQuestion inp) = Some parts"
    "parts = [] \<longleftrightarrow> TrimSpace (DecQuestion inp) = []"
    "\<forall>p\<in>set parts. \<exists>r. piece_of (DecQuestion inp) r \<and> (p = r \<or> p = r @ ''?'')"
    using splitHeuristic_pieces [OF assms] by blast
  define qs where "qs = map ?mk (enumerate 0 parts)"
  have qs: "length qs = length parts" "map SubIndex qs = map int [0..<length parts]"
    "\<forall>q\<in>set qs. SubText q \<in> set parts"
    by (auto simp: qs_def enumerate_eq_zip comp_def case_prod_unfold in_set_zip map_fst_zip [symmetric]
        simp del: map_fst_zip intro!: nth_equalityI)
  have tk: "map SubIndex (take k qs) = map int [0..<min k (length qs)]" for k
  proof -
    have "map SubIndex (take k qs) = take k (map int [0..<length qs])"
      using qs(1,2) by (simp only: take_map [symmetric])
    also have "\<dots> = map int (take k [0..<length qs])" by (rule take_map)
    finally show ?thesis by (simp add: min_def)
  qed
  define n where "n = DecMaxSubQuestions inp"
  let ?out = "applyMaxSubQuestions qs n"
  have "Decompose ul inp = Some ?out"
    using parts(1) by (simp add: Decompose_def decomposeArrow_def qs_def n_def)
  moreover have "map SubIndex ?out = map int [0..<length ?out]"
    using tk [of "nat n"] qs(1,2) by (auto simp: applyMaxSubQuestions_def)
  moreover have "0 < n \<longrightarrow> int (length ?out) \<le> n" by (auto simp: applyMaxSubQuestions_def)
  moreover have "?out = [] \<longleftrightarrow> TrimSpace (DecQuestion inp) = []"
    using parts(2) qs(1) by (auto simp: applyMaxSubQuestions_def)
  moreover have "\<forall>q\<in>set ?out. \<exists>r. piece_of (DecQuestion inp) r \<and> (SubText q = r \<or> SubText q = r @ ''?'')"
    using qs(3) parts(3) by (auto simp: applyMaxSubQuestions_def dest: in_set_takeD)
  ultimately show ?thesis unfolding n_def by blast
qed

lemma demo_split: "Decompose (\<lambda>x. x) \<lparr>DecQuestion = ''  Rust VS Go and C'', DecMaxSubQuestions = 2\<rparr> =
    Some [\<lparr>SubIndex = 0, SubText = ''Rust''\<rparr>, \<lparr>SubIndex = 1, SubText = ''Go and C''\<rparr>]"
  by code_simp

theorem Decompose_pieces_witness:
  "\<exists>r. piece_of ''  Rust VS Go and C'' r \<and> (''Rust'' = r \<or> ''Rust'' = r @ ''?'')"
proof -
  have "ascii ''  Rust VS Go and C''" by code_simp
  with Decompose_pieces [of "\<lparr>DecQuestion = ''  Rust VS Go and C'', DecMaxSubQuestions = 2\<rparr>" "\<lambda>x. x"]
  show ?thesis unfolding demo_split by fastforce
qed

text \<open>A question that gets longer in lower case: the letter U+023A and what it is lowered to.\<close>

definition tall_A :: string where "tall_A = [CHR 0xC8, CHR 0xBA]"

definition small_A :: string where "small_A = [CHR 0xE2, CHR 0xB1, CHR 0xA5]"

definition wide_question :: string where
  "wide_question = tall_A @ tall_A @ tall_A @ tall_A @ ''; x''"

text \<open>
  Lower-casing can lengthen text outside ASCII, and then the decomposition panics: with the letter
  U+023A, whose lower case takes one byte more, four times before a separator, the separator's
  index lies beyond the end of the question.
\<close>

theorem Decompose_unicode_panics:
  assumes "ul wide_question = small_A @ small_A @ small_A @ small_A @ ''; x''"
  shows "Decompose ul \<lparr>DecQuestion = wide_question, DecMaxSubQuestions = n\<rparr> = None"
proof -
  have trim: "TrimSpace wide_question = wide_question" "wide_question \<noteq> []" "\<not> ascii wide_question"
    "count_list wide_question CHR ''?'' = 0" "length wide_question = 11"
    by code_simp+
  have low: "ToLower ul wide_question = small_A @ small_A @ small_A @ small_A @ ''; x''"
    using trim(3) assms by (simp add: ToLower_def)
  have idx: "Index (small_A @ small_A @ small_A @ small_A @ ''; x'') ''; '' = Some 12"
    "ascii ''; ''" "map lower_byte ''; '' = ''; ''" by code_simp+
  have "splitCaseInsensitive ul wide_question ''; '' = None"
    using low idx trim(5)
    by (simp add: splitCaseInsensitive_def split_loop.simps [of wide_question] ToLower_def [of ul "''; ''"])
  then have "splitHeuristic ul wide_question = None"
    using trim low idx by (simp add: splitHeuristic_def Let_def splitters_def)
  then show ?thesis by (simp add: Decompose_def decomposeArrow_def)
qed

theorem Decompose_unicode_panics_witness:
  "Decompose (\<lambda>_. small_A @ small_A @ small_A @ small_A @ ''; x'')
     \<lparr>DecQuestion = wide_question, DecMaxSubQuestions = 5\<rparr> = None"
  by (rule Decompose_unicode_panics) simp

text \<open>
  C11: a successful supervisor started one child per sub-question, with distinct IDs when the indices are
  distinct, and reports one answer per sub-question in order: the child's own, or its error. At
  least one child succeeded, the counts add up, and the synthesis is that of these answers.
\<close>

theorem Supervisor_success:
  assumes "SupervisorWorkflow decompose child synthesize pid inp = (starts, Inr out)"
  shows "\<exists>sqs. decompose \<lparr>DecQuestion = SupQuestion inp,
        DecMaxSubQuestions = (if MaxSubQuestions inp = 0 then 5 else MaxSubQuestions inp)\<rparr> = Inr sqs \<and>
    starts = map (start_child pid (MaxRoundsPerChild inp)) sqs \<and>
    (distinct (map SubIndex sqs) \<longrightarrow> distinct (map ChildID starts)) \<and>
    SubAnswers out = map (\<lambda>sq. collect_child sq (child (start_child pid (MaxRoundsPerChild inp) sq))) sqs \<and>
    0 < SuccessCount out \<and> SuccessCount out + FailureCount out = int (length sqs) \<and>
    FailureCount out = int (length (filter (\<lambda>f. isl (child f)) starts)) \<and>
    synthesize (SubAnswers out) = Inr (Synthesis out)"
proof -
  let ?d = "\<lparr>DecQuestion = SupQuestion inp, DecMaxSubQuestions = (if MaxSubQuestions inp = 0 then 5 else MaxSubQuestions inp)\<rparr>"
  let ?mr = "MaxRoundsPerChild inp"
  have ok: "SupQuestion inp \<noteq> []" "0 < ?mr"
    using assms by (auto simp: SupervisorWorkflow_def split: if_splits)
  obtain sqs where sqs: "decompose ?d = Inr sqs"
    using assms ok by (cases "decompose ?d") (auto simp: SupervisorWorkflow_def Let_def)
  note u = Supervisor_unfold [where decompose = decompose and child = child and synthesize = synthesize and pid = pid, OF ok sqs]
  have le: "sup_failed child pid ?mr sqs \<le> length sqs" by (simp add: sup_failed_def)
  have starts: "starts = map (start_child pid ?mr) sqs" and nf: "sup_failed child pid ?mr sqs \<noteq> length sqs"
    using assms u by (auto split: if_splits list.splits sum.splits)
  then obtain syn where syn: "synthesize (sup_answers child pid ?mr sqs) = Inr syn"
    "out = \<lparr>Synthesis = syn, SubAnswers = sup_answers child pid ?mr sqs,
       SuccessCount = int (length sqs - sup_failed child pid ?mr sqs), FailureCount = int (sup_failed child pid ?mr sqs)\<rparr>"
    using assms u by (auto split: sum.splits)
  have "sup_failed child pid ?mr sqs = length (filter (\<lambda>f. isl (child f)) starts)"
    by (simp add: starts sup_failed_def filter_map comp_def)
  moreover have "distinct (map SubIndex sqs) \<longrightarrow> distinct (map ChildID starts)"
    using distinct_ChildIDs [of sqs pid ?mr] by (simp add: starts comp_def)
  moreover have "sup_failed child pid ?mr sqs < length sqs" using nf le by linarith
  ultimately show ?thesis
    using sqs starts syn by (intro exI [of _ sqs]) (auto simp: sup_answers_def)
qed

definition demo_child :: "ChildStart \<Rightarrow> string + Answer" where
  "demo_child c = (if ChildID c = ''p-sub-1'' then Inl ''boom''
     else Inr \<lparr>AnswerText = ''yes'', Rounds = 1, Converged = True, History = []\<rparr>)"

definition demo_decompose :: "DecomposeInput \<Rightarrow> string + SubQuestion list" where
  "demo_decompose inp = (case Decompose (\<lambda>x. x) inp of None \<Rightarrow> Inl ''panic'' | Some qs \<Rightarrow> Inr qs)"

theorem Supervisor_success_witness:
  "\<exists>starts out. SupervisorWorkflow demo_decompose demo_child (\<lambda>as. Inr (synthesizeArrow (\<lambda>s. s) as)) ''p''
     \<lparr>SupQuestion = ''A and B'', MaxRoundsPerChild = 2, MaxSubQuestions = 0\<rparr> = (starts, Inr out) \<and>
     0 < SuccessCount out \<and> FailureCount out = 1"
proof -
  let ?r = "SupervisorWorkflow demo_decompose demo_child (\<lambda>as. Inr (synthesizeArrow (\<lambda>s. s) as)) ''p''
     \<lparr>SupQuestion = ''A and B'', MaxRoundsPerChild = 2, MaxSubQuestions = 0\<rparr>"
  have "case ?r of (starts, Inr out) \<Rightarrow> FailureCount out = 1 | _ \<Rightarrow> False" by code_simp
  then obtain starts out where r: "?r = (starts, Inr out)" "FailureCount out = 1"
    by (auto split: prod.splits sum.splits)
  from Supervisor_success [OF r(1)] r show ?thesis by blast
qed

text \<open>
  A blank question passes the supervisor's input check, decomposes into no sub-question, and then the
  workflow panics: it reports the error of the first sub-answer, which does not exist.
\<close>

theorem Supervisor_blank_question_panics:
  assumes "SupQuestion inp \<noteq> []" "TrimSpace (SupQuestion inp) = []" "0 < MaxRoundsPerChild inp"
    and "\<And>d qs. Decompose ul d = Some qs \<Longrightarrow> decompose d = Inr qs"
  shows "SupervisorWorkflow decompose child synthesize pid inp = ([], Inl (SupervisorPanic ''index out of range''))"
proof -
  let ?d = "\<lparr>DecQuestion = SupQuestion inp, DecMaxSubQuestions = (if MaxSubQuestions inp = 0 then 5 else MaxSubQuestions inp)\<rparr>"
  have "Decompose ul ?d = Some []"
    using assms(2) by (simp add: Decompose_def decomposeArrow_def splitHeuristic_def applyMaxSubQuestions_def)
  then have "decompose ?d = Inr []" by (rule assms(4))
  from Supervisor_unfold [where decompose = decompose, OF assms(1,3) this] show ?thesis
    by (simp add: sup_failed_def sup_answers_def)
qed

theorem Supervisor_blank_question_panics_witness:
  "SupervisorWorkflow demo_decompose demo_child (\<lambda>as. Inr []) ''p''
     \<lparr>SupQuestion = ''  '', MaxRoundsPerChild = 2, MaxSubQuestions = 0\<rparr> =
   ([], Inl (SupervisorPanic ''index out of range''))"
proof -
  have "TrimSpace ''  '' = []" by code_simp
  then show ?thesis
    by (intro Supervisor_blank_question_panics [where ul = "\<lambda>x. x"]) (auto simp: demo_decompose_def)
qed

end
