(* ===== verification/Registries.thy ===== *)
theory Registries
  imports Prelude
begin

text \<open>
  The contract of the registries that are filled at start-up and looked up by name afterwards: the
  tools of an agent (\<^verbatim>\<open>agent/tools.go\<close>) and the providers of the OAuth worker
  (\<^verbatim>\<open>auth/oauth/provider.go\<close>). An entry is accepted when it is admissible, has a name, and the name
  is free; a refused entry leaves the registry as it was.
\<close>

locale name_registry =
  fixes empty_registry :: 'r
    and register :: "'e \<Rightarrow> 'r \<Rightarrow> bool \<times> 'r"
    and lookup :: "'r \<Rightarrow> string \<Rightarrow> 'e option"
    and name_of :: "'e \<Rightarrow> string"
    and admissible :: "'e \<Rightarrow> bool"
  assumes lookup_empty: "lookup empty_registry n = None"
    and accepts: "fst (register e r) \<longleftrightarrow> admissible e \<and> name_of e \<noteq> [] \<and> lookup r (name_of e) = None"
    and accepted: "fst (register e r) \<Longrightarrow>
      lookup (snd (register e r)) n = (if n = name_of e then Some e else lookup r n)"
    and refused: "\<not> fst (register e r) \<Longrightarrow> snd (register e r) = r"
begin

definition register_all :: "'e list \<Rightarrow> 'r \<Rightarrow> 'r" where
  "register_all es r = foldl (\<lambda>r e. snd (register e r)) r es"

definition eligible :: "string \<Rightarrow> 'e \<Rightarrow> bool" where
  "eligible n e \<longleftrightarrow> admissible e \<and> name_of e = n \<and> n \<noteq> []"

lemma register_all_simps [simp]:
  "register_all [] r = r"
  "register_all (e # es) r = register_all es (snd (register e r))"
  by (simp_all add: register_all_def)

text \<open>An entry is never replaced, and the first eligible one gets the name.\<close>

lemma lookup_register:
  "lookup (snd (register e r)) n =
     (case lookup r n of Some e' \<Rightarrow> Some e' | None \<Rightarrow> if eligible n e then Some e else None)"
  using accepts [of e r] accepted [of e r n] refused [of e r]
  by (cases "fst (register e r)") (auto simp: eligible_def split: option.splits)

lemma lookup_register_all:
  "lookup (register_all es r) n =
     (case lookup r n of Some e \<Rightarrow> Some e | None \<Rightarrow> find (eligible n) es)"
  by (induction es arbitrary: r) (auto simp: lookup_register split: option.splits)

lemma first_wins: "lookup (register_all es empty_registry) n = find (eligible n) es"
  by (simp add: lookup_register_all lookup_empty)

lemma lookup_named:
  assumes "lookup (register_all es empty_registry) n = Some e"
  shows "name_of e = n \<and> n \<noteq> [] \<and> admissible e \<and> e \<in> set es"
  using assms by (auto simp: first_wins eligible_def find_Some_iff)

text \<open>A registration that is refused nothing keeps every entry.\<close>

lemma all_found:
  assumes "distinct (map name_of es)" "\<forall>e\<in>set es. admissible e \<and> name_of e \<noteq> []" "e \<in> set es"
  shows "lookup (register_all es empty_registry) (name_of e) = Some e"
proof -
  obtain us vs where es: "es = us @ e # vs" using assms(3) by (auto dest: split_list)
  have "find (eligible (name_of e)) (us @ e # vs) = Some e"
    using assms(1,2) unfolding es
    by (induction us) (auto simp: eligible_def)
  then show ?thesis by (simp add: first_wins es)
qed

end

end
