(* ===== verification/Tools.thy ===== *)
theory Tools
  imports Completion Events Registries
begin

text \<open>
  Package agent, files \<^verbatim>\<open>tools.go\<close> and \<^verbatim>\<open>tool_agent.go\<close>: the registry of tools and the loop in which a
  model calls tools until it gives a final answer.

  A tool is the four methods of its interface; running one may change the state of the world and
  gives an output or an error text. The JSON decoder of a decision and the encoder of the
  arguments are parameters.
\<close>

section \<open>Data\<close>

datatype json =
    JNull
  | JBool bool
  | JNumber string
  | JString string
  | JArray "json list"
  | JObject "(string \<times> json) list"

type_synonym tool_args = "(string, json) gomap"

record ToolArg =
  ArgName :: string
  ArgType :: string
  ArgDescription :: string
  ArgRequired :: bool

record 's Tool =
  ToolNameOf :: string
  ToolDescription :: string
  ToolSchema :: "ToolArg list"
  ToolRun :: "tool_args \<Rightarrow> 's \<Rightarrow> (string + string) \<times> 's"

type_synonym 's ToolRegistry = "(string, 's Tool) gomap"

datatype register_error = NilTool | EmptyToolName | AlreadyRegistered string

section \<open>The registry\<close>

definition NewToolRegistry :: "'s ToolRegistry" where
  "NewToolRegistry = []"

definition Register :: "'s Tool option \<Rightarrow> 's ToolRegistry \<Rightarrow> register_error option \<times> 's ToolRegistry" where
  "Register t r =
     (case t of
        None \<Rightarrow> (Some NilTool, r)
      | Some tool \<Rightarrow>
          (let name = ToolNameOf tool
           in if name = [] then (Some EmptyToolName, r)
              else if gm_get r name \<noteq> None then (Some (AlreadyRegistered name), r)
              else (None, gm_set name tool r)))"

definition MustRegister :: "'s Tool option \<Rightarrow> 's ToolRegistry \<Rightarrow> register_error + 's ToolRegistry" where
  "MustRegister t r = (case Register t r of (Some e, r') \<Rightarrow> Inl e | (None, r') \<Rightarrow> Inr r')"

definition tool_Get :: "'s ToolRegistry \<Rightarrow> string \<Rightarrow> 's Tool option" where
  "tool_Get r name = gm_get r name"

text \<open>
  The insertion sort: \<open>sift\<close> is the inner loop, which swaps entry \<open>j\<close> with the one before it for as
  long as that one is greater.
\<close>

fun sift :: "string list \<Rightarrow> nat \<Rightarrow> string list" where
  "sift s 0 = s"
| "sift s (Suc j) =
     (if s ! j > s ! Suc j then sift (s[Suc j := s ! j, j := s ! Suc j]) j else s)"

definition sortStrings :: "string list \<Rightarrow> string list" where
  "sortStrings s = foldl sift s [1..<length s]"

text \<open>\<open>\<rho>\<close> is the order in which the registry's map is ranged over.\<close>

definition tool_Names :: "(string list \<Rightarrow> string list) \<Rightarrow> 's ToolRegistry \<Rightarrow> string list" where
  "tool_Names \<rho> r = sortStrings (\<rho> (gm_keys r))"

definition nl :: string where "nl = [CHR 0x0A]"

definition em_dash :: string where "em_dash = [CHR 0xE2, CHR 0x80, CHR 0x94]"

definition describe_arg :: "ToolArg \<Rightarrow> string" where
  "describe_arg a = ''    - '' @ ArgName a @ '' ['' @ ArgType a @ '']''
     @ (if ArgRequired a then '' (required)'' else []) @ '' '' @ em_dash @ '' '' @ ArgDescription a @ nl"

definition describe_tool :: "string \<Rightarrow> 's Tool \<Rightarrow> string" where
  "describe_tool name t = ''- **'' @ name @ ''**: '' @ ToolDescription t @ nl
     @ (if length (ToolSchema t) = 0 then ''  Arguments: none.'' @ nl
        else ''  Arguments:'' @ nl @ concat (map describe_arg (ToolSchema t)))"

definition describeForPrompt :: "(string list \<Rightarrow> string list) \<Rightarrow> 's ToolRegistry \<Rightarrow> string" where
  "describeForPrompt \<rho> r =
     (if length r = 0 then ''No tools available.''
      else ''Available tools:'' @ nl @ nl
        @ concat (map (\<lambda>name. case gm_get r name of None \<Rightarrow> [] | Some t \<Rightarrow> describe_tool name t)
            (sortStrings (\<rho> (gm_keys r)))))"

section \<open>The tool agent\<close>

record ToolAgentInput =
  Task :: string
  MaxSteps :: int

record ToolAgentStep =
  StepReasoning :: string
  StepToolName :: string
  StepToolArgs :: tool_args
  StepToolResult :: string
  StepToolError :: bool
  StepFinal :: string

record ToolAgentOutput =
  OutAnswer :: string
  OutSteps :: "ToolAgentStep list"
  OutConverged :: bool

record toolDecision =
  DecAction :: string
  DecReasoning :: string
  DecTool :: string
  DecArgs :: tool_args
  DecAnswer :: string

datatype agent_error =
    AgentConfiguration string
  | AgentInvalidInput string
  | AgentLLM int llm_error
  | MalformedDecision int string string
  | MissingToolName int
  | UnknownAction int string
  | AgentPanic string

definition tool_preamble :: string where
  "tool_preamble = ''You are an agent that solves tasks by calling tools when useful and emitting a final answer when ready.'' @ nl @ nl
     @ ''You communicate via a strict JSON protocol. On every turn, respond with a single JSON object and NOTHING ELSE:'' @ nl @ nl
     @ ''To call a tool:'' @ nl
     @ ''{\"action\": \"tool\", \"reasoning\": \"<why this tool now>\", \"tool\": \"<tool_name>\", \"args\": {<key>: <value>, ...}}'' @ nl @ nl
     @ ''To give the final answer:'' @ nl
     @ ''{\"action\": \"final\", \"reasoning\": \"<brief>\", \"answer\": \"<your final answer>\"}'' @ nl @ nl
     @ ''Rules:'' @ nl
     @ ''- Always emit valid JSON. Do not wrap in code fences or include any text outside the JSON object.'' @ nl
     @ ''- \"tool\" must be the exact name of a registered tool. \"args\" must match its argument schema.'' @ nl
     @ ''- Prefer calling a tool when the task requires current information, computation, or files.'' @ nl
     @ ''- Stop calling tools and emit \"final\" as soon as you have enough information.'' @ nl
     @ ''- If a tool call fails, you'll see the error in the next turn. Decide whether to retry, try a different tool, or give up and answer with what you have.'' @ nl @ nl"

definition buildToolAgentSystemPrompt :: "(string list \<Rightarrow> string list) \<Rightarrow> 's ToolRegistry \<Rightarrow> string" where
  "buildToolAgentSystemPrompt \<rho> tools = tool_preamble @ nl @ describeForPrompt \<rho> tools"

definition step_message :: "(tool_args \<Rightarrow> string) \<Rightarrow> nat \<Rightarrow> ToolAgentStep \<Rightarrow> string" where
  "step_message marshal i s = nl @ ''--- Step '' @ Itoa (int i + 1) @ '' ---'' @ nl
     @ (if StepReasoning s \<noteq> [] then ''Reasoning: '' @ StepReasoning s @ nl else [])
     @ (if StepToolName s \<noteq> [] then
          ''Called tool: '' @ StepToolName s @ '' with args: '' @ marshal (StepToolArgs s) @ nl
          @ (if StepToolError s then ''Result (ERROR): '' @ StepToolResult s @ nl
             else ''Result: '' @ StepToolResult s @ nl) else [])
     @ (if StepFinal s \<noteq> [] then ''Final answer: '' @ StepFinal s @ nl else [])"

definition buildToolAgentUserMessage :: "(tool_args \<Rightarrow> string) \<Rightarrow> string \<Rightarrow> ToolAgentStep list \<Rightarrow> string" where
  "buildToolAgentUserMessage marshal task history =
     ''Task: '' @ task @ nl
     @ (if length history > 0 then nl @ ''History so far:'' @ nl
          @ concat (map (\<lambda>(i, s). step_message marshal i s) (enumerate 0 history))
          @ nl @ ''Decide the next action.'' else [])"

text \<open>
  The environment of a run: the model, the decoder of its decisions, the encoder of arguments, the
  quoting of the verb q, the clock and the emitter of events.
\<close>

record 's agent_env =
  env_llm :: "'s CompleteFunc"
  env_decode :: "string \<Rightarrow> string + toolDecision"
  env_marshal :: "tool_args \<Rightarrow> string"
  env_quote :: "string \<Rightarrow> string"
  env_order :: "string list \<Rightarrow> string list"
  env_now :: "'s \<Rightarrow> int"
  env_emit :: "json event \<Rightarrow> 's \<Rightarrow> 's"

definition missing_tool_message :: "'s agent_env \<Rightarrow> 's ToolRegistry \<Rightarrow> string \<Rightarrow> string" where
  "missing_tool_message env tools name =
     ''Error: tool '' @ env_quote env name @ '' is not registered. Available tools: ''
       @ join '', '' (tool_Names (env_order env) tools) @ ''.''"

text \<open>One dispatched tool call: the step it adds to the history, between its two events.\<close>

definition dispatch_tool :: "'s agent_env \<Rightarrow> 's ToolRegistry \<Rightarrow> int \<Rightarrow> toolDecision \<Rightarrow> 's \<Rightarrow>
    ToolAgentStep \<times> 's" where
  "dispatch_tool env tools stepno d s =
     (let s1 = env_emit env (NewToolCalled (env_now env s) [] (DecTool d) (DecArgs d) stepno) s;
          start = env_now env s1
      in case tool_Get tools (DecTool d) of
           None \<Rightarrow>
             (let msg = missing_tool_message env tools (DecTool d)
              in (\<lparr>StepReasoning = DecReasoning d, StepToolName = DecTool d, StepToolArgs = DecArgs d,
                   StepToolResult = msg, StepToolError = True, StepFinal = []\<rparr>,
                  env_emit env (NewToolCompleted (env_now env s1) [] (DecTool d) stepno [] (Some msg)
                    (env_now env s1 - start)) s1))
         | Some tool \<Rightarrow>
             (case ToolRun tool (DecArgs d) s1 of
                (Inl e, s2) \<Rightarrow>
                  (\<lparr>StepReasoning = DecReasoning d, StepToolName = DecTool d, StepToolArgs = DecArgs d,
                    StepToolResult = ''Error: '' @ e, StepToolError = True, StepFinal = []\<rparr>,
                   env_emit env (NewToolCompleted (env_now env s2) [] (DecTool d) stepno [] (Some e)
                     (env_now env s2 - start)) s2)
              | (Inr result, s2) \<Rightarrow>
                  (\<lparr>StepReasoning = DecReasoning d, StepToolName = DecTool d, StepToolArgs = DecArgs d,
                    StepToolResult = result, StepToolError = False, StepFinal = []\<rparr>,
                   env_emit env (NewToolCompleted (env_now env s2) [] (DecTool d) stepno result None
                     (env_now env s2 - start)) s2)))"

function agent_loop :: "'s agent_env \<Rightarrow> 's ToolRegistry \<Rightarrow> ToolAgentInput \<Rightarrow> string \<Rightarrow> int \<Rightarrow>
    ToolAgentStep list \<Rightarrow> 's \<Rightarrow> (agent_error + ToolAgentOutput) \<times> 's" where
  "agent_loop env tools inp systemPrompt step history s =
     (if step < MaxSteps inp then
        (case env_llm env systemPrompt (buildToolAgentUserMessage (env_marshal env) (Task inp) history) s of
           (Panicked p, s1) \<Rightarrow> (Inl (AgentPanic p), s1)
         | (Returned raw (Some e), s1) \<Rightarrow> (Inl (AgentLLM (step + 1) e), s1)
         | (Returned raw None, s1) \<Rightarrow>
             (case env_decode env (trimResponse raw) of
                Inl e \<Rightarrow> (Inl (MalformedDecision (step + 1) e raw), s1)
              | Inr d \<Rightarrow>
                  if DecAction d = ''final'' then
                    (Inr \<lparr>OutAnswer = DecAnswer d,
                          OutSteps = history @ [\<lparr>StepReasoning = DecReasoning d, StepToolName = [], StepToolArgs = [],
                            StepToolResult = [], StepToolError = False, StepFinal = DecAnswer d\<rparr>],
                          OutConverged = True\<rparr>, s1)
                  else if DecAction d = ''tool'' then
                    (if DecTool d = [] then (Inl (MissingToolName (step + 1)), s1)
                     else (case dispatch_tool env tools (step + 1) d s1 of
                       (entry, s2) \<Rightarrow> agent_loop env tools inp systemPrompt (step + 1) (history @ [entry]) s2))
                  else (Inl (UnknownAction (step + 1) (DecAction d)), s1)))
      else (Inr \<lparr>OutAnswer = (if length history > 0
                   then ''(agent did not converge within MaxSteps; partial history available in Steps)'' else []),
                 OutSteps = history, OutConverged = False\<rparr>, s))"
  by pat_completeness auto
termination
  by (relation "measure (\<lambda>(env, tools, inp, systemPrompt, step, history, s). nat (MaxSteps inp - step))") auto

declare agent_loop.simps [simp del]

definition runToolAgentLoop :: "'s agent_env \<Rightarrow> 's ToolRegistry \<Rightarrow> ToolAgentInput \<Rightarrow> 's \<Rightarrow>
    (agent_error + ToolAgentOutput) \<times> 's" where
  "runToolAgentLoop env tools inp s =
     agent_loop env tools inp (buildToolAgentSystemPrompt (env_order env) tools) 0 [] s"

text \<open>
  \<open>RunToolAgent\<close> and \<open>ToolAgentArrow\<close>: \<open>env\<close> is \<open>None\<close> when no completion function is set, \<open>tools\<close> when there
  is no registry.
\<close>

definition RunToolAgent :: "'s agent_env option \<Rightarrow> 's ToolRegistry option \<Rightarrow> ToolAgentInput \<Rightarrow> 's \<Rightarrow>
    (agent_error + ToolAgentOutput) \<times> 's" where
  "RunToolAgent env tools inp s =
     (case env of
        None \<Rightarrow> (Inl (AgentConfiguration ''Activities.Complete is nil''), s)
      | Some e \<Rightarrow>
        (case tools of
           None \<Rightarrow> (Inl (AgentConfiguration ''Activities.Tools is nil''), s)
         | Some r \<Rightarrow>
           if Task inp = [] then (Inl (AgentInvalidInput ''Task must not be empty''), s)
           else if MaxSteps inp \<le> 0 then (Inl (AgentInvalidInput ''MaxSteps must be > 0''), s)
           else runToolAgentLoop e r inp s))"

definition ToolAgentArrow :: "'s agent_env option \<Rightarrow> 's ToolRegistry option \<Rightarrow> ToolAgentInput \<Rightarrow> 's \<Rightarrow>
    (agent_error + ToolAgentOutput) \<times> 's" where
  "ToolAgentArrow env tools inp s =
     (case env of
        None \<Rightarrow> (Inl (AgentConfiguration ''ToolAgentArrow: CompleteFunc is nil''), s)
      | Some e \<Rightarrow>
        (case tools of
           None \<Rightarrow> (Inl (AgentConfiguration ''ToolAgentArrow: ToolRegistry is nil''), s)
         | Some r \<Rightarrow> runToolAgentLoop e r inp s))"

section \<open>The registry keeps its contract\<close>

lemma Register_accepts:
  "fst (Register t r) = None \<longleftrightarrow> (\<exists>tool. t = Some tool \<and> ToolNameOf tool \<noteq> [] \<and> tool_Get r (ToolNameOf tool) = None)"
  by (auto simp: Register_def tool_Get_def Let_def split: option.splits)

lemma Register_accepted:
  "fst (Register (Some tool) r) = None \<Longrightarrow>
     tool_Get (snd (Register (Some tool) r)) n = (if n = ToolNameOf tool then Some tool else tool_Get r n)"
  by (auto simp: Register_def tool_Get_def Let_def split: if_splits)

lemma Register_refused: "fst (Register t r) \<noteq> None \<Longrightarrow> snd (Register t r) = r"
  by (auto simp: Register_def Let_def split: option.splits if_splits)

lemma Register_wf: "gm_wf r \<Longrightarrow> gm_wf (snd (Register t r))"
  by (auto simp: Register_def Let_def split: option.splits)

definition register_tool :: "'s Tool \<Rightarrow> 's ToolRegistry \<Rightarrow> bool \<times> 's ToolRegistry" where
  "register_tool tool r = (fst (Register (Some tool) r) = None, snd (Register (Some tool) r))"

interpretation tools: name_registry NewToolRegistry register_tool tool_Get ToolNameOf "\<lambda>_. True"
proof unfold_locales
  fix n :: string and e :: "'s Tool" and r :: "'s ToolRegistry"
  show "tool_Get (NewToolRegistry :: 's ToolRegistry) n = None"
    by (simp add: NewToolRegistry_def tool_Get_def)
  show "fst (register_tool e r) \<longleftrightarrow> True \<and> ToolNameOf e \<noteq> [] \<and> tool_Get r (ToolNameOf e) = None"
    by (simp add: register_tool_def Register_accepts)
  show "fst (register_tool e r) \<Longrightarrow>
      tool_Get (snd (register_tool e r)) n = (if n = ToolNameOf e then Some e else tool_Get r n)"
    by (simp add: register_tool_def Register_accepted)
  show "\<not> fst (register_tool e r) \<Longrightarrow> snd (register_tool e r) = r"
    by (simp add: register_tool_def Register_refused)
qed

lemma register_tools_wf: "gm_wf r \<Longrightarrow> gm_wf (foldl (\<lambda>r t. snd (Register (Some t) r)) r ts)"
  by (induction ts arbitrary: r) (auto intro: Register_wf)

section \<open>The sort\<close>

text \<open>The inner loop inserts entry \<open>j\<close> into the sorted prefix before it.\<close>

lemma sift_append: "j < length xs \<Longrightarrow> sift (xs @ ys) j = sift xs j @ ys"
  by (induction xs j rule: sift.induct) (auto simp: nth_append list_update_append)

lemma length_sift [simp]: "length (sift xs j) = length xs"
  by (induction xs j rule: sift.induct) auto

lemma sift_last:
  assumes "sorted xs"
  shows "sift (xs @ [x]) (length xs) = insort x xs"
  using assms
proof (induction xs rule: rev_induct)
  case Nil
  then show ?case by simp
next
  case (snoc y ys)
  then have ys: "sorted ys" "\<forall>z\<in>set ys. z \<le> y" by (auto simp: sorted_append)
  show ?case
  proof (cases "y > x")
    case True
    have "sift ((ys @ [y]) @ [x]) (length (ys @ [y])) = sift ((ys @ [x]) @ [y]) (length ys)"
      using True by (simp add: nth_append list_update_append)
    also have "\<dots> = insort x ys @ [y]" using snoc.IH ys by (subst sift_append) auto
    also have "\<dots> = insort x (ys @ [y])"
      using True ys(2) by (induction ys) auto
    finally show ?thesis .
  next
    case False
    have "insort x (ys @ [y]) = ys @ [y, x]"
    proof -
      have "sorted (insort x (ys @ [y]))" using snoc.prems by (rule sorted_insort [THEN iffD2])
      moreover have "sorted (ys @ [y, x])" using False ys by (auto simp: sorted_append)
      moreover have "mset (insort x (ys @ [y])) = mset (ys @ [y, x])" by simp
      ultimately show ?thesis by (metis properties_for_sort)
    qed
    with False show ?thesis by (simp add: nth_append)
  qed
qed

lemma sift_prefix:
  assumes "sorted xs"
  shows "sift (xs @ y # ys) (length xs) = insort y xs @ ys"
  using assms sift_append [of "length xs" "xs @ [y]" ys] by (simp add: sift_last)

lemma sorted_prefix_loop:
  assumes "k \<le> length xs" "0 < k"
  shows "foldl sift xs [1..<k] = sort (take k xs) @ drop k xs"
  using assms
proof (induction k)
  case 0
  then show ?case by simp
next
  case (Suc k)
  show ?case
  proof (cases "k = 0")
    case True
    with Suc.prems show ?thesis by (cases xs) auto
  next
    case False
    with Suc have "foldl sift xs [1..<Suc k] = sift (sort (take k xs) @ drop k xs) k"
      by simp
    also have "drop k xs = xs ! k # drop (Suc k) xs" using Suc.prems by (simp add: Cons_nth_drop_Suc)
    also have "sift (sort (take k xs) @ xs ! k # drop (Suc k) xs) k =
        insort (xs ! k) (sort (take k xs)) @ drop (Suc k) xs"
      using Suc.prems sift_prefix [of "sort (take k xs)" "xs ! k" "drop (Suc k) xs"] by simp
    also have "insort (xs ! k) (sort (take k xs)) = sort (take (Suc k) xs)"
      using Suc.prems by (intro properties_for_sort [symmetric])
        (auto simp: take_Suc_conv_app_nth sorted_insort)
    finally show ?thesis .
  qed
qed

lemma sortStrings_sort: "sortStrings xs = sort xs"
  using sorted_prefix_loop [of "length xs" xs] by (cases "xs = []") (auto simp: sortStrings_def)

lemma tool_Names_sort: "range_order \<rho> \<Longrightarrow> tool_Names \<rho> r = sort (gm_keys r)"
  by (simp add: tool_Names_def sortStrings_sort sort_range_order)

lemma describeForPrompt_order:
  "range_order \<rho> \<Longrightarrow> describeForPrompt \<rho> r = describeForPrompt (\<lambda>x. x) r"
  by (simp add: describeForPrompt_def sortStrings_sort sort_range_order)


section \<open>Runs of the agent as chains of turns\<close>

text \<open>
  \<open>turn env sp inp history s d s1\<close>: in state \<open>s\<close> the model, shown the task and the history so far,
  answers with the decision \<open>d\<close>.
\<close>

definition turn :: "'s agent_env \<Rightarrow> string \<Rightarrow> ToolAgentInput \<Rightarrow> ToolAgentStep list \<Rightarrow> 's \<Rightarrow> toolDecision \<Rightarrow> 's \<Rightarrow> bool" where
  "turn env sp inp history s d s1 \<longleftrightarrow>
     (\<exists>raw. env_llm env sp (buildToolAgentUserMessage (env_marshal env) (Task inp) history) s =
        (Returned raw None, s1) \<and> env_decode env (trimResponse raw) = Inr d)"

fun calls_chain :: "'s agent_env \<Rightarrow> 's ToolRegistry \<Rightarrow> string \<Rightarrow> ToolAgentInput \<Rightarrow> ToolAgentStep list \<Rightarrow> 's \<Rightarrow>
    ToolAgentStep list \<Rightarrow> 's \<Rightarrow> bool" where
  "calls_chain env tools sp inp history s [] s' \<longleftrightarrow> s' = s"
| "calls_chain env tools sp inp history s (e # es) s' \<longleftrightarrow>
     (\<exists>d s1 s2. turn env sp inp history s d s1 \<and> DecAction d = ''tool'' \<and> DecTool d \<noteq> [] \<and>
        dispatch_tool env tools (int (length history) + 1) d s1 = (e, s2) \<and>
        calls_chain env tools sp inp (history @ [e]) s2 es s')"

text \<open>The last entry of a run that converged.\<close>

definition final_step :: "toolDecision \<Rightarrow> ToolAgentStep" where
  "final_step d = \<lparr>StepReasoning = DecReasoning d, StepToolName = [], StepToolArgs = [],
     StepToolResult = [], StepToolError = False, StepFinal = DecAnswer d\<rparr>"

text \<open>A turn on which the run fails.\<close>

definition fails_turn :: "'s agent_env \<Rightarrow> string \<Rightarrow> ToolAgentInput \<Rightarrow> ToolAgentStep list \<Rightarrow> 's \<Rightarrow> agent_error \<Rightarrow> 's \<Rightarrow> bool" where
  "fails_turn env sp inp history s e s1 \<longleftrightarrow>
     (let n = int (length history) + 1
      in (case env_llm env sp (buildToolAgentUserMessage (env_marshal env) (Task inp) history) s of
            (Panicked p, s2) \<Rightarrow> e = AgentPanic p \<and> s1 = s2
          | (Returned raw (Some le), s2) \<Rightarrow> e = AgentLLM n le \<and> s1 = s2
          | (Returned raw None, s2) \<Rightarrow> s1 = s2 \<and>
              (case env_decode env (trimResponse raw) of
                 Inl de \<Rightarrow> e = MalformedDecision n de raw
               | Inr d \<Rightarrow> (DecAction d = ''tool'' \<and> DecTool d = [] \<and> e = MissingToolName n) \<or>
                   (DecAction d \<noteq> ''tool'' \<and> DecAction d \<noteq> ''final'' \<and> e = UnknownAction n (DecAction d)))))"

text \<open>
  A computation induction for the loop with one case per way a turn can end.
\<close>

lemma agent_loop_cases:
  assumes "agent_loop env tools inp sp step history s = (r, s')" "step = int (length history)"
  obtains
    (stop) "MaxSteps inp \<le> step" "s' = s" "r = Inr \<lparr>OutAnswer = (if length history > 0
        then ''(agent did not converge within MaxSteps; partial history available in Steps)'' else []),
        OutSteps = history, OutConverged = False\<rparr>"
  | (final) d where "step < MaxSteps inp" "turn env sp inp history s d s'" "DecAction d = ''final''"
      "r = Inr \<lparr>OutAnswer = DecAnswer d, OutSteps = history @ [final_step d], OutConverged = True\<rparr>"
  | (fail) e where "step < MaxSteps inp" "r = Inl e" "fails_turn env sp inp history s e s'"
  | (call) d s1 e s2 where "step < MaxSteps inp" "turn env sp inp history s d s1" "DecAction d = ''tool''"
      "DecTool d \<noteq> []" "dispatch_tool env tools (step + 1) d s1 = (e, s2)"
      "agent_loop env tools inp sp (step + 1) (history @ [e]) s2 = (r, s')"
proof (cases "step < MaxSteps inp")
  case False
  with assms(1) show ?thesis by (intro stop) (auto simp: agent_loop.simps [of env tools inp sp step])
next
  case True
  note loop = assms(1) [unfolded agent_loop.simps [of env tools inp sp step]] True
  obtain rep s1 where rep: "env_llm env sp (buildToolAgentUserMessage (env_marshal env) (Task inp) history) s = (rep, s1)"
    by fastforce
  show ?thesis
  proof (cases rep)
    case (Panicked p)
    with loop rep assms(2) show ?thesis by (intro fail) (auto simp: fails_turn_def)
  next
    case (Returned raw err)
    show ?thesis
    proof (cases "\<exists>d. err = None \<and> env_decode env (trimResponse raw) = Inr d")
      case False
      with Returned loop rep assms(2) show ?thesis
        by (cases err; cases "env_decode env (trimResponse raw)") (auto simp: fails_turn_def intro: fail)
    next
      case True
      then obtain d where d: "err = None" "env_decode env (trimResponse raw) = Inr d" by blast
      have t: "turn env sp inp history s d s1" using rep Returned d by (simp add: turn_def)
      consider "DecAction d = ''final''" | "DecAction d = ''tool''" "DecTool d \<noteq> []"
        | "DecAction d = ''tool''" "DecTool d = []" | "DecAction d \<noteq> ''tool''" "DecAction d \<noteq> ''final''" by blast
      then show ?thesis
      proof cases
        case 1
        with loop rep Returned d t show ?thesis by (intro final [of d]) (auto simp: final_step_def)
      next
        case 2
        obtain e s2 where "dispatch_tool env tools (step + 1) d s1 = (e, s2)" by fastforce
        with 2 loop rep Returned d t show ?thesis by (intro call [of d s1 e s2]) auto
      next
        case 3
        with loop rep Returned d assms(2) show ?thesis by (intro fail) (auto simp: fails_turn_def)
      next
        case 4
        with loop rep Returned d assms(2) show ?thesis by (intro fail) (auto simp: fails_turn_def)
      qed
    qed
  qed
qed

lemma agent_loop_Inr:
  assumes "agent_loop env tools inp sp (int (length history)) history s = (Inr out, s')"
  shows "\<exists>cs s1. calls_chain env tools sp inp history s cs s1 \<and>
    (if OutConverged out
     then int (length history + length cs) < MaxSteps inp \<and>
       (\<exists>d. turn env sp inp (history @ cs) s1 d s' \<and> DecAction d = ''final'' \<and>
          OutSteps out = history @ cs @ [final_step d] \<and> OutAnswer out = DecAnswer d)
     else s' = s1 \<and> OutSteps out = history @ cs \<and>
       int (length history + length cs) = max (MaxSteps inp) (int (length history)) \<and>
       OutAnswer out = (if history @ cs \<noteq> []
         then ''(agent did not converge within MaxSteps; partial history available in Steps)'' else []))"
  using assms
proof (induction "nat (MaxSteps inp - int (length history))" arbitrary: history s rule: less_induct)
  case less
  from less.prems refl show ?case
  proof (cases rule: agent_loop_cases)
    case stop
    then show ?thesis by (intro exI [of _ "[]"] exI [of _ s]) auto
  next
    case (final d)
    then show ?thesis by (intro exI [of _ "[]"] exI [of _ s]) auto
  next
    case (call d s1 e s2)
    then have "\<exists>cs s1. calls_chain env tools sp inp (history @ [e]) s2 cs s1 \<and>
      (if OutConverged out
       then int (length (history @ [e]) + length cs) < MaxSteps inp \<and>
         (\<exists>d. turn env sp inp ((history @ [e]) @ cs) s1 d s' \<and> DecAction d = ''final'' \<and>
            OutSteps out = (history @ [e]) @ cs @ [final_step d] \<and> OutAnswer out = DecAnswer d)
       else s' = s1 \<and> OutSteps out = (history @ [e]) @ cs \<and>
         int (length (history @ [e]) + length cs) = max (MaxSteps inp) (int (length (history @ [e]))) \<and>
         OutAnswer out = (if (history @ [e]) @ cs \<noteq> []
           then ''(agent did not converge within MaxSteps; partial history available in Steps)'' else []))"
      by (intro less.hyps) (auto simp: algebra_simps)
    then obtain cs s3 where cs: "calls_chain env tools sp inp (history @ [e]) s2 cs s3" and
      rest: "if OutConverged out
       then int (length (history @ [e]) + length cs) < MaxSteps inp \<and>
         (\<exists>d. turn env sp inp ((history @ [e]) @ cs) s3 d s' \<and> DecAction d = ''final'' \<and>
            OutSteps out = (history @ [e]) @ cs @ [final_step d] \<and> OutAnswer out = DecAnswer d)
       else s' = s3 \<and> OutSteps out = (history @ [e]) @ cs \<and>
         int (length (history @ [e]) + length cs) = max (MaxSteps inp) (int (length (history @ [e]))) \<and>
         OutAnswer out = (if (history @ [e]) @ cs \<noteq> []
           then ''(agent did not converge within MaxSteps; partial history available in Steps)'' else [])"
      by blast
    have "calls_chain env tools sp inp history s (e # cs) s3" using call cs by auto
    with rest call(1) show ?thesis
      by (intro exI [of _ "e # cs"] exI [of _ s3]) (auto split: if_splits)
  qed simp
qed

lemma agent_loop_Inl:
  assumes "agent_loop env tools inp sp (int (length history)) history s = (Inl e, s')"
  shows "\<exists>cs s1. calls_chain env tools sp inp history s cs s1 \<and>
    int (length history + length cs) < MaxSteps inp \<and> fails_turn env sp inp (history @ cs) s1 e s'"
  using assms
proof (induction "nat (MaxSteps inp - int (length history))" arbitrary: history s rule: less_induct)
  case less
  from less.prems refl show ?case
  proof (cases rule: agent_loop_cases)
    case (fail e')
    then show ?thesis by (intro exI [of _ "[]"] exI [of _ s]) auto
  next
    case (call d s1 c s2)
    then have "\<exists>cs s1. calls_chain env tools sp inp (history @ [c]) s2 cs s1 \<and>
      int (length (history @ [c]) + length cs) < MaxSteps inp \<and> fails_turn env sp inp ((history @ [c]) @ cs) s1 e s'"
      by (intro less.hyps) (auto simp: algebra_simps)
    then obtain cs s3 where "calls_chain env tools sp inp (history @ [c]) s2 cs s3"
      "int (length (history @ [c]) + length cs) < MaxSteps inp" "fails_turn env sp inp ((history @ [c]) @ cs) s3 e s'"
      by blast
    with call show ?thesis by (intro exI [of _ "c # cs"] exI [of _ s3]) auto
  qed simp_all
qed


text \<open>What one call records: the tool that is registered under the name, and its own result.\<close>

definition recorded :: "'s agent_env \<Rightarrow> 's ToolRegistry \<Rightarrow> ToolAgentStep \<Rightarrow> bool" where
  "recorded env tools e \<longleftrightarrow> StepToolName e \<noteq> [] \<and> StepFinal e = [] \<and>
     (case tool_Get tools (StepToolName e) of
        None \<Rightarrow> StepToolError e \<and> StepToolResult e = missing_tool_message env tools (StepToolName e)
      | Some t \<Rightarrow> (\<exists>s. case fst (ToolRun t (StepToolArgs e) s) of
          Inl msg \<Rightarrow> StepToolError e \<and> StepToolResult e = ''Error: '' @ msg
        | Inr result \<Rightarrow> \<not> StepToolError e \<and> StepToolResult e = result))"

lemma dispatch_tool_recorded:
  assumes "dispatch_tool env tools n d s = (e, s')" "DecTool d \<noteq> []"
  shows "recorded env tools e"
proof (cases "tool_Get tools (DecTool d)")
  case None
  with assms show ?thesis by (auto simp: dispatch_tool_def recorded_def Let_def)
next
  case (Some t)
  let ?s1 = "env_emit env (NewToolCalled (env_now env s) [] (DecTool d) (DecArgs d) n) s"
  obtain r s2 where run: "ToolRun t (DecArgs d) ?s1 = (r, s2)" by fastforce
  have fields: "StepToolName e = DecTool d" "StepToolArgs e = DecArgs d" "StepFinal e = []"
    using assms Some run by (auto simp: dispatch_tool_def Let_def split: sum.splits)
  have "case r of Inl msg \<Rightarrow> StepToolError e \<and> StepToolResult e = ''Error: '' @ msg
        | Inr result \<Rightarrow> \<not> StepToolError e \<and> StepToolResult e = result"
    using assms Some run by (auto simp: dispatch_tool_def Let_def split: sum.splits)
  with run have "\<exists>s. case fst (ToolRun t (DecArgs d) s) of
      Inl msg \<Rightarrow> StepToolError e \<and> StepToolResult e = ''Error: '' @ msg
    | Inr result \<Rightarrow> \<not> StepToolError e \<and> StepToolResult e = result"
    by (metis fst_conv)
  with fields Some assms(2) show ?thesis by (simp add: recorded_def)
qed

lemma calls_chain_recorded:
  "calls_chain env tools sp inp history s cs s' \<Longrightarrow> \<forall>e\<in>set cs. recorded env tools e"
  by (induction env tools sp inp history s cs s' rule: calls_chain.induct)
    (auto intro: dispatch_tool_recorded)

lemma RunToolAgent_runs:
  assumes "RunToolAgent env tools inp s = (Inr out, s')"
  obtains e r where "env = Some e" "tools = Some r" "Task inp \<noteq> []" "0 < MaxSteps inp"
    "agent_loop e r inp (buildToolAgentSystemPrompt (env_order e) r) (int (length ([] :: ToolAgentStep list))) [] s = (Inr out, s')"
  using assms by (auto simp: RunToolAgent_def runToolAgentLoop_def split: option.splits if_splits)

text \<open>A registry as the worker fills it at start-up.\<close>

definition registered_tools :: "'s Tool list \<Rightarrow> 's ToolRegistry" where
  "registered_tools ts = foldl (\<lambda>r t. snd (Register (Some t) r)) NewToolRegistry ts"

section \<open>Properties\<close>

text \<open>
  Whatever tools are registered at start-up, in whatever order, a name then denotes the first
  tool registered under it, no tool is ever replaced, and names and prompt do not depend on the
  order in which Go ranges over the map: the names come sorted and without repetition, exactly
  those that can be looked up.
\<close>

theorem registry_lookup:
  assumes "range_order \<rho>"
  shows "tool_Get (registered_tools ts) n = (if n = [] then None else find (\<lambda>t. ToolNameOf t = n) ts) \<and>
    sorted (tool_Names \<rho> (registered_tools ts)) \<and> distinct (tool_Names \<rho> (registered_tools ts)) \<and>
    set (tool_Names \<rho> (registered_tools ts)) = {ToolNameOf t | t. t \<in> set ts \<and> ToolNameOf t \<noteq> []} \<and>
    describeForPrompt \<rho> (registered_tools ts) = describeForPrompt (\<lambda>x. x) (registered_tools ts)"
proof -
  let ?r = "registered_tools ts"
  have r: "?r = tools.register_all ts NewToolRegistry"
    by (simp add: registered_tools_def tools.register_all_def register_tool_def)
  have get: "tool_Get ?r n = (if n = [] then None else find (\<lambda>t. ToolNameOf t = n) ts)" for n
    unfolding r tools.first_wins tools.eligible_def by (induction ts) auto
  have wf: "gm_wf ?r" unfolding registered_tools_def by (rule register_tools_wf) (simp add: NewToolRegistry_def)
  have "n \<in> set (gm_keys ?r) \<longleftrightarrow> tool_Get ?r n \<noteq> None" for n
    using gm_get_None_iff [of ?r n] by (simp add: tool_Get_def)
  then have "set (gm_keys ?r) = {ToolNameOf t | t. t \<in> set ts \<and> ToolNameOf t \<noteq> []}"
    unfolding get not_None_eq [symmetric] by (auto simp: find_None_iff simp del: not_None_eq split: if_splits)
  with get wf assms(1) show ?thesis
    by (simp add: tool_Names_sort describeForPrompt_order [OF assms(1)] gm_wf_keys)
qed

definition demo_tool :: "string \<Rightarrow> string \<Rightarrow> nat Tool" where
  "demo_tool name reply = \<lparr>ToolNameOf = name, ToolDescription = reply, ToolSchema = [],
     ToolRun = (\<lambda>args s. (if reply = [] then Inl ''empty'' else Inr reply, s + 1))\<rparr>"

theorem registry_lookup_witness:
  "tool_Get (registered_tools [demo_tool ''b'' ''1'', demo_tool ''a'' ''2'', demo_tool ''b'' ''3'']) ''b'' =
     Some (demo_tool ''b'' ''1'')"
  using registry_lookup [where \<rho> = rev and n = "''b''" and
    ts = "[demo_tool ''b'' ''1'', demo_tool ''a'' ''2'', demo_tool ''b'' ''3'']", OF range_order_rev]
  by (simp add: demo_tool_def)


text \<open>A model that calls the tool a, then an unknown one, and then answers; the decoder reads the first byte.\<close>

definition demo_decision :: "string \<Rightarrow> string + toolDecision" where
  "demo_decision raw =
     (if raw = [] then Inl ''empty''
      else if hd raw = CHR ''!'' then
        Inr \<lparr>DecAction = ''final'', DecReasoning = [], DecTool = [], DecArgs = [], DecAnswer = tl raw\<rparr>
      else if hd raw = CHR ''?'' then
        Inr \<lparr>DecAction = ''ponder'', DecReasoning = [], DecTool = [], DecArgs = [], DecAnswer = []\<rparr>
      else Inr \<lparr>DecAction = ''tool'', DecReasoning = [], DecTool = raw, DecArgs = [], DecAnswer = []\<rparr>)"

definition demo_env :: "string list \<Rightarrow> nat agent_env" where
  "demo_env script =
     \<lparr>env_llm = (\<lambda>sys user n. if n < length script then (Returned (script ! n) None, n + 1)
        else (Returned [] (Some NoResponses), n)),
      env_decode = demo_decision, env_marshal = (\<lambda>args. ''{}''), env_quote = (\<lambda>x. x),
      env_order = (\<lambda>x. x), env_now = (\<lambda>n. int n), env_emit = (\<lambda>e n. n)\<rparr>"

definition demo_registry :: "nat ToolRegistry" where
  "demo_registry = snd (Register (Some (demo_tool ''a'' ''42'')) NewToolRegistry)"

lemma demo_agent_run:
  "case RunToolAgent (Some (demo_env [''a'', ''x'', ''zz'', ''!done''])) (Some demo_registry)
      \<lparr>Task = ''t'', MaxSteps = 3\<rparr> 0 of
     (Inr out, n) \<Rightarrow> OutConverged out \<and> OutAnswer out = ''done'' \<and>
        map StepToolName (OutSteps out) = [''a'', ''zz'', []] \<and>
        map StepToolError (OutSteps out) = [False, True, False] \<and> n = 4
   | _ \<Rightarrow> False"
  by code_simp


text \<open>
  A run that fails either refused its input, before anything happened, or made a chain of tool
  calls of fewer than \<open>MaxSteps\<close> turns and failed on the turn after them: the model failed, its reply
  was not a decision, a tool call named no tool, or the action was unknown; the error names that turn.
\<close>

theorem RunToolAgent_error:
  assumes "RunToolAgent (Some env) (Some tools) inp s = (Inl e, s')"
  defines "sp \<equiv> buildToolAgentSystemPrompt (env_order env) tools"
  shows "(Task inp = [] \<or> MaxSteps inp \<le> 0) \<and> s' = s \<and> (\<exists>msg. e = AgentInvalidInput msg) \<or>
    (\<exists>cs s1. calls_chain env tools sp inp [] s cs s1 \<and> int (length cs) < MaxSteps inp \<and>
       fails_turn env sp inp cs s1 e s')"
proof (cases "Task inp = [] \<or> MaxSteps inp \<le> 0")
  case True
  with assms show ?thesis by (auto simp: RunToolAgent_def split: if_splits)
next
  case False
  with assms have "agent_loop env tools inp sp (int (length ([] :: ToolAgentStep list))) [] s = (Inl e, s')"
    by (simp add: RunToolAgent_def runToolAgentLoop_def)
  from agent_loop_Inl [OF this] show ?thesis by auto
qed

lemma demo_error:
  "RunToolAgent (Some (demo_env [''a'', ''x'', ''?''])) (Some demo_registry)
      \<lparr>Task = ''t'', MaxSteps = 3\<rparr> 0 = (Inl (UnknownAction 2 ''ponder''), 3)"
  by code_simp

theorem RunToolAgent_error_witness:
  "\<exists>cs s1. length cs < 3 \<and> fails_turn (demo_env [''a'', ''x'', ''?''])
     (buildToolAgentSystemPrompt (env_order (demo_env [''a'', ''x'', ''?''])) demo_registry)
     \<lparr>Task = ''t'', MaxSteps = 3\<rparr> cs s1 (UnknownAction 2 ''ponder'') 3"
  using RunToolAgent_error [OF demo_error] by auto

lemma agent_loop_not_refused:
  assumes "agent_loop env tools inp sp (int (length history)) history s = (Inl e, s')"
  shows "e \<noteq> AgentInvalidInput msg"
proof -
  obtain cs s1 where "fails_turn env sp inp (history @ cs) s1 e s'" using agent_loop_Inl [OF assms] by blast
  then show ?thesis
    by (auto simp: fails_turn_def Let_def split: prod.splits reply.splits option.splits sum.splits)
qed

text \<open>
  The arrow and the activity run the same loop, but only the activity checks its input: they
  agree exactly on the inputs the activity accepts. On the others the arrow reports no error: with no
  steps allowed it returns at once an empty answer that did not converge.
\<close>

theorem ToolAgentArrow_agrees:
  "(ToolAgentArrow (Some env) (Some tools) inp s = RunToolAgent (Some env) (Some tools) inp s \<longleftrightarrow>
      Task inp \<noteq> [] \<and> 0 < MaxSteps inp) \<and>
   (0 < MaxSteps inp \<or> ToolAgentArrow (Some env) (Some tools) inp s =
      (Inr \<lparr>OutAnswer = [], OutSteps = [], OutConverged = False\<rparr>, s))"
proof -
  have "fst (runToolAgentLoop env tools inp s) \<noteq> Inl (AgentInvalidInput msg)" for msg
    using agent_loop_not_refused [of env tools inp "buildToolAgentSystemPrompt (env_order env) tools" "[]" s]
    by (cases "runToolAgentLoop env tools inp s") (auto simp: runToolAgentLoop_def)
  then have "runToolAgentLoop env tools inp s \<noteq> (Inl (AgentInvalidInput msg), s)" for msg by (metis fst_conv)
  moreover have "0 < MaxSteps inp \<or> runToolAgentLoop env tools inp s =
      (Inr \<lparr>OutAnswer = [], OutSteps = [], OutConverged = False\<rparr>, s)"
    by (simp add: runToolAgentLoop_def agent_loop.simps)
  ultimately show ?thesis by (auto simp: ToolAgentArrow_def RunToolAgent_def)
qed

end
