(* ===== verification/Calculator.thy ===== *)
theory Calculator
  imports Go_Strings Tools
begin

text \<open>
  The calculator of \<^verbatim>\<open>agent/tools_builtin.go\<close>: a recursive-descent parser that evaluates while it
  parses. Floating-point arithmetic is a parameter. The parser's four methods recurse on fuel; the
  fuel \<open>4 * length src + 3\<close> is proved to be enough for every input, so that running out of it is no
  behaviour of the model. The grammar and the meaning of expressions are stated separately, and
  the parser is proved to compute that meaning on exactly the texts of the grammar.
\<close>

section \<open>The parser\<close>

record 'f floats =
  fl_parse :: "string \<Rightarrow> string + 'f"
  fl_add :: "'f \<Rightarrow> 'f \<Rightarrow> 'f"
  fl_sub :: "'f \<Rightarrow> 'f \<Rightarrow> 'f"
  fl_mul :: "'f \<Rightarrow> 'f \<Rightarrow> 'f"
  fl_div :: "'f \<Rightarrow> 'f \<Rightarrow> 'f"
  fl_neg :: "'f \<Rightarrow> 'f"
  fl_is_zero :: "'f \<Rightarrow> bool"
  fl_format :: "'f \<Rightarrow> string"

datatype calc_error =
    ExpressionRequired
  | UnexpectedInput nat string
  | UnexpectedEnd
  | DivisionByZero
  | MissingParen
  | ExpectedNumber nat char
  | ParseNumber string

text \<open>\<^verbatim>\<open>unicode.IsSpace\<close> on a byte taken as a rune.\<close>

definition isSpace :: "char \<Rightarrow> bool" where
  "isSpace c \<longleftrightarrow> c \<in> set [CHR 0x09, CHR 0x0A, CHR 0x0B, CHR 0x0C, CHR 0x0D, CHR 0x20, CHR 0x85, CHR 0xA0]"

function skipSpaces :: "string \<Rightarrow> nat \<Rightarrow> nat" where
  "skipSpaces src pos =
     (if pos < length src \<and> isSpace (src ! pos) then skipSpaces src (pos + 1) else pos)"
  by pat_completeness auto
termination by (relation "measure (\<lambda>(src, pos). length src - pos)") auto

declare skipSpaces.simps [simp del]

definition number_char :: "char \<Rightarrow> bool" where
  "number_char ch \<longleftrightarrow> (CHR ''0'' \<le> ch \<and> ch \<le> CHR ''9'') \<or> ch = CHR ''.''"

function scan_number :: "string \<Rightarrow> nat \<Rightarrow> nat" where
  "scan_number src pos =
     (if pos < length src \<and> number_char (src ! pos) then scan_number src (pos + 1) else pos)"
  by pat_completeness auto
termination by (relation "measure (\<lambda>(src, pos). length src - pos)") auto

declare scan_number.simps [simp del]

type_synonym 'a fallible = "(calc_error + 'a) option"

definition fbind :: "'a fallible \<Rightarrow> ('a \<Rightarrow> 'b fallible) \<Rightarrow> 'b fallible" where
  "fbind m k = (case m of None \<Rightarrow> None | Some (Inl e) \<Rightarrow> Some (Inl e) | Some (Inr x) \<Rightarrow> k x)"

lemma fbind_simps [simp]:
  "fbind None k = None"
  "fbind (Some (Inl e)) k = Some (Inl e)"
  "fbind (Some (Inr x)) k = k x"
  by (simp_all add: fbind_def)

lemma fbind_cong [fundef_cong]:
  "m = m' \<Longrightarrow> (\<And>x. m' = Some (Inr x) \<Longrightarrow> k x = k' x) \<Longrightarrow> fbind m k = fbind m' k'"
  by (auto simp: fbind_def split: option.splits sum.splits)

text \<open>
  The bodies of the methods, over the methods they call: the loops of \<open>parseExpression\<close> and
  \<open>parseTerm\<close>, one iteration each, and \<open>parseFactor\<close>.
\<close>

type_synonym 'f parse_at = "nat \<Rightarrow> ('f \<times> nat) fallible"

definition expression_step :: "'f floats \<Rightarrow> string \<Rightarrow> 'f parse_at \<Rightarrow> ('f \<Rightarrow> 'f parse_at) \<Rightarrow> 'f \<Rightarrow> 'f parse_at" where
  "expression_step F src term_at again left pos =
     (let p = skipSpaces src pos
      in if p \<ge> length src then Some (Inr (left, p))
         else if src ! p \<noteq> CHR ''+'' \<and> src ! p \<noteq> CHR ''-'' then Some (Inr (left, p))
         else fbind (term_at (p + 1)) (\<lambda>(right, p').
                if src ! p = CHR ''+'' then again (fl_add F left right) p'
                else again (fl_sub F left right) p'))"

definition term_step :: "'f floats \<Rightarrow> string \<Rightarrow> 'f parse_at \<Rightarrow> ('f \<Rightarrow> 'f parse_at) \<Rightarrow> 'f \<Rightarrow> 'f parse_at" where
  "term_step F src factor_at again left pos =
     (let p = skipSpaces src pos
      in if p \<ge> length src then Some (Inr (left, p))
         else if src ! p \<noteq> CHR ''*'' \<and> src ! p \<noteq> CHR ''/'' then Some (Inr (left, p))
         else fbind (factor_at (p + 1)) (\<lambda>(right, p').
                if src ! p = CHR ''*'' then again (fl_mul F left right) p'
                else if fl_is_zero F right then Some (Inl DivisionByZero)
                else again (fl_div F left right) p'))"

definition close_paren :: "string \<Rightarrow> 'f \<Rightarrow> 'f parse_at" where
  "close_paren src v pos =
     (let q = skipSpaces src pos
      in if q \<ge> length src \<or> src ! q \<noteq> CHR '')'' then Some (Inl MissingParen)
         else Some (Inr (v, q + 1)))"

definition number_at :: "'f floats \<Rightarrow> string \<Rightarrow> 'f parse_at" where
  "number_at F src p =
     (let q = scan_number src p
      in if p = q then Some (Inl (ExpectedNumber p (src ! p)))
         else (case fl_parse F (take (q - p) (drop p src)) of
                 Inl e \<Rightarrow> Some (Inl (ParseNumber e))
               | Inr v \<Rightarrow> Some (Inr (v, q))))"

definition factor_step :: "'f floats \<Rightarrow> string \<Rightarrow> 'f parse_at \<Rightarrow> 'f parse_at \<Rightarrow> 'f parse_at" where
  "factor_step F src expression_at factor_at pos =
     (let p = skipSpaces src pos
      in if p \<ge> length src then Some (Inl UnexpectedEnd)
         else if src ! p = CHR ''-'' then
           fbind (factor_at (p + 1)) (\<lambda>(v, p'). Some (Inr (fl_neg F v, p')))
         else if src ! p = CHR ''+'' then factor_at (p + 1)
         else if src ! p = CHR ''('' then
           fbind (expression_at (p + 1)) (\<lambda>(v, p'). close_paren src v p')
         else number_at F src p)"

text \<open>
  The methods call each other; \<open>parse_call\<close> is their common recursion, on the fuel, over the call that
  is made.
\<close>

datatype 'f parser_call = ExpressionCall | ExpressionLoop 'f | TermCall | TermLoop 'f | FactorCall

definition method_step :: "'f floats \<Rightarrow> string \<Rightarrow> ('f parser_call \<Rightarrow> 'f parse_at) \<Rightarrow> 'f parser_call \<Rightarrow> 'f parse_at" where
  "method_step F src call c pos =
     (case c of
        ExpressionCall \<Rightarrow> fbind (call TermCall pos) (\<lambda>(left, p). call (ExpressionLoop left) p)
      | ExpressionLoop left \<Rightarrow> expression_step F src (call TermCall) (\<lambda>l. call (ExpressionLoop l)) left pos
      | TermCall \<Rightarrow> fbind (call FactorCall pos) (\<lambda>(left, p). call (TermLoop left) p)
      | TermLoop left \<Rightarrow> term_step F src (call FactorCall) (\<lambda>l. call (TermLoop l)) left pos
      | FactorCall \<Rightarrow> factor_step F src (call ExpressionCall) (call FactorCall) pos)"

primrec parse_call :: "'f floats \<Rightarrow> string \<Rightarrow> nat \<Rightarrow> 'f parser_call \<Rightarrow> 'f parse_at" where
  "parse_call F src 0 = (\<lambda>c pos. None)"
| "parse_call F src (Suc k) = method_step F src (parse_call F src k)"

definition parser_fuel :: "string \<Rightarrow> nat" where
  "parser_fuel src = 4 * length src + 3"

definition parser :: "'f floats \<Rightarrow> string \<Rightarrow> 'f parser_call \<Rightarrow> 'f parse_at" where
  "parser F src = parse_call F src (parser_fuel src)"

definition parseExpression :: "'f floats \<Rightarrow> string \<Rightarrow> 'f parse_at" where
  "parseExpression F src = parser F src ExpressionCall"

definition calculate :: "'f floats \<Rightarrow> string \<Rightarrow> string fallible" where
  "calculate F expr =
     (if TrimSpace expr = [] then Some (Inl ExpressionRequired)
      else fbind (parseExpression F expr 0) (\<lambda>(result, p).
        let q = skipSpaces expr p
        in if q \<noteq> length expr then Some (Inl (UnexpectedInput q (drop q expr)))
           else Some (Inr (fl_format F result))))"

text \<open>The argument is read with a type assertion: anything but a text counts as the empty one.\<close>

definition string_arg :: "tool_args \<Rightarrow> string \<Rightarrow> string" where
  "string_arg args name = (case gm_get args name of Some (JString s) \<Rightarrow> s | _ \<Rightarrow> [])"

definition CalculatorTool_Run :: "'f floats \<Rightarrow> tool_args \<Rightarrow> string fallible" where
  "CalculatorTool_Run F args = calculate F (string_arg args ''expression'')"

section \<open>The fuel is enough\<close>

lemma skipSpaces_bounds: "pos \<le> skipSpaces src pos \<and> (pos \<le> length src \<longrightarrow> skipSpaces src pos \<le> length src)"
proof (induction src pos rule: skipSpaces.induct)
  case (1 src pos)
  then show ?case by (subst (1 2) skipSpaces.simps) auto
qed

lemma skipSpaces_ge: "pos \<le> skipSpaces src pos"
  and skipSpaces_le: "pos \<le> length src \<Longrightarrow> skipSpaces src pos \<le> length src"
  using skipSpaces_bounds by auto

lemma scan_number_bounds: "pos \<le> scan_number src pos \<and> (pos \<le> length src \<longrightarrow> scan_number src pos \<le> length src)"
proof (induction src pos rule: scan_number.induct)
  case (1 src pos)
  then show ?case by (subst (1 2) scan_number.simps) auto
qed

lemma scan_number_ge: "pos \<le> scan_number src pos"
  and scan_number_le: "pos \<le> length src \<Longrightarrow> scan_number src pos \<le> length src"
  using scan_number_bounds by auto

text \<open>
  \<open>fuel_need c\<close> is what a call needs beyond four units for every byte that is left, and \<open>advances\<close> says
  that a result leaves less text than it found (a loop: not more).
\<close>

fun fuel_need :: "'f parser_call \<Rightarrow> nat" where
  "fuel_need ExpressionCall = 3"
| "fuel_need TermCall = 2"
| "fuel_need FactorCall = 1"
| "fuel_need (ExpressionLoop l) = 1"
| "fuel_need (TermLoop l) = 1"

fun looping :: "'f parser_call \<Rightarrow> bool" where
  "looping (ExpressionLoop l) = True"
| "looping (TermLoop l) = True"
| "looping c = False"

definition advances :: "string \<Rightarrow> nat \<Rightarrow> bool \<Rightarrow> ('f \<times> nat) fallible \<Rightarrow> bool" where
  "advances src pos loop m \<longleftrightarrow>
     (case m of None \<Rightarrow> False | Some (Inl e) \<Rightarrow> True
      | Some (Inr (v, p)) \<Rightarrow> (if loop then pos \<le> p else pos < p) \<and> p \<le> length src)"

lemma advances_simps [simp]:
  "\<not> advances src pos a None"
  "advances src pos a (Some (Inl e))"
  "advances src pos a (Some (Inr (v, p))) \<longleftrightarrow> (if a then pos \<le> p else pos < p) \<and> p \<le> length src"
  by (simp_all add: advances_def)

lemma advances_cases:
  assumes "advances src pos a m"
  obtains e where "m = Some (Inl e)"
  | v p where "m = Some (Inr (v, p))" "if a then pos \<le> p else pos < p" "p \<le> length src"
  using assms by (auto simp: advances_def split: option.splits sum.splits)

lemma advances_fbind:
  assumes "advances src pos False m"
    "\<And>v p. pos < p \<Longrightarrow> p \<le> length src \<Longrightarrow> advances src' pos' b (k (v, p))"
  shows "advances src' pos' b (fbind m k)"
  using assms(1) by (cases rule: advances_cases) (auto intro: assms(2))

lemma advances_weaken:
  "advances src p a m \<Longrightarrow> pos \<le> p \<Longrightarrow> (a \<Longrightarrow> pos < p \<or> b) \<Longrightarrow> advances src pos b m"
  by (auto simp: advances_def split: option.splits sum.splits if_splits)

lemma parse_call_advances:
  assumes "pos \<le> length src" "4 * (length src - pos) + fuel_need c \<le> k"
  shows "advances src pos (looping c) (parse_call F src k c pos)"
  using assms
proof (induction k arbitrary: c pos)
  case 0
  then show ?case by (cases c) auto
next
  case (Suc k)
  let ?rec = "parse_call F src k"
  define p where "p = skipSpaces src pos"
  have p: "pos \<le> p" "p \<le> length src"
    using skipSpaces_ge [of pos src] skipSpaces_le [OF Suc.prems(1)] by (simp_all add: p_def)
  have need: "fuel_need c' \<le> 3" "1 \<le> fuel_need c'" for c' :: "'a parser_call"
    by (cases c'; simp)+
  have call: "advances src pos b (?rec c' q)" if "pos < q" "q \<le> length src" for c' q b
  proof -
    have "4 * (length src - q) + fuel_need c' \<le> k"
      using that Suc.prems(2) need(1) [of c'] need(2) [of c] by linarith
    then have "advances src q (looping c') (?rec c' q)" by (rule Suc.IH [OF that(2)])
    then show ?thesis by (rule advances_weaken) (use that in simp_all)
  qed
  have same: "advances src pos False (?rec c' pos)" if "fuel_need c' < fuel_need c" "\<not> looping c'" for c'
    using Suc.IH [of pos c'] Suc.prems that by simp
  show ?case
  proof (cases c)
    case ExpressionCall
    with same [of TermCall] show ?thesis
      by (auto simp: method_step_def intro!: advances_fbind call)
  next
    case TermCall
    with same [of FactorCall] show ?thesis
      by (auto simp: method_step_def intro!: advances_fbind call)
  next
    case (ExpressionLoop l)
    have "advances src pos False (?rec TermCall (p + 1))" if "p < length src"
      using that p by (intro call) auto
    then show ?thesis using p
      by (auto simp: ExpressionLoop method_step_def expression_step_def Let_def p_def [symmetric]
        intro!: advances_fbind call)
  next
    case (TermLoop l)
    have "advances src pos False (?rec FactorCall (p + 1))" if "p < length src"
      using that p by (intro call) auto
    then show ?thesis using p
      by (auto simp: TermLoop method_step_def term_step_def Let_def p_def [symmetric]
        intro!: advances_fbind call)
  next
    case FactorCall
    have rec: "advances src pos False (?rec c' (p + 1))" if "p < length src" for c'
      using that p by (intro call) auto
    have paren: "advances src pos False (close_paren src v q)" if "pos < q" "q \<le> length src" for v :: 'a and q
      using that skipSpaces_ge [of q src] by (auto simp: close_paren_def Let_def)
    have number: "advances src pos False (number_at F src p)" if "p < length src"
      using that p scan_number_ge [of p src] scan_number_le [of p src]
      by (auto simp: number_at_def Let_def split: sum.splits)
    show ?thesis using p rec number
      by (auto simp: FactorCall method_step_def factor_step_def Let_def p_def [symmetric]
        intro!: advances_fbind paren)
  qed
qed

text \<open>More fuel never changes a result.\<close>

lemma fbind_mono:
  "fbind m k = Some r \<Longrightarrow> (\<And>x. m = Some x \<Longrightarrow> m' = Some x) \<Longrightarrow> (\<And>x y. k x = Some y \<Longrightarrow> k' x = Some y) \<Longrightarrow>
     fbind m' k' = Some r"
  by (cases m) (auto simp: fbind_def split: sum.splits)

lemma method_step_mono:
  assumes "method_step F src f c pos = Some r" "\<And>c p r. f c p = Some r \<Longrightarrow> g c p = Some r"
  shows "method_step F src g c pos = Some r"
  using assms(1)
  by (cases c)
    (auto simp: method_step_def expression_step_def term_step_def factor_step_def Let_def
      split: if_splits elim!: fbind_mono intro: assms(2))

lemma parse_call_Suc: "parse_call F src k c pos = Some r \<Longrightarrow> parse_call F src (Suc k) c pos = Some r"
proof (induction k arbitrary: c pos r)
  case 0
  then show ?case by simp
next
  case (Suc k)
  from Suc.prems have "method_step F src (parse_call F src k) c pos = Some r" by simp
  then have "method_step F src (parse_call F src (Suc k)) c pos = Some r"
    by (rule method_step_mono) (rule Suc.IH)
  then show ?case unfolding parse_call.simps(2) [of F src "Suc k"] .
qed

lemma parse_call_mono: "parse_call F src k c pos = Some r \<Longrightarrow> k \<le> k' \<Longrightarrow> parse_call F src k' c pos = Some r"
  by (induction k') (auto simp: le_Suc_eq intro: parse_call_Suc simp del: parse_call.simps)


text \<open>So the parser obeys the equations of the source, with no fuel in them.\<close>

lemma parser_unfold:
  assumes "pos \<le> length src"
  shows "parser F src c pos = method_step F src (parser F src) c pos"
proof -
  have "fuel_need c \<le> 3" by (cases c) auto
  then have "advances src pos (looping c) (parse_call F src (parser_fuel src) c pos)"
    by (intro parse_call_advances [OF assms]) (simp add: parser_fuel_def)
  then obtain r where r: "parse_call F src (parser_fuel src) c pos = Some r"
    by (auto elim: advances_cases)
  then have "parse_call F src (Suc (parser_fuel src)) c pos = Some r" by (rule parse_call_Suc)
  with r show ?thesis by (simp add: parser_def)
qed

lemma parser_result:
  assumes "pos \<le> length src"
  shows "(\<exists>e. parser F src c pos = Some (Inl e)) \<or> (\<exists>v p. parser F src c pos = Some (Inr (v, p)) \<and> p \<le> length src)"
proof -
  have "fuel_need c \<le> 3" by (cases c) auto
  then have "advances src pos (looping c) (parser F src c pos)"
    unfolding parser_def by (intro parse_call_advances [OF assms]) (simp add: parser_fuel_def)
  then show ?thesis by (cases rule: advances_cases) auto
qed

section \<open>Expressions and their grammar\<close>

datatype arith_op = Plus | Minus | Times | Divide

datatype aexp = Number string | Negate aexp | Binary arith_op aexp aexp

fun op_char :: "arith_op \<Rightarrow> char" where
  "op_char Plus = CHR ''+''"
| "op_char Minus = CHR ''-''"
| "op_char Times = CHR ''*''"
| "op_char Divide = CHR ''/''"

fun apply_op :: "'f floats \<Rightarrow> arith_op \<Rightarrow> 'f \<Rightarrow> 'f \<Rightarrow> calc_error + 'f" where
  "apply_op F Plus x y = Inr (fl_add F x y)"
| "apply_op F Minus x y = Inr (fl_sub F x y)"
| "apply_op F Times x y = Inr (fl_mul F x y)"
| "apply_op F Divide x y = (if fl_is_zero F y then Inl DivisionByZero else Inr (fl_div F x y))"

fun aeval :: "'f floats \<Rightarrow> aexp \<Rightarrow> calc_error + 'f" where
  "aeval F (Number n) = (case fl_parse F n of Inl e \<Rightarrow> Inl (ParseNumber e) | Inr v \<Rightarrow> Inr v)"
| "aeval F (Negate a) = (case aeval F a of Inl e \<Rightarrow> Inl e | Inr v \<Rightarrow> Inr (fl_neg F v))"
| "aeval F (Binary bop a b) =
     (case aeval F a of Inl e \<Rightarrow> Inl e
      | Inr x \<Rightarrow> (case aeval F b of Inl e \<Rightarrow> Inl e | Inr y \<Rightarrow> apply_op F bop x y))"

definition spaces :: "string \<Rightarrow> bool" where
  "spaces s \<longleftrightarrow> (\<forall>c\<in>set s. isSpace c)"

text \<open>
  The texts \<^verbatim>\<open>arithParser\<close> accepts, with white space before every token; a tail carries the expression to its
  left, so that operators of one level associate to the left. This is the grammar of the comment before
  \<^verbatim>\<open>arithParser\<close> with one rule more, \<open>unary_plus\<close>: the comment names no plus sign in front of a factor, and
  \<^verbatim>\<open>parseFactor\<close> skips one. The comment's own grammar is \<open>doc_expr\<close> below. A number is what the code scans as
  one, a run of digits and dots; which runs are numbers, \<^verbatim>\<open>strconv.ParseFloat\<close> decides in the evaluation.
\<close>

inductive is_expr :: "string \<Rightarrow> aexp \<Rightarrow> bool"
  and expr_tail :: "aexp \<Rightarrow> string \<Rightarrow> aexp \<Rightarrow> bool"
  and is_term :: "string \<Rightarrow> aexp \<Rightarrow> bool"
  and term_tail :: "aexp \<Rightarrow> string \<Rightarrow> aexp \<Rightarrow> bool"
  and is_factor :: "string \<Rightarrow> aexp \<Rightarrow> bool" where
  expr_rule: "is_term s l \<Longrightarrow> expr_tail l s' a \<Longrightarrow> is_expr (s @ s') a"
| expr_stop: "expr_tail l [] l"
| expr_op: "bop = Plus \<or> bop = Minus \<Longrightarrow> spaces sp \<Longrightarrow> is_term s r \<Longrightarrow>
    expr_tail (Binary bop l r) s' a \<Longrightarrow> expr_tail l (sp @ op_char bop # s @ s') a"
| term_rule: "is_factor s l \<Longrightarrow> term_tail l s' a \<Longrightarrow> is_term (s @ s') a"
| term_stop: "term_tail l [] l"
| term_op: "bop = Times \<or> bop = Divide \<Longrightarrow> spaces sp \<Longrightarrow> is_factor s r \<Longrightarrow>
    term_tail (Binary bop l r) s' a \<Longrightarrow> term_tail l (sp @ op_char bop # s @ s') a"
| number: "spaces sp \<Longrightarrow> n \<noteq> [] \<Longrightarrow> \<forall>c\<in>set n. number_char c \<Longrightarrow> is_factor (sp @ n) (Number n)"
| unary_minus: "spaces sp \<Longrightarrow> is_factor s a \<Longrightarrow> is_factor (sp @ CHR ''-'' # s) (Negate a)"
| unary_plus: "spaces sp \<Longrightarrow> is_factor s a \<Longrightarrow> is_factor (sp @ CHR ''+'' # s) a"
| paren: "spaces sp \<Longrightarrow> is_expr s a \<Longrightarrow> spaces sp' \<Longrightarrow> is_factor (sp @ CHR ''('' # s @ sp' @ [CHR '')'']) a"

text \<open>The grammar as the comment has it, \<^verbatim>\<open>factor = "-" factor | "(" expr ")" | NUMBER\<close>: no sign but a minus.\<close>

inductive doc_expr :: "string \<Rightarrow> aexp \<Rightarrow> bool"
  and doc_expr_tail :: "aexp \<Rightarrow> string \<Rightarrow> aexp \<Rightarrow> bool"
  and doc_term :: "string \<Rightarrow> aexp \<Rightarrow> bool"
  and doc_term_tail :: "aexp \<Rightarrow> string \<Rightarrow> aexp \<Rightarrow> bool"
  and doc_factor :: "string \<Rightarrow> aexp \<Rightarrow> bool" where
  doc_expr_rule: "doc_term s l \<Longrightarrow> doc_expr_tail l s' a \<Longrightarrow> doc_expr (s @ s') a"
| doc_expr_stop: "doc_expr_tail l [] l"
| doc_expr_op: "bop = Plus \<or> bop = Minus \<Longrightarrow> spaces sp \<Longrightarrow> doc_term s r \<Longrightarrow>
    doc_expr_tail (Binary bop l r) s' a \<Longrightarrow> doc_expr_tail l (sp @ op_char bop # s @ s') a"
| doc_term_rule: "doc_factor s l \<Longrightarrow> doc_term_tail l s' a \<Longrightarrow> doc_term (s @ s') a"
| doc_term_stop: "doc_term_tail l [] l"
| doc_term_op: "bop = Times \<or> bop = Divide \<Longrightarrow> spaces sp \<Longrightarrow> doc_factor s r \<Longrightarrow>
    doc_term_tail (Binary bop l r) s' a \<Longrightarrow> doc_term_tail l (sp @ op_char bop # s @ s') a"
| doc_number: "spaces sp \<Longrightarrow> n \<noteq> [] \<Longrightarrow> \<forall>c\<in>set n. number_char c \<Longrightarrow> doc_factor (sp @ n) (Number n)"
| doc_minus: "spaces sp \<Longrightarrow> doc_factor s a \<Longrightarrow> doc_factor (sp @ CHR ''-'' # s) (Negate a)"
| doc_paren: "spaces sp \<Longrightarrow> doc_expr s a \<Longrightarrow> spaces sp' \<Longrightarrow> doc_factor (sp @ CHR ''('' # s @ sp' @ [CHR '')'']) a"

text \<open>Every text of the comment is one of the parser, read the same way; a text that begins with a plus sign is none.\<close>

lemma doc_expr_is_expr:
  "doc_expr s a \<Longrightarrow> is_expr s a"
  "doc_expr_tail l s a \<Longrightarrow> expr_tail l s a"
  "doc_term s a \<Longrightarrow> is_term s a"
  "doc_term_tail l s a \<Longrightarrow> term_tail l s a"
  "doc_factor s a \<Longrightarrow> is_factor s a"
proof (induction rule: doc_expr_doc_expr_tail_doc_term_doc_term_tail_doc_factor.inducts)
qed (assumption | rule is_expr_expr_tail_is_term_term_tail_is_factor.intros)+

lemma doc_no_plus_sign:
  "doc_expr s a \<Longrightarrow> s \<noteq> [] \<and> hd s \<noteq> CHR ''+''"
  "doc_expr_tail l s a \<Longrightarrow> True"
  "doc_term s a \<Longrightarrow> s \<noteq> [] \<and> hd s \<noteq> CHR ''+''"
  "doc_term_tail l s a \<Longrightarrow> True"
  "doc_factor s a \<Longrightarrow> s \<noteq> [] \<and> hd s \<noteq> CHR ''+''"
proof (induction rule: doc_expr_doc_expr_tail_doc_term_doc_term_tail_doc_factor.inducts)
  case (doc_number sp n)
  then show ?case by (cases sp; cases n) (auto simp: spaces_def isSpace_def number_char_def)
next
  case (doc_minus sp s a)
  then show ?case by (cases sp) (auto simp: spaces_def isSpace_def)
next
  case (doc_paren sp s a sp')
  then show ?case by (cases sp) (auto simp: spaces_def isSpace_def)
qed auto

lemma spaces_simps [simp]:
  "spaces []" "spaces (c # s) \<longleftrightarrow> isSpace c \<and> spaces s" "spaces (s @ t) \<longleftrightarrow> spaces s \<and> spaces t"
  by (auto simp: spaces_def)

section \<open>Positions\<close>

text \<open>White space and digits are skipped as far as they go in the rest of the text.\<close>

lemma skipSpaces_append: "skipSpaces (pre @ rest) (length pre) = length pre + length (takeWhile isSpace rest)"
proof (induction rest arbitrary: pre)
  case Nil
  then show ?case by (subst skipSpaces.simps) simp
next
  case (Cons c cs)
  show ?case using Cons.IH [of "pre @ [c]"] by (subst skipSpaces.simps) (simp add: nth_append)
qed

lemma scan_number_append:
  "scan_number (pre @ rest) (length pre) = length pre + length (takeWhile number_char rest)"
proof (induction rest arbitrary: pre)
  case Nil
  then show ?case by (subst scan_number.simps) simp
next
  case (Cons c cs)
  show ?case using Cons.IH [of "pre @ [c]"] by (subst scan_number.simps) (simp add: nth_append)
qed

lemma skipSpaces_at:
  "pos \<le> length src \<Longrightarrow> skipSpaces src pos = pos + length (takeWhile isSpace (drop pos src))"
  using skipSpaces_append [of "take pos src" "drop pos src"] by (simp add: min_absorb2)

lemma scan_number_at:
  "pos \<le> length src \<Longrightarrow> scan_number src pos = pos + length (takeWhile number_char (drop pos src))"
  using scan_number_append [of "take pos src" "drop pos src"] by (simp add: min_absorb2)

lemma drop_skipSpaces:
  "pos \<le> length src \<Longrightarrow> drop (skipSpaces src pos) src = dropWhile isSpace (drop pos src)"
  by (simp add: skipSpaces_at dropWhile_eq_drop drop_drop add.commute)

lemma skipSpaces_idem: "pos \<le> length src \<Longrightarrow> skipSpaces src (skipSpaces src pos) = skipSpaces src pos"
  using skipSpaces_at [OF skipSpaces_le [of pos src]]
  by (cases "dropWhile isSpace (drop pos src)")
    (auto simp: drop_skipSpaces dropWhile_eq_Cons_conv)


section \<open>Every text of the grammar is parsed\<close>

definition next_in :: "string \<Rightarrow> string \<Rightarrow> bool" where
  "next_in ops rest \<longleftrightarrow> (case dropWhile isSpace rest of [] \<Rightarrow> False | c # cs \<Rightarrow> c \<in> set ops)"

definition number_ends :: "string \<Rightarrow> bool" where
  "number_ends rest \<longleftrightarrow> (case rest of [] \<Rightarrow> True | c # cs \<Rightarrow> \<not> number_char c)"

text \<open>The parser's outcome for an expression whose text ends at \<open>p\<close>.\<close>

definition outcome :: "'f floats \<Rightarrow> aexp \<Rightarrow> nat \<Rightarrow> calc_error + 'f \<times> nat" where
  "outcome F a p = (case aeval F a of Inl e \<Rightarrow> Inl e | Inr v \<Rightarrow> Inr (v, p))"

lemma isSpace_facts [simp]:
  "\<not> isSpace (op_char bop)" "\<not> isSpace CHR ''('' " "\<not> isSpace CHR '')''" "\<not> isSpace CHR ''-''" "\<not> isSpace CHR ''+''"
  "\<not> isSpace CHR ''*''" "\<not> isSpace CHR ''/''"
  by (cases bop; simp add: isSpace_def) (simp_all add: isSpace_def)

lemma number_char_facts [simp]:
  "\<not> number_char (op_char bop)" "\<not> number_char CHR ''('' " "\<not> number_char CHR '')''" "\<not> number_char CHR ''-''"
  "\<not> number_char CHR ''+''" "\<not> number_char CHR ''*''" "\<not> number_char CHR ''/''"
  by (cases bop; simp add: number_char_def less_eq_char_def) (simp_all add: number_char_def less_eq_char_def)

lemma isSpace_not_number: "isSpace c \<Longrightarrow> \<not> number_char c"
  by (auto simp: isSpace_def number_char_def less_eq_char_def)

lemma number_char_not_special:
  "number_char c \<Longrightarrow> c \<noteq> CHR ''('' \<and> c \<noteq> CHR ''-'' \<and> c \<noteq> CHR ''+'' \<and> \<not> isSpace c"
  using isSpace_not_number by (auto simp: number_char_facts)

lemma dropWhile_spaces: "spaces sp \<Longrightarrow> \<not> isSpace c \<Longrightarrow> dropWhile isSpace (sp @ c # s) = c # s"
  by (induction sp) auto

lemma takeWhile_spaces: "spaces sp \<Longrightarrow> \<not> isSpace c \<Longrightarrow> takeWhile isSpace (sp @ c # s) = sp"
  by (induction sp) auto

lemma token_at:
  assumes "pos \<le> length src" "drop pos src = sp @ c # rest" "spaces sp" "\<not> isSpace c"
  shows "skipSpaces src pos = pos + length sp" "pos + length sp < length src" "src ! (pos + length sp) = c"
    "drop (Suc (pos + length sp)) src = rest"
proof -
  show "skipSpaces src pos = pos + length sp"
    using assms by (simp add: skipSpaces_at takeWhile_spaces)
  have d: "drop (pos + length sp) src = c # rest"
    using assms(2) by (metis add.commute append_eq_conv_conj drop_drop)
  then show "pos + length sp < length src" by (metis drop_all list.distinct(1) not_le)
  with d show "src ! (pos + length sp) = c" "drop (Suc (pos + length sp)) src = rest"
    by (metis Cons_nth_drop_Suc list.inject)+
qed

lemma drop_append_at: "drop pos src = s @ rest \<Longrightarrow> drop (pos + length s) src = rest"
  by (metis add.commute append_eq_conv_conj drop_drop)

lemma drop_length_le: "pos \<le> length src \<Longrightarrow> drop pos src = s @ rest \<Longrightarrow> pos + length s \<le> length src"
  using length_drop [of pos src] by simp

text \<open>The loops: where they stop, and one iteration.\<close>

lemma loop_stop_position:
  assumes "pos \<le> length src" "\<not> next_in ops (drop pos src)" "skipSpaces src pos < length src"
  shows "src ! skipSpaces src pos \<notin> set ops"
  using assms drop_skipSpaces [OF assms(1)] Cons_nth_drop_Suc [OF assms(3)]
  by (auto simp: next_in_def split: list.splits)

lemma term_loop_stop:
  assumes "pos \<le> length src" "\<not> next_in ''*/'' (drop pos src)"
  shows "parser F src (TermLoop v) pos = Some (Inr (v, skipSpaces src pos))"
  using loop_stop_position [OF assms]
  by (auto simp: parser_unfold [OF assms(1)] method_step_def term_step_def Let_def)

lemma expression_loop_stop:
  assumes "pos \<le> length src" "\<not> next_in ''+-'' (drop pos src)"
  shows "parser F src (ExpressionLoop v) pos = Some (Inr (v, skipSpaces src pos))"
  using loop_stop_position [OF assms]
  by (auto simp: parser_unfold [OF assms(1)] method_step_def expression_step_def Let_def)

lemma fbind_eqI: "(\<And>x. k x = k' x) \<Longrightarrow> fbind m k = fbind m k'"
  by (auto simp: fbind_def split: option.splits sum.splits)

lemma term_loop_op:
  assumes "pos \<le> length src" "drop pos src = sp @ op_char bop # rest" "spaces sp" "bop = Times \<or> bop = Divide"
  shows "parser F src (TermLoop v) pos =
    fbind (parser F src FactorCall (Suc (pos + length sp))) (\<lambda>(r, p).
      case apply_op F bop v r of Inl e \<Rightarrow> Some (Inl e) | Inr w \<Rightarrow> parser F src (TermLoop w) p)"
  using assms(4) token_at [OF assms(1-3)]
  by (auto simp: parser_unfold [OF assms(1)] method_step_def term_step_def Let_def intro!: fbind_eqI)

lemma expression_loop_op:
  assumes "pos \<le> length src" "drop pos src = sp @ op_char bop # rest" "spaces sp" "bop = Plus \<or> bop = Minus"
  shows "parser F src (ExpressionLoop v) pos =
    fbind (parser F src TermCall (Suc (pos + length sp))) (\<lambda>(r, p).
      case apply_op F bop v r of Inl e \<Rightarrow> Some (Inl e) | Inr w \<Rightarrow> parser F src (ExpressionLoop w) p)"
  using assms(4) token_at [OF assms(1-3)]
  by (auto simp: parser_unfold [OF assms(1)] method_step_def expression_step_def Let_def intro!: fbind_eqI)

lemma expression_loop_skip:
  assumes "pos \<le> length src"
  shows "parser F src (ExpressionLoop v) (skipSpaces src pos) = parser F src (ExpressionLoop v) pos"
  using skipSpaces_le [OF assms]
  by (simp add: parser_unfold assms method_step_def expression_step_def skipSpaces_idem)

lemma close_paren_skip: "pos \<le> length src \<Longrightarrow> close_paren src v (skipSpaces src pos) = close_paren src v pos"
  by (simp add: close_paren_def skipSpaces_idem)

text \<open>A tail never turns an error to its left into a value.\<close>

lemma tail_error:
  "is_expr s a \<Longrightarrow> True"
  "expr_tail l s a \<Longrightarrow> aeval F l = Inl e \<Longrightarrow> aeval F a = Inl e"
  "is_term s a \<Longrightarrow> True"
  "term_tail l s a \<Longrightarrow> aeval F l = Inl e \<Longrightarrow> aeval F a = Inl e"
  "is_factor s a \<Longrightarrow> True"
  by (induction rule: is_expr_expr_tail_is_term_term_tail_is_factor.inducts) auto

lemma number_ends_spaces: "spaces sp \<Longrightarrow> \<not> number_char c \<Longrightarrow> number_ends (sp @ c # s)"
  by (cases sp) (auto simp: number_ends_def isSpace_not_number)

lemma term_tail_ends:
  "term_tail l s a \<Longrightarrow> number_ends rest \<Longrightarrow> number_ends (s @ rest)"
  by (erule term_tail.cases) (auto simp: number_ends_spaces)

lemma expr_tail_ends:
  "expr_tail l s a \<Longrightarrow> number_ends rest \<Longrightarrow> number_ends (s @ rest)"
  by (erule expr_tail.cases) (auto simp: number_ends_spaces)

lemma next_in_spaces: "spaces sp \<Longrightarrow> \<not> isSpace c \<Longrightarrow> next_in ops (sp @ c # s) \<longleftrightarrow> c \<in> set ops"
  by (simp add: next_in_def dropWhile_spaces)

lemma expr_tail_next:
  "expr_tail l s a \<Longrightarrow> \<not> next_in ''*/'' rest \<Longrightarrow> \<not> next_in ''*/'' (s @ rest)"
  by (erule expr_tail.cases) (auto simp: next_in_spaces)


lemma expression_call:
  "pos \<le> length src \<Longrightarrow> parser F src ExpressionCall pos =
     fbind (parser F src TermCall pos) (\<lambda>(left, p). parser F src (ExpressionLoop left) p)"
  and term_call:
  "pos \<le> length src \<Longrightarrow> parser F src TermCall pos =
     fbind (parser F src FactorCall pos) (\<lambda>(left, p). parser F src (TermLoop left) p)"
  by (simp_all add: parser_unfold [of pos src F ExpressionCall] parser_unfold [of pos src F TermCall] method_step_def)

lemma outcome_Inl [simp]: "aeval F a = Inl e \<Longrightarrow> outcome F a p = Inl e"
  and outcome_Inr [simp]: "aeval F a = Inr v \<Longrightarrow> outcome F a p = Inr (v, p)"
  by (simp_all add: outcome_def)

lemma factor_at:
  assumes "pos \<le> length src" "drop pos src = sp @ c # rest" "spaces sp" "\<not> isSpace c"
  shows "parser F src FactorCall pos =
     (let p = pos + length sp
      in if c = CHR ''-'' then fbind (parser F src FactorCall (Suc p)) (\<lambda>(v, p'). Some (Inr (fl_neg F v, p')))
         else if c = CHR ''+'' then parser F src FactorCall (Suc p)
         else if c = CHR ''('' then fbind (parser F src ExpressionCall (Suc p)) (\<lambda>(v, p'). close_paren src v p')
         else number_at F src p)"
  using token_at [OF assms] by (simp add: parser_unfold [OF assms(1)] method_step_def factor_step_def Let_def)

lemma number_at_complete:
  assumes "pos \<le> length src" "drop pos src = n @ rest" "n \<noteq> []" "\<forall>c\<in>set n. number_char c" "number_ends rest"
  shows "number_at F src pos = Some (outcome F (Number n) (pos + length n))"
proof -
  have "takeWhile number_char (n @ rest) = n"
    using assms(4,5) by (cases rest) (auto simp: number_ends_def takeWhile_append2)
  then have "scan_number src pos = pos + length n" using assms(1,2) by (simp add: scan_number_at)
  then show ?thesis using assms(2,3) by (simp add: number_at_def outcome_def split: sum.splits)
qed

lemma parser_complete:
  "is_expr s a \<Longrightarrow> \<forall>src pos rest. pos \<le> length src \<longrightarrow> drop pos src = s @ rest \<longrightarrow> number_ends rest \<longrightarrow>
     \<not> next_in ''*/'' rest \<longrightarrow> \<not> next_in ''+-'' rest \<longrightarrow>
     parser F src ExpressionCall pos = Some (outcome F a (skipSpaces src (pos + length s)))"
  "expr_tail l s a \<Longrightarrow> \<forall>src pos rest v. pos \<le> length src \<longrightarrow> drop pos src = s @ rest \<longrightarrow> number_ends rest \<longrightarrow>
     \<not> next_in ''*/'' rest \<longrightarrow> \<not> next_in ''+-'' rest \<longrightarrow> aeval F l = Inr v \<longrightarrow>
     parser F src (ExpressionLoop v) pos = Some (outcome F a (skipSpaces src (pos + length s)))"
  "is_term s a \<Longrightarrow> \<forall>src pos rest. pos \<le> length src \<longrightarrow> drop pos src = s @ rest \<longrightarrow> number_ends rest \<longrightarrow>
     \<not> next_in ''*/'' rest \<longrightarrow>
     parser F src TermCall pos = Some (outcome F a (skipSpaces src (pos + length s)))"
  "term_tail l s a \<Longrightarrow> \<forall>src pos rest v. pos \<le> length src \<longrightarrow> drop pos src = s @ rest \<longrightarrow> number_ends rest \<longrightarrow>
     \<not> next_in ''*/'' rest \<longrightarrow> aeval F l = Inr v \<longrightarrow>
     parser F src (TermLoop v) pos = Some (outcome F a (skipSpaces src (pos + length s)))"
  "is_factor s a \<Longrightarrow> \<forall>src pos rest. pos \<le> length src \<longrightarrow> drop pos src = s @ rest \<longrightarrow> number_ends rest \<longrightarrow>
     parser F src FactorCall pos = Some (outcome F a (pos + length s))"
proof (induction rule: is_expr_expr_tail_is_term_term_tail_is_factor.inducts)
  case (expr_rule s l s' a)
  show ?case
  proof (intro allI impI)
    fix src pos rest
    assume at: "pos \<le> length src" "drop pos src = (s @ s') @ rest" "number_ends rest"
      "\<not> next_in ''*/'' rest" "\<not> next_in ''+-'' rest"
    then have t: "parser F src TermCall pos = Some (outcome F l (skipSpaces src (pos + length s)))"
      using expr_rule.IH(1) expr_rule.hyps(2) by (simp add: expr_tail_ends expr_tail_next)
    have len: "pos + length s \<le> length src" using at drop_length_le [of pos src s] by simp
    show "parser F src ExpressionCall pos = Some (outcome F a (skipSpaces src (pos + length (s @ s'))))"
    proof (cases "aeval F l")
      case (Inl e)
      with t tail_error(2) [OF expr_rule.hyps(2) Inl] show ?thesis
        by (simp add: expression_call [OF at(1)])
    next
      case (Inr v)
      have "parser F src (ExpressionLoop v) (pos + length s) =
          Some (outcome F a (skipSpaces src (pos + length s + length s')))"
        using expr_rule.IH(2) len at Inr drop_append_at [of pos src s "s' @ rest"] by auto
      with t Inr show ?thesis
        by (simp add: expression_call [OF at(1)] expression_loop_skip [OF len] add.assoc)
    qed
  qed
next
  case (expr_stop l)
  then show ?case by (simp add: expression_loop_stop)
next
  case (expr_op bop sp s r l s' a)
  show ?case
  proof (intro allI impI)
    fix src pos rest v
    assume at: "pos \<le> length src" "drop pos src = (sp @ op_char bop # s @ s') @ rest" "number_ends rest"
      "\<not> next_in ''*/'' rest" "\<not> next_in ''+-'' rest" "aeval F l = Inr v"
    let ?p = "Suc (pos + length sp)"
    have d: "drop pos src = sp @ op_char bop # s @ s' @ rest" using at(2) by simp
    note tok = token_at [OF at(1) d expr_op.hyps(2)] and loop = expression_loop_op [where F = F and v = v, OF at(1) d expr_op.hyps(2,1)]
    have t: "parser F src TermCall ?p = Some (outcome F r (skipSpaces src (?p + length s)))"
      using expr_op.IH(1) expr_op.hyps(4) at(3,4) tok(2,4) by (simp add: expr_tail_ends expr_tail_next)
    have len: "?p + length s \<le> length src" using tok(2,4) drop_length_le [of ?p src s] by simp
    have rest: "drop (?p + length s) src = s' @ rest" using tok(4) drop_append_at [of ?p src s] by simp
    show "parser F src (ExpressionLoop v) pos =
      Some (outcome F a (skipSpaces src (pos + length (sp @ op_char bop # s @ s'))))"
    proof (cases "aeval F (Binary bop l r)")
      case (Inl e)
      with tail_error(2) [OF expr_op.hyps(4) this] t loop at(6) show ?thesis
        by (cases "aeval F r") auto
    next
      case (Inr w)
      then obtain x where x: "aeval F r = Inr x" "apply_op F bop v x = Inr w"
        using at(6) by (auto split: sum.splits)
      have "parser F src (ExpressionLoop w) (?p + length s) =
          Some (outcome F a (skipSpaces src (?p + length s + length s')))"
        using expr_op.IH(2) len rest at(3-5) Inr by blast
      with t x loop show ?thesis
        using expression_loop_skip [OF len, of F w] by (simp add: add.assoc)
    qed
  qed
next
  case (term_rule s l s' a)
  show ?case
  proof (intro allI impI)
    fix src pos rest
    assume at: "pos \<le> length src" "drop pos src = (s @ s') @ rest" "number_ends rest" "\<not> next_in ''*/'' rest"
    then have t: "parser F src FactorCall pos = Some (outcome F l (pos + length s))"
      using term_rule.IH(1) term_rule.hyps(2) by (simp add: term_tail_ends)
    have len: "pos + length s \<le> length src" using at drop_length_le [of pos src s] by simp
    show "parser F src TermCall pos = Some (outcome F a (skipSpaces src (pos + length (s @ s'))))"
    proof (cases "aeval F l")
      case (Inl e)
      with t tail_error(4) [OF term_rule.hyps(2) Inl] show ?thesis
        by (simp add: term_call [OF at(1)])
    next
      case (Inr v)
      have "parser F src (TermLoop v) (pos + length s) =
          Some (outcome F a (skipSpaces src (pos + length s + length s')))"
        using term_rule.IH(2) len at Inr drop_append_at [of pos src s "s' @ rest"] by auto
      with t Inr show ?thesis
        by (simp add: term_call [OF at(1)] add.assoc)
    qed
  qed
next
  case (term_stop l)
  then show ?case by (simp add: term_loop_stop)
next
  case (term_op bop sp s r l s' a)
  show ?case
  proof (intro allI impI)
    fix src pos rest v
    assume at: "pos \<le> length src" "drop pos src = (sp @ op_char bop # s @ s') @ rest" "number_ends rest"
      "\<not> next_in ''*/'' rest" "aeval F l = Inr v"
    let ?p = "Suc (pos + length sp)"
    have d: "drop pos src = sp @ op_char bop # s @ s' @ rest" using at(2) by simp
    note tok = token_at [OF at(1) d term_op.hyps(2)] and loop = term_loop_op [where F = F and v = v, OF at(1) d term_op.hyps(2,1)]
    have t: "parser F src FactorCall ?p = Some (outcome F r (?p + length s))"
      using term_op.IH(1) term_op.hyps(4) at(3) tok(2,4) by (simp add: term_tail_ends)
    have len: "?p + length s \<le> length src" using tok(2,4) drop_length_le [of ?p src s] by simp
    have rest: "drop (?p + length s) src = s' @ rest" using tok(4) drop_append_at [of ?p src s] by simp
    show "parser F src (TermLoop v) pos =
      Some (outcome F a (skipSpaces src (pos + length (sp @ op_char bop # s @ s'))))"
    proof (cases "aeval F (Binary bop l r)")
      case (Inl e)
      with tail_error(4) [OF term_op.hyps(4) this] t loop at(5) show ?thesis
        by (cases "aeval F r") auto
    next
      case (Inr w)
      then obtain x where x: "aeval F r = Inr x" "apply_op F bop v x = Inr w"
        using at(5) by (auto split: sum.splits)
      have "parser F src (TermLoop w) (?p + length s) =
          Some (outcome F a (skipSpaces src (?p + length s + length s')))"
        using term_op.IH(2) len rest at(3,4) Inr by blast
      with t x loop show ?thesis by (simp add: add.assoc)
    qed
  qed
next
  case (number sp n)
  show ?case
  proof (intro allI impI)
    fix src pos rest
    assume at: "pos \<le> length src" "drop pos src = (sp @ n) @ rest" "number_ends rest"
    obtain c cs where n: "n = c # cs" using number.hyps(2) by (cases n) auto
    then have c: "number_char c" using number.hyps(3) by simp
    have d: "drop pos src = sp @ c # cs @ rest" using at(2) n by simp
    have "number_at F src (pos + length sp) = Some (outcome F (Number n) (pos + length sp + length n))"
      using number.hyps at(2,3) drop_append_at [of pos src sp "n @ rest"] drop_length_le [OF at(1), of sp "n @ rest"]
      by (intro number_at_complete) auto
    then show "parser F src FactorCall pos = Some (outcome F (Number n) (pos + length (sp @ n)))"
      using number_char_not_special [OF c] factor_at [where F = F, OF at(1) d number.hyps(1)] by (simp add: Let_def add.assoc)
  qed
next
  case (unary_minus sp s a)
  show ?case
  proof (intro allI impI)
    fix src pos rest
    assume at: "pos \<le> length src" "drop pos src = (sp @ CHR ''-'' # s) @ rest" "number_ends rest"
    have d: "drop pos src = sp @ CHR ''-'' # s @ rest" using at(2) by simp
    note tok = token_at [OF at(1) d unary_minus.hyps(1)]
    have "parser F src FactorCall (Suc (pos + length sp)) = Some (outcome F a (Suc (pos + length sp) + length s))"
      using unary_minus.IH tok(2,4) at(3) by simp
    then show "parser F src FactorCall pos = Some (outcome F (Negate a) (pos + length (sp @ CHR ''-'' # s)))"
      using factor_at [where F = F, OF at(1) d unary_minus.hyps(1)]
      by (cases "aeval F a") (simp_all add: outcome_def Let_def)
  qed
next
  case (unary_plus sp s a)
  show ?case
  proof (intro allI impI)
    fix src pos rest
    assume at: "pos \<le> length src" "drop pos src = (sp @ CHR ''+'' # s) @ rest" "number_ends rest"
    have d: "drop pos src = sp @ CHR ''+'' # s @ rest" using at(2) by simp
    note tok = token_at [OF at(1) d unary_plus.hyps(1)]
    have "parser F src FactorCall (Suc (pos + length sp)) = Some (outcome F a (Suc (pos + length sp) + length s))"
      using unary_plus.IH tok(2,4) at(3) by simp
    then show "parser F src FactorCall pos = Some (outcome F a (pos + length (sp @ CHR ''+'' # s)))"
      using factor_at [where F = F, OF at(1) d unary_plus.hyps(1)] by (simp add: Let_def add.assoc)
  qed
next
  case (paren sp s a sp')
  show ?case
  proof (intro allI impI)
    fix src pos rest
    assume at: "pos \<le> length src" "drop pos src = (sp @ CHR ''('' # s @ sp' @ '')'') @ rest" "number_ends rest"
    let ?p = "Suc (pos + length sp)"
    have d: "drop pos src = sp @ CHR ''('' # s @ sp' @ CHR '')'' # rest" using at(2) by simp
    note tok = token_at [OF at(1) d paren.hyps(1)]
    have len: "?p + length s \<le> length src" using tok(2,4) drop_length_le [of ?p src s] by simp
    have d2: "drop (?p + length s) src = sp' @ CHR '')'' # rest" using tok(4) drop_append_at [of ?p src s] by simp
    have e: "parser F src ExpressionCall ?p = Some (outcome F a (skipSpaces src (?p + length s)))"
      using paren.IH paren.hyps(3) tok(2,4) by (simp add: number_ends_spaces next_in_spaces)
    have c: "close_paren src v (?p + length s) = Some (Inr (v, Suc (?p + length s + length sp')))" for v :: 'a
      using token_at [OF len d2 paren.hyps(3)] by (simp add: close_paren_def)
    show "parser F src FactorCall pos = Some (outcome F a (pos + length (sp @ CHR ''('' # s @ sp' @ '')'')))"
    proof (cases "aeval F a")
      case (Inl b)
      with e show ?thesis using factor_at [where F = F, OF at(1) d paren.hyps(1)] by (simp add: Let_def)
    next
      case (Inr v)
      with e c [of v] close_paren_skip [OF len, of v] show ?thesis
        using factor_at [where F = F, OF at(1) d paren.hyps(1)] by (simp add: Let_def add.assoc)
    qed
  qed
qed


section \<open>Only texts of the grammar are parsed\<close>

definition sound_at :: "'f floats \<Rightarrow> string \<Rightarrow> 'f parser_call \<Rightarrow> nat \<Rightarrow> 'f \<Rightarrow> nat \<Rightarrow> bool" where
  "sound_at F src c pos v p \<longleftrightarrow> p \<le> length src \<and>
     (case c of
        FactorCall \<Rightarrow> \<exists>s a. drop pos src = s @ drop p src \<and> is_factor s a \<and> aeval F a = Inr v
      | TermCall \<Rightarrow> \<exists>s sp a. drop pos src = s @ sp @ drop p src \<and> spaces sp \<and> is_term s a \<and> aeval F a = Inr v
      | ExpressionCall \<Rightarrow> \<exists>s sp a. drop pos src = s @ sp @ drop p src \<and> spaces sp \<and> is_expr s a \<and> aeval F a = Inr v
      | TermLoop l \<Rightarrow> \<forall>b. aeval F b = Inr l \<longrightarrow>
          (\<exists>s sp a. drop pos src = s @ sp @ drop p src \<and> spaces sp \<and> term_tail b s a \<and> aeval F a = Inr v)
      | ExpressionLoop l \<Rightarrow> \<forall>b. aeval F b = Inr l \<longrightarrow>
          (\<exists>s sp a. drop pos src = s @ sp @ drop p src \<and> spaces sp \<and> expr_tail b s a \<and> aeval F a = Inr v))"

lemma fbind_Inr:
  assumes "fbind m k = Some (Inr y)"
  obtains x where "m = Some (Inr x)" "k x = Some (Inr y)"
  using assms by (auto simp: fbind_def split: option.splits sum.splits)

lemma skip_split:
  assumes "pos \<le> length src"
  obtains sp where "spaces sp" "drop pos src = sp @ drop (skipSpaces src pos) src" "skipSpaces src pos \<le> length src"
proof (rule that)
  show "spaces (takeWhile isSpace (drop pos src))" by (auto simp: spaces_def dest: set_takeWhileD)
  show "drop pos src = takeWhile isSpace (drop pos src) @ drop (skipSpaces src pos) src"
    by (simp add: drop_skipSpaces [OF assms])
qed (rule skipSpaces_le [OF assms])

lemma drop_at: "p < length src \<Longrightarrow> drop p src = src ! p # drop (Suc p) src"
  by (simp add: Cons_nth_drop_Suc)

lemma expr_tail_spaces:
  assumes "expr_tail l s a" "spaces sp"
  obtains s' sp' where "sp @ s = s' @ sp'" "spaces sp'" "expr_tail l s' a"
  using assms
proof (cases rule: expr_tail.cases)
  case expr_stop
  then show ?thesis using that [of "[]" sp] assms by simp
next
  case (expr_op bop sp2 s2 r s3)
  then have "expr_tail l ((sp @ sp2) @ op_char bop # s2 @ s3) a"
    using assms(2) by (intro is_expr_expr_tail_is_term_term_tail_is_factor.expr_op) auto
  then show ?thesis using that [of "sp @ s" "[]"] expr_op by simp
qed

lemma number_at_sound:
  assumes "number_at F src p = Some (Inr (v, q))" "p \<le> length src"
  shows "q \<le> length src \<and> (\<exists>n. drop p src = n @ drop q src \<and> n \<noteq> [] \<and> (\<forall>c\<in>set n. number_char c) \<and> aeval F (Number n) = Inr v)"
proof -
  let ?q = "scan_number src p" and ?n = "takeWhile number_char (drop p src)"
  have q: "q = ?q" "p \<noteq> ?q" and v: "fl_parse F (take (?q - p) (drop p src)) = Inr v"
    using assms by (auto simp: number_at_def Let_def split: if_splits sum.splits)
  have n: "take (?q - p) (drop p src) = ?n" "drop ?q src = drop (length ?n) (drop p src)"
    using scan_number_at [OF assms(2)] by (simp_all add: takeWhile_eq_take [symmetric] add.commute)
  have "drop p src = ?n @ drop ?q src" unfolding n(2)
    by (metis append_take_drop_id takeWhile_eq_take)
  moreover have "?n \<noteq> []" using q(2) scan_number_at [OF assms(2)] by auto
  ultimately show ?thesis using q v n(1) scan_number_le [OF assms(2)]
    by (intro conjI exI [of _ ?n]) (auto dest: set_takeWhileD)
qed


text \<open>One step is sound if the calls it makes are.\<close>

lemma loop_step_sound:
  assumes "pos \<le> length src" "skipSpaces src pos < length src" "src ! skipSpaces src pos = op_char bop"
    "drop (Suc (skipSpaces src pos)) src = s @ rest"
  obtains sp where "spaces sp" "drop pos src = sp @ op_char bop # s @ rest"
  using skip_split [OF assms(1)] drop_at [OF assms(2)] assms(3,4) by metis

definition sound_calls :: "'f floats \<Rightarrow> string \<Rightarrow> ('f parser_call \<Rightarrow> 'f parse_at) \<Rightarrow> bool" where
  "sound_calls F src call \<longleftrightarrow>
     (\<forall>c pos v p. call c pos = Some (Inr (v, p)) \<longrightarrow> pos \<le> length src \<longrightarrow> sound_at F src c pos v p)"

lemma sound_callsD:
  "sound_calls F src call \<Longrightarrow> call c pos = Some (Inr (v, p)) \<Longrightarrow> pos \<le> length src \<Longrightarrow> sound_at F src c pos v p"
  by (simp add: sound_calls_def)

lemma sound_at_intros:
  "drop pos src = s @ drop p src \<Longrightarrow> is_factor s a \<Longrightarrow> aeval F a = Inr v \<Longrightarrow> p \<le> length src \<Longrightarrow>
     sound_at F src FactorCall pos v p"
  "drop pos src = s @ sp @ drop p src \<Longrightarrow> spaces sp \<Longrightarrow> is_term s a \<Longrightarrow> aeval F a = Inr v \<Longrightarrow> p \<le> length src \<Longrightarrow>
     sound_at F src TermCall pos v p"
  "drop pos src = s @ sp @ drop p src \<Longrightarrow> spaces sp \<Longrightarrow> is_expr s a \<Longrightarrow> aeval F a = Inr v \<Longrightarrow> p \<le> length src \<Longrightarrow>
     sound_at F src ExpressionCall pos v p"
  unfolding sound_at_def by simp_all blast+

lemma sound_at_stop:
  assumes "drop pos src = sp @ drop p src" "spaces sp" "p \<le> length src"
  shows "sound_at F src (TermLoop l) pos l p" "sound_at F src (ExpressionLoop l) pos l p"
proof -
  have "drop pos src = [] @ sp @ drop p src" using assms(1) by simp
  with assms(2,3) show "sound_at F src (TermLoop l) pos l p" "sound_at F src (ExpressionLoop l) pos l p"
    unfolding sound_at_def using term_stop expr_stop by simp_all blast+
qed

lemma sound_at_loopD:
  "sound_at F src (TermLoop l) pos v p \<Longrightarrow> aeval F b = Inr l \<Longrightarrow>
     \<exists>s sp a. drop pos src = s @ sp @ drop p src \<and> spaces sp \<and> term_tail b s a \<and> aeval F a = Inr v"
  "sound_at F src (ExpressionLoop l) pos v p \<Longrightarrow> aeval F b = Inr l \<Longrightarrow>
     \<exists>s sp a. drop pos src = s @ sp @ drop p src \<and> spaces sp \<and> expr_tail b s a \<and> aeval F a = Inr v"
  unfolding sound_at_def by simp_all

lemma expression_call_sound:
  assumes call: "sound_calls F src call"
    and step: "method_step F src call ExpressionCall pos = Some (Inr (v, p))" and pos: "pos \<le> length src"
  shows "sound_at F src ExpressionCall pos v p"
proof -
  from step obtain l p1 where l: "call TermCall pos = Some (Inr (l, p1))"
    "call (ExpressionLoop l) p1 = Some (Inr (v, p))"
    by (auto simp: method_step_def elim: fbind_Inr)
  from sound_callsD [OF call l(1) pos] obtain s sp b where s: "drop pos src = s @ sp @ drop p1 src" "spaces sp" "is_term s b"
    "aeval F b = Inr l" "p1 \<le> length src" by (auto simp: sound_at_def)
  with sound_callsD [OF call l(2)] obtain t tp a where t: "drop p1 src = t @ tp @ drop p src" "spaces tp" "expr_tail b t a"
    "aeval F a = Inr v" "p \<le> length src" by (auto simp: sound_at_def)
  from t(3) s(2) obtain t' tp' where t': "sp @ t = t' @ tp'" "spaces tp'" "expr_tail b t' a"
    by (rule expr_tail_spaces)
  have "drop pos src = (s @ t') @ (tp' @ tp) @ drop p src" using s(1) t(1) t'(1)
    by (metis append.assoc)
  moreover have "spaces (tp' @ tp)" using t(2) t'(2) by simp
  moreover have "is_expr (s @ t') a" using s(3) t'(3) by (rule expr_rule)
  ultimately show ?thesis using t(4,5) by (rule sound_at_intros)
qed

lemma term_call_sound:
  assumes call: "sound_calls F src call"
    and step: "method_step F src call TermCall pos = Some (Inr (v, p))" and pos: "pos \<le> length src"
  shows "sound_at F src TermCall pos v p"
proof -
  from step obtain l p1 where l: "call FactorCall pos = Some (Inr (l, p1))"
    "call (TermLoop l) p1 = Some (Inr (v, p))"
    by (auto simp: method_step_def elim: fbind_Inr)
  from sound_callsD [OF call l(1) pos] obtain s b where s: "drop pos src = s @ drop p1 src" "is_factor s b"
    "aeval F b = Inr l" "p1 \<le> length src" by (auto simp: sound_at_def)
  with sound_callsD [OF call l(2)] obtain t tp a where t: "drop p1 src = t @ tp @ drop p src" "spaces tp" "term_tail b t a"
    "aeval F a = Inr v" "p \<le> length src" by (auto simp: sound_at_def)
  have "drop pos src = (s @ t) @ tp @ drop p src" using s(1) t(1) by simp
  from this t(2) term_rule [OF s(2) t(3)] t(4,5) show ?thesis by (rule sound_at_intros)
qed

lemma expression_loop_sound:
  assumes call: "sound_calls F src call"
    and step: "method_step F src call (ExpressionLoop l) pos = Some (Inr (v, p))" and pos: "pos \<le> length src"
  shows "sound_at F src (ExpressionLoop l) pos v p"
proof -
  let ?q = "skipSpaces src pos"
  obtain sp0 where sp0: "spaces sp0" "drop pos src = sp0 @ drop ?q src" "?q \<le> length src"
    using skip_split [OF pos] .
  show ?thesis
  proof (cases "?q < length src \<and> (src ! ?q = CHR ''+'' \<or> src ! ?q = CHR ''-'')")
    case False
    then have "v = l" "p = ?q" using step sp0(3)
      by (auto simp: method_step_def expression_step_def Let_def split: if_splits)
    then show ?thesis using sp0 by (simp add: sound_at_stop)
  next
    case True
    define bop where "bop = (if src ! ?q = CHR ''+'' then Plus else Minus)"
    have bop: "bop = Plus \<or> bop = Minus" "src ! ?q = op_char bop" using True by (auto simp: bop_def)
    from True step obtain r p1 where r: "call TermCall (Suc ?q) = Some (Inr (r, p1))"
      "\<exists>w. apply_op F bop l r = Inr w \<and> call (ExpressionLoop w) p1 = Some (Inr (v, p))"
      by (auto simp: method_step_def expression_step_def Let_def bop_def elim!: fbind_Inr)
    then obtain w where w: "apply_op F bop l r = Inr w" "call (ExpressionLoop w) p1 = Some (Inr (v, p))" by blast
    from sound_callsD [OF call r(1)] True obtain s sp b where s: "drop (Suc ?q) src = s @ sp @ drop p1 src" "spaces sp"
      "is_term s b" "aeval F b = Inr r" "p1 \<le> length src" by (auto simp: sound_at_def)
    obtain sp1 where sp1: "spaces sp1" "drop pos src = sp1 @ op_char bop # s @ sp @ drop p1 src"
      using loop_step_sound [OF pos _ bop(2) s(1)] True by blast
    have "\<exists>t tp a. drop pos src = t @ tp @ drop p src \<and> spaces tp \<and> expr_tail e t a \<and> aeval F a = Inr v"
      if e: "aeval F e = Inr l" for e
    proof -
      have "aeval F (Binary bop e b) = Inr w" using s(4) w(1) e by simp
      from sound_at_loopD(2) [OF sound_callsD [OF call w(2) s(5)] this] obtain t tp a where t: "drop p1 src = t @ tp @ drop p src" "spaces tp"
        "expr_tail (Binary bop e b) t a" "aeval F a = Inr v" by blast
      from t(3) s(2) obtain t' tp' where t': "sp @ t = t' @ tp'" "spaces tp'" "expr_tail (Binary bop e b) t' a"
        by (rule expr_tail_spaces)
      have "drop pos src = (sp1 @ op_char bop # s @ t') @ (tp' @ tp) @ drop p src"
        using sp1(2) t(1) t'(1) by (metis append.assoc append_Cons)
      moreover have "expr_tail e (sp1 @ op_char bop # s @ t') a"
        using bop(1) sp1(1) s(3) t'(3) by (rule expr_op)
      moreover have "spaces (tp' @ tp)" using t(2) t'(2) by simp
      ultimately show ?thesis using t(4) by blast
    qed
    moreover have "p \<le> length src" using sound_callsD [OF call w(2) s(5)] by (simp add: sound_at_def)
    ultimately show ?thesis unfolding sound_at_def by auto
  qed
qed

lemma term_loop_sound:
  assumes call: "sound_calls F src call"
    and step: "method_step F src call (TermLoop l) pos = Some (Inr (v, p))" and pos: "pos \<le> length src"
  shows "sound_at F src (TermLoop l) pos v p"
proof -
  let ?q = "skipSpaces src pos"
  obtain sp0 where sp0: "spaces sp0" "drop pos src = sp0 @ drop ?q src" "?q \<le> length src"
    using skip_split [OF pos] .
  show ?thesis
  proof (cases "?q < length src \<and> (src ! ?q = CHR ''*'' \<or> src ! ?q = CHR ''/'')")
    case False
    then have "v = l" "p = ?q" using step sp0(3)
      by (auto simp: method_step_def term_step_def Let_def split: if_splits)
    then show ?thesis using sp0 by (simp add: sound_at_stop)
  next
    case True
    define bop where "bop = (if src ! ?q = CHR ''*'' then Times else Divide)"
    have bop: "bop = Times \<or> bop = Divide" "src ! ?q = op_char bop" using True by (auto simp: bop_def)
    from True step obtain r p1 where r: "call FactorCall (Suc ?q) = Some (Inr (r, p1))"
      "\<exists>w. apply_op F bop l r = Inr w \<and> call (TermLoop w) p1 = Some (Inr (v, p))"
      by (auto simp: method_step_def term_step_def Let_def bop_def elim!: fbind_Inr split: if_splits)
    then obtain w where w: "apply_op F bop l r = Inr w" "call (TermLoop w) p1 = Some (Inr (v, p))" by blast
    from sound_callsD [OF call r(1)] True obtain s b where s: "drop (Suc ?q) src = s @ drop p1 src"
      "is_factor s b" "aeval F b = Inr r" "p1 \<le> length src" by (auto simp: sound_at_def)
    obtain sp1 where sp1: "spaces sp1" "drop pos src = sp1 @ op_char bop # s @ drop p1 src"
      using loop_step_sound [OF pos _ bop(2) s(1)] True by blast
    have "\<exists>t tp a. drop pos src = t @ tp @ drop p src \<and> spaces tp \<and> term_tail e t a \<and> aeval F a = Inr v"
      if e: "aeval F e = Inr l" for e
    proof -
      have "aeval F (Binary bop e b) = Inr w" using s(3) w(1) e by simp
      from sound_at_loopD(1) [OF sound_callsD [OF call w(2) s(4)] this] obtain t tp a where t: "drop p1 src = t @ tp @ drop p src" "spaces tp"
        "term_tail (Binary bop e b) t a" "aeval F a = Inr v" by blast
      have "drop pos src = (sp1 @ op_char bop # s @ t) @ tp @ drop p src" using sp1(2) t(1) by simp
      moreover have "term_tail e (sp1 @ op_char bop # s @ t) a"
        using bop(1) sp1(1) s(2) t(3) by (rule term_op)
      ultimately show ?thesis using t(2,4) by blast
    qed
    moreover have "p \<le> length src" using sound_callsD [OF call w(2) s(4)] by (simp add: sound_at_def)
    ultimately show ?thesis unfolding sound_at_def by auto
  qed
qed

lemma factor_sound:
  assumes call: "sound_calls F src call"
    and step: "method_step F src call FactorCall pos = Some (Inr (v, p))" and pos: "pos \<le> length src"
  shows "sound_at F src FactorCall pos v p"
proof -
  let ?q = "skipSpaces src pos"
  obtain sp0 where sp0: "spaces sp0" "drop pos src = sp0 @ drop ?q src" "?q \<le> length src"
    using skip_split [OF pos] .
  have q: "?q < length src" using step sp0(3) by (auto simp: method_step_def factor_step_def Let_def split: if_splits)
  note at = drop_at [OF q]
  have sound: ?thesis if "is_factor s a" "drop pos src = s @ drop p src" "aeval F a = Inr v" "p \<le> length src" for s a
    using that by (auto simp: sound_at_def)
  consider "src ! ?q = CHR ''-''" | "src ! ?q = CHR ''+''" | "src ! ?q = CHR ''(''"
    | "src ! ?q \<noteq> CHR ''-''" "src ! ?q \<noteq> CHR ''+''" "src ! ?q \<noteq> CHR ''(''" by blast
  then show ?thesis
  proof cases
    case 1
    from 1 q step obtain v1 where v1: "call FactorCall (Suc ?q) = Some (Inr (v1, p))" "v = fl_neg F v1"
      by (auto simp: method_step_def factor_step_def Let_def elim!: fbind_Inr)
    from sound_callsD [OF call v1(1)] q obtain s a where "drop (Suc ?q) src = s @ drop p src" "is_factor s a"
      "aeval F a = Inr v1" "p \<le> length src" by (auto simp: sound_at_def)
    with 1 at sp0 v1(2) show ?thesis by (intro sound [OF unary_minus [OF sp0(1)]]) auto
  next
    case 2
    from 2 q step have v1: "call FactorCall (Suc ?q) = Some (Inr (v, p))"
      by (auto simp: method_step_def factor_step_def Let_def)
    from sound_callsD [OF call v1] q obtain s a where "drop (Suc ?q) src = s @ drop p src" "is_factor s a"
      "aeval F a = Inr v" "p \<le> length src" by (auto simp: sound_at_def)
    with 2 at sp0 show ?thesis by (intro sound [OF unary_plus [OF sp0(1)]]) auto
  next
    case 3
    from 3 q step obtain v1 p1 where v1: "call ExpressionCall (Suc ?q) = Some (Inr (v1, p1))"
      "close_paren src v1 p1 = Some (Inr (v, p))"
      by (auto simp: method_step_def factor_step_def Let_def elim!: fbind_Inr)
    from sound_callsD [OF call v1(1)] q obtain s sp a where s: "drop (Suc ?q) src = s @ sp @ drop p1 src" "spaces sp" "is_expr s a"
      "aeval F a = Inr v1" "p1 \<le> length src" by (auto simp: sound_at_def)
    have c: "v = v1" "skipSpaces src p1 < length src" "src ! skipSpaces src p1 = CHR '')''" "p = Suc (skipSpaces src p1)"
      using v1(2) skipSpaces_le [OF s(5)] by (auto simp: close_paren_def Let_def split: if_splits)
    obtain sp2 where sp2: "spaces sp2" "drop p1 src = sp2 @ CHR '')'' # drop p src"
      using skip_split [OF s(5)] drop_at [OF c(2)] c(3,4) by metis
    have "drop pos src = (sp0 @ CHR ''('' # s @ (sp @ sp2) @ '')'') @ drop p src"
      using sp0(2) at 3 s(1) sp2(2) by simp
    moreover have "is_factor (sp0 @ CHR ''('' # s @ (sp @ sp2) @ '')'') a"
      using sp0(1) s(2,3) sp2(1) by (intro paren) auto
    ultimately show ?thesis using s(4) c(1,2,4) by (intro sound) auto
  next
    case 4
    from 4 q step have "number_at F src ?q = Some (Inr (v, p))"
      by (auto simp: method_step_def factor_step_def Let_def)
    from number_at_sound [OF this sp0(3)] obtain n where "drop ?q src = n @ drop p src" "n \<noteq> []"
      "\<forall>c\<in>set n. number_char c" "aeval F (Number n) = Inr v" "p \<le> length src" by blast
    with sp0 show ?thesis by (intro sound [OF number [OF sp0(1)]]) auto
  qed
qed

lemma method_step_sound:
  "sound_calls F src call \<Longrightarrow> sound_calls F src (method_step F src call)"
  unfolding sound_calls_def [of F src "method_step F src call"]
proof (intro allI impI)
  fix c pos v p
  assume *: "sound_calls F src call" "method_step F src call c pos = Some (Inr (v, p))" "pos \<le> length src"
  then show "sound_at F src c pos v p"
    by (cases c) (simp_all add: expression_call_sound term_call_sound expression_loop_sound term_loop_sound factor_sound)
qed

lemma parser_sound:
  assumes "parser F src c pos = Some (Inr (v, p))" "pos \<le> length src"
  shows "sound_at F src c pos v p"
proof -
  have "sound_calls F src (parse_call F src k)" for k
    by (induction k) (simp_all add: method_step_sound, simp add: sound_calls_def)
  with assms show ?thesis unfolding parser_def by (blast intro: sound_callsD)
qed

section \<open>Properties\<close>

lemma grammar_number:
  "is_expr s a \<Longrightarrow> \<exists>c\<in>set s. number_char c"
  "expr_tail l s a \<Longrightarrow> True"
  "is_term s a \<Longrightarrow> \<exists>c\<in>set s. number_char c"
  "term_tail l s a \<Longrightarrow> True"
  "is_factor s a \<Longrightarrow> \<exists>c\<in>set s. number_char c"
proof (induction rule: is_expr_expr_tail_is_term_term_tail_is_factor.inducts)
  case (number sp n)
  then show ?case by (cases n) auto
qed auto

lemma number_char_kept: "number_char c \<Longrightarrow> \<forall>e\<in>set space_encodings. c \<notin> set e"
  by (auto simp: space_encodings_def number_char_def less_eq_char_def)

lemma expression_not_blank: "is_expr s a \<Longrightarrow> TrimSpace (s @ sp) \<noteq> []"
  using grammar_number(1) [of s a] TrimSpace_keeps [of _ "s @ sp"] number_char_kept by fastforce

text \<open>What the calculator makes of a text of the grammar, white space around it allowed.\<close>

lemma calculate_grammar:
  assumes "is_expr s a" "spaces sp"
  shows "calculate F (s @ sp) = Some (case aeval F a of Inl e \<Rightarrow> Inl e | Inr v \<Rightarrow> Inr (fl_format F v))"
proof -
  let ?src = "s @ sp"
  have blank: "dropWhile isSpace sp = []" "takeWhile isSpace sp = sp"
    using assms(2) by (simp_all add: spaces_def takeWhile_eq_all_conv)
  have sp: "number_ends sp" "\<not> next_in ops sp" for ops
    using assms(2) by (cases sp; simp add: number_ends_def isSpace_not_number) (simp add: next_in_def blank)
  have "skipSpaces ?src (length s) = length ?src"
    using skipSpaces_append [of s sp] by (simp add: blank)
  moreover have "parseExpression F ?src 0 = Some (outcome F a (skipSpaces ?src (length s)))"
    using parser_complete(1) [OF assms(1), of F, rule_format, of 0 ?src sp] sp by (simp add: parseExpression_def)
  moreover have "skipSpaces ?src (length ?src) = length ?src" by (simp add: skipSpaces_at)
  ultimately show ?thesis using expression_not_blank [OF assms(1)]
    by (cases "aeval F a") (simp_all add: calculate_def)
qed

text \<open>
  The divergence: the parser takes a plus sign in front of a number, the grammar of the comment does not.
\<close>

lemma unary_plus_accepted:
  assumes "fl_parse F ''1'' = Inr v"
  shows "calculate F ''+1'' = Some (Inr (fl_format F v))" "\<not> doc_expr ''+1'' a"
proof -
  have "is_factor ([] @ ''1'') (Number ''1'')" by (rule number) (simp_all add: number_char_def)
  then have "is_factor ([] @ CHR ''+'' # ''1'') (Number ''1'')" by (intro unary_plus) simp_all
  from expr_rule [OF term_rule [OF this term_stop] expr_stop]
  have "is_expr ''+1'' (Number ''1'')" by simp
  from calculate_grammar [OF this, of "[]" F] assms show "calculate F ''+1'' = Some (Inr (fl_format F v))" by simp
  show "\<not> doc_expr ''+1'' a" using doc_no_plus_sign(1) by fastforce
qed

text \<open>
  C13: the calculator returns a number exactly for the texts the parser's rules generate, white space
  allowed before every token and at the end, whose evaluation makes no error, and the number is that of
  the reading those rules give: the usual precedence, operators of one level to the left, division refused
  by zero only. The rules are those of the comment before the parser and one more that the comment does not
  have: a plus sign in front of a factor is accepted and ignored, so \<^verbatim>\<open>+1\<close> is calculated.
\<close>

theorem calculator_correct:
  "calculate F src = Some (Inr out) \<longleftrightarrow>
     (\<exists>s sp a v. src = s @ sp \<and> spaces sp \<and> is_expr s a \<and> aeval F a = Inr v \<and> out = fl_format F v)"
proof
  assume "calculate F src = Some (Inr out)"
  then obtain v p where p: "parser F src ExpressionCall 0 = Some (Inr (v, p))"
      "skipSpaces src p = length src" "out = fl_format F v"
    by (auto simp: calculate_def parseExpression_def Let_def elim!: fbind_Inr split: if_splits)
  from parser_sound [OF p(1)] obtain s sp a where s: "src = s @ sp @ drop p src" "spaces sp" "is_expr s a"
      "aeval F a = Inr v" "p \<le> length src" by (auto simp: sound_at_def)
  obtain sp' where "spaces sp'" "drop p src = sp' @ drop (skipSpaces src p) src"
    using skip_split [OF s(5)] by blast
  with p(2) s(1,2) have "src = s @ (sp @ sp')" "spaces (sp @ sp')" by simp_all
  with s(3,4) p(3) show "\<exists>s sp a v. src = s @ sp \<and> spaces sp \<and> is_expr s a \<and> aeval F a = Inr v \<and> out = fl_format F v"
    by blast
next
  assume "\<exists>s sp a v. src = s @ sp \<and> spaces sp \<and> is_expr s a \<and> aeval F a = Inr v \<and> out = fl_format F v"
  then show "calculate F src = Some (Inr out)" by (auto simp: calculate_grammar)
qed

text \<open>
  On every input the calculator returns, a number or an error; in particular its recursion ends
  on nesting of any depth.
\<close>

theorem calculator_returns: "\<exists>r. CalculatorTool_Run F args = Some r"
proof -
  have "\<exists>r. calculate F src = Some r" for src
    using parser_result [of 0 src F ExpressionCall]
    by (auto simp: calculate_def parseExpression_def Let_def)
  then show ?thesis by (simp add: CalculatorTool_Run_def)
qed

text \<open>Printing with all parentheses.\<close>

fun show_aexp :: "aexp \<Rightarrow> string" where
  "show_aexp (Number n) = n"
| "show_aexp (Negate a) = CHR ''-'' # show_aexp a"
| "show_aexp (Binary bop a b) = CHR ''('' # show_aexp a @ op_char bop # show_aexp b @ '')''"

fun well_written :: "aexp \<Rightarrow> bool" where
  "well_written (Number n) \<longleftrightarrow> n \<noteq> [] \<and> list_all number_char n"
| "well_written (Negate a) \<longleftrightarrow> well_written a"
| "well_written (Binary bop a b) \<longleftrightarrow> well_written a \<and> well_written b"

lemma factor_is_expr: "is_factor s a \<Longrightarrow> is_expr s a"
  using expr_rule [OF term_rule [OF _ term_stop] expr_stop] by simp

lemma show_aexp_factor: "well_written a \<Longrightarrow> is_factor (show_aexp a) a"
proof (induction a)
  case (Number n)
  then show ?case using number [of "[]" n] by (simp add: list_all_iff)
next
  case (Negate a)
  then show ?case using unary_minus [of "[]" "show_aexp a" a] by simp
next
  case (Binary bop a b)
  then have f: "is_factor (show_aexp a) a" "is_factor (show_aexp b) b" by simp_all
  have t: "is_term (show_aexp a) a" "is_term (show_aexp b) b"
    using term_rule [OF f(1) term_stop] term_rule [OF f(2) term_stop] by simp_all
  have "is_expr (show_aexp a @ op_char bop # show_aexp b) (Binary bop a b)"
  proof (cases "bop = Plus \<or> bop = Minus")
    case True
    show ?thesis using expr_rule [OF t(1) expr_op [OF True _ t(2) expr_stop, of "[]"]] by simp
  next
    case False
    then have "bop = Times \<or> bop = Divide" by (cases bop) auto
    from expr_rule [OF term_rule [OF f(1) term_op [OF this _ f(2) term_stop, of "[]"]] expr_stop]
    show ?thesis by simp
  qed
  from paren [of "[]", OF _ this, of "[]"] show ?case by simp
qed

text \<open>
  Printing any expression and calculating it gives the value of the expression, or the first
  error of its evaluation, division by zero included.
\<close>

theorem calculator_roundtrip:
  assumes "well_written a"
  shows "calculate F (show_aexp a) = Some (case aeval F a of Inl e \<Rightarrow> Inl e | Inr v \<Rightarrow> Inr (fl_format F v))"
  using calculate_grammar [OF factor_is_expr [OF show_aexp_factor [OF assms]], of "[]" F] by simp

text \<open>Integers in place of floats, numbers of one digit.\<close>

definition demo_floats :: "int floats" where
  "demo_floats = \<lparr>fl_parse = (\<lambda>n. if length n = 1 then Inr (int (of_char (hd n)) - 48) else Inl ''syntax''),
     fl_add = (+), fl_sub = (-), fl_mul = (*), fl_div = go_div, fl_neg = uminus, fl_is_zero = (\<lambda>x. x = 0),
     fl_format = Itoa\<rparr>"

theorem calculator_roundtrip_witness:
  "calculate demo_floats ''((7-(3*2))/-1)'' = Some (Inr ''-1'')"
proof -
  let ?a = "Binary Divide (Binary Minus (Number ''7'') (Binary Times (Number ''3'') (Number ''2''))) (Negate (Number ''1''))"
  have "well_written ?a" by code_simp
  from calculator_roundtrip [OF this, of demo_floats] have
    "calculate demo_floats (show_aexp ?a) =
       Some (case aeval demo_floats ?a of Inl e \<Rightarrow> Inl e | Inr v \<Rightarrow> Inr (fl_format demo_floats v))" .
  moreover have "show_aexp ?a = ''((7-(3*2))/-1)''" by code_simp
  moreover have "(case aeval demo_floats ?a of Inl e \<Rightarrow> Inl e | Inr v \<Rightarrow> Inr (fl_format demo_floats v)) = Inr ''-1''"
    by code_simp
  ultimately show ?thesis by simp
qed

end
