(* ===== verification/Go_Url.thy ===== *)
theory Go_Url
  imports Go_Strings
begin

text \<open>
  What the source uses of Go's packages net/url and encoding/base64: escaping of query values,
  parsing of query strings, and the unpadded URL alphabet of base64; and the requests and answers of an
  HTTP client, as far as the source builds and reads them.
\<close>

section \<open>Escaping\<close>

definition unreserved :: "char \<Rightarrow> bool" where
  "unreserved c \<longleftrightarrow> (CHR ''a'' \<le> c \<and> c \<le> CHR ''z'') \<or> (CHR ''A'' \<le> c \<and> c \<le> CHR ''Z'') \<or>
     (CHR ''0'' \<le> c \<and> c \<le> CHR ''9'') \<or> c \<in> set ''-_.~''"

definition query_hex :: "nat \<Rightarrow> char" where
  "query_hex n = ''0123456789ABCDEF'' ! n"

definition escape_byte :: "char \<Rightarrow> string" where
  "escape_byte c =
     (if unreserved c then [c] else if c = CHR '' '' then ''+''
      else [CHR ''%'', query_hex (of_char c div 16), query_hex (of_char c mod 16)])"

definition QueryEscape :: "string \<Rightarrow> string" where
  "QueryEscape s = concat (map escape_byte s)"

text \<open>A hexadecimal digit, upper or lower case, and its value.\<close>

definition unhex :: "char \<Rightarrow> nat option" where
  "unhex c =
     (if CHR ''0'' \<le> c \<and> c \<le> CHR ''9'' then Some (of_char c - 48)
      else if CHR ''A'' \<le> c \<and> c \<le> CHR ''F'' then Some (of_char c - 55)
      else if CHR ''a'' \<le> c \<and> c \<le> CHR ''f'' then Some (of_char c - 87)
      else None)"

fun QueryUnescape :: "string \<Rightarrow> string option" where
  "QueryUnescape [] = Some []"
| "QueryUnescape (c # cs) =
     (if c = CHR ''%'' then
        (case cs of
           a # b # rest \<Rightarrow>
             (case (unhex a, unhex b) of
                (Some x, Some y) \<Rightarrow> map_option (Cons (char_of (x * 16 + y))) (QueryUnescape rest)
              | _ \<Rightarrow> None)
         | _ \<Rightarrow> None)
      else map_option (Cons (if c = CHR ''+'' then CHR '' '' else c)) (QueryUnescape cs))"

section \<open>Query strings\<close>

text \<open>\<^verbatim>\<open>url.Values.Encode\<close> of single-valued parameters that are listed in the order of their keys.\<close>

definition encode_query :: "(string \<times> string) list \<Rightarrow> string" where
  "encode_query kvs = join ''&'' (map (\<lambda>(k, v). QueryEscape k @ ''='' @ QueryEscape v) kvs)"

text \<open>\<^verbatim>\<open>strings.Cut\<close> at the first occurrence of a byte.\<close>

fun cut_byte :: "char \<Rightarrow> string \<Rightarrow> string \<times> string" where
  "cut_byte c [] = ([], [])"
| "cut_byte c (x # xs) = (if x = c then ([], xs) else case cut_byte c xs of (a, b) \<Rightarrow> (x # a, b))"

text \<open>
  \<^verbatim>\<open>url.ParseQuery\<close>: a segment is skipped when it is empty and spoils the whole parse when it has a
  semicolon or an escape that cannot be read; \<open>None\<close> is a parse with an error.
\<close>

fun parse_segments :: "string list \<Rightarrow> (string \<times> string) list option" where
  "parse_segments [] = Some []"
| "parse_segments (seg # segs) =
     (if CHR '';'' \<in> set seg then None
      else if seg = [] then parse_segments segs
      else (case cut_byte (CHR ''='') seg of
              (k, v) \<Rightarrow>
                (case (QueryUnescape k, QueryUnescape v) of
                   (Some k', Some v') \<Rightarrow> map_option (Cons (k', v')) (parse_segments segs)
                 | _ \<Rightarrow> None)))"

definition ParseQuery :: "string \<Rightarrow> (string \<times> string) list option" where
  "ParseQuery q = parse_segments (split_byte (CHR ''&'') q)"

definition values_get :: "(string \<times> string) list \<Rightarrow> string \<Rightarrow> string" where
  "values_get vs k = (case map_of vs k of None \<Rightarrow> [] | Some v \<Rightarrow> v)"

section \<open>Reading back what was escaped\<close>

lemma unhex_query_hex: "n < 16 \<Longrightarrow> unhex (query_hex n) = Some n"
proof -
  assume "n < 16"
  then have "n \<in> set [0..<16]" by simp
  moreover have "\<forall>n\<in>set [0..<16]. unhex (query_hex n) = Some n" by code_simp
  ultimately show ?thesis by blast
qed

lemma nibbles:
  "of_char c div 16 < (16 :: nat)" "of_char c mod 16 < (16 :: nat)"
  "char_of ((of_char c :: nat) div 16 * 16 + of_char c mod 16) = c"
proof -
  have "of_char c < (256 :: nat)" using nat_of_char_less_256 .
  then show "of_char c div 16 < (16 :: nat)" by (simp add: less_mult_imp_div_less)
qed simp_all

lemma QueryUnescape_escape_byte: "QueryUnescape (escape_byte c @ s) = map_option (Cons c) (QueryUnescape s)"
proof -
  have "unreserved c \<Longrightarrow> c \<noteq> CHR ''+'' \<and> c \<noteq> CHR ''%''"
    by (auto simp: unreserved_def less_eq_char_def)
  then show ?thesis using nibbles [of c] by (simp add: escape_byte_def unhex_query_hex)
qed

lemma QueryUnescape_QueryEscape: "QueryUnescape (QueryEscape s) = Some s"
  by (induction s) (simp_all add: QueryEscape_def QueryUnescape_escape_byte)

lemma query_hex_safe: "n < 16 \<Longrightarrow> query_hex n \<notin> set ''&=;#''"
proof -
  assume "n < 16"
  then have "n \<in> set [0..<16]" by simp
  moreover have "\<forall>n\<in>set [0..<16]. query_hex n \<notin> set ''&=;#''" by code_simp
  ultimately show ?thesis by blast
qed

lemma QueryEscape_safe: "c \<in> set (QueryEscape s) \<Longrightarrow> c \<notin> set ''&=;#''"
proof (induction s)
  case Nil
  then show ?case by (simp add: QueryEscape_def)
next
  case (Cons x s)
  have "c \<in> set (escape_byte x) \<Longrightarrow> c \<notin> set ''&=;#''"
    using query_hex_safe [OF nibbles(1) [of x]] query_hex_safe [OF nibbles(2) [of x]]
    by (auto simp: escape_byte_def unreserved_def less_eq_char_def split: if_splits)
  with Cons show ?case by (auto simp: QueryEscape_def)
qed

lemma cut_byte_append: "c \<notin> set a \<Longrightarrow> cut_byte c (a @ c # b) = (a, b)"
  by (induction a) auto

lemma split_byte_none: "c \<notin> set s \<Longrightarrow> split_byte c s = [s]"
  by (induction s) auto

lemma parse_segment:
  "parse_segments ((QueryEscape k @ ''='' @ QueryEscape v) # segs) = map_option (Cons (k, v)) (parse_segments segs)"
proof -
  have "CHR '';'' \<notin> set (QueryEscape k @ ''='' @ QueryEscape v)"
    using QueryEscape_safe [of "CHR '';''" k] QueryEscape_safe [of "CHR '';''" v] by auto
  moreover have "cut_byte (CHR ''='') (QueryEscape k @ ''='' @ QueryEscape v) = (QueryEscape k, QueryEscape v)"
    using QueryEscape_safe [of "CHR ''=''" k] cut_byte_append [of "CHR ''=''" "QueryEscape k"] by auto
  ultimately show ?thesis by (simp add: QueryUnescape_QueryEscape split: option.splits)
qed

lemma split_encode_query:
  "kvs \<noteq> [] \<Longrightarrow> split_byte (CHR ''&'') (encode_query kvs) = map (\<lambda>(k, v). QueryEscape k @ ''='' @ QueryEscape v) kvs"
proof (induction kvs)
  case (Cons kv kvs)
  obtain k v where kv: "kv = (k, v)" by (cases kv)
  have free: "CHR ''&'' \<notin> set (QueryEscape k @ ''='' @ QueryEscape v)"
    using QueryEscape_safe [of "CHR ''&''" k] QueryEscape_safe [of "CHR ''&''" v] by auto
  show ?case
  proof (cases kvs)
    case Nil
    with kv free show ?thesis by (simp add: encode_query_def split_byte_none)
  next
    case (Cons kv2 kvs2)
    with Cons.IH free kv show ?thesis
      using split_byte_append [of "CHR ''&''" "QueryEscape k @ ''='' @ QueryEscape v" "encode_query kvs"]
      by (simp add: encode_query_def split_byte_none split: prod.splits)
  qed
qed simp

text \<open>An encoded query is parsed into its parameters.\<close>

lemma ParseQuery_encode_query: "ParseQuery (encode_query kvs) = Some kvs"
proof (cases "kvs = []")
  case True
  then show ?thesis by (simp add: ParseQuery_def encode_query_def)
next
  case False
  have "parse_segments (map (\<lambda>(k, v). QueryEscape k @ ''='' @ QueryEscape v) kvs) = Some kvs"
    by (induction kvs) (use parse_segment in \<open>auto simp del: parse_segments.simps(2)\<close>)
  with False show ?thesis by (simp add: ParseQuery_def split_encode_query)
qed

section \<open>Base64\<close>

definition base64url_char :: "nat \<Rightarrow> char" where
  "base64url_char n = ''ABCDEFGHIJKLMNOPQRSTUVWXYZabcdefghijklmnopqrstuvwxyz0123456789-_'' ! n"

text \<open>\<^verbatim>\<open>base64.RawURLEncoding.EncodeToString\<close>.\<close>

fun base64url_nats :: "nat list \<Rightarrow> nat list" where
  "base64url_nats (a # b # c # rest) =
     [a div 4, a mod 4 * 16 + b div 16, b mod 16 * 4 + c div 64, c mod 64] @ base64url_nats rest"
| "base64url_nats [a, b] = [a div 4, a mod 4 * 16 + b div 16, b mod 16 * 4]"
| "base64url_nats [a] = [a div 4, a mod 4 * 16]"
| "base64url_nats [] = []"

definition base64url :: "string \<Rightarrow> string" where
  "base64url s = map base64url_char (base64url_nats (map of_char s))"

lemma length_base64url_nats: "length (base64url_nats ns) = (4 * length ns + 2) div 3"
  by (induction ns rule: base64url_nats.induct) auto

lemma length_base64url: "length (base64url s) = (4 * length s + 2) div 3"
  by (simp add: base64url_def length_base64url_nats)

lemma base64url_nats_range: "\<forall>n\<in>set ns. n < 256 \<Longrightarrow> \<forall>n\<in>set (base64url_nats ns). n < 64"
  by (induction ns rule: base64url_nats.induct) auto

lemma base64url_char_unreserved: "n < 64 \<Longrightarrow> unreserved (base64url_char n)"
proof -
  assume "n < 64"
  then have "n \<in> set [0..<64]" by simp
  moreover have "\<forall>n\<in>set [0..<64]. unreserved (base64url_char n)" by code_simp
  ultimately show ?thesis by blast
qed

lemma base64url_unreserved: "c \<in> set (base64url s) \<Longrightarrow> unreserved c"
  using base64url_nats_range [of "map of_char s"] base64url_char_unreserved
  by (auto simp: base64url_def)

lemma QueryEscape_unreserved: "\<forall>c\<in>set s. unreserved c \<Longrightarrow> QueryEscape s = s"
  by (induction s) (auto simp: QueryEscape_def escape_byte_def)

text \<open>The encoding is injective: it can be decoded.\<close>

fun base64url_decode_nats :: "nat list \<Rightarrow> nat list" where
  "base64url_decode_nats (p # q # r # s # rest) =
     [p * 4 + q div 16, q mod 16 * 16 + r div 4, r mod 4 * 64 + s] @ base64url_decode_nats rest"
| "base64url_decode_nats [p, q, r] = [p * 4 + q div 16, q mod 16 * 16 + r div 4]"
| "base64url_decode_nats [p, q] = [p * 4 + q div 16]"
| "base64url_decode_nats _ = []"

lemma base64_group:
  fixes a b c :: nat
  assumes "a < 256" "b < 256" "c < 256"
  shows "a div 4 * 4 + (a mod 4 * 16 + b div 16) div 16 = a"
    "(a mod 4 * 16 + b div 16) mod 16 * 16 + (b mod 16 * 4 + c div 64) div 4 = b"
    "(b mod 16 * 4 + c div 64) mod 4 * 64 + c mod 64 = c"
proof -
  have b: "b div 16 < 16" and c: "c div 64 < 4" using assms by (simp_all add: less_mult_imp_div_less)
  then have "(a mod 4 * 16 + b div 16) div 16 = a mod 4" "(a mod 4 * 16 + b div 16) mod 16 = b div 16"
    "(b mod 16 * 4 + c div 64) div 4 = b mod 16" "(b mod 16 * 4 + c div 64) mod 4 = c div 64"
    by simp_all
  then show "a div 4 * 4 + (a mod 4 * 16 + b div 16) div 16 = a"
    "(a mod 4 * 16 + b div 16) mod 16 * 16 + (b mod 16 * 4 + c div 64) div 4 = b"
    "(b mod 16 * 4 + c div 64) mod 4 * 64 + c mod 64 = c" by simp_all
qed

lemma base64url_nats_decode: "\<forall>n\<in>set ns. n < 256 \<Longrightarrow> base64url_decode_nats (base64url_nats ns) = ns"
proof (induction ns rule: base64url_nats.induct)
  case (1 a b c rest)
  then show ?case using base64_group [of a b c] by simp
next
  case (2 a b)
  then show ?case using base64_group [of a b 0] by simp
next
  case (3 a)
  then show ?case using base64_group [of a 0 0] by simp
qed simp

lemma base64url_inj:
  assumes "base64url s = base64url t"
  shows "s = t"
proof -
  let ?ns = "\<lambda>s :: string. base64url_nats (map of_char s)"
  have range: "n < 64" if "n \<in> set (?ns s)" for n s
    using base64url_nats_range [of "map of_char s"] that by auto
  have all: "distinct (map base64url_char [0..<64])" by code_simp
  have inj: "inj_on base64url_char {0..<64}" using all by (simp add: distinct_map)
  have "map base64url_char (?ns s) = map base64url_char (?ns t)" using assms by (simp add: base64url_def)
  moreover have "inj_on base64url_char (set (?ns s) \<union> set (?ns t))"
    using range by (intro inj_on_subset [OF inj]) auto
  ultimately have "?ns s = ?ns t" by (simp add: map_inj_on)
  moreover have "base64url_decode_nats (?ns u) = map of_char u" for u
    by (rule base64url_nats_decode) auto
  ultimately have "map of_char s = (map of_char t :: nat list)" by metis
  then have "map char_of (map of_char s :: nat list) = map char_of (map of_char t :: nat list)" by (rule arg_cong)
  then show ?thesis by (simp add: map_idI)
qed

section \<open>Requests and answers of net/http\<close>

record client_request =
  HttpMethod :: string
  HttpURL :: string
  HttpHeader :: "(string \<times> string) list"
  HttpBody :: string

record client_response =
  StatusCode :: int
  ResponseBody :: string

end
