(* ===== verification/Builtin_Tools.thy ===== *)
theory Builtin_Tools
  imports Calculator Go_Url
begin

text \<open>
  The three tools of \<^verbatim>\<open>agent/tools_builtin.go\<close> as tools: their names and schemas, web search over an
  HTTP client, and file reading confined to allowed directories. The HTTP client, the decoder of
  its answers and the file system are parameters.
\<close>

section \<open>Calculator\<close>

datatype tool_failure = ToolFailed string | ToolPanicked string

definition calculator_name :: string where "calculator_name = ''calculator''"

definition calculator_description :: string where
  "calculator_description = ''Evaluate a basic arithmetic expression. Supports +, -, *, /, parentheses, and unary minus. Numbers can be integers or decimals. Example: \"(2 + 3) * 4.5\".''"

definition calculator_schema :: "ToolArg list" where
  "calculator_schema = [\<lparr>ArgName = ''expression'', ArgType = ''string'',
     ArgDescription = ''arithmetic expression to evaluate'', ArgRequired = True\<rparr>]"

definition calc_message :: "(string \<Rightarrow> string) \<Rightarrow> (char \<Rightarrow> string) \<Rightarrow> calc_error \<Rightarrow> string" where
  "calc_message quote rune e =
     (case e of
        ExpressionRequired \<Rightarrow> ''calculator: expression is required''
      | UnexpectedInput p rest \<Rightarrow> ''calculator: unexpected input at position '' @ Itoa (int p) @ '': '' @ quote rest
      | UnexpectedEnd \<Rightarrow> ''calculator: unexpected end of expression''
      | DivisionByZero \<Rightarrow> ''calculator: division by zero''
      | MissingParen \<Rightarrow> ''calculator: missing closing paren''
      | ExpectedNumber p c \<Rightarrow> ''calculator: expected number at position '' @ Itoa (int p) @ '', got '' @ quote (rune c)
      | ParseNumber m \<Rightarrow> ''calculator: parse number: '' @ m)"

text \<open>The calculator as a tool of the registry; \<open>calculator_returns\<close> makes the \<open>None\<close> branch unreachable.\<close>

definition CalculatorTool :: "(string \<Rightarrow> string) \<Rightarrow> (char \<Rightarrow> string) \<Rightarrow> 'f floats \<Rightarrow> 's Tool" where
  "CalculatorTool quote rune F =
     \<lparr>ToolNameOf = calculator_name, ToolDescription = calculator_description, ToolSchema = calculator_schema,
      ToolRun = (\<lambda>args s. (case CalculatorTool_Run F args of
         None \<Rightarrow> Inl []
       | Some (Inl e) \<Rightarrow> Inl (calc_message quote rune e)
       | Some (Inr out) \<Rightarrow> Inr out, s))\<rparr>"

section \<open>Reading files\<close>

record FileReadTool =
  AllowedRoots :: "string list"
  MaxBytes :: int

text \<open>
  The file system: \<^verbatim>\<open>filepath.Abs\<close>, \<^verbatim>\<open>filepath.EvalSymlinks\<close> and \<^verbatim>\<open>os.Open\<close>. An open file is the
  bytes it yields and how reading ends after them: \<open>None\<close> is the end of the file.
\<close>

record 's file_system =
  fs_abs :: "string \<Rightarrow> string + string"
  fs_resolve :: "string \<Rightarrow> 's \<Rightarrow> string + string"
  fs_open :: "string \<Rightarrow> 's \<Rightarrow> (string + string \<times> string option) \<times> 's"

definition NewFileReadTool :: "'s file_system \<Rightarrow> 's \<Rightarrow> string list \<Rightarrow> FileReadTool" where
  "NewFileReadTool fs s roots =
     \<lparr>AllowedRoots = map (\<lambda>r. let a = (case fs_abs fs r of Inl e \<Rightarrow> r | Inr a \<Rightarrow> a)
        in case fs_resolve fs a s of Inl e \<Rightarrow> a | Inr a' \<Rightarrow> a') roots,
      MaxBytes = 64 * 1024\<rparr>"

definition file_read_schema :: "ToolArg list" where
  "file_read_schema = [\<lparr>ArgName = ''path'', ArgType = ''string'',
     ArgDescription = ''absolute or relative file path to read'', ArgRequired = True\<rparr>]"

datatype file_error =
    PathRequired
  | AbsPath string
  | OutsideRoots string
  | OpenFailed string
  | ReadFailed string
  | FilePanic string

definition canonical_path :: "'s file_system \<Rightarrow> 's \<Rightarrow> string \<Rightarrow> file_error + string" where
  "canonical_path fs s requested =
     (case fs_abs fs requested of
        Inl e \<Rightarrow> Inl (AbsPath e)
      | Inr a \<Rightarrow> Inr (case fs_resolve fs a s of Inl e \<Rightarrow> a | Inr a' \<Rightarrow> a'))"

definition path_allowed :: "string list \<Rightarrow> string \<Rightarrow> bool" where
  "path_allowed roots p \<longleftrightarrow> list_ex (\<lambda>root. HasPrefix p (root @ ''/'') \<or> p = root) roots"

definition read_limit :: "FileReadTool \<Rightarrow> int" where
  "read_limit f = (if MaxBytes f \<le> 0 then 64 * 1024 else MaxBytes f)"

text \<open>
  \<^verbatim>\<open>io.ReadFull\<close> into a buffer of \<open>k\<close> bytes: the bytes read, and an error other than the end of the
  file. The length of the buffer is computed in 64 bits, and a negative one makes \<^verbatim>\<open>make\<close> panic.
\<close>

definition ReadFull :: "string \<times> string option \<Rightarrow> nat \<Rightarrow> string \<times> string option" where
  "ReadFull h k = (if k \<le> length (fst h) then (take k (fst h), None) else h)"

definition truncation_notice :: "int \<Rightarrow> string" where
  "truncation_notice limit = nl @ nl @ ''[... file truncated; '' @ Itoa limit @ '' byte limit reached]''"

definition read_capped :: "int \<Rightarrow> string \<times> string option \<Rightarrow> file_error + string" where
  "read_capped limit h =
     (if wrap64 (limit + 1) < 0 then Inl (FilePanic ''makeslice: len out of range'')
      else (case ReadFull h (nat (wrap64 (limit + 1))) of
              (buf, Some e) \<Rightarrow> Inl (ReadFailed e)
            | (buf, None) \<Rightarrow>
                if int (length buf) > limit then Inr (take (nat limit) buf @ truncation_notice limit)
                else Inr buf))"

definition FileReadTool_Run :: "'s file_system \<Rightarrow> FileReadTool \<Rightarrow> tool_args \<Rightarrow> 's \<Rightarrow> (file_error + string) \<times> 's" where
  "FileReadTool_Run fs f args s =
     (let requested = string_arg args ''path''
      in if requested = [] then (Inl PathRequired, s)
         else (case canonical_path fs s requested of
                 Inl e \<Rightarrow> (Inl e, s)
               | Inr p \<Rightarrow>
                   if \<not> path_allowed (AllowedRoots f) p then (Inl (OutsideRoots requested), s)
                   else (case fs_open fs p s of
                           (Inl e, s') \<Rightarrow> (Inl (OpenFailed e), s')
                         | (Inr h, s') \<Rightarrow> (read_capped (read_limit f) h, s'))))"

section \<open>Web search\<close>

record WebSearchTool =
  HTTPClient :: bool
  UserAgent :: string
  MaxResults :: int

definition NewWebSearchTool :: WebSearchTool where
  "NewWebSearchTool = \<lparr>HTTPClient = True, UserAgent = ''sibyl-agent/0.1'', MaxResults = 3\<rparr>"

definition web_search_schema :: "ToolArg list" where
  "web_search_schema = [\<lparr>ArgName = ''query'', ArgType = ''string'', ArgDescription = ''search terms'', ArgRequired = True\<rparr>]"

definition search_endpoint :: "string \<Rightarrow> string" where
  "search_endpoint q = ''https://api.duckduckgo.com/?'' @
     encode_query [(''format'', ''json''), (''no_html'', ''1''), (''q'', q), (''skip_disambig'', ''1'')]"

record ddg_topic =
  TopicText :: string
  TopicURL :: string

record ddg_answer =
  AbstractText :: string
  AbstractURL :: string
  AbstractSource :: string
  Heading :: string
  DirectAnswer :: string
  AnswerType :: string
  RelatedTopics :: "ddg_topic list"

datatype web_error =
    QueryRequired
  | HttpFailed string
  | ReadBody string
  | BadStatus int
  | ParseJson string
  | WebPanic string

definition render_topic :: "ddg_topic \<Rightarrow> string" where
  "render_topic r =
     (if TopicText r = [] then []
      else ''- '' @ TopicText r @ nl @ (if TopicURL r \<noteq> [] then ''  '' @ TopicURL r @ nl else []))"

definition render_answer :: "int \<Rightarrow> ddg_answer \<Rightarrow> string" where
  "render_answer maxResults d =
     (if DirectAnswer d \<noteq> [] then ''Direct answer ('' @ AnswerType d @ ''): '' @ DirectAnswer d @ nl else [])
     @ (if AbstractText d \<noteq> [] then
          Heading d @ '' '' @ em_dash @ '' '' @ AbstractText d @ '' ('' @ AbstractSource d @ '')'' @ nl
          @ (if AbstractURL d \<noteq> [] then ''Source: '' @ AbstractURL d @ nl else [])
        else [])
     @ (if length (RelatedTopics d) > 0 then
          nl @ ''Related:'' @ nl
          @ concat (map render_topic (take (nat (if maxResults \<le> 0 then 3 else maxResults)) (RelatedTopics d)))
        else [])"

text \<open>
  \<open>http\<close> performs a GET of an address with a user agent (\<open>None\<close>: the header is not set) and gives the
  status and the body, or how reading the body failed. A tool without a client panics. Building
  the request cannot fail: method and address are well formed.
\<close>

definition WebSearchTool_Run :: "(string \<Rightarrow> string option \<Rightarrow> 's \<Rightarrow> (string + int \<times> (string + string)) \<times> 's) \<Rightarrow>
    (string \<Rightarrow> string + ddg_answer) \<Rightarrow> (string \<Rightarrow> string) \<Rightarrow> WebSearchTool \<Rightarrow> tool_args \<Rightarrow> 's \<Rightarrow>
    (web_error + string) \<times> 's" where
  "WebSearchTool_Run http decode quote w args s =
     (let q = TrimSpace (string_arg args ''query'')
      in if q = [] then (Inl QueryRequired, s)
         else if \<not> HTTPClient w then (Inl (WebPanic ''nil pointer dereference''), s)
         else (case http (search_endpoint q) (if UserAgent w \<noteq> [] then Some (UserAgent w) else None) s of
                 (Inl e, s') \<Rightarrow> (Inl (HttpFailed e), s')
               | (Inr (status, Inl e), s') \<Rightarrow> (Inl (ReadBody e), s')
               | (Inr (status, Inr body), s') \<Rightarrow>
                   if status < 200 \<or> status \<ge> 300 then (Inl (BadStatus status), s')
                   else (case decode body of
                           Inl e \<Rightarrow> (Inl (ParseJson e), s')
                         | Inr d \<Rightarrow>
                             (let result = TrimSpace (render_answer (MaxResults w) d)
                              in (Inr (if result = [] then ''No results found for '' @ quote q @ ''.'' else result), s')))))"


section \<open>What file reading can reach\<close>

text \<open>The components of a path.\<close>

definition components :: "string \<Rightarrow> string list" where
  "components p = split_byte (CHR ''/'') p"

lemma path_allowed_components:
  "path_allowed roots p \<longleftrightarrow> (\<exists>r\<in>set roots. prefix (components r) (components p))"
  unfolding path_allowed_def components_def split_byte_prefix by (auto simp: list_ex_iff)

lemma read_capped_Inr:
  assumes "read_capped limit (bytes, e) = Inr out" "0 < limit" "limit < 2 ^ 63 - 1"
  shows "out = (if int (length bytes) \<le> limit then bytes else take (nat limit) bytes @ truncation_notice limit) \<and>
    (int (length bytes) \<le> limit \<longrightarrow> e = None)"
proof -
  have w: "wrap64 (limit + 1) = limit + 1" using assms(2,3) by (intro wrap64_id) (simp add: int64_def)
  have "min (nat limit) (nat (limit + 1)) = nat limit" using assms(2) by simp
  with assms(1,2) w show ?thesis
    by (auto simp: read_capped_def ReadFull_def split: if_splits option.splits)
qed

text \<open>
  C14: a file is read only if its path, made absolute and with symbolic links resolved, has the
  components of an allowed root as its first components; any other path is refused before anything
  is opened. What is returned is the whole file, or exactly its first bytes up to the limit and a
  notice that it was cut.
\<close>

theorem FileRead_confined:
  assumes "FileReadTool_Run fs f args s = (r, s')" "MaxBytes f < 2 ^ 63 - 1"
  shows "(\<forall>out. r = Inr out \<longrightarrow>
      (\<exists>p root bytes e. canonical_path fs s (string_arg args ''path'') = Inr p \<and> root \<in> set (AllowedRoots f) \<and>
         prefix (components root) (components p) \<and> fs_open fs p s = (Inr (bytes, e), s') \<and>
         out = (if int (length bytes) \<le> read_limit f then bytes
                else take (nat (read_limit f)) bytes @ truncation_notice (read_limit f)))) \<and>
    (\<forall>p. canonical_path fs s (string_arg args ''path'') = Inr p \<longrightarrow>
      (\<forall>root\<in>set (AllowedRoots f). \<not> prefix (components root) (components p)) \<longrightarrow>
      string_arg args ''path'' \<noteq> [] \<longrightarrow> r = Inl (OutsideRoots (string_arg args ''path'')) \<and> s' = s)"
proof (intro conjI allI impI)
  fix out
  assume r: "r = Inr out"
  then obtain p h where p: "canonical_path fs s (string_arg args ''path'') = Inr p" "path_allowed (AllowedRoots f) p"
      "fs_open fs p s = (Inr h, s')" "read_capped (read_limit f) h = Inr out"
    using assms(1) by (auto simp: FileReadTool_Run_def Let_def split: if_splits sum.splits prod.splits)
  obtain bytes e where h: "h = (bytes, e)" by (cases h)
  have "0 < read_limit f" "read_limit f < 2 ^ 63 - 1" using assms(2) by (auto simp: read_limit_def)
  from read_capped_Inr [OF p(4) [unfolded h] this] p(1-3) h
  show "\<exists>p root bytes e. canonical_path fs s (string_arg args ''path'') = Inr p \<and> root \<in> set (AllowedRoots f) \<and>
      prefix (components root) (components p) \<and> fs_open fs p s = (Inr (bytes, e), s') \<and>
      out = (if int (length bytes) \<le> read_limit f then bytes
             else take (nat (read_limit f)) bytes @ truncation_notice (read_limit f))"
    unfolding path_allowed_components by blast
next
  fix p
  assume "canonical_path fs s (string_arg args ''path'') = Inr p"
    "\<forall>root\<in>set (AllowedRoots f). \<not> prefix (components root) (components p)" "string_arg args ''path'' \<noteq> []"
  with assms(1) show "r = Inl (OutsideRoots (string_arg args ''path''))" "s' = s"
    by (auto simp: FileReadTool_Run_def Let_def path_allowed_components)
qed

text \<open>A file system with two files, one of them beside the allowed directory under a longer name.\<close>

definition demo_fs :: "unit file_system" where
  "demo_fs = \<lparr>fs_abs = Inr, fs_resolve = (\<lambda>p s. Inr p),
     fs_open = (\<lambda>p s. (if p = ''/data/a'' then Inr (''hello'', None)
       else if p = ''/data-b'' then Inr (''secret'', None) else Inl ''no such file'', s))\<rparr>"

theorem FileRead_confined_witness:
  "FileReadTool_Run demo_fs \<lparr>AllowedRoots = [''/data''], MaxBytes = 2\<rparr> [(''path'', JString ''/data-b'')] () =
     (Inl (OutsideRoots ''/data-b''), ())"
proof -
  let ?f = "\<lparr>AllowedRoots = [''/data''], MaxBytes = 2\<rparr>" and ?args = "[(''path'', JString ''/data-b'')]"
  obtain r s' where run: "FileReadTool_Run demo_fs ?f ?args () = (r, s')"
    by (cases "FileReadTool_Run demo_fs ?f ?args ()") auto
  have arg: "string_arg ?args ''path'' = ''/data-b''" by code_simp
  have "canonical_path demo_fs () ''/data-b'' = Inr ''/data-b''" by code_simp
  moreover have "\<not> prefix (components ''/data'') (components ''/data-b'')" by code_simp
  ultimately have "r = Inl (OutsideRoots ''/data-b'') \<and> s' = ()"
    using FileRead_confined [OF run] arg by simp
  with run show ?thesis by simp
qed

text \<open>
  The root directory as a root refuses every file but itself: the test appends a separator to it.
\<close>

lemma slash_root_refuses:
  "canonical_path fs s (string_arg args ''path'') = Inr p \<Longrightarrow> string_arg args ''path'' \<noteq> [] \<Longrightarrow>
     p = CHR ''/'' # q \<Longrightarrow> q \<noteq> [] \<Longrightarrow> hd q \<noteq> CHR ''/'' \<Longrightarrow>
     FileReadTool_Run fs \<lparr>AllowedRoots = [''/''], MaxBytes = m\<rparr> args s = (Inl (OutsideRoots (string_arg args ''path'')), s)"
  by (cases q) (auto simp: FileReadTool_Run_def Let_def path_allowed_def HasPrefix_def)

section \<open>What a search asks for\<close>

text \<open>
  Whatever bytes the query holds, it cannot change the request: parsing the request's query
  string gives the four parameters, and the value of q is the query.
\<close>

theorem search_endpoint_roundtrip:
  "\<exists>qs. search_endpoint q = ''https://api.duckduckgo.com/?'' @ qs \<and>
     ParseQuery qs = Some [(''format'', ''json''), (''no_html'', ''1''), (''q'', q), (''skip_disambig'', ''1'')]"
  unfolding search_endpoint_def by (intro exI conjI) (rule refl, rule ParseQuery_encode_query)

end
