(* ===== verification/Token_Store.thy ===== *)
theory Token_Store
  imports Prelude
begin

text \<open>
  Package auth/oauth, files \<^verbatim>\<open>types.go\<close>, \<^verbatim>\<open>crypt.go\<close> and \<^verbatim>\<open>store.go\<close>: tokens, identities and sessions, the
  ciphers that seal tokens at rest, and the store in memory.

  The state of the world a call runs in is \<open>'w\<close>; it gives the clock, the random source and whether
  the caller's context has ended. The AEAD of the Go library and the JSON encoding of tokens are
  parameters.
\<close>

section \<open>Types\<close>

datatype claim = ClaimText string | ClaimNumber int | ClaimOther string

type_synonym claims = "(string, claim) gomap"

record AuthRequest =
  ReqProvider :: string
  ReqScopes :: "string list"
  ReqRedirectURI :: string
  ReqState :: string
  ReqCodeVerifier :: string
  ReqCodeChallenge :: string

record AuthorizeRedirect =
  RedirectURL :: string
  RedirectState :: string
  RedirectVerifier :: string

record AuthCode =
  CodeValue :: string
  CodeState :: string

text \<open>A time is nanoseconds of the clock; \<open>None\<close> is Go's zero time.\<close>

record TokenPair =
  AccessToken :: string
  RefreshToken :: string
  TokenType :: string
  ExpiresAt :: "int option"
  TokenScope :: string
  TokenRaw :: claims

record Identity =
  Canonical :: string
  IdProvider :: string
  ProviderID :: string
  Email :: string
  DisplayName :: string
  IdRaw :: claims

record Session =
  SessionIdentity :: Identity
  SessionToken :: TokenPair
  IssuedAt :: int
  SessionExpiresAt :: "int option"

text \<open>
  The errors of the package. \<open>Wrapped\<close> is a message around an error that stays visible to
  \<^verbatim>\<open>errors.Is\<close> and \<^verbatim>\<open>errors.As\<close>; \<open>Application\<close> is Temporal's non-retryable error with its type. The last
  three are the errors of the agents (\<^verbatim>\<open>agents/verdict.go\<close>, \<^verbatim>\<open>agents/oauth.go\<close>), which pass through the
  same functions.
\<close>

datatype oauth_error =
    TokenNotFound
  | StateMismatch
  | ProviderNotRegistered
  | TokenExpired
  | ContextEnded string
  | AuthenticationError int "oauth_error option"
  | Failure string
  | Wrapped string oauth_error
  | Application string string
  | Snoozed
  | MissingIdentity string
  | MissingCredential Identity string oauth_error

fun error_is_not_found :: "oauth_error \<Rightarrow> bool" where
  "error_is_not_found TokenNotFound = True"
| "error_is_not_found (Wrapped m e) = error_is_not_found e"
| "error_is_not_found (AuthenticationError n (Some e)) = error_is_not_found e"
| "error_is_not_found (MissingCredential i p e) = error_is_not_found e"
| "error_is_not_found _ = False"

fun error_as_authentication :: "oauth_error \<Rightarrow> bool" where
  "error_as_authentication (AuthenticationError n e) = True"
| "error_as_authentication (Wrapped m e) = error_as_authentication e"
| "error_as_authentication (MissingCredential i p e) = error_as_authentication e"
| "error_as_authentication _ = False"

definition IsExpired :: "TokenPair \<Rightarrow> int \<Rightarrow> bool" where
  "IsExpired t now = (case ExpiresAt t of None \<Rightarrow> False | Some e \<Rightarrow> now > e)"

definition IsExpiringWithin :: "TokenPair \<Rightarrow> int \<Rightarrow> int \<Rightarrow> bool" where
  "IsExpiringWithin t d now = (case ExpiresAt t of None \<Rightarrow> False | Some e \<Rightarrow> now + d > e)"

section \<open>Ciphers\<close>

record 'w TokenCipher =
  Encrypt :: "string \<Rightarrow> 'w \<Rightarrow> (string + string) \<times> 'w"
  Decrypt :: "string \<Rightarrow> string + string"

definition NoOpCipher :: "'w TokenCipher" where
  "NoOpCipher = \<lparr>Encrypt = (\<lambda>p w. (Inr p, w)), Decrypt = Inr\<rparr>"

text \<open>The AEAD: its nonce size, sealing and opening. \<open>rand n\<close> draws \<open>n\<close> random bytes.\<close>

record aead =
  NonceSize :: nat
  Seal :: "string \<Rightarrow> string \<Rightarrow> string"
  Open :: "string \<Rightarrow> string \<Rightarrow> string + string"

definition AESGCMCipher :: "aead \<Rightarrow> (nat \<Rightarrow> 'w \<Rightarrow> (string + string) \<times> 'w) \<Rightarrow> 'w TokenCipher" where
  "AESGCMCipher a rand =
     \<lparr>Encrypt = (\<lambda>plaintext w. case rand (NonceSize a) w of
          (Inl e, w') \<Rightarrow> (Inl (''oauth: nonce gen: '' @ e), w')
        | (Inr nonce, w') \<Rightarrow> (Inr (nonce @ Seal a nonce plaintext), w')),
      Decrypt = (\<lambda>ciphertext.
        let nonceSize = NonceSize a
        in if length ciphertext < nonceSize then Inl ''oauth: ciphertext too short''
           else (case Open a (take nonceSize ciphertext) (drop nonceSize ciphertext) of
                   Inl e \<Rightarrow> Inl (''oauth: AES-GCM open: '' @ e)
                 | Inr plaintext \<Rightarrow> Inr plaintext))\<rparr>"

text \<open>
  \<^verbatim>\<open>NewAESGCMCipher\<close>: \<open>new_cipher\<close> is \<^verbatim>\<open>aes.NewCipher\<close> and \<open>new_gcm\<close> is \<^verbatim>\<open>cipher.NewGCM\<close>; the environment
  variable is decoded as padded, then unpadded, then URL base64.
\<close>

definition NewAESGCMCipher :: "(string \<Rightarrow> string + 'block) \<Rightarrow> ('block \<Rightarrow> string + aead) \<Rightarrow>
    (nat \<Rightarrow> 'w \<Rightarrow> (string + string) \<times> 'w) \<Rightarrow> string \<Rightarrow> string + 'w TokenCipher" where
  "NewAESGCMCipher new_cipher new_gcm rand key =
     (if length key \<noteq> 32 then Inl ''oauth: AES-256-GCM requires 32-byte key''
      else (case new_cipher key of
              Inl e \<Rightarrow> Inl (''oauth: aes.NewCipher: '' @ e)
            | Inr block \<Rightarrow>
                (case new_gcm block of
                   Inl e \<Rightarrow> Inl (''oauth: cipher.NewGCM: '' @ e)
                 | Inr a \<Rightarrow> Inr (AESGCMCipher a rand))))"

definition NewAESGCMCipherFromEnv :: "(string \<Rightarrow> string + 'w TokenCipher) \<Rightarrow> (string \<Rightarrow> string + string) \<Rightarrow>
    (string \<Rightarrow> string + string) \<Rightarrow> (string \<Rightarrow> string + string) \<Rightarrow> string \<Rightarrow> string + 'w TokenCipher" where
  "NewAESGCMCipherFromEnv new std raw_std url raw =
     (if raw = [] then Inl ''oauth: SIBYL_OAUTH_KEY is not set''
      else (case std raw of
              Inr key \<Rightarrow> new key
            | Inl _ \<Rightarrow>
                (case raw_std raw of
                   Inr key \<Rightarrow> new key
                 | Inl _ \<Rightarrow>
                     (case url raw of
                        Inr key \<Rightarrow> new key
                      | Inl e \<Rightarrow> Inl (''oauth: SIBYL_OAUTH_KEY base64 decode: '' @ e)))))"

section \<open>The store in memory\<close>

record TokenRef =
  RefIdentity :: Identity
  RefProvider :: string
  RefExpiresAt :: "int option"
  RefUpdatedAt :: int

record storedEntry =
  EntryIdentity :: Identity
  EntryProvider :: string
  EntryToken :: string
  EntryExpiresAt :: "int option"
  EntryUpdatedAt :: int

type_synonym storeKey = "string \<times> string"

type_synonym MemoryTokenStore = "(storeKey, storedEntry) gomap"

text \<open>
  What the store's methods need besides the map: the cipher, the JSON encoder and decoder, whether
  the caller's context has ended, and the clock.
\<close>

record 'w store_env =
  se_cipher :: "'w TokenCipher"
  se_marshal :: "TokenPair \<Rightarrow> string + string"
  se_unmarshal :: "string \<Rightarrow> string + TokenPair"
  se_ctx_err :: "'w \<Rightarrow> string option"
  se_now :: "'w \<Rightarrow> int"

definition NewMemoryTokenStore :: "'w TokenCipher option \<Rightarrow> (string + MemoryTokenStore)" where
  "NewMemoryTokenStore c =
     (case c of
        None \<Rightarrow> Inl ''oauth: MemoryTokenStore requires a non-nil TokenCipher (use NoOpCipher for tests)''
      | Some _ \<Rightarrow> Inr [])"

definition memory_get :: "'w store_env \<Rightarrow> Identity \<Rightarrow> string \<Rightarrow> MemoryTokenStore \<times> 'w \<Rightarrow> oauth_error + TokenPair" where
  "memory_get E identity provider s =
     (case se_ctx_err E (snd s) of
        Some e \<Rightarrow> Inl (ContextEnded e)
      | None \<Rightarrow>
          (case gm_get (fst s) (Canonical identity, provider) of
             None \<Rightarrow> Inl TokenNotFound
           | Some entry \<Rightarrow>
               (case Decrypt (se_cipher E) (EntryToken entry) of
                  Inl e \<Rightarrow> Inl (Wrapped ''oauth: memory store decrypt'' (Failure e))
                | Inr plaintext \<Rightarrow>
                    (case se_unmarshal E plaintext of
                       Inl e \<Rightarrow> Inl (Wrapped ''oauth: memory store unmarshal'' (Failure e))
                     | Inr tokens \<Rightarrow> Inr tokens))))"

definition memory_put :: "'w store_env \<Rightarrow> Identity \<Rightarrow> string \<Rightarrow> TokenPair \<Rightarrow> MemoryTokenStore \<times> 'w \<Rightarrow>
    oauth_error option \<times> MemoryTokenStore \<times> 'w" where
  "memory_put E identity provider tokens s =
     (case se_ctx_err E (snd s) of
        Some e \<Rightarrow> (Some (ContextEnded e), s)
      | None \<Rightarrow>
          (case se_marshal E tokens of
             Inl e \<Rightarrow> (Some (Wrapped ''oauth: memory store marshal'' (Failure e)), s)
           | Inr plaintext \<Rightarrow>
               (case Encrypt (se_cipher E) plaintext (snd s) of
                  (Inl e, w) \<Rightarrow> (Some (Wrapped ''oauth: memory store encrypt'' (Failure e)), (fst s, w))
                | (Inr ciphertext, w) \<Rightarrow>
                    (None, (gm_set (Canonical identity, provider)
                      \<lparr>EntryIdentity = identity, EntryProvider = provider, EntryToken = ciphertext,
                       EntryExpiresAt = ExpiresAt tokens, EntryUpdatedAt = se_now E w\<rparr> (fst s), w)))))"

definition memory_delete :: "'w store_env \<Rightarrow> Identity \<Rightarrow> string \<Rightarrow> MemoryTokenStore \<times> 'w \<Rightarrow>
    oauth_error option \<times> MemoryTokenStore \<times> 'w" where
  "memory_delete E identity provider s =
     (case se_ctx_err E (snd s) of
        Some e \<Rightarrow> (Some (ContextEnded e), s)
      | None \<Rightarrow> (None, (gm_del (Canonical identity, provider) (fst s), snd s)))"

definition token_ref :: "storedEntry \<Rightarrow> TokenRef" where
  "token_ref entry = \<lparr>RefIdentity = EntryIdentity entry, RefProvider = EntryProvider entry,
     RefExpiresAt = EntryExpiresAt entry, RefUpdatedAt = EntryUpdatedAt entry\<rparr>"

definition memory_list :: "(storeKey list \<Rightarrow> storeKey list) \<Rightarrow> 'w store_env \<Rightarrow> MemoryTokenStore \<times> 'w \<Rightarrow>
    oauth_error + TokenRef list" where
  "memory_list \<rho> E s =
     (case se_ctx_err E (snd s) of
        Some e \<Rightarrow> Inl (ContextEnded e)
      | None \<Rightarrow> Inr (concat (map (\<lambda>k. case gm_get (fst s) k of None \<Rightarrow> [] | Some entry \<Rightarrow> [token_ref entry])
          (\<rho> (gm_keys (fst s))))))"

text \<open>\<^verbatim>\<open>Close\<close> does nothing.\<close>

definition memory_close :: "MemoryTokenStore \<Rightarrow> oauth_error option \<times> MemoryTokenStore" where
  "memory_close s = (None, s)"

section \<open>The contract of a token store\<close>

text \<open>Writes to a store, their run, which lists the ones that succeeded, and their effect on a map.\<close>

datatype store_write = PutToken Identity string TokenPair | DeleteToken Identity string

fun run_writes :: "(Identity \<Rightarrow> string \<Rightarrow> TokenPair \<Rightarrow> 's \<Rightarrow> oauth_error option \<times> 's) \<Rightarrow>
    (Identity \<Rightarrow> string \<Rightarrow> 's \<Rightarrow> oauth_error option \<times> 's) \<Rightarrow> store_write list \<Rightarrow> 's \<Rightarrow> store_write list \<times> 's" where
  "run_writes put delete [] s = ([], s)"
| "run_writes put delete (w # ws) s =
     (case (case w of PutToken i p t \<Rightarrow> put i p t s | DeleteToken i p \<Rightarrow> delete i p s) of
        (e, s1) \<Rightarrow> (case run_writes put delete ws s1 of
          (succeeded, s2) \<Rightarrow> (if e = None then w # succeeded else succeeded, s2)))"

fun write_effect :: "store_write \<Rightarrow> (storeKey \<Rightarrow> TokenPair option) \<Rightarrow> storeKey \<Rightarrow> TokenPair option" where
  "write_effect (PutToken i p t) m = m((Canonical i, p) \<mapsto> t)"
| "write_effect (DeleteToken i p) m = m((Canonical i, p) := None)"

text \<open>
  What the rest of the package relies on. \<open>reread t\<close> is what a later \<open>get\<close> makes of a stored token: the
  token itself, or what its encoding makes of it. \<open>alive\<close> says that the caller's context has not ended.
\<close>

locale token_store =
  fixes get :: "Identity \<Rightarrow> string \<Rightarrow> 'st \<times> 'w \<Rightarrow> oauth_error + TokenPair"
    and put :: "Identity \<Rightarrow> string \<Rightarrow> TokenPair \<Rightarrow> 'st \<times> 'w \<Rightarrow> oauth_error option \<times> 'st \<times> 'w"
    and delete :: "Identity \<Rightarrow> string \<Rightarrow> 'st \<times> 'w \<Rightarrow> oauth_error option \<times> 'st \<times> 'w"
    and reread :: "TokenPair \<Rightarrow> oauth_error + TokenPair"
    and alive :: "'w \<Rightarrow> bool"
  assumes get_put: "put i p t s = (None, (st', w')) \<Longrightarrow> alive w \<Longrightarrow>
      get j q (st', w) = (if Canonical j = Canonical i \<and> q = p then reread t else get j q (fst s, w))"
    and get_delete: "delete i p s = (None, (st', w')) \<Longrightarrow> alive w \<Longrightarrow>
      get j q (st', w) = (if Canonical j = Canonical i \<and> q = p then Inl TokenNotFound else get j q (fst s, w))"
    and put_failed: "put i p t s = (Some e, (st', w')) \<Longrightarrow> st' = fst s"
    and delete_failed: "delete i p s = (Some e, (st', w')) \<Longrightarrow> st' = fst s"
begin

text \<open>The store holds a map of tokens.\<close>

definition holds :: "'st \<Rightarrow> (storeKey \<Rightarrow> TokenPair option) \<Rightarrow> bool" where
  "holds st m \<longleftrightarrow> (\<forall>j q w. alive w \<longrightarrow> get j q (st, w) =
     (case m (Canonical j, q) of None \<Rightarrow> Inl TokenNotFound | Some t \<Rightarrow> reread t))"

lemma holds_get:
  "holds st m \<Longrightarrow> alive w \<Longrightarrow> get j q (st, w) =
     (case m (Canonical j, q) of None \<Rightarrow> Inl TokenNotFound | Some t \<Rightarrow> reread t)"
  by (simp add: holds_def)

lemma holds_put:
  "holds st m \<Longrightarrow> put i p t (st, w) = (e, (st', w')) \<Longrightarrow>
     holds st' (if e = None then m((Canonical i, p) \<mapsto> t) else m)"
  using get_put [of i p t "(st, w)" st' w'] put_failed [of i p t "(st, w)" _ st' w']
  by (cases e) (auto simp: holds_def)

lemma holds_put_ok: "holds st m \<Longrightarrow> put i p t (st, w) = (None, (st', w')) \<Longrightarrow> holds st' (m((Canonical i, p) \<mapsto> t))"
  using holds_put [of st m i p t w None st' w'] by simp

lemma holds_put_err: "holds st m \<Longrightarrow> put i p t (st, w) = (Some e, (st', w')) \<Longrightarrow> holds st' m"
  using holds_put [of st m i p t w "Some e" st' w'] by simp

lemma holds_delete:
  "holds st m \<Longrightarrow> delete i p (st, w) = (e, (st', w')) \<Longrightarrow>
     holds st' (if e = None then m((Canonical i, p) := None) else m)"
  using get_delete [of i p "(st, w)" st' w'] delete_failed [of i p "(st, w)" _ st' w']
  by (cases e) (auto simp: holds_def)

lemma holds_run:
  "holds st m \<Longrightarrow> run_writes put delete ws (st, w) = (succeeded, (st', w')) \<Longrightarrow>
     holds st' (fold write_effect succeeded m)"
proof (induction ws arbitrary: st w m succeeded)
  case Nil
  then show ?case by simp
next
  case (Cons x ws)
  let ?step = "case x of PutToken i p t \<Rightarrow> put i p t (st, w) | DeleteToken i p \<Rightarrow> delete i p (st, w)"
  obtain e st1 w1 where step: "?step = (e, (st1, w1))" by (metis prod.exhaust)
  obtain rest where rest: "run_writes put delete ws (st1, w1) = (rest, (st', w'))"
    and succ: "succeeded = (if e = None then x # rest else rest)"
    using Cons.prems(2) step by (auto split: prod.splits)
  have "holds st1 (if e = None then write_effect x m else m)"
  proof (cases x)
    case (PutToken i p t)
    with step holds_put [OF Cons.prems(1), of i p t w e st1 w1] show ?thesis by (cases e) auto
  next
    case (DeleteToken i p)
    with step holds_delete [OF Cons.prems(1), of i p w e st1 w1] show ?thesis by (cases e) auto
  qed
  from Cons.IH [OF this rest] succ show ?case by (auto split: if_splits)
qed

end

section \<open>The store in memory keeps the contract\<close>

definition reread_of :: "'w store_env \<Rightarrow> TokenPair \<Rightarrow> oauth_error + TokenPair" where
  "reread_of E t =
     (case se_marshal E t of
        Inl e \<Rightarrow> Inl (Wrapped ''oauth: memory store marshal'' (Failure e))
      | Inr plaintext \<Rightarrow>
          (case se_unmarshal E plaintext of
             Inl e \<Rightarrow> Inl (Wrapped ''oauth: memory store unmarshal'' (Failure e))
           | Inr tokens \<Rightarrow> Inr tokens))"

text \<open>All it takes of the cipher is that it opens what it sealed.\<close>

locale sealed_store =
  fixes E :: "'w store_env"
  assumes decrypt_encrypt: "Encrypt (se_cipher E) p w = (Inr c, w') \<Longrightarrow> Decrypt (se_cipher E) c = Inr p"

sublocale sealed_store \<subseteq> token_store "memory_get E" "memory_put E" "memory_delete E" "reread_of E"
  "\<lambda>w. se_ctx_err E w = None"
proof unfold_locales
  fix i j p q t s st' w' w
  assume put: "memory_put E i p t s = (None, (st', w'))" and w: "se_ctx_err E w = None"
  then obtain pt c where c: "se_marshal E t = Inr pt" "Encrypt (se_cipher E) pt (snd s) = (Inr c, w')"
    "st' = gm_set (Canonical i, p) \<lparr>EntryIdentity = i, EntryProvider = p, EntryToken = c,
       EntryExpiresAt = ExpiresAt t, EntryUpdatedAt = se_now E w'\<rparr> (fst s)"
    by (auto simp: memory_put_def split: option.splits sum.splits prod.splits)
  then show "memory_get E j q (st', w) =
      (if Canonical j = Canonical i \<and> q = p then reread_of E t else memory_get E j q (fst s, w))"
    using w decrypt_encrypt [OF c(2)] by (auto simp: memory_get_def reread_of_def)
next
  fix i j p q s st' w' w
  assume "memory_delete E i p s = (None, (st', w'))" "se_ctx_err E w = None"
  then show "memory_get E j q (st', w) =
      (if Canonical j = Canonical i \<and> q = p then Inl TokenNotFound else memory_get E j q (fst s, w))"
    by (auto simp: memory_delete_def memory_get_def split: option.splits)
next
  fix i p t s e st' w'
  assume "memory_put E i p t s = (Some e, (st', w'))"
  then show "st' = fst s"
    by (auto simp: memory_put_def split: option.splits sum.splits prod.splits)
next
  fix i p s e st' w'
  assume "memory_delete E i p s = (Some e, (st', w'))"
  then show "st' = fst s" by (auto simp: memory_delete_def split: option.splits)
qed

context sealed_store
begin

lemma empty_holds: "holds [] (\<lambda>_. None)"
  by (simp add: holds_def memory_get_def)

lemma reads_last_write:
  assumes "run_writes (memory_put E) (memory_delete E) ws ([], w) = (succeeded, (st, w'))" "se_ctx_err E v = None"
  shows "memory_get E j q (st, v) =
    (case fold write_effect succeeded (\<lambda>_. None) (Canonical j, q) of
       None \<Rightarrow> Inl TokenNotFound | Some t \<Rightarrow> reread_of E t)"
  using holds_get [OF holds_run [OF empty_holds assms(1)] assms(2)] .

end

text \<open>The cipher of the tests, and the production cipher over an AEAD that opens what it sealed.\<close>

interpretation noop: sealed_store "E\<lparr>se_cipher := NoOpCipher\<rparr>" for E
  by unfold_locales (simp add: NoOpCipher_def)

definition rand_ok :: "(nat \<Rightarrow> 'w \<Rightarrow> (string + string) \<times> 'w) \<Rightarrow> bool" where
  "rand_ok rand \<longleftrightarrow> (\<forall>k w n w'. rand k w = (Inr n, w') \<longrightarrow> length n = k)"

lemma rand_okD: "rand_ok rand \<Longrightarrow> rand k w = (Inr n, w') \<Longrightarrow> length n = k"
  unfolding rand_ok_def by blast

definition aead_ok :: "aead \<Rightarrow> (nat \<Rightarrow> 'w \<Rightarrow> (string + string) \<times> 'w) \<Rightarrow> bool" where
  "aead_ok a rand \<longleftrightarrow> (\<forall>n p. length n = NonceSize a \<longrightarrow> Open a n (Seal a n p) = Inr p) \<and>
     rand_ok rand"

lemma AESGCM_decrypt_encrypt:
  assumes "aead_ok a rand" "Encrypt (AESGCMCipher a rand) p w = (Inr c, w')"
  shows "Decrypt (AESGCMCipher a rand) c = Inr p"
proof -
  obtain n where n: "rand (NonceSize a) w = (Inr n, w')" "c = n @ Seal a n p"
    using assms(2) by (auto simp: AESGCMCipher_def split: prod.splits sum.splits)
  have l: "length n = NonceSize a" using assms(1) n(1) unfolding aead_ok_def by (blast dest: rand_okD)
  then have "Open a n (Seal a n p) = Inr p" using assms(1) by (simp add: aead_ok_def)
  with n(2) l show ?thesis by (simp add: AESGCMCipher_def)
qed

lemma aesgcm_sealed:
  assumes "aead_ok a rand" "se_cipher E = AESGCMCipher a rand"
  shows "sealed_store E"
  using AESGCM_decrypt_encrypt [OF assms(1)] by unfold_locales (simp add: assms(2))

section \<open>Properties\<close>

text \<open>
  C15: after any sequence of writes to an empty store sealed with AES-GCM, a read gives the token of the
  last successful write to its address, as its encoding reads it back, or that there is no token
  when there was none or it was deleted; failed writes change nothing. The store is a map.
\<close>

theorem token_store_refines_map:
  assumes "aead_ok a rand" "se_cipher E = AESGCMCipher a rand"
    and "run_writes (memory_put E) (memory_delete E) ws ([], w) = (succeeded, (st, w'))"
    and "se_ctx_err E v = None"
  shows "memory_get E j q (st, v) =
    (case fold write_effect succeeded (\<lambda>_. None) (Canonical j, q) of
       None \<Rightarrow> Inl TokenNotFound | Some t \<Rightarrow> reread_of E t)"
  by (rule sealed_store.reads_last_write [OF aesgcm_sealed [OF assms(1,2)] assms(3,4)])

text \<open>A toy AEAD that checks its nonce, a counter for the random source, and tokens encoded by their access token.\<close>

definition demo_token :: "string \<Rightarrow> TokenPair" where
  "demo_token a = \<lparr>AccessToken = a, RefreshToken = [], TokenType = ''Bearer'', ExpiresAt = None, TokenScope = [], TokenRaw = []\<rparr>"

definition demo_identity :: "string \<Rightarrow> Identity" where
  "demo_identity c = \<lparr>Canonical = c, IdProvider = [], ProviderID = [], Email = [], DisplayName = [], IdRaw = []\<rparr>"

definition demo_aead :: aead where
  "demo_aead = \<lparr>NonceSize = 1, Seal = (\<lambda>n p. n @ rev p),
     Open = (\<lambda>n c. if take 1 c = n then Inr (rev (drop 1 c)) else Inl ''authentication failed'')\<rparr>"

definition demo_rand :: "nat \<Rightarrow> nat \<Rightarrow> (string + string) \<times> nat" where
  "demo_rand k w = (Inr (replicate k (char_of w)), w + 1)"

definition demo_store_env :: "nat store_env" where
  "demo_store_env = \<lparr>se_cipher = AESGCMCipher demo_aead demo_rand, se_marshal = (\<lambda>t. Inr (AccessToken t)),
     se_unmarshal = (\<lambda>a. Inr (demo_token a)), se_ctx_err = (\<lambda>w. if w = 7 then Some ''canceled'' else None),
     se_now = int\<rparr>"

definition demo_writes :: "store_write list" where
  "demo_writes = [PutToken (demo_identity ''okta:1'') ''okta'' (demo_token ''t1''),
     PutToken (demo_identity ''okta:2'') ''okta'' (demo_token ''t2''),
     PutToken (demo_identity ''okta:1'') ''okta'' (demo_token ''t3''),
     DeleteToken (demo_identity ''okta:2'') ''okta'']"

lemma demo_aead_ok: "aead_ok demo_aead demo_rand"
  by (auto simp: aead_ok_def rand_ok_def demo_aead_def demo_rand_def)

lemma demo_writes_run:
  "case run_writes (memory_put demo_store_env) (memory_delete demo_store_env) demo_writes ([], 0) of
     (ws, (st, w)) \<Rightarrow> ws = demo_writes \<and> w = 3"
  by code_simp

theorem token_store_refines_map_witness:
  "\<exists>st. memory_get demo_store_env (demo_identity ''okta:1'') ''okta'' (st, 3) = Inr (demo_token ''t3'') \<and>
     memory_get demo_store_env (demo_identity ''okta:2'') ''okta'' (st, 3) = Inl TokenNotFound"
proof -
  obtain st where run: "run_writes (memory_put demo_store_env) (memory_delete demo_store_env) demo_writes ([], 0) =
      (demo_writes, (st, 3))"
    using demo_writes_run by (auto split: prod.splits)
  have c: "se_cipher demo_store_env = AESGCMCipher demo_aead demo_rand" by (simp add: demo_store_env_def)
  have alive: "se_ctx_err demo_store_env 3 = None" by (simp add: demo_store_env_def)
  note get = token_store_refines_map [OF demo_aead_ok c run alive]
  show ?thesis
    by (rule exI [of _ st]) (simp add: get, simp add: demo_writes_def demo_identity_def reread_of_def demo_store_env_def demo_token_def)
qed

end
