(* ===== verification/OAuth_Flow.thy ===== *)
theory OAuth_Flow
  imports Token_Store Registries Go_Url
begin

text \<open>
  Package auth/oauth, files \<^verbatim>\<open>provider.go\<close>, \<^verbatim>\<open>request.go\<close> and \<^verbatim>\<open>flow.go\<close>: providers and their
  registry, the random values of a request, and the compositions of a provider's arrows with a token
  store: the flow that turns a code into a session, the call that refreshes its token, and the
  current session.

  An arrow runs in the world \<open>'w\<close>; a composition runs in a store and the world. A nil function that is
  called is a panic, the value \<open>Panicking\<close>.
\<close>

section \<open>Providers and their registry\<close>

type_synonym ('i, 'o, 'w) oarrow = "'i \<Rightarrow> 'w \<Rightarrow> (oauth_error + 'o) \<times> 'w"

record ExchangeRequest =
  ExCode :: AuthCode
  ExCodeVerifier :: string
  ExRedirectURI :: string

record 'w Provider =
  ProviderName :: string
  Authorize :: "(AuthRequest, AuthorizeRedirect, 'w) oarrow option"
  Exchange :: "(ExchangeRequest, TokenPair, 'w) oarrow option"
  Refresh :: "(TokenPair, TokenPair, 'w) oarrow option"
  Whoami :: "(TokenPair, Identity, 'w) oarrow option"
  Revoke :: "(TokenPair, unit, 'w) oarrow option"

definition ProviderHasRevoke :: "'w Provider \<Rightarrow> bool" where
  "ProviderHasRevoke p \<longleftrightarrow> Revoke p \<noteq> None"

type_synonym 'w Registry = "(string, 'w Provider) gomap"

definition NewRegistry :: "'w Registry" where
  "NewRegistry = []"

definition RegisterProvider :: "'w Provider \<Rightarrow> 'w Registry \<Rightarrow> oauth_error option \<times> 'w Registry" where
  "RegisterProvider p r =
     (if ProviderName p = [] then (Some ProviderNotRegistered, r)
      else if gm_get r (ProviderName p) \<noteq> None then (Some ProviderNotRegistered, r)
      else if Authorize p = None \<or> Exchange p = None \<or> Refresh p = None \<or> Whoami p = None
      then (Some ProviderNotRegistered, r)
      else (None, gm_set (ProviderName p) p r))"

definition MustRegisterProvider :: "'w Provider \<Rightarrow> 'w Registry \<Rightarrow> oauth_error + 'w Registry" where
  "MustRegisterProvider p r =
     (case RegisterProvider p r of (Some e, r') \<Rightarrow> Inl e | (None, r') \<Rightarrow> Inr r')"

definition registry_Get :: "'w Registry \<Rightarrow> string \<Rightarrow> oauth_error + 'w Provider" where
  "registry_Get r name = (case gm_get r name of None \<Rightarrow> Inl ProviderNotRegistered | Some p \<Rightarrow> Inr p)"

definition registry_Names :: "(string list \<Rightarrow> string list) \<Rightarrow> 'w Registry \<Rightarrow> string list" where
  "registry_Names \<rho> r = \<rho> (gm_keys r)"

definition Use :: "'w Registry \<Rightarrow> string \<Rightarrow> ('w Provider \<Rightarrow> ('i, 'o, 'w) oarrow option) \<Rightarrow> ('i, 'o, 'w) oarrow" where
  "Use r providerName pick inp w =
     (case registry_Get r providerName of
        Inl e \<Rightarrow> (Inl e, w)
      | Inr p \<Rightarrow> (case pick p of None \<Rightarrow> (Inl ProviderNotRegistered, w) | Some arrow \<Rightarrow> arrow inp w))"

definition complete_provider :: "'w Provider \<Rightarrow> bool" where
  "complete_provider p \<longleftrightarrow> Authorize p \<noteq> None \<and> Exchange p \<noteq> None \<and> Refresh p \<noteq> None \<and> Whoami p \<noteq> None"

interpretation providers: name_registry NewRegistry "\<lambda>p r. (fst (RegisterProvider p r) = None, snd (RegisterProvider p r))"
  gm_get ProviderName complete_provider
  by unfold_locales (auto simp: NewRegistry_def RegisterProvider_def complete_provider_def split: if_splits)

definition registered_providers :: "'w Provider list \<Rightarrow> 'w Registry" where
  "registered_providers ps = foldl (\<lambda>r p. snd (RegisterProvider p r)) NewRegistry ps"

lemma registered_providers_all: "registered_providers ps = providers.register_all ps NewRegistry"
  by (simp add: registered_providers_def providers.register_all_def)

lemma registry_Get_registered:
  "registry_Get (registered_providers ps) name =
     (case find (\<lambda>p. complete_provider p \<and> ProviderName p = name \<and> name \<noteq> []) ps of
        None \<Rightarrow> Inl ProviderNotRegistered | Some p \<Rightarrow> Inr p)"
  using providers.first_wins [of ps name]
  by (simp add: registry_Get_def registered_providers_all providers.eligible_def [abs_def])

text \<open>So no arrow that a flow takes from the registry is nil.\<close>

lemma registered_complete:
  "registry_Get (registered_providers ps) name = Inr p \<Longrightarrow> complete_provider p \<and> ProviderName p = name \<and> name \<noteq> []"
  by (auto simp: registry_Get_registered find_Some_iff split: option.splits)

section \<open>The random values of a request\<close>

definition randomBase64URL :: "(nat \<Rightarrow> 'w \<Rightarrow> (string + string) \<times> 'w) \<Rightarrow> nat \<Rightarrow> 'w \<Rightarrow> (string + string) \<times> 'w" where
  "randomBase64URL rand n w =
     (case rand n w of (Inl e, w') \<Rightarrow> (Inl e, w') | (Inr buf, w') \<Rightarrow> (Inr (base64url buf), w'))"

definition pkceS256Challenge :: "(string \<Rightarrow> string) \<Rightarrow> string \<Rightarrow> string" where
  "pkceS256Challenge sha256 verifier = base64url (sha256 verifier)"

definition NewAuthRequest :: "(nat \<Rightarrow> 'w \<Rightarrow> (string + string) \<times> 'w) \<Rightarrow> (string \<Rightarrow> string) \<Rightarrow>
    string \<Rightarrow> string \<Rightarrow> string list \<Rightarrow> 'w \<Rightarrow> (oauth_error + AuthRequest) \<times> 'w" where
  "NewAuthRequest rand sha256 provider redirectURI scopes w =
     (case randomBase64URL rand 32 w of
        (Inl e, w1) \<Rightarrow> (Inl (Wrapped ''oauth: generate state'' (Failure e)), w1)
      | (Inr state, w1) \<Rightarrow>
          (case randomBase64URL rand 32 w1 of
             (Inl e, w2) \<Rightarrow> (Inl (Wrapped ''oauth: generate code_verifier'' (Failure e)), w2)
           | (Inr verifier, w2) \<Rightarrow>
               (Inr \<lparr>ReqProvider = provider, ReqScopes = scopes, ReqRedirectURI = redirectURI, ReqState = state,
                  ReqCodeVerifier = verifier, ReqCodeChallenge = pkceS256Challenge sha256 verifier\<rparr>, w2)))"

section \<open>The flow from a code to a session\<close>

record ('st, 'w) TokenStore =
  ts_get :: "Identity \<Rightarrow> string \<Rightarrow> 'st \<times> 'w \<Rightarrow> oauth_error + TokenPair"
  ts_put :: "Identity \<Rightarrow> string \<Rightarrow> TokenPair \<Rightarrow> 'st \<times> 'w \<Rightarrow> oauth_error option \<times> 'st \<times> 'w"
  ts_delete :: "Identity \<Rightarrow> string \<Rightarrow> 'st \<times> 'w \<Rightarrow> oauth_error option \<times> 'st \<times> 'w"

definition memory_token_store :: "'w store_env \<Rightarrow> (MemoryTokenStore, 'w) TokenStore" where
  "memory_token_store E = \<lparr>ts_get = memory_get E, ts_put = memory_put E, ts_delete = memory_delete E\<rparr>"

record FlowInput =
  FlowCode :: AuthCode
  FlowCodeVerifier :: string
  FlowRedirectURI :: string

datatype 'a flow_result = Returns 'a | Fails oauth_error | Panicking string

definition session_of :: "Identity \<Rightarrow> TokenPair \<Rightarrow> int \<Rightarrow> Session" where
  "session_of identity tokens now =
     \<lparr>SessionIdentity = identity, SessionToken = tokens, IssuedAt = now, SessionExpiresAt = ExpiresAt tokens\<rparr>"

definition exchange_request :: "FlowInput \<Rightarrow> ExchangeRequest" where
  "exchange_request inp = \<lparr>ExCode = FlowCode inp, ExCodeVerifier = FlowCodeVerifier inp, ExRedirectURI = FlowRedirectURI inp\<rparr>"

text \<open>\<open>store\<close> is \<open>None\<close> for the nil interface; \<open>tick\<close> reads the clock.\<close>

definition NewFlow :: "('w \<Rightarrow> int \<times> 'w) \<Rightarrow> 'w Provider \<Rightarrow> ('st, 'w) TokenStore option \<Rightarrow> FlowInput \<Rightarrow> 'st \<times> 'w \<Rightarrow>
    Session flow_result \<times> 'st \<times> 'w" where
  "NewFlow tick p store inp s =
     (case Exchange p of
        None \<Rightarrow> (Panicking ''nil Exchange'', s)
      | Some exchange \<Rightarrow>
          (case exchange (exchange_request inp) (snd s) of
             (Inl e, w1) \<Rightarrow> (Fails (Wrapped ''oauth: exchange'' e), (fst s, w1))
           | (Inr tokens, w1) \<Rightarrow>
               (case Whoami p of
                  None \<Rightarrow> (Panicking ''nil Whoami'', (fst s, w1))
                | Some whoami \<Rightarrow>
                    (case whoami tokens w1 of
                       (Inl e, w2) \<Rightarrow> (Fails (Wrapped ''oauth: whoami'' e), (fst s, w2))
                     | (Inr identity, w2) \<Rightarrow>
                         (case (case store of None \<Rightarrow> (None, (fst s, w2))
                                | Some S \<Rightarrow> ts_put S identity (ProviderName p) tokens (fst s, w2)) of
                            (Some e, s3) \<Rightarrow> (Fails (Wrapped ''oauth: store.Put'' e), s3)
                          | (None, (st3, w3)) \<Rightarrow>
                              (case tick w3 of (now, w4) \<Rightarrow> (Returns (session_of identity tokens now), (st3, w4))))))))"

section \<open>Calls that refresh their token\<close>

type_synonym ('i, 'o, 'w) TokenCall = "'i \<Rightarrow> TokenPair \<Rightarrow> 'w \<Rightarrow> (oauth_error + 'o) \<times> 'w"

definition refreshing_call :: "('i, 'o, 'w) TokenCall \<Rightarrow> (TokenPair, TokenPair, 'w) oarrow \<Rightarrow> ('st, 'w) TokenStore \<Rightarrow>
    Identity \<Rightarrow> string \<Rightarrow> 'i \<Rightarrow> 'st \<times> 'w \<Rightarrow> (oauth_error + 'o) \<times> 'st \<times> 'w" where
  "refreshing_call call refresh S identity provider inp s =
     (case ts_get S identity provider s of
        Inl e \<Rightarrow> (Inl (Wrapped ''oauth: WithRefresh: load tokens'' e), s)
      | Inr tokens \<Rightarrow>
          (case call inp tokens (snd s) of
             (Inr out, w1) \<Rightarrow> (Inr out, (fst s, w1))
           | (Inl e, w1) \<Rightarrow>
               if \<not> error_as_authentication e then (Inl e, (fst s, w1))
               else (case refresh tokens w1 of
                       (Inl re, w2) \<Rightarrow> (Inl (Wrapped ''oauth: WithRefresh: refresh'' re), (fst s, w2))
                     | (Inr fresh, w2) \<Rightarrow>
                         (case ts_put S identity provider fresh (fst s, w2) of
                            (Some pe, s3) \<Rightarrow> (Inl (Wrapped ''oauth: WithRefresh: store refreshed tokens'' pe), s3)
                          | (None, (st3, w3)) \<Rightarrow>
                              (case call inp fresh w3 of
                                 (Inl e, w4) \<Rightarrow> (Inl (Wrapped ''oauth: WithRefresh: retry after refresh'' e), (st3, w4))
                               | (Inr out, w4) \<Rightarrow> (Inr out, (st3, w4)))))))"

text \<open>\<open>Inl\<close> is the panic of the constructor.\<close>

definition WithRefresh :: "('i, 'o, 'w) TokenCall option \<Rightarrow> (TokenPair, TokenPair, 'w) oarrow option \<Rightarrow>
    ('st, 'w) TokenStore option \<Rightarrow> Identity \<Rightarrow> string \<Rightarrow>
    string + ('i \<Rightarrow> 'st \<times> 'w \<Rightarrow> (oauth_error + 'o) \<times> 'st \<times> 'w)" where
  "WithRefresh call refresh store identity provider =
     (case (call, refresh, store) of
        (Some c, Some r, Some S) \<Rightarrow> Inr (refreshing_call c r S identity provider)
      | _ \<Rightarrow> Inl ''oauth: WithRefresh: nil dependency'')"

section \<open>The current session\<close>

text \<open>The two tests of expiry read the clock one after the other; the second is skipped after a hit.\<close>

definition needs_refresh :: "('w \<Rightarrow> int \<times> 'w) \<Rightarrow> TokenPair \<Rightarrow> int \<Rightarrow> 'w \<Rightarrow> bool \<times> 'w" where
  "needs_refresh tick tokens leeway w =
     (if ExpiresAt tokens = None then (False, w)
      else (case tick w of
              (now, w1) \<Rightarrow>
                if IsExpired tokens now then (True, w1)
                else (case tick w1 of (now', w2) \<Rightarrow> (IsExpiringWithin tokens leeway now', w2))))"

definition CurrentSession :: "('w \<Rightarrow> int \<times> 'w) \<Rightarrow> ('st, 'w) TokenStore \<Rightarrow> (TokenPair, TokenPair, 'w) oarrow option \<Rightarrow>
    Identity \<Rightarrow> string \<Rightarrow> int \<Rightarrow> 'st \<times> 'w \<Rightarrow> (oauth_error + Session) \<times> 'st \<times> 'w" where
  "CurrentSession tick S refresh identity provider leeway s =
     (case ts_get S identity provider s of
        Inl e \<Rightarrow> (Inl (Wrapped ''oauth: CurrentSession: load tokens'' e), s)
      | Inr tokens \<Rightarrow>
          (case needs_refresh tick tokens leeway (snd s) of
             (False, w1) \<Rightarrow>
               (case tick w1 of (now, w2) \<Rightarrow> (Inr (session_of identity tokens now), (fst s, w2)))
           | (True, w1) \<Rightarrow>
               (case refresh of
                  None \<Rightarrow> (Inl (Failure ''oauth: CurrentSession: token expired and no refresh arrow provided''), (fst s, w1))
                | Some r \<Rightarrow>
                    (case r tokens w1 of
                       (Inl re, w2) \<Rightarrow> (Inl (Wrapped ''oauth: CurrentSession: refresh'' re), (fst s, w2))
                     | (Inr fresh, w2) \<Rightarrow>
                         (case ts_put S identity provider fresh (fst s, w2) of
                            (Some pe, s3) \<Rightarrow> (Inl (Wrapped ''oauth: CurrentSession: store refreshed tokens'' pe), s3)
                          | (None, (st3, w3)) \<Rightarrow>
                              (case tick w3 of (now, w4) \<Rightarrow> (Inr (session_of identity fresh now), (st3, w4))))))))"


section \<open>The protocol of a call that refreshes its token\<close>

text \<open>
  What a call does, step by step: an action of its own (a call of the API, say), a call of the refresh arrow or
  a write of the store, each with what it returned. \<open>performs\<close> leads from the state before the steps to the
  state after them, with one step of the world for each entry of the list and nothing in between.
\<close>

datatype 'a token_step =
    OwnStep 'a
  | RefreshStep TokenPair "oauth_error + TokenPair"
  | StoreStep TokenPair "oauth_error option"

inductive performs :: "('a \<Rightarrow> 'w \<Rightarrow> 'w \<Rightarrow> bool) \<Rightarrow> (TokenPair, TokenPair, 'w) oarrow \<Rightarrow> ('st, 'w) TokenStore \<Rightarrow> Identity \<Rightarrow>
    string \<Rightarrow> 'a token_step list \<Rightarrow> 'st \<times> 'w \<Rightarrow> 'st \<times> 'w \<Rightarrow> bool"
  for own :: "'a \<Rightarrow> 'w \<Rightarrow> 'w \<Rightarrow> bool" and refresh :: "(TokenPair, TokenPair, 'w) oarrow" and S :: "('st, 'w) TokenStore"
    and i :: Identity and p :: string where
  performs_none: "performs own refresh S i p [] s s"
| performs_own: "own a w w1 \<Longrightarrow> performs own refresh S i p steps (st, w1) s' \<Longrightarrow>
    performs own refresh S i p (OwnStep a # steps) (st, w) s'"
| performs_refresh: "refresh t w = (z, w1) \<Longrightarrow> performs own refresh S i p steps (st, w1) s' \<Longrightarrow>
    performs own refresh S i p (RefreshStep t z # steps) (st, w) s'"
| performs_store: "ts_put S i p t s = (z, s1) \<Longrightarrow> performs own refresh S i p steps s1 s' \<Longrightarrow>
    performs own refresh S i p (StoreStep t z # steps) s s'"

text \<open>
  The steps allowed to a call that starts with the token \<open>tok\<close>, the result they end in and the token that has been
  stored. \<open>attempt t steps z\<close> is one attempt with the token \<open>t\<close>, whose result is \<open>z\<close>.
\<close>

inductive refresh_protocol :: "(TokenPair \<Rightarrow> 'a token_step list \<Rightarrow> oauth_error + 'o \<Rightarrow> bool) \<Rightarrow> TokenPair \<Rightarrow>
    'a token_step list \<Rightarrow> oauth_error + 'o \<Rightarrow> TokenPair option \<Rightarrow> bool"
  for attempt :: "TokenPair \<Rightarrow> 'a token_step list \<Rightarrow> oauth_error + 'o \<Rightarrow> bool" and tok :: TokenPair where
  accepted: "attempt tok steps (Inr out) \<Longrightarrow> refresh_protocol attempt tok steps (Inr out) None"
| other_error: "attempt tok steps (Inl e) \<Longrightarrow> \<not> error_as_authentication e \<Longrightarrow>
    refresh_protocol attempt tok steps (Inl e) None"
| refresh_fails: "attempt tok steps (Inl e) \<Longrightarrow> error_as_authentication e \<Longrightarrow>
    refresh_protocol attempt tok (steps @ [RefreshStep tok (Inl e')])
      (Inl (Wrapped ''oauth: WithRefresh: refresh'' e')) None"
| store_fails: "attempt tok steps (Inl e) \<Longrightarrow> error_as_authentication e \<Longrightarrow>
    refresh_protocol attempt tok (steps @ [RefreshStep tok (Inr fresh), StoreStep fresh (Some e')])
      (Inl (Wrapped ''oauth: WithRefresh: store refreshed tokens'' e')) None"
| retry_fails: "attempt tok steps (Inl e) \<Longrightarrow> error_as_authentication e \<Longrightarrow> attempt fresh steps' (Inl e') \<Longrightarrow>
    refresh_protocol attempt tok (steps @ RefreshStep tok (Inr fresh) # StoreStep fresh None # steps')
      (Inl (Wrapped ''oauth: WithRefresh: retry after refresh'' e')) (Some fresh)"
| retry_accepted: "attempt tok steps (Inl e) \<Longrightarrow> error_as_authentication e \<Longrightarrow> attempt fresh steps' (Inr out) \<Longrightarrow>
    refresh_protocol attempt tok (steps @ RefreshStep tok (Inr fresh) # StoreStep fresh None # steps') (Inr out) (Some fresh)"

text \<open>What a map of tokens is after the protocol.\<close>

definition stored_after :: "Identity \<Rightarrow> string \<Rightarrow> TokenPair option \<Rightarrow> (storeKey \<Rightarrow> TokenPair option) \<Rightarrow> storeKey \<Rightarrow> TokenPair option" where
  "stored_after i p fresh m = (case fresh of None \<Rightarrow> m | Some t \<Rightarrow> m((Canonical i, p) \<mapsto> t))"

lemmas performs_intros = performs_none performs_own performs_refresh performs_store

inductive_cases performs_noneE: "performs own refresh S i p [] s s'"
inductive_cases performs_ownE: "performs own refresh S i p (OwnStep a # steps) s s'"
inductive_cases performs_refreshE: "performs own refresh S i p (RefreshStep t z # steps) s s'"
inductive_cases performs_storeE: "performs own refresh S i p (StoreStep t z # steps) s s'"
inductive_cases refresh_protocol_InrE: "refresh_protocol attempt tok steps (Inr out) fresh"

lemma performs_append:
  "performs own refresh S i p steps s s1 \<Longrightarrow> performs own refresh S i p steps' s1 s' \<Longrightarrow>
     performs own refresh S i p (steps @ steps') s s'"
  by (induction rule: performs.induct) (auto intro: performs_intros)

section \<open>Lemmas over any store that keeps the contract\<close>

context token_store
begin

text \<open>What follows a call that the API refused with the token \<open>tok\<close>.\<close>

lemma refreshing_call_refused:
  assumes run: "refreshing_call call refresh \<lparr>ts_get = get, ts_put = put, ts_delete = delete\<rparr> i p inp (st, w) = (r, (st', w'))"
    and m: "holds st m" and tok: "get i p (st, w) = Inr tok"
    and refused: "call inp tok w = (Inl e, w1)" "error_as_authentication e"
    and steps: "attempt tok steps (Inl e)"
    and attempt: "\<And>t w z w1 st. call inp t w = (z, w1) \<Longrightarrow> \<exists>steps. attempt t steps z \<and>
      performs own refresh \<lparr>ts_get = get, ts_put = put, ts_delete = delete\<rparr> i p steps (st, w) (st, w1)"
  shows "\<exists>steps' fresh. refresh_protocol attempt tok (steps @ steps') r fresh \<and>
    performs own refresh \<lparr>ts_get = get, ts_put = put, ts_delete = delete\<rparr> i p steps' (st, w1) (st', w') \<and>
    holds st' (stored_after i p fresh m)"
proof -
  let ?S = "\<lparr>ts_get = get, ts_put = put, ts_delete = delete\<rparr>"
  let ?does = "performs own refresh ?S i p"
  note call_def = refreshing_call_def tok refused
  obtain y w2 where y: "refresh tok w1 = (y, w2)" by fastforce
  show ?thesis
  proof (cases y)
    case re: (Inl re)
    then have "r = Inl (Wrapped ''oauth: WithRefresh: refresh'' re)" "st' = st" "w' = w2"
      using run y by (simp_all add: call_def)
    with performs_refresh [of refresh, OF y performs_none, of own ?S i p st] m re
      refresh_fails [where attempt = attempt, OF steps refused(2), of re]
    show ?thesis by (intro exI [of _ "[RefreshStep tok y]"] exI [of _ None]) (simp add: stored_after_def)
  next
    case fresh: (Inr fresh)
    obtain pe st3 w3 where put: "put i p fresh (st, w2) = (pe, (st3, w3))" by (metis prod.exhaust)
    have stored: "ts_put ?S i p fresh (st, w2) = (pe, (st3, w3))" using put by simp
    have does: "?does steps' (st3, w3) s' \<Longrightarrow> ?does (RefreshStep tok (Inr fresh) # StoreStep fresh pe # steps') (st, w1) s'"
      for steps' s' using performs_refresh [of refresh, OF y performs_store [of ?S, OF stored]] unfolding fresh .
    show ?thesis
    proof (cases pe)
      case pe: (Some e')
      then have "r = Inl (Wrapped ''oauth: WithRefresh: store refreshed tokens'' e')" "st' = st3" "w' = w3"
        using run y fresh put by (simp_all add: call_def)
      with does [OF performs_none] store_fails [where attempt = attempt, OF steps refused(2), of fresh e'] pe
        holds_put_err [OF m put [unfolded pe]] show ?thesis
        by (intro exI [of _ "[RefreshStep tok (Inr fresh), StoreStep fresh pe]"] exI [of _ None]) (simp add: stored_after_def)
    next
      case None
      obtain z w4 where z: "call inp fresh w3 = (z, w4)" by fastforce
      obtain again where again: "attempt fresh again z" "?does again (st3, w3) (st3, w4)" using attempt [OF z] by blast
      have last: "st' = st3" "w' = w4" "r = (case z of Inr out \<Rightarrow> Inr out
          | Inl e' \<Rightarrow> Inl (Wrapped ''oauth: WithRefresh: retry after refresh'' e'))"
        using run y fresh put None z by (auto simp: call_def split: sum.splits)
      have "refresh_protocol attempt tok (steps @ RefreshStep tok (Inr fresh) # StoreStep fresh pe # again) r (Some fresh)"
        using again(1) by (cases z) (auto simp: last(3) None intro: retry_fails [where attempt = attempt, OF steps refused(2)]
          retry_accepted [where attempt = attempt, OF steps refused(2)])
      with does [OF again(2)] holds_put_ok [OF m put [unfolded None]] last(1,2) show ?thesis
        by (intro exI [of _ "RefreshStep tok (Inr fresh) # StoreStep fresh pe # again"] exI [of _ "Some fresh"])
          (simp add: stored_after_def)
    qed
  qed
qed

lemma refreshing_call_steps:
  assumes run: "refreshing_call call refresh \<lparr>ts_get = get, ts_put = put, ts_delete = delete\<rparr> i p inp (st, w) = (r, (st', w'))"
    and m: "holds st m" "alive w"
    and attempt: "\<And>t w z w1 st. call inp t w = (z, w1) \<Longrightarrow> \<exists>steps. attempt t steps z \<and>
      performs own refresh \<lparr>ts_get = get, ts_put = put, ts_delete = delete\<rparr> i p steps (st, w) (st, w1)"
  shows "case m (Canonical i, p) of
      None \<Rightarrow> r = Inl (Wrapped ''oauth: WithRefresh: load tokens'' TokenNotFound) \<and> st' = st \<and> w' = w
    | Some t \<Rightarrow> (case reread t of
          Inl e \<Rightarrow> r = Inl (Wrapped ''oauth: WithRefresh: load tokens'' e) \<and> st' = st \<and> w' = w
        | Inr tok \<Rightarrow> \<exists>steps fresh. refresh_protocol attempt tok steps r fresh \<and>
            performs own refresh \<lparr>ts_get = get, ts_put = put, ts_delete = delete\<rparr> i p steps (st, w) (st', w') \<and>
            holds st' (stored_after i p fresh m))"
proof (cases "get i p (st, w)")
  case (Inl e)
  then have "r = Inl (Wrapped ''oauth: WithRefresh: load tokens'' e) \<and> st' = st \<and> w' = w"
    using run by (simp add: refreshing_call_def)
  with Inl holds_get [OF m, of i p] show ?thesis by (auto split: option.splits)
next
  case (Inr tok)
  let ?does = "performs own refresh \<lparr>ts_get = get, ts_put = put, ts_delete = delete\<rparr> i p"
  obtain z w1 where z: "call inp tok w = (z, w1)" by fastforce
  obtain steps where steps: "attempt tok steps z" "?does steps (st, w) (st, w1)" using attempt [OF z] by blast
  have "\<exists>steps fresh. refresh_protocol attempt tok steps r fresh \<and> ?does steps (st, w) (st', w') \<and>
    holds st' (stored_after i p fresh m)"
  proof (cases "\<exists>e. z = Inl e \<and> error_as_authentication e")
    case True
    then obtain e where e: "z = Inl e" "error_as_authentication e" by blast
    from refreshing_call_refused [where attempt = attempt, OF run m(1) Inr z [unfolded e(1)] e(2) steps(1) [unfolded e(1)] attempt]
    show ?thesis using performs_append [OF steps(2)] by blast
  next
    case False
    then have "r = z" "st' = st" "w' = w1"
      using run z by (auto simp: refreshing_call_def Inr split: sum.splits)
    moreover have "refresh_protocol attempt tok steps z None"
      using steps(1) False by (cases z) (auto intro: accepted other_error)
    ultimately show ?thesis using steps(2) m(1) by (intro exI [of _ steps] exI [of _ None]) (simp add: stored_after_def)
  qed
  with Inr holds_get [OF m, of i p] show ?thesis by (auto split: option.splits)
qed

lemma CurrentSession_Inr:
  assumes "CurrentSession tick \<lparr>ts_get = get, ts_put = put, ts_delete = delete\<rparr> refresh i p leeway (st, w) = (Inr ses, (st', w'))"
    "holds st m" "alive w"
  shows "SessionIdentity ses = i \<and> SessionExpiresAt ses = ExpiresAt (SessionToken ses) \<and>
    (\<exists>t tok w1. m (Canonical i, p) = Some t \<and> reread t = Inr tok \<and>
      (needs_refresh tick tok leeway w = (False, w1) \<and> SessionToken ses = tok \<and> st' = st \<or>
       needs_refresh tick tok leeway w = (True, w1) \<and>
       (\<exists>r w2. refresh = Some r \<and> r tok w1 = (Inr (SessionToken ses), w2)) \<and>
       holds st' (m((Canonical i, p) \<mapsto> SessionToken ses))))"
proof -
  obtain tok where tok: "get i p (st, w) = Inr tok"
    using assms(1) by (auto simp: CurrentSession_def split: sum.splits)
  then obtain t where t: "m (Canonical i, p) = Some t" "reread t = Inr tok"
    using holds_get [OF assms(2,3), of i p] by (auto split: option.splits)
  obtain b w1 where b: "needs_refresh tick tok leeway w = (b, w1)" by fastforce
  have "SessionIdentity ses = i \<and> SessionExpiresAt ses = ExpiresAt (SessionToken ses)"
    using assms(1) tok
    by (auto simp: CurrentSession_def session_of_def split: sum.splits prod.splits bool.splits option.splits)
  moreover have "b = False \<and> SessionToken ses = tok \<and> st' = st \<or>
      b = True \<and> (\<exists>r w2 w3. refresh = Some r \<and> r tok w1 = (Inr (SessionToken ses), w2) \<and>
        put i p (SessionToken ses) (st, w2) = (None, (st', w3)))"
    using assms(1) tok b
    by (cases b) (auto simp: CurrentSession_def session_of_def split: sum.splits prod.splits option.splits)
  ultimately show ?thesis using t b by (blast intro: holds_put_ok [OF assms(2)])
qed

lemma NewFlow_Returns:
  assumes "NewFlow tick p (Some \<lparr>ts_get = get, ts_put = put, ts_delete = delete\<rparr>) inp (st, w) = (Returns ses, (st', w'))"
    "holds st m"
  shows "\<exists>ex wh w1 w2. Exchange p = Some ex \<and> Whoami p = Some wh \<and>
    ex (exchange_request inp) w = (Inr (SessionToken ses), w1) \<and> wh (SessionToken ses) w1 = (Inr (SessionIdentity ses), w2) \<and>
    SessionExpiresAt ses = ExpiresAt (SessionToken ses) \<and>
    holds st' (m((Canonical (SessionIdentity ses), ProviderName p) \<mapsto> SessionToken ses))"
proof -
  obtain ex where ex: "Exchange p = Some ex" using assms(1) by (auto simp: NewFlow_def split: option.splits)
  obtain tokens w1 where e: "ex (exchange_request inp) w = (Inr tokens, w1)"
    using assms(1) ex by (auto simp: NewFlow_def split: prod.splits sum.splits)
  obtain wh where wh: "Whoami p = Some wh" using assms(1) ex e by (auto simp: NewFlow_def split: option.splits)
  obtain i w2 where i: "wh tokens w1 = (Inr i, w2)"
    using assms(1) ex e wh by (auto simp: NewFlow_def split: prod.splits sum.splits)
  obtain st3 w3 where put: "put i (ProviderName p) tokens (st, w2) = (None, (st3, w3))"
    using assms(1) ex e wh i by (auto simp: NewFlow_def split: prod.splits option.splits)
  have ses: "SessionToken ses = tokens" "SessionIdentity ses = i" "SessionExpiresAt ses = ExpiresAt tokens" "st' = st3"
    using assms(1) ex e wh i put by (auto simp: NewFlow_def session_of_def split: prod.splits)
  from holds_put_ok [OF assms(2) put] ses show ?thesis by (simp add: ex wh e i)
qed

end


section \<open>The store in memory\<close>

text \<open>The store holds a map of tokens, as every sequence of writes to an empty one leaves it.\<close>

definition store_holds :: "'w store_env \<Rightarrow> MemoryTokenStore \<Rightarrow> (storeKey \<Rightarrow> TokenPair option) \<Rightarrow> bool" where
  "store_holds E st m \<longleftrightarrow> (\<forall>j q w. se_ctx_err E w = None \<longrightarrow> memory_get E j q (st, w) =
     (case m (Canonical j, q) of None \<Rightarrow> Inl TokenNotFound | Some t \<Rightarrow> reread_of E t))"

lemma store_holds_empty: "store_holds E [] (\<lambda>_. None)"
  by (simp add: store_holds_def memory_get_def)

context sealed_store
begin

lemma holds_eq: "holds = store_holds E"
  by (auto simp: fun_eq_iff holds_def store_holds_def)

lemmas memory_refreshing_call_steps =
  refreshing_call_steps [folded memory_token_store_def, unfolded holds_eq]

lemmas memory_CurrentSession_Inr =
  CurrentSession_Inr [folded memory_token_store_def, unfolded holds_eq]

lemmas memory_NewFlow_Returns =
  NewFlow_Returns [folded memory_token_store_def, unfolded holds_eq]

lemmas memory_holds_run = holds_run [unfolded holds_eq]

end

section \<open>Properties\<close>

text \<open>
  A request carries two fresh random values of 43 unreserved characters, which is in the range that
  PKCE asks of a verifier and travels in a URL as it is; equal values come from equal random bytes.
\<close>

theorem NewAuthRequest_values:
  assumes "rand_ok rand"
    and "NewAuthRequest rand sha256 provider uri scopes w = (Inr req, w')"
  shows "length (ReqState req) = 43 \<and> length (ReqCodeVerifier req) = 43 \<and>
    QueryEscape (ReqState req) = ReqState req \<and> QueryEscape (ReqCodeVerifier req) = ReqCodeVerifier req \<and>
    ReqCodeChallenge req = base64url (sha256 (ReqCodeVerifier req)) \<and>
    (\<exists>a b w1. rand 32 w = (Inr a, w1) \<and> rand 32 w1 = (Inr b, w') \<and>
       ReqState req = base64url a \<and> ReqCodeVerifier req = base64url b \<and>
       (ReqState req = ReqCodeVerifier req \<longleftrightarrow> a = b))"
proof -
  obtain a b w1 where ab: "rand 32 w = (Inr a, w1)" "rand 32 w1 = (Inr b, w')"
      "ReqState req = base64url a" "ReqCodeVerifier req = base64url b"
      "ReqCodeChallenge req = base64url (sha256 (base64url b))"
    using assms(2) by (auto simp: NewAuthRequest_def randomBase64URL_def pkceS256Challenge_def
      split: prod.splits sum.splits)
  have len: "length a = 32" "length b = 32" using rand_okD [OF assms(1)] ab(1,2) by blast+
  have "QueryEscape (base64url x) = base64url x" for x
    by (rule QueryEscape_unreserved, rule ballI, rule base64url_unreserved)
  moreover have "base64url a = base64url b \<longleftrightarrow> a = b" by (blast dest: base64url_inj)
  ultimately show ?thesis unfolding ab(3-5) using ab(1,2) len
    by (intro conjI exI [of _ a] exI [of _ b] exI [of _ w1]) (simp_all add: length_base64url)
qed

lemma demo_request:
  "case NewAuthRequest demo_rand (\<lambda>x. x) ''okta'' ''http://cb'' [''openid''] 65 of
     (Inr req, w) \<Rightarrow> w = 67 | _ \<Rightarrow> False"
  by (simp add: NewAuthRequest_def randomBase64URL_def demo_rand_def)

theorem NewAuthRequest_values_witness:
  "\<exists>req. NewAuthRequest demo_rand (\<lambda>x. x) ''okta'' ''http://cb'' [''openid''] 65 = (Inr req, 67) \<and>
     length (ReqCodeVerifier req) = 43"
proof -
  obtain req where run: "NewAuthRequest demo_rand (\<lambda>x. x) ''okta'' ''http://cb'' [''openid''] 65 = (Inr req, 67)"
    using demo_request by (auto split: prod.splits sum.splits)
  have "rand_ok demo_rand" by (simp add: rand_ok_def demo_rand_def)
  from NewAuthRequest_values [OF this run] run show ?thesis by blast
qed

text \<open>
  A flow returns a session only after one exchange of the code with its verifier and redirect
  address and one identification by the tokens it gave; the session holds exactly those tokens and
  that identity, and from then on the store gives those tokens for that identity and provider, and
  what it gave before for any other.
\<close>

theorem NewFlow_session:
  assumes "aead_ok a rand" "se_cipher E = AESGCMCipher a rand" "store_holds E st m"
    and "NewFlow tick p (Some (memory_token_store E)) inp (st, w) = (Returns ses, (st', w'))"
  shows "(\<exists>exchange whoami w1 w2. Exchange p = Some exchange \<and> Whoami p = Some whoami \<and>
      exchange \<lparr>ExCode = FlowCode inp, ExCodeVerifier = FlowCodeVerifier inp, ExRedirectURI = FlowRedirectURI inp\<rparr> w =
        (Inr (SessionToken ses), w1) \<and>
      whoami (SessionToken ses) w1 = (Inr (SessionIdentity ses), w2)) \<and>
    SessionExpiresAt ses = ExpiresAt (SessionToken ses) \<and>
    store_holds E st' (m((Canonical (SessionIdentity ses), ProviderName p) \<mapsto> SessionToken ses))"
  using sealed_store.memory_NewFlow_Returns [OF aesgcm_sealed [OF assms(1,2)] assms(4,3)]
  by (auto simp: exchange_request_def)

text \<open>A provider whose tokens name the code, and a clock that is the counter of the world.\<close>

definition demo_provider :: "nat Provider" where
  "demo_provider = \<lparr>ProviderName = ''okta'', Authorize = Some (\<lambda>r w. (Inr \<lparr>RedirectURL = ''http://idp'',
       RedirectState = ReqState r, RedirectVerifier = ReqCodeVerifier r\<rparr>, w)),
     Exchange = Some (\<lambda>r w. (Inr (demo_token (CodeValue (ExCode r))), w + 1)),
     Refresh = Some (\<lambda>t w. (Inr (demo_token (AccessToken t @ ''+'')), w + 1)),
     Whoami = Some (\<lambda>t w. (Inr (demo_identity ''okta:1''), w + 1)), Revoke = None\<rparr>"

definition demo_tick :: "nat \<Rightarrow> int \<times> nat" where
  "demo_tick w = (int w, w + 1)"

definition demo_flow :: "Session flow_result \<times> MemoryTokenStore \<times> nat" where
  "demo_flow = NewFlow demo_tick demo_provider (Some (memory_token_store demo_store_env))
     \<lparr>FlowCode = \<lparr>CodeValue = ''c1'', CodeState = ''s''\<rparr>, FlowCodeVerifier = ''v'', FlowRedirectURI = ''u''\<rparr> ([], 0)"

lemma demo_flow_returns:
  "case demo_flow of (Returns ses, (st, w)) \<Rightarrow> SessionToken ses = demo_token ''c1'' | _ \<Rightarrow> False"
  by code_simp

lemma demo_cipher: "se_cipher demo_store_env = AESGCMCipher demo_aead demo_rand"
  by (simp add: demo_store_env_def)

lemma demo_flow_holds:
  assumes "demo_flow = (Returns ses, (st, w))"
  shows "store_holds demo_store_env st ((\<lambda>_. None)((Canonical (SessionIdentity ses), ''okta'') \<mapsto> SessionToken ses))"
proof -
  have "ProviderName demo_provider = ''okta''" by (simp add: demo_provider_def)
  with sealed_store.memory_NewFlow_Returns [OF aesgcm_sealed [OF demo_aead_ok demo_cipher]
      assms [unfolded demo_flow_def] store_holds_empty]
  show ?thesis by auto
qed

theorem NewFlow_session_witness:
  "\<exists>ses st w. demo_flow = (Returns ses, (st, w)) \<and>
     store_holds demo_store_env st ((\<lambda>_. None)((Canonical (SessionIdentity ses), ''okta'') \<mapsto> SessionToken ses))"
proof -
  obtain ses st w where run: "demo_flow = (Returns ses, (st, w))"
    using demo_flow_returns by (auto split: prod.splits flow_result.splits)
  have "ProviderName demo_provider = ''okta''" by (simp add: demo_provider_def)
  with run show ?thesis
    using NewFlow_session [OF demo_aead_ok demo_cipher store_holds_empty run [unfolded demo_flow_def]] by auto
qed

text \<open>
  C16: a call with refresh loads the stored token and calls with it; that call's result is the result, unless
  it is an authentication error. Only then the token is refreshed, once, the refreshed token is stored,
  once, and the call is made once more with it; a failure of any of these three is the result, so there
  is no second retry. Nothing else happens, in the world or in the store: the state after it is what these steps
  make of the state before. The store holds the refreshed token afterwards exactly when it was stored,
  and otherwise what it held. With no readable token nothing is called.
\<close>

theorem WithRefresh_correct:
  assumes "aead_ok a rand" "se_cipher E = AESGCMCipher a rand" "store_holds E st m" "se_ctx_err E w = None"
    and "WithRefresh (Some call) (Some refresh) (Some (memory_token_store E)) i p = Inr arrow"
    and "arrow inp (st, w) = (r, (st', w'))"
  shows "case m (Canonical i, p) of
      None \<Rightarrow> r = Inl (Wrapped ''oauth: WithRefresh: load tokens'' TokenNotFound) \<and> st' = st \<and> w' = w
    | Some t \<Rightarrow> (case reread_of E t of
          Inl e \<Rightarrow> r = Inl (Wrapped ''oauth: WithRefresh: load tokens'' e) \<and> st' = st \<and> w' = w
        | Inr tok \<Rightarrow> \<exists>steps fresh. refresh_protocol (\<lambda>t steps z. steps = [OwnStep (t, z)]) tok steps r fresh \<and>
            performs (\<lambda>(t, z) w w1. call inp t w = (z, w1)) refresh (memory_token_store E) i p steps (st, w) (st', w') \<and>
            store_holds E st' (stored_after i p fresh m))"
proof -
  note S = aesgcm_sealed [OF assms(1,2)]
  have run: "refreshing_call call refresh (memory_token_store E) i p inp (st, w) = (r, (st', w'))"
    using assms(5,6) by (auto simp: WithRefresh_def)
  have attempt: "\<exists>steps. steps = [OwnStep (t, z)] \<and>
      performs (\<lambda>(t, z) w w1. call inp t w = (z, w1)) refresh (memory_token_store E) i p steps (st, w) (st, w1)"
    if "call inp t w = (z, w1)" for t w z w1 st
    by (rule exI [of _ "[OwnStep (t, z)]"]) (use that in \<open>auto intro: performs_own performs_none\<close>)
  show ?thesis
    by (rule sealed_store.memory_refreshing_call_steps [OF S run assms(3,4)]) (rule attempt)
qed

text \<open>An API that accepts only the refreshed token.\<close>

definition demo_call :: "(string, string, nat) TokenCall" where
  "demo_call q t w = (if AccessToken t = ''c1+'' then Inr (q @ '' ok'') else Inl (AuthenticationError 401 None), w + 1)"

definition demo_refresh :: "(TokenPair, TokenPair, nat) oarrow" where
  "demo_refresh t w = (Inr (demo_token (AccessToken t @ ''+'')), w + 1)"

definition demo_refreshed :: "MemoryTokenStore \<Rightarrow> nat \<Rightarrow> (oauth_error + string) \<times> MemoryTokenStore \<times> nat" where
  "demo_refreshed st w = refreshing_call demo_call demo_refresh (memory_token_store demo_store_env)
     (demo_identity ''okta:1'') ''okta'' ''q'' (st, w)"

text \<open>The store that the flow of the example leaves.\<close>

definition demo_full_store :: MemoryTokenStore where
  "demo_full_store = fst (snd demo_flow)"

definition demo_full_map :: "storeKey \<Rightarrow> TokenPair option" where
  "demo_full_map = (\<lambda>_. None)((''okta:1'', ''okta'') \<mapsto> demo_token ''c1'')"

lemma demo_full_store_holds: "store_holds demo_store_env demo_full_store demo_full_map"
proof -
  obtain ses st w where flow: "demo_flow = (Returns ses, (st, w))" "SessionToken ses = demo_token ''c1''"
    using demo_flow_returns by (auto split: prod.splits flow_result.splits)
  have "case demo_flow of (Returns ses, _) \<Rightarrow> Canonical (SessionIdentity ses) = ''okta:1'' | _ \<Rightarrow> False" by code_simp
  with demo_flow_holds [OF flow(1)] flow(2) show ?thesis
    by (simp add: flow(1) demo_full_store_def demo_full_map_def)
qed

lemma demo_full_reread: "reread_of demo_store_env (demo_token c) = Inr (demo_token c)"
  by (simp add: reread_of_def demo_store_env_def demo_token_def)

lemma demo_refreshed_run: "fst (demo_refreshed demo_full_store 4) = Inr ''q ok''"
  by code_simp

theorem WithRefresh_correct_witness:
  "\<exists>st' w' e fresh. demo_refreshed demo_full_store 4 = (Inr ''q ok'', (st', w')) \<and> AccessToken fresh = ''c1+'' \<and>
     performs (\<lambda>(t, z) w w1. demo_call ''q'' t w = (z, w1)) demo_refresh (memory_token_store demo_store_env)
       (demo_identity ''okta:1'') ''okta'' [OwnStep (demo_token ''c1'', Inl e), RefreshStep (demo_token ''c1'') (Inr fresh),
          StoreStep fresh None, OwnStep (fresh, Inr ''q ok'')] (demo_full_store, 4) (st', w') \<and>
     store_holds demo_store_env st' (demo_full_map((''okta:1'', ''okta'') \<mapsto> fresh))"
proof -
  obtain st' w' where run: "demo_refreshed demo_full_store 4 = (Inr ''q ok'', (st', w'))"
    using demo_refreshed_run by (metis prod.collapse)
  have id: "Canonical (demo_identity ''okta:1'') = ''okta:1''" by (simp add: demo_identity_def)
  let ?tok = "demo_token ''c1''"
  let ?does = "performs (\<lambda>(t, z) w w1. demo_call ''q'' t w = (z, w1)) demo_refresh (memory_token_store demo_store_env)
    (demo_identity ''okta:1'') ''okta''"
  have alive: "se_ctx_err demo_store_env 4 = None" by (simp add: demo_store_env_def)
  have found: "demo_full_map (''okta:1'', ''okta'') = Some ?tok" by (simp add: demo_full_map_def)
  have arrow: "WithRefresh (Some demo_call) (Some demo_refresh) (Some (memory_token_store demo_store_env))
      (demo_identity ''okta:1'') ''okta'' =
    Inr (refreshing_call demo_call demo_refresh (memory_token_store demo_store_env) (demo_identity ''okta:1'') ''okta'')"
    by (simp add: WithRefresh_def)
  from WithRefresh_correct [where call = demo_call and refresh = demo_refresh, OF demo_aead_ok demo_cipher demo_full_store_holds
      alive arrow run [unfolded demo_refreshed_def]]
  obtain steps fresh where p: "refresh_protocol (\<lambda>t steps z. steps = [OwnStep (t, z)]) ?tok steps (Inr ''q ok'') fresh"
      "?does steps (demo_full_store, 4) (st', w')"
      "store_holds demo_store_env st' (stored_after (demo_identity ''okta:1'') ''okta'' fresh demo_full_map)"
    unfolding id found option.case demo_full_reread sum.case by (elim exE conjE) (rule that)
  have refused: "demo_call ''q'' ?tok v \<noteq> (Inr out, v')" for v out v'
    by (simp add: demo_call_def demo_token_def)
  from p(1) consider (accepted) "steps = [OwnStep (?tok, Inr ''q ok'')]"
    | (retried) e new where "fresh = Some new"
      "steps = [OwnStep (?tok, Inl e), RefreshStep ?tok (Inr new), StoreStep new None, OwnStep (new, Inr ''q ok'')]"
    by (rule refresh_protocol_InrE) auto
  then show ?thesis
  proof cases
    case accepted
    with p(2) have "?does [OwnStep (?tok, Inr ''q ok'')] (demo_full_store, 4) (st', w')" by simp
    then show ?thesis by (rule performs_ownE) (simp add: refused)
  next
    case (retried e new)
    with p(2) have d: "?does [OwnStep (?tok, Inl e), RefreshStep ?tok (Inr new), StoreStep new None,
        OwnStep (new, Inr ''q ok'')] (demo_full_store, 4) (st', w')" by simp
    then have "AccessToken new = ''c1+''"
      by (auto elim!: performs_ownE performs_refreshE performs_storeE simp: demo_call_def split: if_splits)
    with d run p(3) retried(1) show ?thesis
      by (intro exI [of _ st'] exI [of _ w'] exI [of _ e] exI [of _ new]) (simp add: stored_after_def id)
  qed
qed


lemma needs_refresh_False:
  "needs_refresh tick t leeway w = (False, w1) \<Longrightarrow>
     case ExpiresAt t of None \<Rightarrow> True
     | Some e \<Rightarrow> fst (tick w) \<le> e \<and> fst (tick (snd (tick w))) + leeway \<le> e"
  by (auto simp: needs_refresh_def IsExpired_def IsExpiringWithin_def split: prod.splits if_splits option.splits)

text \<open>
  C17: a current session holds either the stored token, which at the two readings of the clock had not
  expired and would not expire within the leeway (or never expires), or the result of refreshing the
  stored token, which is then the stored one.
\<close>

theorem CurrentSession_fresh:
  assumes "aead_ok a rand" "se_cipher E = AESGCMCipher a rand" "store_holds E st m" "se_ctx_err E w = None"
    and "CurrentSession tick (memory_token_store E) refresh i p leeway (st, w) = (Inr ses, (st', w'))"
  shows "SessionIdentity ses = i \<and> SessionExpiresAt ses = ExpiresAt (SessionToken ses) \<and>
    (\<exists>t tok. m (Canonical i, p) = Some t \<and> reread_of E t = Inr tok \<and>
      (SessionToken ses = tok \<and> st' = st \<and>
         (case ExpiresAt tok of None \<Rightarrow> True
          | Some e \<Rightarrow> fst (tick w) \<le> e \<and> fst (tick (snd (tick w))) + leeway \<le> e) \<or>
       (\<exists>r w1 w2. refresh = Some r \<and> r tok w1 = (Inr (SessionToken ses), w2)) \<and>
         store_holds E st' (m((Canonical i, p) \<mapsto> SessionToken ses))))"
proof -
  from sealed_store.memory_CurrentSession_Inr [OF aesgcm_sealed [OF assms(1,2)] assms(5,3,4)]
  obtain t tok w1 where s: "SessionIdentity ses = i" "SessionExpiresAt ses = ExpiresAt (SessionToken ses)"
    and t: "m (Canonical i, p) = Some t" "reread_of E t = Inr tok"
    and c: "needs_refresh tick tok leeway w = (False, w1) \<and> SessionToken ses = tok \<and> st' = st \<or>
       needs_refresh tick tok leeway w = (True, w1) \<and>
       (\<exists>r w2. refresh = Some r \<and> r tok w1 = (Inr (SessionToken ses), w2)) \<and>
       store_holds E st' (m((Canonical i, p) \<mapsto> SessionToken ses))" by blast
  from c show ?thesis
  proof (elim disjE conjE)
    assume n: "needs_refresh tick tok leeway w = (False, w1)" and "SessionToken ses = tok" "st' = st"
    with s t needs_refresh_False [OF n] show ?thesis by blast
  next
    assume "\<exists>r w2. refresh = Some r \<and> r tok w1 = (Inr (SessionToken ses), w2)"
      "store_holds E st' (m((Canonical i, p) \<mapsto> SessionToken ses))"
    with s t show ?thesis by blast
  qed
qed

lemma demo_current:
  "case demo_flow of (Returns ses, (st, w)) \<Rightarrow>
     Canonical (SessionIdentity ses) = ''okta:1'' \<and> w = 4 \<and>
     (case CurrentSession demo_tick (memory_token_store demo_store_env) (Some demo_refresh) (demo_identity ''okta:1'')
        ''okta'' 60 (st, w) of (Inr s, _) \<Rightarrow> AccessToken (SessionToken s) = ''c1'' | _ \<Rightarrow> False)
   | _ \<Rightarrow> False"
  by code_simp

theorem CurrentSession_fresh_witness:
  "\<exists>ses st s st' w'. demo_flow = (Returns ses, (st, 4)) \<and>
     CurrentSession demo_tick (memory_token_store demo_store_env) (Some demo_refresh) (demo_identity ''okta:1'')
       ''okta'' 60 (st, 4) = (Inr s, (st', w')) \<and> SessionIdentity s = demo_identity ''okta:1''"
proof -
  obtain ses st w where flow: "demo_flow = (Returns ses, (st, w))"
    using demo_flow_returns by (auto split: prod.splits flow_result.splits)
  obtain r st' w' where run: "CurrentSession demo_tick (memory_token_store demo_store_env) (Some demo_refresh)
      (demo_identity ''okta:1'') ''okta'' 60 (st, w) = (r, (st', w'))" by (metis prod.exhaust)
  obtain s where r: "r = Inr s" "w = 4" using demo_current run by (auto simp: flow split: sum.splits)
  note holds = demo_flow_holds [OF flow]
  have alive: "se_ctx_err demo_store_env w = None" using r(2) by (simp add: demo_store_env_def)
  from CurrentSession_fresh [OF demo_aead_ok demo_cipher holds alive run [unfolded r(1)]]
  have "SessionIdentity s = demo_identity ''okta:1''" by blast
  with flow run r show ?thesis by blast
qed

end
