(* ===== verification/OAuth_Workflow.thy ===== *)
theory OAuth_Workflow
  imports OAuth_Flow
begin

text \<open>
  Package auth/oauth, files \<^verbatim>\<open>workflow.go\<close>, \<^verbatim>\<open>activities.go\<close>, \<^verbatim>\<open>start.go\<close> and \<^verbatim>\<open>callback.go\<close>: the durable
  workflow that waits for the user's consent, its activities, the start of a flow, and the handler of
  the provider's redirect, which finds the waiting workflow by the request's state.

  Temporal is a parameter: running an activity to its end, waiting for a signal or a timer, starting a
  workflow and signalling one.
\<close>

section \<open>The workflow\<close>

record OAuthFlowInput =
  FlowProvider :: string
  FlowState :: string
  FlowVerifier :: string
  FlowRedirect :: string
  FlowStoreKey :: string
  CallbackTimeout :: int

record OAuthFlowStatus =
  Stage :: string
  AuthURL :: string
  StartedAt :: int
  StatusError :: string

record ExchangeActivityInput =
  EAProvider :: string
  EACode :: AuthCode
  EACodeVerifier :: string
  EARedirectURI :: string

record WhoamiActivityInput =
  WAProvider :: string
  WATokens :: TokenPair

record StoreTokensActivityInput =
  SAStoreKey :: string
  SAIdentity :: Identity
  SAProvider :: string
  SATokens :: TokenPair

text \<open>
  \<open>fe_select d\<close> waits until a callback signal arrives or a timer of \<open>d\<close> fires, whichever the selector
  takes; \<open>fe_text\<close> is the text of an error.
\<close>

record 's flow_env =
  fe_query_err :: "'s \<Rightarrow> oauth_error option"
  fe_now :: "'s \<Rightarrow> int"
  fe_select :: "int \<Rightarrow> 's \<Rightarrow> AuthCode option \<times> 's"
  fe_exchange :: "ExchangeActivityInput \<Rightarrow> 's \<Rightarrow> (oauth_error + TokenPair) \<times> 's"
  fe_whoami :: "WhoamiActivityInput \<Rightarrow> 's \<Rightarrow> (oauth_error + Identity) \<times> 's"
  fe_store :: "StoreTokensActivityInput \<Rightarrow> 's \<Rightarrow> oauth_error option \<times> 's"
  fe_text :: "oauth_error \<Rightarrow> string"

definition minute :: int where "minute = 60 * 1000000000"

definition callback_timeout :: "OAuthFlowInput \<Rightarrow> int" where
  "callback_timeout inp = (if CallbackTimeout inp \<le> 0 then 30 * minute else CallbackTimeout inp)"

definition input_missing :: "OAuthFlowInput \<Rightarrow> bool" where
  "input_missing inp \<longleftrightarrow> FlowProvider inp = [] \<or> FlowRedirect inp = [] \<or> FlowStoreKey inp = [] \<or>
     FlowState inp = [] \<or> FlowVerifier inp = []"

definition fail_status :: "OAuthFlowStatus \<Rightarrow> string \<Rightarrow> OAuthFlowStatus" where
  "fail_status status msg = status\<lparr>Stage := ''failed'', StatusError := msg\<rparr>"

text \<open>The steps after the state has been verified.\<close>

definition finish_flow :: "'s flow_env \<Rightarrow> OAuthFlowInput \<Rightarrow> AuthCode \<Rightarrow> OAuthFlowStatus \<Rightarrow> 's \<Rightarrow>
    (oauth_error + Session) \<times> OAuthFlowStatus \<times> 's" where
  "finish_flow env inp code status s =
     (case fe_exchange env \<lparr>EAProvider = FlowProvider inp, EACode = code, EACodeVerifier = FlowVerifier inp,
          EARedirectURI = FlowRedirect inp\<rparr> s of
        (Inl e, s1) \<Rightarrow> (Inl (Wrapped ''oauth: exchange'' e), fail_status status (''exchange: '' @ fe_text env e), s1)
      | (Inr tokens, s1) \<Rightarrow>
          (case fe_whoami env \<lparr>WAProvider = FlowProvider inp, WATokens = tokens\<rparr> s1 of
             (Inl e, s2) \<Rightarrow> (Inl (Wrapped ''oauth: whoami'' e), fail_status status (''whoami: '' @ fe_text env e), s2)
           | (Inr identity, s2) \<Rightarrow>
               (case fe_store env \<lparr>SAStoreKey = FlowStoreKey inp, SAIdentity = identity,
                    SAProvider = FlowProvider inp, SATokens = tokens\<rparr> s2 of
                  (Some e, s3) \<Rightarrow>
                    (Inl (Wrapped ''oauth: store tokens'' e), fail_status status (''store tokens: '' @ fe_text env e), s3)
                | (None, s3) \<Rightarrow>
                    (Inr (session_of identity tokens (fe_now env s3)), status\<lparr>Stage := ''completed''\<rparr>, s3))))"

definition OAuthFlowWorkflow :: "'s flow_env \<Rightarrow> OAuthFlowInput \<Rightarrow> 's \<Rightarrow>
    (oauth_error + Session) \<times> OAuthFlowStatus \<times> 's" where
  "OAuthFlowWorkflow env inp s =
     (let status = \<lparr>Stage = ''awaiting_callback'', AuthURL = [], StartedAt = fe_now env s, StatusError = []\<rparr>
      in case fe_query_err env s of
           Some e \<Rightarrow> (Inl (Wrapped ''oauth: set query handler'' e), status, s)
         | None \<Rightarrow>
             if input_missing inp then
               (Inl (Application ''InvalidInput'' ''OAuthFlowInput requires Provider, RedirectURI, StoreKey, State, CodeVerifier''),
                fail_status status ''missing required input'', s)
             else (case fe_select env (callback_timeout inp) s of
                     (None, s1) \<Rightarrow>
                       (Inl (Application ''CallbackTimeout'' ''oauth: callback timeout''),
                        fail_status status ''callback timeout'', s1)
                   | (Some code, s1) \<Rightarrow>
                       if CodeState code \<noteq> FlowState inp then
                         (Inl (Application ''CSRFViolation'' ''oauth: callback state does not match request state''),
                          fail_status status ''state mismatch'', s1)
                       else finish_flow env inp code (status\<lparr>Stage := ''exchanging''\<rparr>) s1))"

section \<open>The activities\<close>

type_synonym MemoryStateMapper = "(string, string) gomap"

definition NewMemoryStateMapper :: MemoryStateMapper where
  "NewMemoryStateMapper = []"

definition mapper_Put :: "string \<Rightarrow> string \<Rightarrow> MemoryStateMapper \<Rightarrow> oauth_error option \<times> MemoryStateMapper" where
  "mapper_Put state workflowID m =
     (if state = [] then (Some (Failure ''oauth: state must not be empty''), m) else (None, gm_set state workflowID m))"

definition mapper_Get :: "string \<Rightarrow> MemoryStateMapper \<Rightarrow> string option" where
  "mapper_Get state m = gm_get m state"

definition mapper_Delete :: "string \<Rightarrow> MemoryStateMapper \<Rightarrow> oauth_error option \<times> MemoryStateMapper" where
  "mapper_Delete state m = (None, gm_del state m)"

text \<open>The copy for tests, made entry by entry in the map's order \<open>\<rho>\<close>.\<close>

definition SnapshotForTests :: "(string list \<Rightarrow> string list) \<Rightarrow> MemoryStateMapper \<Rightarrow> (string, string) gomap" where
  "SnapshotForTests \<rho> m = fold (\<lambda>k out. gm_set k (the (gm_get m k)) out) (\<rho> (gm_keys m)) []"

lemma snapshot_fold:
  "set ks \<subseteq> set (gm_keys m) \<Longrightarrow>
    gm_get (fold (\<lambda>k out. gm_set k (the (gm_get m k)) out) ks out) k = (if k \<in> set ks then gm_get m k else gm_get out k)"
  by (induction ks arbitrary: out) (auto simp: gomap_simps dest: gm_key_get)

lemma SnapshotForTests_get:
  assumes "range_order \<rho>"
  shows "mapper_Get state (SnapshotForTests \<rho> m) = mapper_Get state m"
proof -
  have "set (\<rho> (gm_keys m)) = set (gm_keys m)" using range_order_mset [OF assms] by (rule mset_eq_setD)
  then show ?thesis
    unfolding mapper_Get_def SnapshotForTests_def
    by (simp add: snapshot_fold gm_get_None_iff) (metis gm_get_None_iff gm_get_def map_of.simps(1))
qed

text \<open>Whether an activity finds what the worker registered; a nil arrow panics in the activity.\<close>

record ('st, 'w) Activities =
  Providers :: "'w Registry"
  Stores :: "(string, ('st, 'w) TokenStore) gomap"

definition NewActivities :: "'w Registry option \<Rightarrow> (string, ('st, 'w) TokenStore) gomap option \<Rightarrow> ('st, 'w) Activities" where
  "NewActivities reg stores =
     \<lparr>Providers = (case reg of None \<Rightarrow> NewRegistry | Some r \<Rightarrow> r),
      Stores = (case stores of None \<Rightarrow> [] | Some s \<Rightarrow> s)\<rparr>"

definition run_arrow :: "('i, 'o, 'w) oarrow option \<Rightarrow> 'i \<Rightarrow> 'st \<times> 'w \<Rightarrow> (oauth_error + 'o) \<times> 'st \<times> 'w" where
  "run_arrow f inp s =
     (case f of None \<Rightarrow> (Inl (Failure ''panic: nil arrow''), s)
      | Some g \<Rightarrow> (case g inp (snd s) of (r, w) \<Rightarrow> (r, (fst s, w))))"

definition activity_Exchange :: "('st, 'w) Activities \<Rightarrow> ExchangeActivityInput \<Rightarrow> 'st \<times> 'w \<Rightarrow>
    (oauth_error + TokenPair) \<times> 'st \<times> 'w" where
  "activity_Exchange A inp s =
     (case registry_Get (Providers A) (EAProvider inp) of
        Inl e \<Rightarrow> (Inl (Application ''ConfigurationError'' (''provider '' @ quoted (EAProvider inp) @ '' not registered'')), s)
      | Inr p \<Rightarrow> run_arrow (Exchange p) \<lparr>ExCode = EACode inp, ExCodeVerifier = EACodeVerifier inp,
          ExRedirectURI = EARedirectURI inp\<rparr> s)"

definition activity_Whoami :: "('st, 'w) Activities \<Rightarrow> WhoamiActivityInput \<Rightarrow> 'st \<times> 'w \<Rightarrow>
    (oauth_error + Identity) \<times> 'st \<times> 'w" where
  "activity_Whoami A inp s =
     (case registry_Get (Providers A) (WAProvider inp) of
        Inl e \<Rightarrow> (Inl (Application ''ConfigurationError'' (''provider '' @ quoted (WAProvider inp) @ '' not registered'')), s)
      | Inr p \<Rightarrow> run_arrow (Whoami p) (WATokens inp) s)"

definition activity_StoreTokens :: "('st, 'w) Activities \<Rightarrow> StoreTokensActivityInput \<Rightarrow> 'st \<times> 'w \<Rightarrow>
    oauth_error option \<times> 'st \<times> 'w" where
  "activity_StoreTokens A inp s =
     (case gm_get (Stores A) (SAStoreKey inp) of
        None \<Rightarrow> (Some (Application ''ConfigurationError'' (''token store '' @ quoted (SAStoreKey inp) @ '' not registered'')), s)
      | Some S \<Rightarrow> ts_put S (SAIdentity inp) (SAProvider inp) (SATokens inp) s)"

text \<open>A worker that runs every activity once.\<close>

definition direct_env :: "('st, 'w) Activities \<Rightarrow> ('w \<Rightarrow> int) \<Rightarrow> (int \<Rightarrow> 'st \<times> 'w \<Rightarrow> AuthCode option \<times> 'st \<times> 'w) \<Rightarrow>
    (oauth_error \<Rightarrow> string) \<Rightarrow> ('st \<times> 'w) flow_env" where
  "direct_env A now sel text =
     \<lparr>fe_query_err = (\<lambda>s. None), fe_now = (\<lambda>s. now (snd s)), fe_select = sel, fe_exchange = activity_Exchange A,
      fe_whoami = activity_Whoami A, fe_store = activity_StoreTokens A, fe_text = text\<rparr>"

section \<open>Parsing a callback\<close>

definition ParseCallback :: "string \<Rightarrow> oauth_error + AuthCode" where
  "ParseCallback rawQuery =
     (case ParseQuery rawQuery of
        None \<Rightarrow> Inl (Failure ''oauth: parse callback query'')
      | Some v \<Rightarrow>
          if values_get v ''error'' \<noteq> [] then
            Inl (Failure (''oauth: provider returned error '' @ values_get v ''error'' @ '': '' @ values_get v ''error_description''))
          else if values_get v ''code'' = [] \<or> values_get v ''state'' = [] then
            Inl (Failure ''oauth: callback missing code or state'')
          else Inr \<lparr>CodeValue = values_get v ''code'', CodeState = values_get v ''state''\<rparr>)"

section \<open>Starting a flow\<close>

record StartFlowInput =
  StartProvider :: string
  StartScopes :: "string list"
  StartRedirectURI :: string
  StartStoreKey :: string
  TaskQueue :: string
  WorkflowIDPrefix :: string

record StartFlowResult =
  ResultAuthURL :: string
  ResultWorkflowID :: string
  ResultState :: string

definition randomShortID :: "(nat \<Rightarrow> 'w \<Rightarrow> (string + string) \<times> 'w) \<Rightarrow> 'w \<Rightarrow> string \<times> 'w" where
  "randomShortID rand w =
     (case rand 8 w of (Inl e, w') \<Rightarrow> (''rng-fail'', w') | (Inr buf, w') \<Rightarrow> (base64url buf, w'))"

record 'w start_env =
  st_rand :: "nat \<Rightarrow> 'w \<Rightarrow> (string + string) \<times> 'w"
  st_sha256 :: "string \<Rightarrow> string"
  st_start :: "string \<Rightarrow> string \<Rightarrow> OAuthFlowInput \<Rightarrow> 'w \<Rightarrow> string option \<times> 'w"

text \<open>Starting the workflow for a redirect, under an identifier that is already mapped.\<close>

definition launch_flow :: "'w start_env \<Rightarrow> StartFlowInput \<Rightarrow> AuthorizeRedirect \<Rightarrow> string \<Rightarrow>
    MemoryStateMapper \<times> 'w \<Rightarrow> (oauth_error + StartFlowResult) \<times> MemoryStateMapper \<times> 'w" where
  "launch_flow env inp redirect wfID s =
     (case st_start env wfID (TaskQueue inp) \<lparr>FlowProvider = StartProvider inp, FlowState = RedirectState redirect,
          FlowVerifier = RedirectVerifier redirect, FlowRedirect = StartRedirectURI inp,
          FlowStoreKey = StartStoreKey inp, CallbackTimeout = 0\<rparr> (snd s) of
        (Some e, w) \<Rightarrow> (Inl (Wrapped ''oauth: StartFlow: ExecuteWorkflow'' (Failure e)),
            (snd (mapper_Delete (RedirectState redirect) (fst s)), w))
      | (None, w) \<Rightarrow> (Inr \<lparr>ResultAuthURL = RedirectURL redirect, ResultWorkflowID = wfID,
            ResultState = RedirectState redirect\<rparr>, (fst s, w)))"

text \<open>\<open>providers\<close> and the mapper in \<open>s\<close> are \<open>None\<close> when they are nil.\<close>

definition StartFlow :: "'w start_env \<Rightarrow> 'w Registry option \<Rightarrow> StartFlowInput \<Rightarrow> MemoryStateMapper option \<times> 'w \<Rightarrow>
    (oauth_error + StartFlowResult) \<times> MemoryStateMapper option \<times> 'w" where
  "StartFlow env providers inp s =
     (if StartProvider inp = [] \<or> StartRedirectURI inp = [] \<or> StartStoreKey inp = [] \<or> TaskQueue inp = [] then
        (Inl (Failure ''oauth: StartFlow: Provider, RedirectURI, StoreKey, TaskQueue are required''), s)
      else (case (providers, fst s) of
              (None, _) \<Rightarrow> (Inl (Failure ''oauth: StartFlow: provider registry is nil''), s)
            | (Some reg, None) \<Rightarrow> (Inl (Failure ''oauth: StartFlow: state mapper is nil''), s)
            | (Some reg, Some m) \<Rightarrow>
                (case registry_Get reg (StartProvider inp) of
                   Inl e \<Rightarrow> (Inl (Wrapped ''oauth: StartFlow'' e), s)
                 | Inr p \<Rightarrow>
                     (case NewAuthRequest (st_rand env) (st_sha256 env) (StartProvider inp) (StartRedirectURI inp)
                         (StartScopes inp) (snd s) of
                        (Inl e, w1) \<Rightarrow> (Inl (Wrapped ''oauth: StartFlow'' e), (Some m, w1))
                      | (Inr req, w1) \<Rightarrow>
                          (case run_arrow (Authorize p) req (m, w1) of
                             (Inl e, (m', w2)) \<Rightarrow> (Inl (Wrapped ''oauth: StartFlow: provider.Authorize'' e), (Some m, w2))
                           | (Inr redirect, (m', w2)) \<Rightarrow>
                               (case randomShortID (st_rand env) w2 of
                                  (short, w3) \<Rightarrow>
                                    (let prefix = (if WorkflowIDPrefix inp = [] then ''oauth-flow'' else WorkflowIDPrefix inp);
                                         wfID = prefix @ ''-'' @ StartProvider inp @ ''-'' @ short
                                     in case mapper_Put (RedirectState redirect) wfID m of
                                          (Some e, m1) \<Rightarrow>
                                            (Inl (Wrapped ''oauth: StartFlow: state mapper Put'' e), (Some m1, w3))
                                        | (None, m1) \<Rightarrow>
                                            (case launch_flow env inp redirect wfID (m1, w3) of
                                               (r, (m2, w4)) \<Rightarrow> (r, (Some m2, w4)))))))))) "

section \<open>The callback handler\<close>

datatype http_response = Success string | ErrorResponse int oauth_error

text \<open>The text has an em dash.\<close>

definition unknown_state :: string where
  "unknown_state = ''unknown state '' @ [CHR 0xE2, CHR 0x80, CHR 0x94] @
     '' possible CSRF, stale callback, or workflow already completed''"

definition handle_callback :: "(string \<Rightarrow> AuthCode \<Rightarrow> 'w \<Rightarrow> string option \<times> 'w) \<Rightarrow> string \<Rightarrow> string \<Rightarrow>
    MemoryStateMapper \<times> 'w \<Rightarrow> http_response \<times> MemoryStateMapper \<times> 'w" where
  "handle_callback signal successHTML rawQuery s =
     (case ParseCallback rawQuery of
        Inl e \<Rightarrow> (ErrorResponse 400 e, s)
      | Inr code \<Rightarrow>
          (case mapper_Get (CodeState code) (fst s) of
             None \<Rightarrow> (ErrorResponse 400 (Failure unknown_state), s)
           | Some wfID \<Rightarrow>
               (case signal wfID code (snd s) of
                  (Some e, w) \<Rightarrow> (ErrorResponse 500 (Wrapped (''signal workflow '' @ quoted wfID) (Failure e)), (fst s, w))
                | (None, w) \<Rightarrow> (Success successHTML, (snd (mapper_Delete (CodeState code) (fst s)), w)))))"

text \<open>\<open>Inl\<close> is the panic of the constructor.\<close>

definition NewCallbackHandler :: "bool \<Rightarrow> bool \<Rightarrow> string \<Rightarrow> string \<Rightarrow> (string \<Rightarrow> AuthCode \<Rightarrow> 'w \<Rightarrow> string option \<times> 'w) \<Rightarrow>
    string + (string \<Rightarrow> MemoryStateMapper \<times> 'w \<Rightarrow> http_response \<times> MemoryStateMapper \<times> 'w)" where
  "NewCallbackHandler hasClient hasMapper defaultSuccessHTML successHTML signal =
     (if \<not> hasClient then Inl ''oauth: NewCallbackHandler: Temporal client is nil''
      else if \<not> hasMapper then Inl ''oauth: NewCallbackHandler: state mapper is nil''
      else Inr (handle_callback signal (if successHTML = [] then defaultSuccessHTML else successHTML)))"

text \<open>\<^verbatim>\<open>html.EscapeString\<close> and the default error page.\<close>

definition escape_html_byte :: "char \<Rightarrow> string" where
  "escape_html_byte c =
     (if c = CHR ''<'' then ''&lt;'' else if c = CHR ''>'' then ''&gt;'' else if c = CHR ''&'' then ''&amp;''
      else if c = CHR 0x27 then ''&#39;'' else if c = CHR 0x22 then ''&#34;'' else [c])"

definition EscapeString :: "string \<Rightarrow> string" where
  "EscapeString s = concat (map escape_html_byte s)"

definition defaultErrorWriter :: "(oauth_error \<Rightarrow> string) \<Rightarrow> int \<Rightarrow> oauth_error \<Rightarrow> int \<times> string" where
  "defaultErrorWriter text status e = (status, ''OAuth callback error: '' @ EscapeString (text e) @ [CHR 0x0A])"

section \<open>The workflow\<close>

lemma finish_flow_Inr:
  "finish_flow env inp code status s = (Inr ses, (status', s')) \<Longrightarrow>
     \<exists>s2 s3. fe_exchange env \<lparr>EAProvider = FlowProvider inp, EACode = code, EACodeVerifier = FlowVerifier inp,
         EARedirectURI = FlowRedirect inp\<rparr> s = (Inr (SessionToken ses), s2) \<and>
       fe_whoami env \<lparr>WAProvider = FlowProvider inp, WATokens = SessionToken ses\<rparr> s2 = (Inr (SessionIdentity ses), s3) \<and>
       fe_store env \<lparr>SAStoreKey = FlowStoreKey inp, SAIdentity = SessionIdentity ses, SAProvider = FlowProvider inp,
         SATokens = SessionToken ses\<rparr> s3 = (None, s') \<and>
       status' = status\<lparr>Stage := ''completed''\<rparr>"
  by (auto simp: finish_flow_def session_of_def split: prod.splits sum.splits option.splits)

lemma finish_flow_Inl:
  "finish_flow env inp code status s = (Inl e, (status', s')) \<Longrightarrow>
     Stage status' = ''failed'' \<and> (\<exists>c e'. e = Wrapped c e')"
  by (auto simp: finish_flow_def fail_status_def split: prod.splits sum.splits option.splits)

lemma OAuthFlowWorkflow_Inr:
  assumes "OAuthFlowWorkflow env inp s = (Inr ses, (status, s'))"
  shows "\<exists>code s1 s2 s3. fe_select env (callback_timeout inp) s = (Some code, s1) \<and>
    CodeState code = FlowState inp \<and> CodeState code \<noteq> [] \<and> FlowVerifier inp \<noteq> [] \<and>
    fe_exchange env \<lparr>EAProvider = FlowProvider inp, EACode = code, EACodeVerifier = FlowVerifier inp,
      EARedirectURI = FlowRedirect inp\<rparr> s1 = (Inr (SessionToken ses), s2) \<and>
    fe_whoami env \<lparr>WAProvider = FlowProvider inp, WATokens = SessionToken ses\<rparr> s2 = (Inr (SessionIdentity ses), s3) \<and>
    fe_store env \<lparr>SAStoreKey = FlowStoreKey inp, SAIdentity = SessionIdentity ses, SAProvider = FlowProvider inp,
      SATokens = SessionToken ses\<rparr> s3 = (None, s') \<and>
    Stage status = ''completed''"
proof -
  from assms obtain code s1 status' where c: "fe_select env (callback_timeout inp) s = (Some code, s1)"
    "CodeState code = FlowState inp" "\<not> input_missing inp"
    "finish_flow env inp code status' s1 = (Inr ses, (status, s'))"
    by (auto simp: OAuthFlowWorkflow_def Let_def split: option.splits if_splits prod.splits)
  from finish_flow_Inr [OF c(4)] c(1-3) show ?thesis by (auto simp: input_missing_def)
qed

lemma OAuthFlowWorkflow_CSRF:
  "OAuthFlowWorkflow env inp s =
     (Inl (Application ''CSRFViolation'' ''oauth: callback state does not match request state''), (status, s')) \<Longrightarrow>
   \<exists>code. fst (fe_select env (callback_timeout inp) s) = Some code \<and> CodeState code \<noteq> FlowState inp"
  by (auto simp: OAuthFlowWorkflow_def Let_def dest!: finish_flow_Inl split: option.splits if_splits prod.splits)

text \<open>
  C18: the workflow returns a session only for a callback that carried the state it was started with. It
  then exchanged that callback's code once, with the verifier and the redirect address of its own
  input, identified the user by the tokens it got, stored those tokens for that user, and ends in the
  stage \<open>completed\<close>.
\<close>

theorem OAuthFlowWorkflow_session:
  assumes "OAuthFlowWorkflow env inp s = (Inr ses, (status, s'))"
  shows "\<exists>code s1 s2 s3. fe_select env (callback_timeout inp) s = (Some code, s1) \<and>
    CodeState code = FlowState inp \<and> CodeState code \<noteq> [] \<and> FlowVerifier inp \<noteq> [] \<and>
    fe_exchange env \<lparr>EAProvider = FlowProvider inp, EACode = code, EACodeVerifier = FlowVerifier inp,
      EARedirectURI = FlowRedirect inp\<rparr> s1 = (Inr (SessionToken ses), s2) \<and>
    fe_whoami env \<lparr>WAProvider = FlowProvider inp, WATokens = SessionToken ses\<rparr> s2 = (Inr (SessionIdentity ses), s3) \<and>
    fe_store env \<lparr>SAStoreKey = FlowStoreKey inp, SAIdentity = SessionIdentity ses, SAProvider = FlowProvider inp,
      SATokens = SessionToken ses\<rparr> s3 = (None, s') \<and>
    Stage status = ''completed''"
  using OAuthFlowWorkflow_Inr [OF assms] .

text \<open>A worker with one provider and one store, and the answer of the wait.\<close>

definition demo_activities :: "(MemoryTokenStore, nat) Activities" where
  "demo_activities = NewActivities (Some (registered_providers [demo_provider]))
     (Some [(''default'', memory_token_store demo_store_env)])"

definition demo_input :: OAuthFlowInput where
  "demo_input = \<lparr>FlowProvider = ''okta'', FlowState = ''s1'', FlowVerifier = ''v'', FlowRedirect = ''u'',
     FlowStoreKey = ''default'', CallbackTimeout = 0\<rparr>"

definition demo_env :: "AuthCode option \<Rightarrow> (MemoryTokenStore \<times> nat) flow_env" where
  "demo_env answer = direct_env demo_activities int (\<lambda>d s. (answer, s)) (\<lambda>e. [])"

lemma demo_session:
  "case OAuthFlowWorkflow (demo_env (Some \<lparr>CodeValue = ''c1'', CodeState = ''s1''\<rparr>)) demo_input ([], 0) of
     (Inr ses, _) \<Rightarrow> AccessToken (SessionToken ses) = ''c1'' | _ \<Rightarrow> False"
  by code_simp

theorem OAuthFlowWorkflow_session_witness:
  "\<exists>ses status s' s1 s2. OAuthFlowWorkflow (demo_env (Some \<lparr>CodeValue = ''c1'', CodeState = ''s1''\<rparr>)) demo_input ([], 0) =
      (Inr ses, (status, s')) \<and> Stage status = ''completed'' \<and>
    activity_Exchange demo_activities \<lparr>EAProvider = ''okta'', EACode = \<lparr>CodeValue = ''c1'', CodeState = ''s1''\<rparr>,
      EACodeVerifier = ''v'', EARedirectURI = ''u''\<rparr> s1 = (Inr (SessionToken ses), s2)"
proof -
  obtain ses status s' where run:
    "OAuthFlowWorkflow (demo_env (Some \<lparr>CodeValue = ''c1'', CodeState = ''s1''\<rparr>)) demo_input ([], 0) = (Inr ses, (status, s'))"
    using demo_session by (auto split: prod.splits sum.splits)
  with OAuthFlowWorkflow_session [OF run] show ?thesis
    by (auto simp: demo_env_def direct_env_def demo_input_def)
qed

text \<open>
  A workflow that refuses its input, waits in vain or gets a callback with a foreign state runs no
  activity: its world is the one its wait left. Every error ends in the stage \<open>failed\<close>, with a
  message the user can read, unless the status query could not be installed.
\<close>

theorem OAuthFlowWorkflow_refused:
  assumes "OAuthFlowWorkflow env inp s = (Inl e, (status, s'))" "fe_query_err env s = None"
  shows "Stage status = ''failed'' \<and> StatusError status \<noteq> [] \<and> StartedAt status = fe_now env s \<and>
    (input_missing inp \<and> s' = s \<or>
     \<not> input_missing inp \<and> (\<exists>answer s1. fe_select env (callback_timeout inp) s = (answer, s1) \<and>
       (case answer of None \<Rightarrow> s' = s1 \<and> e = Application ''CallbackTimeout'' ''oauth: callback timeout''
        | Some code \<Rightarrow> if CodeState code = FlowState inp then \<exists>c e'. e = Wrapped c e'
            else s' = s1 \<and> e = Application ''CSRFViolation'' ''oauth: callback state does not match request state'')))"
  using assms
  by (auto simp: OAuthFlowWorkflow_def finish_flow_def fail_status_def Let_def
      split: option.splits if_splits prod.splits sum.splits)

theorem OAuthFlowWorkflow_refused_witness:
  "\<exists>status. OAuthFlowWorkflow (demo_env (Some \<lparr>CodeValue = ''c1'', CodeState = ''forged''\<rparr>)) demo_input ([], 0) =
     (Inl (Application ''CSRFViolation'' ''oauth: callback state does not match request state''), (status, ([], 0))) \<and>
     Stage status = ''failed''"
proof -
  obtain status where run:
    "OAuthFlowWorkflow (demo_env (Some \<lparr>CodeValue = ''c1'', CodeState = ''forged''\<rparr>)) demo_input ([], 0) =
     (Inl (Application ''CSRFViolation'' ''oauth: callback state does not match request state''), (status, ([], 0)))"
    by (simp add: OAuthFlowWorkflow_def demo_env_def direct_env_def input_missing_def demo_input_def)
  have "fe_query_err (demo_env (Some \<lparr>CodeValue = ''c1'', CodeState = ''forged''\<rparr>)) ([], 0) = None"
    by (simp add: demo_env_def direct_env_def)
  from OAuthFlowWorkflow_refused [OF run this] run show ?thesis by blast
qed

text \<open>
  The durable workflow is the flow: with its provider and its store registered, and a callback that
  carries its state, it ends in the same world as \<open>NewFlow\<close> on that code and returns the same session, or
  fails with the same cause; the arrows of a registered provider are never nil.
\<close>

theorem workflow_runs_flow:
  assumes "\<not> input_missing inp" "sel (callback_timeout inp) s = (Some code, s1)" "CodeState code = FlowState inp"
    and "registry_Get (registered_providers ps) (FlowProvider inp) = Inr p" "Providers A = registered_providers ps"
    and "gm_get (Stores A) (FlowStoreKey inp) = Some S"
  shows "case NewFlow (\<lambda>w. (now w, w)) p (Some S)
      \<lparr>FlowCode = code, FlowCodeVerifier = FlowVerifier inp, FlowRedirectURI = FlowRedirect inp\<rparr> s1 of
      (Returns ses, s2) \<Rightarrow> (\<exists>status. OAuthFlowWorkflow (direct_env A now sel err_text) inp s = (Inr ses, (status, s2)) \<and>
        Stage status = ''completed'')
    | (Fails (Wrapped c e), s2) \<Rightarrow>
        (\<exists>c' status. OAuthFlowWorkflow (direct_env A now sel err_text) inp s = (Inl (Wrapped c' e), (status, s2)) \<and>
        Stage status = ''failed'')
    | _ \<Rightarrow> False"
proof -
  obtain f g where p: "Exchange p = Some f" "Whoami p = Some g" "ProviderName p = FlowProvider inp"
    using registered_complete [OF assms(4)] by (auto simp: complete_provider_def)
  have run: "OAuthFlowWorkflow (direct_env A now sel err_text) inp s =
      finish_flow (direct_env A now sel err_text) inp code
        \<lparr>Stage = ''exchanging'', AuthURL = [], StartedAt = now (snd s), StatusError = []\<rparr> s1"
    using assms(1-3) by (simp add: OAuthFlowWorkflow_def direct_env_def)
  show ?thesis
    unfolding run using assms(4-6) p
    by (auto simp: NewFlow_def finish_flow_def direct_env_def activity_Exchange_def activity_Whoami_def
        activity_StoreTokens_def run_arrow_def exchange_request_def fail_status_def
        split: prod.splits sum.splits option.splits)
qed


theorem workflow_runs_flow_witness:
  "\<exists>p. registry_Get (registered_providers [demo_provider]) ''okta'' = Inr p \<and>
    (case NewFlow (\<lambda>w. (int w, w)) p (Some (memory_token_store demo_store_env))
        \<lparr>FlowCode = \<lparr>CodeValue = ''c1'', CodeState = ''s1''\<rparr>, FlowCodeVerifier = ''v'', FlowRedirectURI = ''u''\<rparr> ([], 0) of
      (Returns ses, s2) \<Rightarrow> (\<exists>status. OAuthFlowWorkflow (demo_env (Some \<lparr>CodeValue = ''c1'', CodeState = ''s1''\<rparr>))
          demo_input ([], 0) = (Inr ses, (status, s2)) \<and> Stage status = ''completed'')
    | _ \<Rightarrow> True)"
proof -
  have p: "registry_Get (registered_providers [demo_provider]) (FlowProvider demo_input) = Inr demo_provider"
    by (simp add: registry_Get_registered complete_provider_def demo_provider_def demo_input_def)
  have miss: "\<not> input_missing demo_input" by (simp add: input_missing_def demo_input_def)
  have A: "Providers demo_activities = registered_providers [demo_provider]"
    "gm_get (Stores demo_activities) (FlowStoreKey demo_input) = Some (memory_token_store demo_store_env)"
    by (simp_all add: demo_activities_def NewActivities_def demo_input_def gm_get_def)
  have "FlowProvider demo_input = ''okta''" by (simp add: demo_input_def)
  with p workflow_runs_flow [where now = int and sel = "\<lambda>d s. (Some \<lparr>CodeValue = ''c1'', CodeState = ''s1''\<rparr>, s)"
      and code = "\<lparr>CodeValue = ''c1'', CodeState = ''s1''\<rparr>" and s = "([], 0)" and err_text = "\<lambda>e. []",
      OF miss refl _ p A]
  show ?thesis
    by (auto simp: demo_env_def demo_input_def split: prod.splits flow_result.splits)
qed

section \<open>Starting a flow and calling it back\<close>

lemma launch_flow_cases:
  "launch_flow env inp redirect wfID (m, w) = (r, (m', w')) \<Longrightarrow>
     \<exists>answer. st_start env wfID (TaskQueue inp) \<lparr>FlowProvider = StartProvider inp, FlowState = RedirectState redirect,
          FlowVerifier = RedirectVerifier redirect, FlowRedirect = StartRedirectURI inp,
          FlowStoreKey = StartStoreKey inp, CallbackTimeout = 0\<rparr> w = (answer, w') \<and>
       (case answer of
          None \<Rightarrow> m' = m \<and> r = Inr \<lparr>ResultAuthURL = RedirectURL redirect, ResultWorkflowID = wfID,
            ResultState = RedirectState redirect\<rparr>
        | Some e \<Rightarrow> m' = gm_del (RedirectState redirect) m \<and>
            r = Inl (Wrapped ''oauth: StartFlow: ExecuteWorkflow'' (Failure e)))"
  by (auto simp: launch_flow_def mapper_Delete_def split: prod.splits option.splits)

lemma StartFlow_cases:
  assumes "StartFlow env provs inp (Some m, w) = (r, (mo, w'))"
  shows "(\<exists>e. r = Inl e \<and> mo = Some m) \<or>
    (\<exists>redirect wfID w3 m'. mo = Some m' \<and> RedirectState redirect \<noteq> [] \<and>
       launch_flow env inp redirect wfID (gm_set (RedirectState redirect) wfID m, w3) = (r, (m', w')))"
  using assms
  by (auto simp: StartFlow_def mapper_Put_def Let_def
      split: if_splits option.splits sum.splits prod.splits) blast+

lemma ParseCallback_redirect:
  "c \<noteq> [] \<Longrightarrow> s \<noteq> [] \<Longrightarrow>
     ParseCallback (encode_query [(''code'', c), (''state'', s)]) = Inr \<lparr>CodeValue = c, CodeState = s\<rparr>"
  by (simp add: ParseCallback_def ParseQuery_encode_query values_get_def)

text \<open>
  C19: a flow that was started is waiting under the identifier and the state it returns, and the
  provider's redirect reaches it: whatever code the redirect carries, its escaping survives the query,
  exactly that workflow is signalled with it, and after a signal that was delivered the state is spent:
  the same redirect is refused as unknown. A signal that fails can be sent again.
\<close>

theorem consent_reaches_workflow:
  assumes "StartFlow env provs inp (Some m, w) = (Inr res, (mo, w'))" "c \<noteq> []"
  shows "\<exists>m' verifier w3. mo = Some m' \<and>
    st_start env (ResultWorkflowID res) (TaskQueue inp) \<lparr>FlowProvider = StartProvider inp, FlowState = ResultState res,
      FlowVerifier = verifier, FlowRedirect = StartRedirectURI inp, FlowStoreKey = StartStoreKey inp,
      CallbackTimeout = 0\<rparr> w3 = (None, w') \<and>
    (\<forall>signal html w1. let query = encode_query [(''code'', c), (''state'', ResultState res)] in
       case signal (ResultWorkflowID res) \<lparr>CodeValue = c, CodeState = ResultState res\<rparr> w1 of
         (None, w2) \<Rightarrow> \<exists>m2. handle_callback signal html query (m', w1) = (Success html, (m2, w2)) \<and>
           handle_callback signal html query (m2, w2) = (ErrorResponse 400 (Failure unknown_state), (m2, w2))
       | (Some e, w2) \<Rightarrow> handle_callback signal html query (m', w1) =
           (ErrorResponse 500 (Wrapped (''signal workflow '' @ quoted (ResultWorkflowID res)) (Failure e)), (m', w2)))"
proof -
  obtain redirect wfID w3 m' where mo: "mo = Some m'" and s: "RedirectState redirect \<noteq> []"
    and launch: "launch_flow env inp redirect wfID (gm_set (RedirectState redirect) wfID m, w3) = (Inr res, (m', w'))"
    using StartFlow_cases [OF assms(1)] by blast
  from launch_flow_cases [OF launch]
  have st: "st_start env wfID (TaskQueue inp) \<lparr>FlowProvider = StartProvider inp, FlowState = RedirectState redirect,
        FlowVerifier = RedirectVerifier redirect, FlowRedirect = StartRedirectURI inp,
        FlowStoreKey = StartStoreKey inp, CallbackTimeout = 0\<rparr> w3 = (None, w')"
    and m': "m' = gm_set (RedirectState redirect) wfID m"
    and res: "ResultWorkflowID res = wfID" "ResultState res = RedirectState redirect"
    by (auto split: option.splits)
  show ?thesis
    unfolding mo res using st ParseCallback_redirect [OF assms(2) s]
    by (intro exI [of _ m'] exI [of _ "RedirectVerifier redirect"] exI [of _ w3])
      (auto simp: handle_callback_def mapper_Get_def mapper_Delete_def m' Let_def split: prod.splits option.splits)
qed

text \<open>A Temporal that accepts every workflow.\<close>

definition demo_start_env :: "nat start_env" where
  "demo_start_env = \<lparr>st_rand = demo_rand, st_sha256 = (\<lambda>x. x), st_start = (\<lambda>wf tq inp w. (None, w))\<rparr>"

definition demo_start :: StartFlowInput where
  "demo_start = \<lparr>StartProvider = ''okta'', StartScopes = [], StartRedirectURI = ''u'', StartStoreKey = ''default'',
     TaskQueue = ''q'', WorkflowIDPrefix = []\<rparr>"

lemma demo_start_accepted:
  "\<exists>res mo w. StartFlow demo_start_env (Some (registered_providers [demo_provider])) demo_start (Some [], 65) =
     (Inr res, (mo, w))"
proof -
  have "registry_Get (registered_providers [demo_provider]) ''okta'' = Inr demo_provider"
    by (simp add: registry_Get_registered complete_provider_def demo_provider_def)
  moreover have "base64url (replicate 32 c) \<noteq> []" for c
    using length_base64url [of "replicate 32 c"] by auto
  ultimately show ?thesis
    by (simp add: StartFlow_def launch_flow_def demo_start_env_def demo_start_def demo_provider_def NewAuthRequest_def
        randomBase64URL_def demo_rand_def run_arrow_def randomShortID_def mapper_Put_def Let_def)
qed

theorem consent_reaches_workflow_witness:
  "\<exists>res m' w. StartFlow demo_start_env (Some (registered_providers [demo_provider])) demo_start (Some [], 65) =
     (Inr res, (Some m', w)) \<and>
   (\<exists>m2. handle_callback (\<lambda>wf code w. (None, w + 1)) ''ok'' (encode_query [(''code'', ''a&b''), (''state'', ResultState res)])
     (m', w) = (Success ''ok'', (m2, w + 1)))"
proof -
  obtain res mo w where run:
    "StartFlow demo_start_env (Some (registered_providers [demo_provider])) demo_start (Some [], 65) = (Inr res, (mo, w))"
    using demo_start_accepted by blast
  from consent_reaches_workflow [OF run, of "''a&b''"] run show ?thesis
    by (fastforce simp: Let_def split: prod.splits option.splits)
qed

text \<open>
  A start that fails leaves no mapping behind: every state that is mapped afterwards was mapped to
  the same workflow before.
\<close>

theorem StartFlow_failure_clean:
  assumes "StartFlow env provs inp (Some m, w) = (Inl e, (mo, w'))"
  shows "\<exists>m'. mo = Some m' \<and> (\<forall>state wf. mapper_Get state m' = Some wf \<longrightarrow> mapper_Get state m = Some wf)"
  using StartFlow_cases [OF assms]
  by (auto simp: mapper_Get_def split: if_splits dest!: launch_flow_cases split: option.splits)


theorem StartFlow_failure_clean_witness:
  "\<exists>e m'. StartFlow (demo_start_env\<lparr>st_start := \<lambda>wf tq inp w. (Some ''down'', w)\<rparr>)
     (Some (registered_providers [demo_provider])) demo_start (Some [], 65) = (Inl e, (Some m', 68)) \<and>
     (\<forall>state. mapper_Get state m' = None)"
proof -
  have "registry_Get (registered_providers [demo_provider]) ''okta'' = Inr demo_provider"
    by (simp add: registry_Get_registered complete_provider_def demo_provider_def)
  moreover have "base64url (replicate 32 c) \<noteq> []" for c
    using length_base64url [of "replicate 32 c"] by auto
  ultimately obtain e mo where run: "StartFlow (demo_start_env\<lparr>st_start := \<lambda>wf tq inp w. (Some ''down'', w)\<rparr>)
     (Some (registered_providers [demo_provider])) demo_start (Some [], 65) = (Inl e, (mo, 68))"
    by (simp add: StartFlow_def launch_flow_def demo_start_env_def demo_start_def demo_provider_def NewAuthRequest_def
        randomBase64URL_def demo_rand_def run_arrow_def randomShortID_def mapper_Put_def Let_def)
  from StartFlow_failure_clean [OF run] run show ?thesis
    by (fastforce simp: mapper_Get_def gm_get_def)
qed

end
