(* ===== verification/OAuth_System.thy ===== *)
theory OAuth_System
  imports OAuth_Workflow
begin

text \<open>
  The parts of an OAuth flow together: any number of concurrent starts and callbacks over one state
  mapper and one Temporal cluster. A start is two atomic steps, the mapping and the start of the
  workflow, and a third, the removal of the mapping, when the workflow did not start; a callback is the
  look-up, the signal and the removal. The steps of different calls interleave in any order.
\<close>

section \<open>The cluster and the steps\<close>

text \<open>
  \<open>Runs\<close> are the running workflows; \<open>Started\<close> and \<open>Inbox\<close> record all that were started and all signals
  that were delivered.
\<close>

record cluster =
  Runs :: "(string, OAuthFlowInput) gomap"
  Started :: "(string \<times> OAuthFlowInput) list"
  Inbox :: "(string \<times> AuthCode) list"

text \<open>
  \<open>ExecuteWorkflow\<close> with an identifier that is running gives the running workflow and no error; a
  signal needs a running workflow. \<open>up\<close> says whether the cluster can be reached.
\<close>

definition cluster_start :: "bool \<Rightarrow> string \<Rightarrow> string \<Rightarrow> OAuthFlowInput \<Rightarrow> cluster \<Rightarrow> string option \<times> cluster" where
  "cluster_start up wid tq inp c =
     (if \<not> up then (Some ''unavailable'', c)
      else if gm_get (Runs c) wid \<noteq> None then (None, c)
      else (None, c\<lparr>Runs := gm_set wid inp (Runs c), Started := (wid, inp) # Started c\<rparr>))"

definition cluster_signal :: "bool \<Rightarrow> string \<Rightarrow> AuthCode \<Rightarrow> cluster \<Rightarrow> string option \<times> cluster" where
  "cluster_signal up wid code c =
     (if \<not> up \<or> gm_get (Runs c) wid = None then (Some ''not found'', c)
      else (None, c\<lparr>Inbox := Inbox c @ [(wid, code)]\<rparr>))"

text \<open>
  \<open>sys_starting\<close> are the starts that have mapped their state, \<open>sys_cleaning\<close> the states whose mapping is
  to be removed, \<open>sys_calling\<close> the callbacks that have looked up their workflow. \<open>sys_issued\<close> and
  \<open>sys_requests\<close> record all mappings ever made and all queries ever received.
\<close>

record oauth_system =
  sys_mapper :: MemoryStateMapper
  sys_cluster :: cluster
  sys_starting :: "(AuthorizeRedirect \<times> string \<times> StartFlowInput) list"
  sys_cleaning :: "string list"
  sys_calling :: "(AuthCode \<times> string) list"
  sys_issued :: "(string \<times> string) list"
  sys_requests :: "string list"

definition empty_cluster :: cluster where
  "empty_cluster = \<lparr>Runs = [], Started = [], Inbox = []\<rparr>"

definition initial_system :: oauth_system where
  "initial_system = \<lparr>sys_mapper = NewMemoryStateMapper, sys_cluster = empty_cluster, sys_starting = [],
     sys_cleaning = [], sys_calling = [], sys_issued = [], sys_requests = []\<rparr>"

definition workflow_input :: "StartFlowInput \<Rightarrow> AuthorizeRedirect \<Rightarrow> OAuthFlowInput" where
  "workflow_input inp redirect = \<lparr>FlowProvider = StartProvider inp, FlowState = RedirectState redirect,
     FlowVerifier = RedirectVerifier redirect, FlowRedirect = StartRedirectURI inp,
     FlowStoreKey = StartStoreKey inp, CallbackTimeout = 0\<rparr>"

inductive sys_step :: "oauth_system \<Rightarrow> oauth_system \<Rightarrow> bool" where
  map_state: "mapper_Put (RedirectState r) wid (sys_mapper \<sigma>) = (None, m) \<Longrightarrow>
    sys_step \<sigma> (\<sigma>\<lparr>sys_mapper := m, sys_starting := (r, wid, inp) # sys_starting \<sigma>,
      sys_issued := (RedirectState r, wid) # sys_issued \<sigma>\<rparr>)"
| execute: "(r, wid, inp) \<in> set (sys_starting \<sigma>) \<Longrightarrow>
    cluster_start up wid (TaskQueue inp) (workflow_input inp r) (sys_cluster \<sigma>) = (answer, c) \<Longrightarrow>
    sys_step \<sigma> (\<sigma>\<lparr>sys_cluster := c, sys_starting := remove1 (r, wid, inp) (sys_starting \<sigma>),
      sys_cleaning := (if answer = None then sys_cleaning \<sigma> else RedirectState r # sys_cleaning \<sigma>)\<rparr>)"
| clean: "state \<in> set (sys_cleaning \<sigma>) \<Longrightarrow>
    sys_step \<sigma> (\<sigma>\<lparr>sys_mapper := snd (mapper_Delete state (sys_mapper \<sigma>)),
      sys_cleaning := remove1 state (sys_cleaning \<sigma>)\<rparr>)"
| look_up: "ParseCallback q = Inr code \<Longrightarrow> mapper_Get (CodeState code) (sys_mapper \<sigma>) = Some wid \<Longrightarrow>
    sys_step \<sigma> (\<sigma>\<lparr>sys_calling := (code, wid) # sys_calling \<sigma>, sys_requests := q # sys_requests \<sigma>\<rparr>)"
| refuse: "(\<And>code. ParseCallback q = Inr code \<Longrightarrow> mapper_Get (CodeState code) (sys_mapper \<sigma>) = None) \<Longrightarrow>
    sys_step \<sigma> (\<sigma>\<lparr>sys_requests := q # sys_requests \<sigma>\<rparr>)"
| signal: "(code, wid) \<in> set (sys_calling \<sigma>) \<Longrightarrow> cluster_signal up wid code (sys_cluster \<sigma>) = (answer, c) \<Longrightarrow>
    sys_step \<sigma> (\<sigma>\<lparr>sys_cluster := c, sys_calling := remove1 (code, wid) (sys_calling \<sigma>),
      sys_cleaning := (if answer = None then CodeState code # sys_cleaning \<sigma> else sys_cleaning \<sigma>)\<rparr>)"
| run_ends: "sys_step \<sigma> (\<sigma>\<lparr>sys_cluster := sys_cluster \<sigma>\<lparr>Runs := gm_del wid (Runs (sys_cluster \<sigma>))\<rparr>\<rparr>)"

definition reachable_system :: "oauth_system \<Rightarrow> bool" where
  "reachable_system \<sigma> \<longleftrightarrow> sys_step\<^sup>*\<^sup>* initial_system \<sigma>"

section \<open>The operations are runs of the steps\<close>

lemma sys_stepsI:
  "sys_step a b \<Longrightarrow> sys_step b c \<Longrightarrow> sys_step c d \<Longrightarrow> sys_step\<^sup>*\<^sup>* a d"
  "sys_step a b \<Longrightarrow> sys_step b c \<Longrightarrow> sys_step\<^sup>*\<^sup>* a c"
  by (meson converse_rtranclp_into_rtranclp r_into_rtranclp)+

text \<open>
  The operations are refined by the steps: a callback that is handled without interruption ends in
  a system the steps reach, with the mapper and the cluster it leaves, and so does the part of a start
  that maps the state and starts the workflow.
\<close>

theorem operations_are_steps:
  "(case handle_callback (cluster_signal up) html q (sys_mapper \<sigma>, sys_cluster \<sigma>) of (response, (m, c)) \<Rightarrow>
      sys_step\<^sup>*\<^sup>* \<sigma> (\<sigma>\<lparr>sys_mapper := m, sys_cluster := c, sys_requests := q # sys_requests \<sigma>\<rparr>)) \<and>
   (case mapper_Put (RedirectState r) wid (sys_mapper \<sigma>) of
      (Some e, m) \<Rightarrow> m = sys_mapper \<sigma>
    | (None, m) \<Rightarrow>
        (case launch_flow \<lparr>st_rand = rand, st_sha256 = sha, st_start = cluster_start up\<rparr> inp r wid (m, sys_cluster \<sigma>) of
           (res, (m', c)) \<Rightarrow> sys_step\<^sup>*\<^sup>* \<sigma>
             (\<sigma>\<lparr>sys_mapper := m', sys_cluster := c, sys_issued := (RedirectState r, wid) # sys_issued \<sigma>\<rparr>)))"
proof (intro conjI)
  show "case handle_callback (cluster_signal up) html q (sys_mapper \<sigma>, sys_cluster \<sigma>) of (response, (m, c)) \<Rightarrow>
      sys_step\<^sup>*\<^sup>* \<sigma> (\<sigma>\<lparr>sys_mapper := m, sys_cluster := c, sys_requests := q # sys_requests \<sigma>\<rparr>)"
  proof (cases "\<exists>code wid. ParseCallback q = Inr code \<and> mapper_Get (CodeState code) (sys_mapper \<sigma>) = Some wid")
    case False
    then have "\<And>code. ParseCallback q = Inr code \<Longrightarrow> mapper_Get (CodeState code) (sys_mapper \<sigma>) = None" by force
    from r_into_rtranclp [of sys_step, OF refuse [where \<sigma> = \<sigma>, OF this]] False show ?thesis
      by (auto simp: handle_callback_def split: sum.splits option.splits)
  next
    case True
    then obtain code wid where q: "ParseCallback q = Inr code" "mapper_Get (CodeState code) (sys_mapper \<sigma>) = Some wid"
      by blast
    obtain answer c where sig: "cluster_signal up wid code (sys_cluster \<sigma>) = (answer, c)" by (metis prod.exhaust)
    note a = look_up [where \<sigma> = \<sigma>, OF q]
    have b: "sys_step (\<sigma>\<lparr>sys_calling := (code, wid) # sys_calling \<sigma>, sys_requests := q # sys_requests \<sigma>\<rparr>)
        (\<sigma>\<lparr>sys_cluster := c, sys_requests := q # sys_requests \<sigma>,
          sys_cleaning := (if answer = None then CodeState code # sys_cleaning \<sigma> else sys_cleaning \<sigma>)\<rparr>)"
      using signal [of code wid "\<sigma>\<lparr>sys_calling := (code, wid) # sys_calling \<sigma>, sys_requests := q # sys_requests \<sigma>\<rparr>"
          up answer c] sig by (cases \<sigma>; cases answer) simp_all
    show ?thesis
    proof (cases answer)
      case (Some e)
      have "\<sigma>\<lparr>sys_cluster := c, sys_requests := q # sys_requests \<sigma>, sys_cleaning := sys_cleaning \<sigma>\<rparr> =
          \<sigma>\<lparr>sys_mapper := sys_mapper \<sigma>, sys_cluster := c, sys_requests := q # sys_requests \<sigma>\<rparr>" by simp
      with sys_stepsI(2) [OF a b] Some q sig show ?thesis by (simp add: handle_callback_def)
    next
      case None
      have "sys_step (\<sigma>\<lparr>sys_cluster := c, sys_requests := q # sys_requests \<sigma>,
          sys_cleaning := (if answer = None then CodeState code # sys_cleaning \<sigma> else sys_cleaning \<sigma>)\<rparr>)
          (\<sigma>\<lparr>sys_mapper := snd (mapper_Delete (CodeState code) (sys_mapper \<sigma>)), sys_cluster := c,
            sys_requests := q # sys_requests \<sigma>\<rparr>)"
        using clean [of "CodeState code" "\<sigma>\<lparr>sys_cluster := c, sys_requests := q # sys_requests \<sigma>,
          sys_cleaning := CodeState code # sys_cleaning \<sigma>\<rparr>"] None by (cases \<sigma>) simp
      from sys_stepsI(1) [OF a b this] None q sig show ?thesis by (simp add: handle_callback_def)
    qed
  qed
next
  show "case mapper_Put (RedirectState r) wid (sys_mapper \<sigma>) of
      (Some e, m) \<Rightarrow> m = sys_mapper \<sigma>
    | (None, m) \<Rightarrow>
        (case launch_flow \<lparr>st_rand = rand, st_sha256 = sha, st_start = cluster_start up\<rparr> inp r wid (m, sys_cluster \<sigma>) of
           (res, (m', c)) \<Rightarrow> sys_step\<^sup>*\<^sup>* \<sigma>
             (\<sigma>\<lparr>sys_mapper := m', sys_cluster := c, sys_issued := (RedirectState r, wid) # sys_issued \<sigma>\<rparr>))"
  proof (cases "RedirectState r = []")
    case False
    let ?m = "gm_set (RedirectState r) wid (sys_mapper \<sigma>)"
    obtain answer c where start:
      "cluster_start up wid (TaskQueue inp) (workflow_input inp r) (sys_cluster \<sigma>) = (answer, c)" by (metis prod.exhaust)
    let ?\<tau> = "\<sigma>\<lparr>sys_mapper := ?m, sys_starting := (r, wid, inp) # sys_starting \<sigma>,
      sys_issued := (RedirectState r, wid) # sys_issued \<sigma>\<rparr>"
    let ?\<upsilon> = "\<sigma>\<lparr>sys_mapper := ?m, sys_cluster := c, sys_issued := (RedirectState r, wid) # sys_issued \<sigma>,
      sys_cleaning := (if answer = None then sys_cleaning \<sigma> else RedirectState r # sys_cleaning \<sigma>)\<rparr>"
    have put: "mapper_Put (RedirectState r) wid (sys_mapper \<sigma>) = (None, ?m)" using False by (simp add: mapper_Put_def)
    note a = map_state [OF put, of inp]
    have b: "sys_step ?\<tau> ?\<upsilon>" using execute [of r wid inp ?\<tau> up answer c] start by (cases \<sigma>; cases answer) simp_all
    show ?thesis
    proof (cases answer)
      case None
      have "?\<upsilon> = \<sigma>\<lparr>sys_mapper := ?m, sys_cluster := c, sys_issued := (RedirectState r, wid) # sys_issued \<sigma>\<rparr>"
        using None by simp
      with sys_stepsI(2) [OF a b] None put start show ?thesis by (simp add: launch_flow_def workflow_input_def)
    next
      case (Some e)
      have "sys_step ?\<upsilon> (\<sigma>\<lparr>sys_mapper := snd (mapper_Delete (RedirectState r) ?m), sys_cluster := c,
          sys_issued := (RedirectState r, wid) # sys_issued \<sigma>\<rparr>)"
        using clean [of "RedirectState r" ?\<upsilon>] Some by (cases \<sigma>) simp
      from sys_stepsI(1) [OF a b this] Some put start show ?thesis by (simp add: launch_flow_def workflow_input_def)
    qed
  qed (simp add: mapper_Put_def)
qed


section \<open>What every reachable system keeps\<close>

definition was_issued :: "oauth_system \<Rightarrow> string \<Rightarrow> string \<Rightarrow> bool" where
  "was_issued \<sigma> state wid \<longleftrightarrow> (state, wid) \<in> set (sys_issued \<sigma>)"

definition was_requested :: "oauth_system \<Rightarrow> AuthCode \<Rightarrow> bool" where
  "was_requested \<sigma> code \<longleftrightarrow> (\<exists>q\<in>set (sys_requests \<sigma>). ParseCallback q = Inr code)"

definition sys_inv :: "oauth_system \<Rightarrow> bool" where
  "sys_inv \<sigma> \<longleftrightarrow>
     (\<forall>state wid. mapper_Get state (sys_mapper \<sigma>) = Some wid \<longrightarrow> was_issued \<sigma> state wid) \<and>
     (\<forall>(r, wid, inp)\<in>set (sys_starting \<sigma>). was_issued \<sigma> (RedirectState r) wid) \<and>
     (\<forall>(code, wid)\<in>set (sys_calling \<sigma>). was_issued \<sigma> (CodeState code) wid \<and> was_requested \<sigma> code) \<and>
     (\<forall>(wid, code)\<in>set (Inbox (sys_cluster \<sigma>)). was_issued \<sigma> (CodeState code) wid \<and> was_requested \<sigma> code) \<and>
     (\<forall>(wid, inp)\<in>set (Started (sys_cluster \<sigma>)). was_issued \<sigma> (FlowState inp) wid) \<and>
     (\<forall>wid inp. gm_get (Runs (sys_cluster \<sigma>)) wid = Some inp \<longrightarrow> (wid, inp) \<in> set (Started (sys_cluster \<sigma>)))"

lemma in_remove1: "x \<in> set (remove1 y xs) \<Longrightarrow> x \<in> set xs"
  using set_remove1_subset [of y xs] by blast

lemma issued_once:
  "distinct (map snd (sys_issued \<sigma>)) \<Longrightarrow> was_issued \<sigma> s wid \<Longrightarrow> was_issued \<sigma> s' wid \<Longrightarrow> s = s'"
  by (force simp: was_issued_def distinct_map inj_on_def)

lemma sys_inv_initial: "sys_inv initial_system"
  by (simp add: sys_inv_def initial_system_def empty_cluster_def NewMemoryStateMapper_def mapper_Get_def gm_get_def)

lemma sys_inv_step: "sys_step \<sigma> \<tau> \<Longrightarrow> sys_inv \<sigma> \<Longrightarrow> sys_inv \<tau>"
proof (induction rule: sys_step.induct)
  case (map_state r wid \<sigma> m inp)
  then show ?case by (auto simp: sys_inv_def was_issued_def was_requested_def mapper_Put_def mapper_Get_def split: if_splits)
next
  case (execute r wid inp \<sigma> up answer c)
  then have "was_issued \<sigma> (RedirectState r) wid" by (force simp: sys_inv_def)
  with execute show ?case
    by (auto simp: sys_inv_def was_issued_def was_requested_def cluster_start_def workflow_input_def
        dest: in_remove1 split: if_splits)
next
  case (clean state \<sigma>)
  then show ?case by (auto simp: sys_inv_def was_issued_def was_requested_def mapper_Delete_def mapper_Get_def split: if_splits)
next
  case (look_up q code \<sigma> wid)
  then show ?case by (auto simp: sys_inv_def was_issued_def was_requested_def)
next
  case (refuse q \<sigma>)
  then show ?case by (auto simp: sys_inv_def was_issued_def was_requested_def)
next
  case (signal code wid \<sigma> up answer c)
  then have "was_issued \<sigma> (CodeState code) wid \<and> was_requested \<sigma> code" by (force simp: sys_inv_def)
  with signal show ?case
    by (auto simp: sys_inv_def was_issued_def was_requested_def cluster_signal_def
        dest: in_remove1 split: if_splits)
next
  case (run_ends \<sigma> wid)
  then show ?case by (auto simp: sys_inv_def was_issued_def was_requested_def split: if_splits)
qed

lemma reachable_inv: "reachable_system \<sigma> \<Longrightarrow> sys_inv \<sigma>"
  unfolding reachable_system_def
  by (induction rule: rtranclp_induct) (auto simp: sys_inv_initial sys_inv_step)


text \<open>
  C20: no forged callback ever reaches a workflow. In every system that any interleaving of starts,
  callbacks and cluster failures reaches, a code delivered to a workflow came in the query of a callback
  whose state had been issued for exactly that workflow; and when no workflow identifier was issued
  twice, that state is the one the workflow was started with.
\<close>

theorem delivered_code_was_issued:
  assumes "reachable_system \<sigma>" "(wid, code) \<in> set (Inbox (sys_cluster \<sigma>))"
  shows "was_issued \<sigma> (CodeState code) wid \<and> (\<exists>q\<in>set (sys_requests \<sigma>). ParseCallback q = Inr code) \<and>
    (distinct (map snd (sys_issued \<sigma>)) \<longrightarrow>
      (\<forall>inp. (wid, inp) \<in> set (Started (sys_cluster \<sigma>)) \<longrightarrow> FlowState inp = CodeState code))"
proof -
  have inv: "was_issued \<sigma> (CodeState code) wid" "was_requested \<sigma> code"
    "\<And>inp. (wid, inp) \<in> set (Started (sys_cluster \<sigma>)) \<Longrightarrow> was_issued \<sigma> (FlowState inp) wid"
    using reachable_inv [OF assms(1)] assms(2) by (force simp: sys_inv_def)+
  with issued_once show ?thesis unfolding was_requested_def by blast
qed

text \<open>
  C21: a session is only ever made from a callback to its own workflow: when a workflow that was started
  in a reachable system waits for its inbox and returns a session, the code it exchanged came in the
  query of a callback, with the very state that was issued to this workflow; and with distinct
  workflow identifiers no callback is ever rejected for its state.
\<close>

theorem session_from_own_callback:
  assumes "reachable_system \<sigma>" "(wid, inp) \<in> set (Started (sys_cluster \<sigma>))"
    and "fe_select env (callback_timeout inp) s = (answer, s1)"
    and "\<And>code. answer = Some code \<Longrightarrow> (wid, code) \<in> set (Inbox (sys_cluster \<sigma>))"
    and "OAuthFlowWorkflow env inp s = (r, (status, s'))"
  shows "(case r of
      Inr ses \<Rightarrow> \<exists>q\<in>set (sys_requests \<sigma>). \<exists>code s2. ParseCallback q = Inr code \<and> CodeState code = FlowState inp \<and>
        was_issued \<sigma> (FlowState inp) wid \<and>
        fe_exchange env \<lparr>EAProvider = FlowProvider inp, EACode = code, EACodeVerifier = FlowVerifier inp,
          EARedirectURI = FlowRedirect inp\<rparr> s1 = (Inr (SessionToken ses), s2)
    | Inl e \<Rightarrow> distinct (map snd (sys_issued \<sigma>)) \<longrightarrow>
        e \<noteq> Application ''CSRFViolation'' ''oauth: callback state does not match request state'')"
proof -
  note inv = reachable_inv [OF assms(1)]
  have start: "was_issued \<sigma> (FlowState inp) wid" using inv assms(2) by (force simp: sys_inv_def)
  have inbox: "was_issued \<sigma> (CodeState code) wid" "was_requested \<sigma> code" if "answer = Some code" for code
    using inv assms(4) [OF that] by (force simp: sys_inv_def)+
  show ?thesis
  proof (cases r)
    case (Inr ses)
    from OAuthFlowWorkflow_Inr [OF assms(5) [unfolded Inr]] assms(3)
    obtain code s2 where c: "answer = Some code" "CodeState code = FlowState inp"
      "fe_exchange env \<lparr>EAProvider = FlowProvider inp, EACode = code, EACodeVerifier = FlowVerifier inp,
          EARedirectURI = FlowRedirect inp\<rparr> s1 = (Inr (SessionToken ses), s2)" by auto
    with inbox [OF c(1)] start show ?thesis unfolding Inr by (auto simp: was_requested_def)
  next
    case (Inl e)
    have "FlowState inp = CodeState code" if "answer = Some code" "distinct (map snd (sys_issued \<sigma>))" for code
      using issued_once [OF that(2) start inbox(1) [OF that(1)]] .
    with OAuthFlowWorkflow_CSRF [of env inp s _ s'] assms(3,5) show ?thesis
      unfolding Inl by (cases answer) force+
  qed
qed


section \<open>A concrete run\<close>

text \<open>
  A state is mapped, its workflow started, and the same redirect arrives twice at once: both callbacks
  look up the workflow before either removes the mapping, so both signals are delivered.
\<close>

definition demo_redirect :: AuthorizeRedirect where
  "demo_redirect = \<lparr>RedirectURL = ''http://idp'', RedirectState = ''s1'', RedirectVerifier = ''v''\<rparr>"

definition demo_code :: AuthCode where
  "demo_code = \<lparr>CodeValue = ''c1'', CodeState = ''s1''\<rparr>"

definition demo_query :: string where
  "demo_query = encode_query [(''code'', ''c1''), (''state'', ''s1'')]"

lemma demo_query_parse: "ParseCallback demo_query = Inr demo_code"
  by (simp add: demo_query_def demo_code_def ParseCallback_redirect)

definition demo_system :: oauth_system where
  "demo_system = \<lparr>sys_mapper = [(''s1'', ''w'')],
     sys_cluster = \<lparr>Runs = [(''w'', workflow_input demo_start demo_redirect)],
       Started = [(''w'', workflow_input demo_start demo_redirect)],
       Inbox = [(''w'', demo_code), (''w'', demo_code)]\<rparr>,
     sys_starting = [], sys_cleaning = [''s1'', ''s1''], sys_calling = [], sys_issued = [(''s1'', ''w'')],
     sys_requests = [demo_query, demo_query]\<rparr>"

lemma duplicate_callback_delivered: "reachable_system demo_system"
proof -
  let ?i = "workflow_input demo_start demo_redirect"
  let ?up = "\<lparr>Runs = [(''w'', ?i)], Started = [(''w'', ?i)], Inbox = []\<rparr>"
  let ?s1 = "initial_system\<lparr>sys_mapper := [(''s1'', ''w'')], sys_starting := [(demo_redirect, ''w'', demo_start)],
    sys_issued := [(''s1'', ''w'')]\<rparr>"
  let ?s2 = "?s1\<lparr>sys_cluster := ?up, sys_starting := []\<rparr>"
  let ?s3 = "?s2\<lparr>sys_calling := [(demo_code, ''w'')], sys_requests := [demo_query]\<rparr>"
  let ?s4 = "?s3\<lparr>sys_calling := [(demo_code, ''w''), (demo_code, ''w'')], sys_requests := [demo_query, demo_query]\<rparr>"
  let ?s5 = "?s4\<lparr>sys_cluster := ?up\<lparr>Inbox := [(''w'', demo_code)]\<rparr>, sys_calling := [(demo_code, ''w'')],
    sys_cleaning := [''s1'']\<rparr>"
  note defs = initial_system_def empty_cluster_def NewMemoryStateMapper_def demo_redirect_def demo_code_def gm_set_def gm_get_def
  have a: "sys_step initial_system ?s1"
    using map_state [of demo_redirect "''w''" initial_system "[(''s1'', ''w'')]" demo_start]
    by (simp add: mapper_Put_def defs)
  have b: "sys_step ?s1 ?s2"
    using execute [of demo_redirect "''w''" demo_start ?s1 True None ?up] by (simp add: cluster_start_def defs)
  have c: "sys_step ?s2 ?s3"
    using look_up [OF demo_query_parse, of ?s2 "''w''"] by (simp add: mapper_Get_def defs)
  have d: "sys_step ?s3 ?s4"
    using look_up [OF demo_query_parse, of ?s3 "''w''"] by (simp add: mapper_Get_def defs)
  have e: "sys_step ?s4 ?s5"
    using signal [of demo_code "''w''" ?s4 True None "?up\<lparr>Inbox := [(''w'', demo_code)]\<rparr>"]
    by (simp add: cluster_signal_def defs)
  have f: "sys_step ?s5 demo_system"
    using signal [of demo_code "''w''" ?s5 True None "?up\<lparr>Inbox := [(''w'', demo_code), (''w'', demo_code)]\<rparr>"]
    by (simp add: cluster_signal_def demo_system_def defs)
  show ?thesis
    unfolding reachable_system_def using a b c d e f by (meson converse_rtranclp_into_rtranclp rtranclp.rtrancl_refl)
qed


theorem delivered_code_was_issued_witness:
  "was_issued demo_system (CodeState demo_code) ''w'' \<and> (''w'', demo_code) \<in> set (Inbox (sys_cluster demo_system)) \<and>
   FlowState (workflow_input demo_start demo_redirect) = CodeState demo_code"
proof -
  have i: "(''w'', demo_code) \<in> set (Inbox (sys_cluster demo_system))"
    and s: "(''w'', workflow_input demo_start demo_redirect) \<in> set (Started (sys_cluster demo_system))"
    and d: "distinct (map snd (sys_issued demo_system))"
    by (simp_all add: demo_system_def)
  from delivered_code_was_issued [OF duplicate_callback_delivered i] i s d show ?thesis by blast
qed

lemma demo_workflow_input: "workflow_input demo_start demo_redirect = demo_input"
  by (simp add: workflow_input_def demo_start_def demo_redirect_def demo_input_def)

theorem session_from_own_callback_witness:
  "\<exists>ses status s' s2. OAuthFlowWorkflow (demo_env (Some demo_code)) demo_input ([], 0) = (Inr ses, (status, s')) \<and>
     (\<exists>q\<in>set (sys_requests demo_system). ParseCallback q = Inr demo_code) \<and>
     activity_Exchange demo_activities \<lparr>EAProvider = ''okta'', EACode = demo_code, EACodeVerifier = ''v'',
       EARedirectURI = ''u''\<rparr> ([], 0) = (Inr (SessionToken ses), s2)"
proof -
  obtain ses status s' where run: "OAuthFlowWorkflow (demo_env (Some demo_code)) demo_input ([], 0) = (Inr ses, (status, s'))"
    using demo_session by (auto simp: demo_code_def split: prod.splits sum.splits)
  have s: "(''w'', demo_input) \<in> set (Started (sys_cluster demo_system))"
    by (simp add: demo_system_def demo_workflow_input)
  have sel: "fe_select (demo_env (Some demo_code)) (callback_timeout demo_input) ([], 0) = (Some demo_code, ([], 0))"
    by (simp add: demo_env_def direct_env_def)
  have inbox: "code = demo_code \<Longrightarrow> (''w'', code) \<in> set (Inbox (sys_cluster demo_system))" for code
    by (simp add: demo_system_def)
  from session_from_own_callback [OF duplicate_callback_delivered s sel _ run] inbox
  have "\<exists>q\<in>set (sys_requests demo_system). \<exists>code s2. ParseCallback q = Inr code \<and>
      activity_Exchange demo_activities \<lparr>EAProvider = ''okta'', EACode = code, EACodeVerifier = ''v'',
        EARedirectURI = ''u''\<rparr> ([], 0) = (Inr (SessionToken ses), s2)"
    by (auto simp: demo_env_def direct_env_def demo_input_def)
  moreover have "\<forall>q\<in>set (sys_requests demo_system). q = demo_query" by (simp add: demo_system_def)
  ultimately obtain s2 where "demo_query \<in> set (sys_requests demo_system)"
    "activity_Exchange demo_activities \<lparr>EAProvider = ''okta'', EACode = demo_code, EACodeVerifier = ''v'',
        EARedirectURI = ''u''\<rparr> ([], 0) = (Inr (SessionToken ses), s2)"
    using demo_query_parse by auto
  with run demo_query_parse show ?thesis by blast
qed

end
