(* ===== verification/Channels.thy ===== *)
theory Channels
  imports Registries Go_Strings
begin

text \<open>
  Package channels (\<^verbatim>\<open>types.go\<close>, \<^verbatim>\<open>channels.go\<close>): the messages an agent posts, the channels that post
  them and wait for a human verdict, and the dispatcher that routes a message to channels and races
  the waits of its receipts.

  A channel's functions and an identity resolver run in the world \<open>'w\<close>; a nil function is \<open>None\<close>. Routers are
  pure, as their documentation demands.
\<close>

section \<open>Messages, receipts and verdicts\<close>

type_synonym Severity = string

definition SeverityInfo :: Severity where "SeverityInfo = ''INFO''"
definition SeverityLow :: Severity where "SeverityLow = ''LOW''"
definition SeverityMedium :: Severity where "SeverityMedium = ''MEDIUM''"
definition SeverityHigh :: Severity where "SeverityHigh = ''HIGH''"
definition SeverityCritical :: Severity where "SeverityCritical = ''CRITICAL''"

record Subject =
  SubjectKind :: string
  SubjectID :: string

record Evidence =
  EvidenceKind :: string
  EvidenceDescription :: string
  EvidenceLocation :: string

record Action =
  ActionID :: string
  ActionLabel :: string
  ActionStyle :: string

record Link =
  LinkLabel :: string
  LinkURL :: string

record WorkflowRef =
  RefWorkflowID :: string
  RefRunID :: string
  RefTraceURL :: string

record Message =
  MessageSubject :: Subject
  MessageTitle :: string
  MessageBody :: string
  MessageSeverity :: Severity
  MessageEvidence :: "Evidence list"
  MessageActions :: "Action list"
  MessageLinks :: "Link list"
  MessageRef :: WorkflowRef
  MessageMetadata :: "(string, string) gomap option"

record Receipt =
  ReceiptChannel :: string
  ReceiptTarget :: string
  ReceiptNative :: string
  ReceiptMeta :: "(string, string) gomap option"

record ActorIdentity =
  ActorCanonical :: string
  ActorDisplayName :: string
  ActorEmail :: string
  ActorSource :: string
  ActorRaw :: "(string, string) gomap option"

datatype raw_value = RawText string | RawInt int | RawTexts "string list"

record HumanVerdict =
  Choice :: string
  VerdictActor :: ActorIdentity
  VerdictChannel :: string
  VerdictAt :: int
  VerdictRaw :: "(string, raw_value) gomap option"

record AwaitOpts =
  AwaitTimeout :: int
  AwaitOptions :: "string list"

definition no_actor :: ActorIdentity where
  "no_actor = \<lparr>ActorCanonical = [], ActorDisplayName = [], ActorEmail = [], ActorSource = [], ActorRaw = None\<rparr>"

definition no_verdict :: HumanVerdict where
  "no_verdict = \<lparr>Choice = [], VerdictActor = no_actor, VerdictChannel = [], VerdictAt = 0, VerdictRaw = None\<rparr>"

section \<open>Errors and channels\<close>

datatype chan_error =
    ErrTimeout
  | ErrNotSupported
  | ErrNoTarget
  | ChanFailure string
  | ChanContext string
  | ChanWrapped string chan_error

fun chan_error_text :: "chan_error \<Rightarrow> string" where
  "chan_error_text ErrTimeout = ''channels: await timed out before verdict''"
| "chan_error_text ErrNotSupported = ''channels: capability not supported''"
| "chan_error_text ErrNoTarget = ''channels: no route for message''"
| "chan_error_text (ChanFailure s) = s"
| "chan_error_text (ChanContext s) = s"
| "chan_error_text (ChanWrapped s e) = s @ '': '' @ chan_error_text e"

record 'w Channel =
  ChannelName :: string
  ChannelNotify :: "(string \<Rightarrow> Message \<Rightarrow> 'w \<Rightarrow> (chan_error + Receipt) \<times> 'w) option"
  ChannelAwait :: "(Receipt list \<Rightarrow> AwaitOpts \<Rightarrow> 'w \<Rightarrow> (chan_error + HumanVerdict) \<times> 'w) option"

record Target =
  TargetChannel :: string
  TargetTarget :: string

record PostResult =
  PostReceipts :: "Receipt list"
  PostErrors :: "string list"

type_synonym Router = "string list \<Rightarrow> Message \<Rightarrow> chan_error + Target list"

type_synonym 'w IdentityResolver =
  "string \<Rightarrow> string \<Rightarrow> (string, string) gomap option \<Rightarrow> 'w \<Rightarrow> (chan_error + ActorIdentity) \<times> 'w"

definition raw_get :: "(string, string) gomap option \<Rightarrow> string \<Rightarrow> string" where
  "raw_get raw k = (case raw of None \<Rightarrow> [] | Some m \<Rightarrow> (case gm_get m k of None \<Rightarrow> [] | Some v \<Rightarrow> v))"

definition PassthroughResolver :: "'w IdentityResolver" where
  "PassthroughResolver channel nativeID raw w =
     (Inr \<lparr>ActorCanonical = channel @ '':'' @ nativeID, ActorDisplayName = raw_get raw ''display_name'',
        ActorEmail = raw_get raw ''email'', ActorSource = ''passthrough'', ActorRaw = raw\<rparr>, w)"

section \<open>Routers\<close>

definition FixedRouter :: "string \<Rightarrow> string \<Rightarrow> Router" where
  "FixedRouter channel target names msg = Inr [\<lparr>TargetChannel = channel, TargetTarget = target\<rparr>]"

definition SeverityRouter :: "string \<Rightarrow> (Severity, string) gomap \<Rightarrow> Router" where
  "SeverityRouter channel byLevel names msg =
     (case gm_get byLevel (MessageSeverity msg) of
        None \<Rightarrow> Inr []
      | Some target \<Rightarrow> Inr [\<lparr>TargetChannel = channel, TargetTarget = target\<rparr>])"

fun multi_route :: "Router list \<Rightarrow> string list \<Rightarrow> Message \<Rightarrow> Target list \<Rightarrow> chan_error + Target list" where
  "multi_route [] names msg out = Inr out"
| "multi_route (r # rs) names msg out =
     (case r names msg of Inl e \<Rightarrow> Inl e | Inr ts \<Rightarrow> multi_route rs names msg (out @ ts))"

definition MultiRouter :: "Router list \<Rightarrow> Router" where
  "MultiRouter rs names msg = multi_route rs names msg []"

section \<open>Building a dispatcher\<close>

record 'w Dispatcher =
  DispatcherChannels :: "(string, 'w Channel) gomap"
  DispatcherRouter :: "Router option"
  DispatcherResolver :: "'w IdentityResolver option"

type_synonym 'w Option = "'w Dispatcher \<Rightarrow> chan_error option \<times> 'w Dispatcher"

definition WithChannel :: "'w Channel \<Rightarrow> 'w Option" where
  "WithChannel c d =
     (if ChannelName c = [] then (Some (ChanFailure ''channels.WithChannel: Channel.Name is required''), d)
      else if gm_get (DispatcherChannels d) (ChannelName c) \<noteq> None
      then (Some (ChanFailure (''channels.WithChannel: duplicate channel name '' @ quoted (ChannelName c))), d)
      else (None, d\<lparr>DispatcherChannels := gm_set (ChannelName c) c (DispatcherChannels d)\<rparr>))"

definition WithRouter :: "Router option \<Rightarrow> 'w Option" where
  "WithRouter r d =
     (if r = None then (Some (ChanFailure ''channels.WithRouter: router cannot be nil''), d)
      else (None, d\<lparr>DispatcherRouter := r\<rparr>))"

definition WithIdentityResolver :: "'w IdentityResolver option \<Rightarrow> 'w Option" where
  "WithIdentityResolver r d = (None, d\<lparr>DispatcherResolver := r\<rparr>)"

fun apply_options :: "'w Option list \<Rightarrow> 'w Dispatcher \<Rightarrow> chan_error + 'w Dispatcher" where
  "apply_options [] d = Inr d"
| "apply_options (opt # opts) d =
     (case opt d of (Some e, d') \<Rightarrow> Inl e | (None, d') \<Rightarrow> apply_options opts d')"

definition empty_dispatcher :: "'w Dispatcher" where
  "empty_dispatcher = \<lparr>DispatcherChannels = [], DispatcherRouter = None, DispatcherResolver = Some PassthroughResolver\<rparr>"

definition New_dispatcher :: "'w Option list \<Rightarrow> chan_error + 'w Dispatcher" where
  "New_dispatcher opts =
     (case apply_options opts empty_dispatcher of
        Inl e \<Rightarrow> Inl e
      | Inr d \<Rightarrow>
          if DispatcherChannels d = [] then Inl (ChanFailure ''channels.New: at least one channel must be registered'')
          else if DispatcherRouter d = None
          then Inl (ChanFailure ''channels.New: a router must be set with WithRouter(...)'')
          else Inr d)"

definition channelNames :: "(string list \<Rightarrow> string list) \<Rightarrow> 'w Dispatcher \<Rightarrow> string list" where
  "channelNames \<rho> d = \<rho> (gm_keys (DispatcherChannels d))"

section \<open>Posting\<close>

fun notify_targets :: "(string, 'w Channel) gomap \<Rightarrow> Message \<Rightarrow> Target list \<Rightarrow> Receipt list \<Rightarrow> string list \<Rightarrow>
    'w \<Rightarrow> PostResult \<times> 'w" where
  "notify_targets chans msg [] receipts errs w = (\<lparr>PostReceipts = receipts, PostErrors = errs\<rparr>, w)"
| "notify_targets chans msg (t # ts) receipts errs w =
     (case gm_get chans (TargetChannel t) of
        None \<Rightarrow> notify_targets chans msg ts receipts (errs @ [TargetChannel t @ '': unknown channel'']) w
      | Some ch \<Rightarrow>
          (case ChannelNotify ch of
             None \<Rightarrow> notify_targets chans msg ts receipts
               (errs @ [TargetChannel t @ '': '' @ chan_error_text ErrNotSupported]) w
           | Some post \<Rightarrow>
               (case post (TargetTarget t) msg w of
                  (Inl e, w') \<Rightarrow> notify_targets chans msg ts receipts
                    (errs @ [TargetChannel t @ '': '' @ chan_error_text e]) w'
                | (Inr r, w') \<Rightarrow> notify_targets chans msg ts (receipts @ [r]) errs w')))"

text \<open>A nil router is called only by a dispatcher that \<open>New_dispatcher\<close> did not build.\<close>

definition Notify :: "(string list \<Rightarrow> string list) \<Rightarrow> 'w Dispatcher \<Rightarrow> Message \<Rightarrow> 'w \<Rightarrow> (chan_error + PostResult) \<times> 'w" where
  "Notify \<rho> d msg w =
     (case DispatcherRouter d of
        None \<Rightarrow> (Inl (ChanFailure ''panic: nil router''), w)
      | Some router \<Rightarrow>
          (case router (channelNames \<rho> d) msg of
             Inl e \<Rightarrow> (Inl (ChanWrapped ''router'' e), w)
           | Inr targets \<Rightarrow>
               if targets = [] then (Inl ErrNoTarget, w)
               else (case notify_targets (DispatcherChannels d) msg targets [] [] w of (res, w') \<Rightarrow> (Inr res, w'))))"

section \<open>Waiting\<close>

datatype await_outcome = Answered HumanVerdict | AwaitFailed chan_error | AwaitPanic string | AwaitBlocked

definition normalize :: "'w Dispatcher \<Rightarrow> HumanVerdict \<Rightarrow> 'w \<Rightarrow> await_outcome \<times> 'w" where
  "normalize d v w =
     (if ActorCanonical (VerdictActor v) \<noteq> [] then (Answered v, w)
      else (case DispatcherResolver d of
              None \<Rightarrow> (AwaitPanic ''nil resolver'', w)
            | Some resolve \<Rightarrow>
                (case resolve (VerdictChannel v) (ActorCanonical (VerdictActor v)) (ActorRaw (VerdictActor v)) w of
                   (Inl e, w') \<Rightarrow> (Answered v, w')
                 | (Inr actor, w') \<Rightarrow> (Answered (v\<lparr>VerdictActor := actor\<rparr>), w'))))"

definition group_receipts :: "Receipt list \<Rightarrow> (string, Receipt list) gomap" where
  "group_receipts receipts = foldl (\<lambda>g r. gm_set (ReceiptChannel r)
     ((case gm_get g (ReceiptChannel r) of None \<Rightarrow> [] | Some rs \<Rightarrow> rs) @ [r]) g) [] receipts"

text \<open>
  The waiters of several channels run concurrently. \<open>race ws opts w\<close> is what the select loop receives:
  the results in the order in which they arrive, and possibly the end of the context.
\<close>

datatype race_event = ContextDone string | Arrives "chan_error + HumanVerdict"

type_synonym 'w race = "(string \<times> Receipt list) list \<Rightarrow> AwaitOpts \<Rightarrow> 'w \<Rightarrow> race_event list \<times> 'w"

fun race_loop :: "'w Dispatcher \<Rightarrow> nat \<Rightarrow> nat \<Rightarrow> race_event list \<Rightarrow> nat \<Rightarrow> 'w \<Rightarrow> await_outcome \<times> 'w" where
  "race_loop d expected 0 events timeouts w =
     (if timeouts = expected then (AwaitFailed ErrTimeout, w)
      else (AwaitFailed (ChanFailure ''channels.Await: all waiters failed without verdict''), w))"
| "race_loop d expected (Suc n) [] timeouts w = (AwaitBlocked, w)"
| "race_loop d expected (Suc n) (ContextDone e # events) timeouts w = (AwaitFailed (ChanContext e), w)"
| "race_loop d expected (Suc n) (Arrives r # events) timeouts w =
     (case r of
        Inr v \<Rightarrow> if Choice v \<noteq> [] then normalize d v w else race_loop d expected n events timeouts w
      | Inl e \<Rightarrow> race_loop d expected n events (if e = ErrTimeout then timeouts + 1 else timeouts) w)"

definition can_wait :: "'w Dispatcher \<Rightarrow> string \<Rightarrow> bool" where
  "can_wait d name = (case gm_get (DispatcherChannels d) name of None \<Rightarrow> False | Some ch \<Rightarrow> ChannelAwait ch \<noteq> None)"

text \<open>\<open>gs\<close> are the groups in the order in which the loop over the map takes them.\<close>

definition await_race :: "'w race \<Rightarrow> 'w Dispatcher \<Rightarrow> (string \<times> Receipt list) list \<Rightarrow> AwaitOpts \<Rightarrow> 'w \<Rightarrow> await_outcome \<times> 'w" where
  "await_race race d gs opts w =
     (let known = takeWhile (\<lambda>(name, _). gm_get (DispatcherChannels d) name \<noteq> None) gs;
          waiters = filter (\<lambda>(name, _). can_wait d name) known
      in case race waiters opts w of (events, w') \<Rightarrow>
           if length known < length gs then (AwaitFailed (ChanFailure (''channels.Await: unknown channel '' @ quoted (fst (gs ! length known)))), w')
           else race_loop d (length waiters) (length waiters) events 0 w')"

definition Await :: "'w race \<Rightarrow> (string list \<Rightarrow> string list) \<Rightarrow> 'w Dispatcher \<Rightarrow> Receipt list \<Rightarrow> AwaitOpts \<Rightarrow>
    'w \<Rightarrow> await_outcome \<times> 'w" where
  "Await race \<rho> d receipts opts w =
     (if receipts = [] then (AwaitFailed (ChanFailure ''channels.Await: no receipts provided''), w)
      else (case map (\<lambda>name. (name, the (gm_get (group_receipts receipts) name))) (\<rho> (gm_keys (group_receipts receipts))) of
              [(name, rs)] \<Rightarrow>
                (case gm_get (DispatcherChannels d) name of
                   None \<Rightarrow> (AwaitFailed (ChanFailure (''channels.Await: unknown channel '' @ quoted name)), w)
                 | Some ch \<Rightarrow>
                     (case ChannelAwait ch of
                        None \<Rightarrow> (AwaitFailed (ChanWrapped (''channels.Await: channel '' @ quoted name) ErrNotSupported), w)
                      | Some wait \<Rightarrow>
                          (case wait rs opts w of
                             (Inl e, w') \<Rightarrow> (AwaitFailed e, w')
                           | (Inr v, w') \<Rightarrow> normalize d v w')))
            | gs \<Rightarrow> await_race race d gs opts w))"

section \<open>Building a dispatcher\<close>

text \<open>Registering channels follows the contract of the name registries.\<close>

interpretation dispatcher_channels: name_registry empty_dispatcher
  "\<lambda>c d. (fst (WithChannel c d) = None, snd (WithChannel c d))"
  "\<lambda>d. gm_get (DispatcherChannels d)" ChannelName "\<lambda>c. True"
  by unfold_locales (auto simp: empty_dispatcher_def WithChannel_def split: if_splits)

text \<open>The options of the package, as data.\<close>

datatype 'w setting = SetChannel "'w Channel" | SetRouter "Router option" | SetResolver "'w IdentityResolver option"

fun option_of :: "'w setting \<Rightarrow> 'w Option" where
  "option_of (SetChannel c) = WithChannel c"
| "option_of (SetRouter r) = WithRouter r"
| "option_of (SetResolver r) = WithIdentityResolver r"

definition set_channels :: "'w setting list \<Rightarrow> 'w Channel list" where
  "set_channels ss = concat (map (\<lambda>s. case s of SetChannel c \<Rightarrow> [c] | _ \<Rightarrow> []) ss)"

definition set_routers :: "'w setting list \<Rightarrow> Router option list" where
  "set_routers ss = concat (map (\<lambda>s. case s of SetRouter r \<Rightarrow> [r] | _ \<Rightarrow> []) ss)"

definition set_resolvers :: "'w setting list \<Rightarrow> 'w IdentityResolver option list" where
  "set_resolvers ss = concat (map (\<lambda>s. case s of SetResolver r \<Rightarrow> [r] | _ \<Rightarrow> []) ss)"

lemma settings_simps [simp]:
  "set_channels [] = []" "set_routers [] = []" "set_resolvers [] = []"
  "set_channels (SetChannel c # ss) = c # set_channels ss" "set_channels (SetRouter r # ss) = set_channels ss"
  "set_channels (SetResolver i # ss) = set_channels ss" "set_routers (SetChannel c # ss) = set_routers ss"
  "set_routers (SetRouter r # ss) = r # set_routers ss" "set_routers (SetResolver i # ss) = set_routers ss"
  "set_resolvers (SetChannel c # ss) = set_resolvers ss" "set_resolvers (SetRouter r # ss) = set_resolvers ss"
  "set_resolvers (SetResolver i # ss) = i # set_resolvers ss"
  by (simp_all add: set_channels_def set_routers_def set_resolvers_def)

lemma gm_set_fresh: "gm_get m k = None \<Longrightarrow> gm_set k v m = m @ [(k, v)]"
  by (induction m) (auto simp: gm_set_def gm_get_def split: if_splits)

definition accepted_settings :: "'w setting list \<Rightarrow> 'w Dispatcher \<Rightarrow> bool" where
  "accepted_settings ss d \<longleftrightarrow> distinct (map ChannelName (set_channels ss)) \<and> None \<notin> set (set_routers ss) \<and>
     (\<forall>c\<in>set (set_channels ss). ChannelName c \<noteq> [] \<and> gm_get (DispatcherChannels d) (ChannelName c) = None)"

definition settings_applied :: "'w setting list \<Rightarrow> 'w Dispatcher \<Rightarrow> 'w Dispatcher" where
  "settings_applied ss d =
     \<lparr>DispatcherChannels = DispatcherChannels d @ map (\<lambda>c. (ChannelName c, c)) (set_channels ss),
      DispatcherRouter = last (DispatcherRouter d # set_routers ss),
      DispatcherResolver = last (DispatcherResolver d # set_resolvers ss)\<rparr>"

lemma apply_options_settings:
  "(\<exists>d'. apply_options (map option_of ss) d = Inr d') = accepted_settings ss d \<and>
   (\<forall>d'. apply_options (map option_of ss) d = Inr d' \<longrightarrow> d' = settings_applied ss d)"
proof (induction ss arbitrary: d)
  case Nil
  then show ?case by (simp add: accepted_settings_def settings_applied_def)
next
  case (Cons s ss)
  show ?case
  proof (cases s)
    case (SetChannel c)
    show ?thesis
    proof (cases "ChannelName c = [] \<or> gm_get (DispatcherChannels d) (ChannelName c) \<noteq> None")
      case True
      then show ?thesis using SetChannel by (auto simp: WithChannel_def accepted_settings_def)
    next
      case False
      let ?d = "d\<lparr>DispatcherChannels := gm_set (ChannelName c) c (DispatcherChannels d)\<rparr>"
      have "accepted_settings (s # ss) d = accepted_settings ss ?d"
        using False SetChannel by (auto simp: accepted_settings_def) (metis imageI)
      moreover have "settings_applied (s # ss) d = settings_applied ss ?d"
        using False SetChannel by (simp add: settings_applied_def gm_set_fresh)
      moreover have "WithChannel c d = (None, ?d)" using False by (simp add: WithChannel_def)
      ultimately show ?thesis using Cons.IH [of ?d] SetChannel by simp
    qed
  next
    case (SetRouter r)
    have "accepted_settings (s # ss) d = (r \<noteq> None \<and> accepted_settings ss (d\<lparr>DispatcherRouter := r\<rparr>))"
      using SetRouter by (cases r) (auto simp: accepted_settings_def)
    moreover have "settings_applied (s # ss) d = settings_applied ss (d\<lparr>DispatcherRouter := r\<rparr>)"
      using SetRouter by (simp add: settings_applied_def)
    ultimately show ?thesis
      using Cons.IH [of "d\<lparr>DispatcherRouter := r\<rparr>"] SetRouter by (cases r) (simp_all add: WithRouter_def)
  next
    case (SetResolver r)
    have "accepted_settings (s # ss) d = accepted_settings ss (d\<lparr>DispatcherResolver := r\<rparr>)"
      using SetResolver by (auto simp: accepted_settings_def)
    moreover have "settings_applied (s # ss) d = settings_applied ss (d\<lparr>DispatcherResolver := r\<rparr>)"
      using SetResolver by (simp add: settings_applied_def)
    ultimately show ?thesis
      using Cons.IH [of "d\<lparr>DispatcherResolver := r\<rparr>"] SetResolver by (simp add: WithIdentityResolver_def)
  qed
qed

text \<open>
  A dispatcher is built exactly when every channel has a name of its own, no router is nil, and
  there are a channel and a router; it then has exactly the channels given, under their names, the
  last router and the last resolver.
\<close>

theorem New_dispatcher_iff:
  "New_dispatcher (map option_of ss) = Inr d \<longleftrightarrow>
     set_channels ss \<noteq> [] \<and> set_routers ss \<noteq> [] \<and> distinct (map ChannelName (set_channels ss)) \<and>
     [] \<notin> ChannelName ` set (set_channels ss) \<and> None \<notin> set (set_routers ss) \<and>
     d = \<lparr>DispatcherChannels = map (\<lambda>c. (ChannelName c, c)) (set_channels ss),
          DispatcherRouter = last (set_routers ss),
          DispatcherResolver = last (Some PassthroughResolver # set_resolvers ss)\<rparr>"
proof -
  have app: "settings_applied ss empty_dispatcher =
      \<lparr>DispatcherChannels = map (\<lambda>c. (ChannelName c, c)) (set_channels ss),
       DispatcherRouter = last (None # set_routers ss),
       DispatcherResolver = last (Some PassthroughResolver # set_resolvers ss)\<rparr>"
    by (simp add: settings_applied_def empty_dispatcher_def)
  have acc: "accepted_settings ss empty_dispatcher \<longleftrightarrow> distinct (map ChannelName (set_channels ss)) \<and>
      None \<notin> set (set_routers ss) \<and> [] \<notin> ChannelName ` set (set_channels ss)"
    by (force simp: accepted_settings_def empty_dispatcher_def)
  have router: "last (None # set_routers ss) = None \<longleftrightarrow> set_routers ss = []" if "None \<notin> set (set_routers ss)"
    using that last_in_set [of "set_routers ss"] by (cases "last (set_routers ss)") auto
  show ?thesis
  proof (cases "apply_options (map option_of ss) empty_dispatcher")
    case (Inl e)
    with apply_options_settings [of ss empty_dispatcher] have "\<not> accepted_settings ss empty_dispatcher" by auto
    with Inl show ?thesis unfolding acc by (auto simp: New_dispatcher_def)
  next
    case (Inr d')
    with apply_options_settings [of ss empty_dispatcher]
    have a: "accepted_settings ss empty_dispatcher" and d': "d' = settings_applied ss empty_dispatcher" by auto
    from a router show ?thesis unfolding acc New_dispatcher_def Inr d' app by auto
  qed
qed


section \<open>Posting\<close>

text \<open>The outcome of one target.\<close>

definition post_target :: "(string, 'w Channel) gomap \<Rightarrow> Message \<Rightarrow> Target \<Rightarrow> 'w \<Rightarrow> (string + Receipt) \<times> 'w" where
  "post_target chans msg t w =
     (case gm_get chans (TargetChannel t) of
        None \<Rightarrow> (Inl (TargetChannel t @ '': unknown channel''), w)
      | Some ch \<Rightarrow>
          (case ChannelNotify ch of
             None \<Rightarrow> (Inl (TargetChannel t @ '': '' @ chan_error_text ErrNotSupported), w)
           | Some post \<Rightarrow>
               (case post (TargetTarget t) msg w of
                  (Inl e, w') \<Rightarrow> (Inl (TargetChannel t @ '': '' @ chan_error_text e), w')
                | (Inr r, w') \<Rightarrow> (Inr r, w'))))"

fun post_all :: "(string, 'w Channel) gomap \<Rightarrow> Message \<Rightarrow> Target list \<Rightarrow> 'w \<Rightarrow> (string + Receipt) list \<times> 'w" where
  "post_all chans msg [] w = ([], w)"
| "post_all chans msg (t # ts) w =
     (case post_target chans msg t w of
        (o1, w1) \<Rightarrow> (case post_all chans msg ts w1 of (os, w2) \<Rightarrow> (o1 # os, w2)))"

definition lefts :: "('a + 'b) list \<Rightarrow> 'a list" where
  "lefts xs = concat (map (\<lambda>x. case x of Inl a \<Rightarrow> [a] | Inr b \<Rightarrow> []) xs)"

definition rights :: "('a + 'b) list \<Rightarrow> 'b list" where
  "rights xs = concat (map (\<lambda>x. case x of Inl a \<Rightarrow> [] | Inr b \<Rightarrow> [b]) xs)"

lemma lefts_rights_simps [simp]:
  "lefts [] = []" "rights [] = []" "lefts (Inl a # xs) = a # lefts xs" "lefts (Inr b # xs) = lefts xs"
  "rights (Inl a # xs) = rights xs" "rights (Inr b # xs) = b # rights xs"
  by (simp_all add: lefts_def rights_def)

lemma length_lefts_rights: "length (lefts xs) + length (rights xs) = length xs"
proof (induction xs)
  case (Cons x xs)
  then show ?case by (cases x) simp_all
qed simp

lemma in_rights [simp]: "b \<in> set (rights xs) \<longleftrightarrow> Inr b \<in> set xs"
proof (induction xs)
  case (Cons x xs)
  then show ?case by (cases x) auto
qed simp

lemma post_all_fst:
  "fst (post_all chans msg (t # ts) w) =
     fst (post_target chans msg t w) # fst (post_all chans msg ts (snd (post_target chans msg t w)))"
  by (simp split: prod.splits)

lemma length_post_all: "length (fst (post_all chans msg ts w)) = length ts"
  by (induction ts arbitrary: w) (simp_all add: post_all_fst del: post_all.simps(2))

lemma notify_targets_eq:
  "notify_targets chans msg ts receipts errs w =
     (case post_all chans msg ts w of (os, w') \<Rightarrow>
        (\<lparr>PostReceipts = receipts @ rights os, PostErrors = errs @ lefts os\<rparr>, w'))"
proof (induction ts arbitrary: receipts errs w)
  case (Cons t ts)
  then show ?case
    by (auto simp: post_target_def split: option.splits sum.splits prod.splits)
qed simp

lemma Notify_posts_from:
  assumes "Notify \<rho> d msg w = (Inr res, w')"
  shows "\<exists>router targets os. DispatcherRouter d = Some router \<and> router (channelNames \<rho> d) msg = Inr targets \<and>
    targets \<noteq> [] \<and> post_all (DispatcherChannels d) msg targets w = (os, w') \<and>
    length os = length targets \<and> PostReceipts res = rights os \<and> PostErrors res = lefts os \<and>
    length (PostReceipts res) + length (PostErrors res) = length targets"
proof -
  from assms obtain router targets where r: "DispatcherRouter d = Some router"
    "router (channelNames \<rho> d) msg = Inr targets" "targets \<noteq> []"
    "notify_targets (DispatcherChannels d) msg targets [] [] w = (res, w')"
    by (auto simp: Notify_def split: option.splits sum.splits if_splits prod.splits)
  obtain os w2 where p: "post_all (DispatcherChannels d) msg targets w = (os, w2)" by (metis prod.exhaust)
  have "res = \<lparr>PostReceipts = rights os, PostErrors = lefts os\<rparr>" "w2 = w'"
    using r(4) p by (simp_all add: notify_targets_eq)
  moreover have "length os = length targets" using length_post_all [of "DispatcherChannels d" msg targets w] p by simp
  ultimately show ?thesis using r(1-3) p length_lefts_rights [of os] by auto
qed

text \<open>
  A message is posted once to every target its router chose, in the router's order, and every target
  leaves exactly one trace: the receipt of its post or the text of its failure. One failing channel
  never keeps the message from the others.
\<close>

theorem Notify_posts:
  assumes "Notify \<rho> d msg w = (Inr res, w')"
  shows "\<exists>router targets os. DispatcherRouter d = Some router \<and> router (channelNames \<rho> d) msg = Inr targets \<and>
    targets \<noteq> [] \<and> post_all (DispatcherChannels d) msg targets w = (os, w') \<and>
    length os = length targets \<and> PostReceipts res = rights os \<and> PostErrors res = lefts os \<and>
    length (PostReceipts res) + length (PostErrors res) = length targets"
  by (rule Notify_posts_from [OF assms])

text \<open>A receipt names the channel that made it, when the channels tag their receipts.\<close>

definition tags_receipts :: "'w Channel \<Rightarrow> bool" where
  "tags_receipts ch \<longleftrightarrow> (\<forall>post t msg w r w'. ChannelNotify ch = Some post \<longrightarrow> post t msg w = (Inr r, w') \<longrightarrow>
     ReceiptChannel r = ChannelName ch)"

lemma tags_receiptsD:
  "tags_receipts ch \<Longrightarrow> ChannelNotify ch = Some post \<Longrightarrow> post t msg w = (Inr r, w') \<Longrightarrow> ReceiptChannel r = ChannelName ch"
  unfolding tags_receipts_def
  by (drule spec [of _ post], drule spec [of _ t], drule spec [of _ msg], drule spec [of _ w], drule spec [of _ r],
      drule spec [of _ w']) simp

lemma post_target_receipt:
  assumes "post_target chans msg t w = (Inr r, w')"
  shows "\<exists>ch post. gm_get chans (TargetChannel t) = Some ch \<and> ChannelNotify ch = Some post \<and>
    post (TargetTarget t) msg w = (Inr r, w')"
  using assms by (auto simp: post_target_def split: option.splits sum.splits prod.splits)

lemma post_all_receipt:
  "Inr r \<in> set (fst (post_all chans msg ts w)) \<Longrightarrow> \<exists>t\<in>set ts. \<exists>w1 w2. post_target chans msg t w1 = (Inr r, w2)"
proof (induction ts arbitrary: w)
  case (Cons t ts)
  from Cons.prems consider "Inr r = fst (post_target chans msg t w)"
    | "Inr r \<in> set (fst (post_all chans msg ts (snd (post_target chans msg t w))))" unfolding post_all_fst by auto
  then show ?case
  proof cases
    case 1
    then have "post_target chans msg t w = (Inr r, snd (post_target chans msg t w))" by simp
    then show ?thesis by (blast intro: list.set_intros)
  next
    case 2
    from Cons.IH [OF this] show ?thesis by auto
  qed
qed simp

section \<open>Waiting\<close>

text \<open>What ends the race, and how it ends.\<close>

definition decisive :: "race_event \<Rightarrow> bool" where
  "decisive ev = (case ev of ContextDone e \<Rightarrow> True | Arrives (Inr v) \<Rightarrow> Choice v \<noteq> [] | Arrives (Inl e) \<Rightarrow> False)"

definition is_timeout :: "race_event \<Rightarrow> bool" where
  "is_timeout ev \<longleftrightarrow> ev = Arrives (Inl ErrTimeout)"

lemma race_loop_eq:
  "race_loop d expected n events timeouts w =
     (case find decisive (take n events) of
        Some (ContextDone e) \<Rightarrow> (AwaitFailed (ChanContext e), w)
      | Some (Arrives (Inr v)) \<Rightarrow> normalize d v w
      | _ \<Rightarrow> if length events < n then (AwaitBlocked, w)
            else if timeouts + length (filter is_timeout (take n events)) = expected then (AwaitFailed ErrTimeout, w)
            else (AwaitFailed (ChanFailure ''channels.Await: all waiters failed without verdict''), w))"
  by (induction d expected n events timeouts w rule: race_loop.induct)
    (auto simp: decisive_def is_timeout_def split: sum.splits)


text \<open>The groups are the receipts of each channel, in order.\<close>

definition receipts_of :: "string \<Rightarrow> Receipt list \<Rightarrow> Receipt list" where
  "receipts_of name rs = filter (\<lambda>r. ReceiptChannel r = name) rs"

lemma receipts_of_simps [simp]:
  "receipts_of name [] = []"
  "receipts_of name (rs @ [r]) = receipts_of name rs @ (if ReceiptChannel r = name then [r] else [])"
  by (simp_all add: receipts_of_def)

lemma group_receipts_snoc:
  "group_receipts (rs @ [r]) = gm_set (ReceiptChannel r)
     ((case gm_get (group_receipts rs) (ReceiptChannel r) of None \<Rightarrow> [] | Some x \<Rightarrow> x) @ [r]) (group_receipts rs)"
  by (simp add: group_receipts_def)

lemma group_receipts_get:
  "gm_get (group_receipts rs) name = (if receipts_of name rs = [] then None else Some (receipts_of name rs))"
proof (induction rs arbitrary: name rule: rev_induct)
  case Nil
  then show ?case by (simp add: group_receipts_def)
next
  case (snoc r rs)
  from snoc [of "ReceiptChannel r"]
  have "(case gm_get (group_receipts rs) (ReceiptChannel r) of None \<Rightarrow> [] | Some x \<Rightarrow> x) = receipts_of (ReceiptChannel r) rs"
    by (simp split: if_splits)
  with snoc show ?case by (simp add: group_receipts_snoc)
qed

lemma group_receipts_keys: "gm_keys (group_receipts rs) = dedup (map ReceiptChannel rs)"
proof (induction rs rule: rev_induct)
  case Nil
  then show ?case by (simp add: group_receipts_def gm_keys_def)
next
  case (snoc r rs)
  have "ReceiptChannel r \<in> set (gm_keys (group_receipts rs)) \<longleftrightarrow> ReceiptChannel r \<in> set (map ReceiptChannel rs)"
    using snoc by simp
  then show ?case using snoc by (simp add: group_receipts_snoc gm_keys_set dedup_snoc)
qed

lemma receipts_of_channel: "r \<in> set rs \<Longrightarrow> receipts_of (ReceiptChannel r) rs \<noteq> []"
  by (auto simp: receipts_of_def filter_empty_conv)

definition await_groups :: "(string list \<Rightarrow> string list) \<Rightarrow> Receipt list \<Rightarrow> (string \<times> Receipt list) list" where
  "await_groups \<rho> receipts = map (\<lambda>name. (name, receipts_of name receipts)) (\<rho> (dedup (map ReceiptChannel receipts)))"

lemma await_groups_eq:
  assumes "range_order \<rho>"
  shows "map (\<lambda>name. (name, the (gm_get (group_receipts receipts) name))) (\<rho> (gm_keys (group_receipts receipts))) =
    await_groups \<rho> receipts"
  unfolding await_groups_def group_receipts_keys
proof (rule map_cong [OF refl])
  fix name
  assume "name \<in> set (\<rho> (dedup (map ReceiptChannel receipts)))"
  then have "name \<in> ReceiptChannel ` set receipts" by (simp add: range_order_set [OF assms])
  then show "(name, the (gm_get (group_receipts receipts) name)) = (name, receipts_of name receipts)"
    using receipts_of_channel by (auto simp: group_receipts_get)
qed

lemma await_groups_known:
  assumes "range_order \<rho>" "(name, rs) \<in> set (await_groups \<rho> receipts)"
  shows "name \<in> ReceiptChannel ` set receipts \<and> rs = receipts_of name receipts"
  using assms by (auto simp: await_groups_def range_order_set)

text \<open>An arriving result is the result of one of the waiters on its own receipts.\<close>

definition race_of :: "'w Dispatcher \<Rightarrow> 'w race \<Rightarrow> bool" where
  "race_of d race \<longleftrightarrow> (\<forall>ws opts w r. Arrives r \<in> set (fst (race ws opts w)) \<longrightarrow>
     (\<exists>name rs ch wait w1 w2. (name, rs) \<in> set ws \<and> gm_get (DispatcherChannels d) name = Some ch \<and>
        ChannelAwait ch = Some wait \<and> wait rs opts w1 = (r, w2)))"

lemma race_ofD:
  "race_of d race \<Longrightarrow> Arrives r \<in> set (fst (race ws opts w)) \<Longrightarrow>
     \<exists>name rs ch wait w1 w2. (name, rs) \<in> set ws \<and> gm_get (DispatcherChannels d) name = Some ch \<and>
        ChannelAwait ch = Some wait \<and> wait rs opts w1 = (r, w2)"
  unfolding race_of_def by (drule spec [of _ ws], drule spec [of _ opts], drule spec [of _ w], drule spec [of _ r]) simp

definition answers_from :: "'w Dispatcher \<Rightarrow> Receipt list \<Rightarrow> AwaitOpts \<Rightarrow> HumanVerdict \<Rightarrow> bool" where
  "answers_from d receipts opts v \<longleftrightarrow> (\<exists>name ch wait w1 w2. name \<in> ReceiptChannel ` set receipts \<and>
     gm_get (DispatcherChannels d) name = Some ch \<and> ChannelAwait ch = Some wait \<and>
     wait (receipts_of name receipts) opts w1 = (Inr v, w2))"

lemma normalize_Answered:
  "normalize d v w = (Answered v', w') \<Longrightarrow> Choice v' = Choice v \<and> VerdictChannel v' = VerdictChannel v \<and>
     (ActorCanonical (VerdictActor v) \<noteq> [] \<longrightarrow> v' = v)"
  by (auto simp: normalize_def split: if_splits option.splits sum.splits prod.splits)

lemma race_loop_Answered:
  "race_loop d expected n events timeouts w = (Answered v', w') \<Longrightarrow>
     \<exists>v. Arrives (Inr v) \<in> set events \<and> Choice v \<noteq> [] \<and> normalize d v w = (Answered v', w')"
  by (induction d expected n events timeouts w rule: race_loop.induct) (auto split: sum.splits if_splits)

lemma await_race_Answered:
  assumes "race_of d race" "await_race race d gs opts w = (Answered v', w')"
    and "\<And>name rs. (name, rs) \<in> set gs \<Longrightarrow> name \<in> ReceiptChannel ` set receipts \<and> rs = receipts_of name receipts"
  shows "\<exists>v w1. answers_from d receipts opts v \<and> Choice v \<noteq> [] \<and> normalize d v w1 = (Answered v', w')"
proof -
  let ?ws = "filter (\<lambda>(name, _). can_wait d name) (takeWhile (\<lambda>(name, _). gm_get (DispatcherChannels d) name \<noteq> None) gs)"
  obtain events w1 where race: "race ?ws opts w = (events, w1)" by (metis prod.exhaust)
  from assms(2) race have "race_loop d (length ?ws) (length ?ws) events 0 w1 = (Answered v', w')"
    by (auto simp: await_race_def Let_def split: if_splits)
  from race_loop_Answered [OF this]
  obtain v where v: "Arrives (Inr v) \<in> set events" "Choice v \<noteq> []" "normalize d v w1 = (Answered v', w')" by blast
  then have "Arrives (Inr v) \<in> set (fst (race ?ws opts w))" using race by simp
  from race_ofD [OF assms(1) this]
  obtain name rs ch wait w2 w3 where n: "(name, rs) \<in> set ?ws" "gm_get (DispatcherChannels d) name = Some ch"
    "ChannelAwait ch = Some wait" "wait rs opts w2 = (Inr v, w3)" by blast
  then have "(name, rs) \<in> set gs" by (auto dest: set_takeWhileD)
  from assms(3) [OF this] n have "answers_from d receipts opts v" unfolding answers_from_def by blast
  with v(2,3) show ?thesis by blast
qed

lemma await_groups_Nil:
  assumes "range_order \<rho>"
  shows "await_groups \<rho> receipts = [] \<longleftrightarrow> receipts = []"
proof -
  have "await_groups \<rho> receipts = [] \<longleftrightarrow> set (\<rho> (dedup (map ReceiptChannel receipts))) = {}" by (simp add: await_groups_def)
  then show ?thesis by (simp add: range_order_set [OF assms])
qed

lemma Await_race:
  assumes "range_order \<rho>" "1 < length (await_groups \<rho> receipts)"
  shows "Await race \<rho> d receipts opts w = await_race race d (await_groups \<rho> receipts) opts w"
proof -
  have "receipts \<noteq> []" using assms(2) await_groups_Nil [OF assms(1), of receipts] by auto
  moreover obtain a b gs where "await_groups \<rho> receipts = a # b # gs"
    using assms(2) by (cases "await_groups \<rho> receipts"; cases "tl (await_groups \<rho> receipts)") auto
  ultimately show ?thesis unfolding Await_def await_groups_eq [OF assms(1)] by simp
qed

lemma Await_answer_from:
  assumes "range_order \<rho>" "race_of d race" "Await race \<rho> d receipts opts w = (Answered v', w')"
  shows "\<exists>v w1. answers_from d receipts opts v \<and> normalize d v w1 = (Answered v', w') \<and>
    Choice v' = Choice v \<and> VerdictChannel v' = VerdictChannel v \<and>
    (ActorCanonical (VerdictActor v) = [] \<or> v' = v) \<and>
    (Choice v \<noteq> [] \<or> length (await_groups \<rho> receipts) = 1)"
proof -
  have known: "name \<in> ReceiptChannel ` set receipts \<and> rs = receipts_of name receipts"
    if "(name, rs) \<in> set (await_groups \<rho> receipts)" for name rs
    using await_groups_known [OF assms(1) that] .
  have "\<exists>v w1. answers_from d receipts opts v \<and> normalize d v w1 = (Answered v', w') \<and>
    (Choice v \<noteq> [] \<or> length (await_groups \<rho> receipts) = 1)"
  proof (cases "\<exists>name rs. await_groups \<rho> receipts = [(name, rs)]")
    case True
    then obtain name rs where g: "await_groups \<rho> receipts = [(name, rs)]" by blast
    from assms(3) obtain ch wait v w1 where c: "gm_get (DispatcherChannels d) name = Some ch" "ChannelAwait ch = Some wait"
      "wait rs opts w = (Inr v, w1)" "normalize d v w1 = (Answered v', w')"
      unfolding Await_def await_groups_eq [OF assms(1)] g
      by (auto split: if_splits option.splits prod.splits sum.splits)
    moreover have "answers_from d receipts opts v"
      unfolding answers_from_def using known [of name rs] g c by simp blast
    ultimately show ?thesis using g by auto
  next
    case False
    have "await_groups \<rho> receipts \<noteq> []"
      using assms(3) await_groups_Nil [OF assms(1), of receipts] by (auto simp: Await_def)
    with False have "1 < length (await_groups \<rho> receipts)"
      by (cases "await_groups \<rho> receipts"; cases "tl (await_groups \<rho> receipts)") auto
    from assms(3) [unfolded Await_race [OF assms(1) this]] await_race_Answered [OF assms(2) _ known] show ?thesis by blast
  qed
  then show ?thesis using normalize_Answered by fastforce
qed


text \<open>
  An answer of the dispatcher is the verdict of a channel that holds some of the receipts, given by
  that channel's own wait on exactly its receipts; the dispatcher never changes what was chosen, never
  replaces an actor the channel has identified, and when several channels race it takes no empty
  choice.
\<close>

theorem Await_answer:
  assumes "range_order \<rho>" "race_of d race" "Await race \<rho> d receipts opts w = (Answered v', w')"
  shows "\<exists>v w1. answers_from d receipts opts v \<and> normalize d v w1 = (Answered v', w') \<and>
    Choice v' = Choice v \<and> VerdictChannel v' = VerdictChannel v \<and>
    (ActorCanonical (VerdictActor v) = [] \<or> v' = v) \<and>
    (Choice v \<noteq> [] \<or> length (await_groups \<rho> receipts) = 1)"
  by (rule Await_answer_from [OF assms])

lemma all_known:
  assumes "range_order \<rho>" "\<forall>r\<in>set receipts. gm_get (DispatcherChannels d) (ReceiptChannel r) \<noteq> None"
  shows "takeWhile (\<lambda>(name, _). gm_get (DispatcherChannels d) name \<noteq> None) (await_groups \<rho> receipts) = await_groups \<rho> receipts"
proof -
  have "gm_get (DispatcherChannels d) name \<noteq> None" if "(name, rs) \<in> set (await_groups \<rho> receipts)" for name rs
    using await_groups_known [OF assms(1) that] assms(2) by auto
  then show ?thesis unfolding takeWhile_eq_all_conv by blast
qed

lemma length_filter_all: "length (filter P xs) = length xs \<longleftrightarrow> (\<forall>x\<in>set xs. P x)"
proof (induction xs)
  case (Cons x xs)
  have "length (filter P xs) \<noteq> Suc (length xs)" using length_filter_le [of P xs] by linarith
  with Cons show ?case by auto
qed simp

lemma Await_race_outcome:
  assumes "range_order \<rho>" "1 < length (await_groups \<rho> receipts)"
    and "\<forall>r\<in>set receipts. gm_get (DispatcherChannels d) (ReceiptChannel r) \<noteq> None"
    and "ws = filter (\<lambda>(name, _). can_wait d name) (await_groups \<rho> receipts)" "race ws opts w = (events, w')"
  shows "Await race \<rho> d receipts opts w =
     (case find decisive (take (length ws) events) of
        Some (ContextDone e) \<Rightarrow> (AwaitFailed (ChanContext e), w')
      | Some (Arrives (Inr v)) \<Rightarrow> normalize d v w'
      | _ \<Rightarrow> if length events < length ws then (AwaitBlocked, w')
            else if \<forall>ev\<in>set (take (length ws) events). is_timeout ev then (AwaitFailed ErrTimeout, w')
            else (AwaitFailed (ChanFailure ''channels.Await: all waiters failed without verdict''), w'))"
proof -
  have "Await race \<rho> d receipts opts w = race_loop d (length ws) (length ws) events 0 w'"
    unfolding Await_race [OF assms(1,2)] await_race_def all_known [OF assms(1,3)] Let_def
    using assms(4,5) by simp
  moreover have "(if length events < length ws then (AwaitBlocked, w')
       else if 0 + length (filter is_timeout (take (length ws) events)) = length ws then (AwaitFailed ErrTimeout, w')
       else (AwaitFailed (ChanFailure ''channels.Await: all waiters failed without verdict''), w')) =
      (if length events < length ws then (AwaitBlocked, w')
       else if \<forall>ev\<in>set (take (length ws) events). is_timeout ev then (AwaitFailed ErrTimeout, w')
       else (AwaitFailed (ChanFailure ''channels.Await: all waiters failed without verdict''), w'))"
    using length_filter_all [of is_timeout "take (length ws) events"]
    by (cases "length events < length ws") (simp_all add: min.absorb2)
  ultimately show ?thesis unfolding race_loop_eq by (simp only:)
qed


text \<open>
  C24: several channels race: of the first results, one for each channel that can wait, the first real
  choice or the end of the context decides; without one the wait times out when all of them did,
  fails when some failed otherwise, and lasts when some have not answered. So a wait on channels of
  which none can wait times out at once. The comment before the errors of the package says that every
  path that ends without a verdict returns \<^verbatim>\<open>ErrTimeout\<close>; two do not: the end of the context returns the error of
  the context, and waiters of which one failed otherwise return an error of their own.
\<close>

theorem Await_first_verdict:
  assumes "range_order \<rho>" "1 < length (await_groups \<rho> receipts)"
    and "\<forall>r\<in>set receipts. gm_get (DispatcherChannels d) (ReceiptChannel r) \<noteq> None"
    and "ws = filter (\<lambda>(name, _). can_wait d name) (await_groups \<rho> receipts)" "race ws opts w = (events, w')"
  shows "Await race \<rho> d receipts opts w =
     (case find decisive (take (length ws) events) of
        Some (ContextDone e) \<Rightarrow> (AwaitFailed (ChanContext e), w')
      | Some (Arrives (Inr v)) \<Rightarrow> normalize d v w'
      | _ \<Rightarrow> if length events < length ws then (AwaitBlocked, w')
            else if \<forall>ev\<in>set (take (length ws) events). is_timeout ev then (AwaitFailed ErrTimeout, w')
            else (AwaitFailed (ChanFailure ''channels.Await: all waiters failed without verdict''), w'))"
  by (rule Await_race_outcome [where race = race and opts = opts and w = w, OF assms])

text \<open>Two channels that only post: nobody is asked, and the wait times out at once.\<close>

lemma notify_only_channels_time_out:
  assumes "range_order \<rho>" "1 < length (await_groups \<rho> receipts)"
    and "\<forall>r\<in>set receipts. \<exists>ch. gm_get (DispatcherChannels d) (ReceiptChannel r) = Some ch \<and> ChannelAwait ch = None"
  shows "fst (Await race \<rho> d receipts opts w) = AwaitFailed ErrTimeout"
proof -
  have known: "\<forall>r\<in>set receipts. gm_get (DispatcherChannels d) (ReceiptChannel r) \<noteq> None" using assms(3) by force
  have "\<not> can_wait d name" if "(name, rs) \<in> set (await_groups \<rho> receipts)" for name rs
    using await_groups_known [OF assms(1) that] assms(3) by (auto simp: can_wait_def)
  then have ws: "[] = filter (\<lambda>(name, _). can_wait d name) (await_groups \<rho> receipts)"
    by (subst eq_commute) (auto simp: filter_empty_conv)
  obtain events w' where "race [] opts w = (events, w')" by (metis prod.exhaust)
  from Await_race_outcome [where ws = "[]" and race = race and opts = opts and w = w, OF assms(1,2) known ws this] show ?thesis by simp
qed

text \<open>
  The default resolver never learns who reacted: the dispatcher passes it the actor's canonical name, which
  is empty whenever the resolver is asked.
\<close>

lemma resolver_sees_no_actor:
  assumes "DispatcherResolver d = Some PassthroughResolver" "ActorCanonical (VerdictActor v) = []"
  shows "\<exists>v'. normalize d v w = (Answered v', w) \<and> ActorCanonical (VerdictActor v') = VerdictChannel v @ '':''"
  using assms by (simp add: normalize_def PassthroughResolver_def)

lemma nil_resolver_panics:
  assumes "New_dispatcher (map option_of (ss @ [SetResolver None])) = Inr d" "ActorCanonical (VerdictActor v) = []"
  shows "normalize d v w = (AwaitPanic ''nil resolver'', w)"
  using assms(2) assms(1) [unfolded New_dispatcher_iff] by (simp add: normalize_def set_resolvers_def)

text \<open>
  Posting and waiting fit together: when the channels of a dispatcher that was built tag their
  receipts with their name, every receipt of a post is known to a later wait on the receipts, however
  many of them, and an answer to that wait comes from a channel the router chose for the message, on
  the receipts that very channel gave.
\<close>

theorem posted_message_answer:
  assumes "New_dispatcher (map option_of ss) = Inr d" "\<forall>c\<in>set (set_channels ss). tags_receipts c"
    and "Notify \<rho> d msg w = (Inr res, w1)" "range_order \<rho>"
  shows "(\<forall>r\<in>set (PostReceipts res). gm_get (DispatcherChannels d) (ReceiptChannel r) \<noteq> None) \<and>
    (\<forall>race opts w2 v w3. race_of d race \<longrightarrow> Await race \<rho> d (PostReceipts res) opts w2 = (Answered v, w3) \<longrightarrow>
      (\<exists>router targets t v0. DispatcherRouter d = Some router \<and> router (channelNames \<rho> d) msg = Inr targets \<and>
         t \<in> set targets \<and> Choice v0 = Choice v \<and>
         (\<exists>ch wait w4 w5. gm_get (DispatcherChannels d) (TargetChannel t) = Some ch \<and> ChannelAwait ch = Some wait \<and>
            wait (receipts_of (TargetChannel t) (PostReceipts res)) opts w4 = (Inr v0, w5))))"
proof -
  from assms(1) [unfolded New_dispatcher_iff]
  have chans: "DispatcherChannels d = map (\<lambda>c. (ChannelName c, c)) (set_channels ss)" by simp
  have named: "ch \<in> set (set_channels ss) \<and> ChannelName ch = name"
    if "gm_get (DispatcherChannels d) name = Some ch" for name ch
    using that unfolding chans gm_get_def by (auto dest!: map_of_SomeD)
  from Notify_posts_from [OF assms(3)] obtain router targets os where r: "DispatcherRouter d = Some router"
    "router (channelNames \<rho> d) msg = Inr targets" "post_all (DispatcherChannels d) msg targets w = (os, w1)"
    "PostReceipts res = rights os" by blast
  have tagged: "\<exists>t\<in>set targets. ReceiptChannel rc = TargetChannel t \<and> gm_get (DispatcherChannels d) (TargetChannel t) \<noteq> None"
    if rc: "rc \<in> set (PostReceipts res)" for rc
  proof -
    from rc r(3,4) have "Inr rc \<in> set (fst (post_all (DispatcherChannels d) msg targets w))" by simp
    from post_all_receipt [OF this]
    obtain t w2 w3 where t: "t \<in> set targets" "post_target (DispatcherChannels d) msg t w2 = (Inr rc, w3)" by blast
    from post_target_receipt [OF t(2)]
    obtain ch post where ch: "gm_get (DispatcherChannels d) (TargetChannel t) = Some ch" "ChannelNotify ch = Some post"
      "post (TargetTarget t) msg w2 = (Inr rc, w3)" by blast
    from tags_receiptsD [OF _ ch(2,3)] named [OF ch(1)] assms(2) have "ReceiptChannel rc = TargetChannel t" by simp
    with t(1) ch(1) show ?thesis by auto
  qed
  show ?thesis
  proof (intro conjI ballI allI impI)
    fix race opts w2 v w3
    assume "race_of d race" "Await race \<rho> d (PostReceipts res) opts w2 = (Answered v, w3)"
    from Await_answer_from [OF assms(4) this]
    obtain v0 where v0: "answers_from d (PostReceipts res) opts v0" "Choice v0 = Choice v" by (elim exE conjE) simp
    from v0(1) obtain name ch wait w4 w5 where n: "name \<in> ReceiptChannel ` set (PostReceipts res)"
      "gm_get (DispatcherChannels d) name = Some ch" "ChannelAwait ch = Some wait"
      "wait (receipts_of name (PostReceipts res)) opts w4 = (Inr v0, w5)"
      unfolding answers_from_def by (elim exE conjE)
    note a = v0(2) n
    from a(2) obtain rc where rc: "rc \<in> set (PostReceipts res)" "name = ReceiptChannel rc" by blast
    from tagged [OF rc(1)] rc(2) obtain t where t: "t \<in> set targets" "name = TargetChannel t" by auto
    show "\<exists>router targets t v0. DispatcherRouter d = Some router \<and> router (channelNames \<rho> d) msg = Inr targets \<and>
         t \<in> set targets \<and> Choice v0 = Choice v \<and>
         (\<exists>ch wait w4 w5. gm_get (DispatcherChannels d) (TargetChannel t) = Some ch \<and> ChannelAwait ch = Some wait \<and>
            wait (receipts_of (TargetChannel t) (PostReceipts res)) opts w4 = (Inr v0, w5))"       using r(1,2) a(1,3-5) t
      by (intro exI [of _ router] exI [of _ targets] exI [of _ t] exI [of _ v0] conjI exI [of _ ch] exI [of _ wait]
          exI [of _ w4] exI [of _ w5]) simp_all
  qed (use tagged in force)
qed


section \<open>A concrete dispatcher\<close>

definition demo_actor :: ActorIdentity where
  "demo_actor = no_actor\<lparr>ActorCanonical := ''slack:U1''\<rparr>"

definition demo_verdict :: "string \<Rightarrow> HumanVerdict" where
  "demo_verdict name = no_verdict\<lparr>Choice := ''accept'', VerdictActor := demo_actor, VerdictChannel := name\<rparr>"

definition demo_channel :: "string \<Rightarrow> nat Channel" where
  "demo_channel name = \<lparr>ChannelName = name,
     ChannelNotify = Some (\<lambda>t msg w. (Inr \<lparr>ReceiptChannel = name, ReceiptTarget = t, ReceiptNative = [], ReceiptMeta = None\<rparr>, w + 1)),
     ChannelAwait = Some (\<lambda>rs opts w. (Inr (demo_verdict name), w))\<rparr>"

definition demo_settings :: "nat setting list" where
  "demo_settings = [SetChannel (demo_channel ''slack''), SetChannel (demo_channel ''email''),
     SetRouter (Some (MultiRouter [FixedRouter ''slack'' ''C1'', FixedRouter ''email'' ''a'', FixedRouter ''pager'' ''p'']))]"

definition demo_dispatcher :: "nat Dispatcher" where
  "demo_dispatcher = \<lparr>DispatcherChannels = [(''slack'', demo_channel ''slack''), (''email'', demo_channel ''email'')],
     DispatcherRouter = Some (MultiRouter [FixedRouter ''slack'' ''C1'', FixedRouter ''email'' ''a'', FixedRouter ''pager'' ''p'']),
     DispatcherResolver = Some PassthroughResolver\<rparr>"

definition demo_message :: Message where
  "demo_message = \<lparr>MessageSubject = \<lparr>SubjectKind = [], SubjectID = []\<rparr>, MessageTitle = ''t'', MessageBody = [],
     MessageSeverity = SeverityHigh, MessageEvidence = [], MessageActions = [], MessageLinks = [],
     MessageRef = \<lparr>RefWorkflowID = [], RefRunID = [], RefTraceURL = []\<rparr>, MessageMetadata = None\<rparr>"

text \<open>Only the first waiter answers.\<close>

definition demo_race :: "nat race" where
  "demo_race ws opts w =
     ((case ws of [] \<Rightarrow> [] | x # _ \<Rightarrow> if can_wait demo_dispatcher (fst x) then [Arrives (Inr (demo_verdict (fst x)))] else []), w)"

definition demo_opts :: AwaitOpts where
  "demo_opts = \<lparr>AwaitTimeout = 0, AwaitOptions = []\<rparr>"

definition demo_receipts :: "Receipt list" where
  "demo_receipts = [\<lparr>ReceiptChannel = ''slack'', ReceiptTarget = ''C1'', ReceiptNative = [], ReceiptMeta = None\<rparr>,
     \<lparr>ReceiptChannel = ''email'', ReceiptTarget = ''a'', ReceiptNative = [], ReceiptMeta = None\<rparr>]"

lemma demo_dispatcher_built: "New_dispatcher (map option_of demo_settings) = Inr demo_dispatcher"
  by (simp add: New_dispatcher_def demo_settings_def demo_dispatcher_def empty_dispatcher_def WithChannel_def
      WithRouter_def demo_channel_def gm_set_def gm_get_def)

lemma demo_notify:
  "Notify (\<lambda>xs. xs) demo_dispatcher demo_message 0 =
     (Inr \<lparr>PostReceipts = demo_receipts, PostErrors = [''pager: unknown channel'']\<rparr>, 2)"
  by (simp add: Notify_def demo_dispatcher_def MultiRouter_def FixedRouter_def gm_get_def demo_channel_def demo_receipts_def)

theorem Notify_posts_witness:
  "length demo_receipts + length [''pager: unknown channel''] = 3 \<and>
   (\<exists>os. post_all (DispatcherChannels demo_dispatcher) demo_message
      [\<lparr>TargetChannel = ''slack'', TargetTarget = ''C1''\<rparr>, \<lparr>TargetChannel = ''email'', TargetTarget = ''a''\<rparr>,
       \<lparr>TargetChannel = ''pager'', TargetTarget = ''p''\<rparr>] 0 = (os, 2) \<and> rights os = demo_receipts)"
proof -
  have r: "DispatcherRouter demo_dispatcher = Some (MultiRouter [FixedRouter ''slack'' ''C1'', FixedRouter ''email'' ''a'', FixedRouter ''pager'' ''p''])"
    by (simp add: demo_dispatcher_def)
  from Notify_posts [OF demo_notify] r show ?thesis by (auto simp: MultiRouter_def FixedRouter_def)
qed

lemma demo_channels:
  "gm_get (DispatcherChannels demo_dispatcher) name =
     (if name = ''slack'' \<or> name = ''email'' then Some (demo_channel name) else None)"
  by (auto simp: demo_dispatcher_def gm_get_def)

lemma demo_race_of: "race_of demo_dispatcher demo_race"
  unfolding race_of_def
proof (intro allI impI)
  fix ws opts w r
  assume r: "Arrives r \<in> set (fst (demo_race ws opts w))"
  then obtain name rs wss where ws: "ws = (name, rs) # wss" "can_wait demo_dispatcher name" "r = Inr (demo_verdict name)"
    by (cases ws) (auto simp: demo_race_def split: if_splits)
  then have "gm_get (DispatcherChannels demo_dispatcher) name = Some (demo_channel name)"
    by (auto simp: can_wait_def demo_channels split: if_splits)
  with ws show "\<exists>name rs ch wait w1 w2. (name, rs) \<in> set ws \<and> gm_get (DispatcherChannels demo_dispatcher) name = Some ch \<and>
      ChannelAwait ch = Some wait \<and> wait rs opts w1 = (r, w2)"
    by (intro exI [of _ name] exI [of _ rs] exI [of _ "demo_channel name"]) (auto simp: demo_channel_def)
qed

lemma demo_groups: "await_groups (\<lambda>xs. xs) demo_receipts =
    [(''slack'', [hd demo_receipts]), (''email'', tl demo_receipts)]"
  by (simp add: await_groups_def demo_receipts_def receipts_of_def dedup_def)

lemma demo_await:
  "Await demo_race (\<lambda>xs. xs) demo_dispatcher demo_receipts demo_opts 2 = (Answered (demo_verdict ''slack''), 2)"
proof -
  have two: "1 < length (await_groups (\<lambda>xs. xs) demo_receipts)" by (simp add: demo_groups)
  show ?thesis
    unfolding Await_race [OF range_order_id two] demo_groups
    by (simp add: await_race_def demo_channels demo_race_def can_wait_def demo_channel_def normalize_def demo_verdict_def
        demo_actor_def)
qed

theorem Await_answer_witness:
  "Await demo_race (\<lambda>xs. xs) demo_dispatcher demo_receipts demo_opts 2 = (Answered (demo_verdict ''slack''), 2) \<and>
   (\<exists>v. answers_from demo_dispatcher demo_receipts demo_opts v \<and> Choice v = ''accept'')"
proof -
  have "Choice (demo_verdict ''slack'') = ''accept''" by (simp add: demo_verdict_def)
  with Await_answer [OF range_order_id demo_race_of demo_await] demo_await show ?thesis by auto
qed

theorem Await_first_verdict_witness:
  "Await (\<lambda>ws opts w. ([Arrives (Inl ErrTimeout), Arrives (Inl ErrTimeout)], w)) (\<lambda>xs. xs) demo_dispatcher
     demo_receipts demo_opts 2 = (AwaitFailed ErrTimeout, 2)"
proof -
  have two: "1 < length (await_groups (\<lambda>xs. xs) demo_receipts)" by (simp add: demo_groups)
  have known: "\<forall>r\<in>set demo_receipts. gm_get (DispatcherChannels demo_dispatcher) (ReceiptChannel r) \<noteq> None"
    by (simp add: demo_receipts_def demo_channels)
  have "can_wait demo_dispatcher ''slack''" "can_wait demo_dispatcher ''email''"
    by (simp_all add: can_wait_def demo_channels demo_channel_def)
  then have ws: "[(''slack'', [hd demo_receipts]), (''email'', tl demo_receipts)] =
      filter (\<lambda>(name, _). can_wait demo_dispatcher name) (await_groups (\<lambda>xs. xs) demo_receipts)"
    by (simp add: demo_groups)
  show ?thesis
    using Await_first_verdict [where race = "\<lambda>ws opts w. ([Arrives (Inl ErrTimeout), Arrives (Inl ErrTimeout)], w)"
        and opts = demo_opts and w = 2, OF range_order_id two known ws refl]
    by (simp add: decisive_def is_timeout_def)
qed

lemma demo_channel_tags: "tags_receipts (demo_channel name)"
  by (auto simp: tags_receipts_def demo_channel_def)

theorem posted_message_answer_witness:
  "list_all (\<lambda>r. gm_get (DispatcherChannels demo_dispatcher) (ReceiptChannel r) \<noteq> None) demo_receipts \<and>
   (\<exists>router targets t v0. DispatcherRouter demo_dispatcher = Some router \<and>
      router (channelNames (\<lambda>xs. xs) demo_dispatcher) demo_message = Inr targets \<and>
      t \<in> set targets \<and> Choice v0 = ''accept'' \<and>
      (\<exists>ch wait w4 w5. gm_get (DispatcherChannels demo_dispatcher) (TargetChannel t) = Some ch \<and>
         ChannelAwait ch = Some wait \<and>
         wait (receipts_of (TargetChannel t) demo_receipts) demo_opts w4 = (Inr v0, w5)))"
proof -
  have tags: "\<forall>c\<in>set (set_channels demo_settings). tags_receipts c"
    by (simp add: demo_settings_def demo_channel_tags)
  have accept: "Choice (demo_verdict ''slack'') = ''accept''" by (simp add: demo_verdict_def)
  note posted = posted_message_answer [OF demo_dispatcher_built tags demo_notify range_order_id, unfolded PostResult.select_convs]
  show ?thesis unfolding list_all_iff
    by (rule conjI [OF conjunct1 [OF posted] conjunct2 [OF posted, rule_format, OF demo_race_of demo_await, unfolded accept]])
qed

end
