(* ===== verification/Slack.thy ===== *)
theory Slack
  imports Channels
begin

text \<open>
  Package channels/slack (\<^verbatim>\<open>slack.go\<close>): the Slack adapter. It posts a message as blocks and waits for a
  verdict by polling the reactions on the posted message.

  The Slack client, the clock and the ticker are parameters. The wait is a loop that may never return;
  its model is partial and gives \<open>None\<close> then.
\<close>

section \<open>Blocks and the client\<close>

datatype BlockKind = BlockHeader | BlockSection | BlockContext | BlockActions

record Button =
  ButtonActionID :: string
  ButtonLabel :: string
  ButtonStyle :: string
  ButtonURL :: string

record Block =
  BlockKindOf :: BlockKind
  BlockText :: string
  BlockElements :: "string list"
  BlockButtons :: "Button list"

record PostOptions =
  PostText :: string
  PostBlocks :: "Block list"

record Reaction =
  ReactionName :: string
  ReactionUsers :: "string list"
  ReactionCount :: int

record UserInfo =
  UserInfoID :: string
  UserDisplayName :: string
  UserEmail :: string
  UserRealName :: string

record 'w Client =
  client_post :: "string \<Rightarrow> PostOptions \<Rightarrow> 'w \<Rightarrow> (chan_error + string) \<times> 'w"
  client_reactions :: "string \<Rightarrow> string \<Rightarrow> 'w \<Rightarrow> (chan_error + Reaction list) \<times> 'w"
  client_user :: "string \<Rightarrow> 'w \<Rightarrow> (chan_error + UserInfo) \<times> 'w"

section \<open>Rendering\<close>

definition block :: "BlockKind \<Rightarrow> Block" where
  "block k = \<lparr>BlockKindOf = k, BlockText = [], BlockElements = [], BlockButtons = []\<rparr>"

definition emojiByAction :: "(string, string) gomap" where
  "emojiByAction = [(''accept'', '':white_check_mark:''), (''reject'', '':x:''), (''snooze'', '':zzz:'')]"

definition action_hint :: "Action \<Rightarrow> string" where
  "action_hint a =
     (let label = (if ActionLabel a = [] then ActionID a else ActionLabel a)
      in case gm_get emojiByAction (ActionID a) of
           Some emoji \<Rightarrow> emoji @ '' '' @ label
         | None \<Rightarrow> label)"

text \<open>The separator has a middle dot, the reference line an em dash.\<close>

definition actionReactionHint :: "Action list \<Rightarrow> string" where
  "actionReactionHint actions =
     (if actions = [] then []
      else ''React: '' @ join (''  '' @ [CHR 0xC2, CHR 0xB7] @ ''  '') (map action_hint actions))"

definition evidence_label :: "Evidence \<Rightarrow> string" where
  "evidence_label e =
     (let label = (if EvidenceDescription e = [] then EvidenceLocation e else EvidenceDescription e)
      in if EvidenceKind e \<noteq> [] then EvidenceKind e @ '': '' @ label else label)"

definition workflow_line :: "WorkflowRef \<Rightarrow> string" where
  "workflow_line r =
     ''Workflow: `'' @ RefWorkflowID r @ ''`'' @
     (if RefTraceURL r \<noteq> []
      then '' '' @ [CHR 0xE2, CHR 0x80, CHR 0x94] @ '' <'' @ RefTraceURL r @ ''|Open in Temporal>'' else [])"

definition DefaultRender :: "Message \<Rightarrow> PostOptions" where
  "DefaultRender m =
     (let header = (if MessageTitle m \<noteq> []
            then [(block BlockHeader)\<lparr>BlockText :=
              (if MessageSeverity m \<noteq> [] then ''['' @ MessageSeverity m @ ''] '' @ MessageTitle m else MessageTitle m)\<rparr>]
            else []);
          section = (if MessageBody m \<noteq> [] then [(block BlockSection)\<lparr>BlockText := MessageBody m\<rparr>] else []);
          evidence = (if MessageEvidence m \<noteq> []
            then [(block BlockContext)\<lparr>BlockElements := map evidence_label (MessageEvidence m)\<rparr>] else []);
          hint = actionReactionHint (MessageActions m);
          hints = (if hint \<noteq> [] then [(block BlockContext)\<lparr>BlockElements := [hint]\<rparr>] else []);
          links = (if MessageLinks m \<noteq> []
            then [(block BlockActions)\<lparr>BlockButtons := map (\<lambda>l. \<lparr>ButtonActionID = [], ButtonLabel = LinkLabel l,
                     ButtonStyle = [], ButtonURL = LinkURL l\<rparr>) (MessageLinks m)\<rparr>]
            else []);
          ref = (if RefWorkflowID (MessageRef m) \<noteq> []
            then [(block BlockContext)\<lparr>BlockElements := [workflow_line (MessageRef m)]\<rparr>] else [])
      in \<lparr>PostText = (if MessageTitle m = [] then MessageBody m else MessageTitle m),
          PostBlocks = header @ section @ evidence @ hints @ links @ ref\<rparr>)"

section \<open>Configuration\<close>

record Config =
  PollInterval :: int
  VerdictByReaction :: "(string, string) gomap option"
  Render :: "(Message \<Rightarrow> PostOptions) option"

definition default_verdicts :: "(string, string) gomap" where
  "default_verdicts = [(''white_check_mark'', ''accept''), (''x'', ''reject''), (''zzz'', ''snooze'')]"

definition applyDefaults :: "Config \<Rightarrow> Config" where
  "applyDefaults c =
     \<lparr>PollInterval = (if PollInterval c \<le> 0 then 5 * 1000000000 else PollInterval c),
      VerdictByReaction = (case VerdictByReaction c of None \<Rightarrow> Some default_verdicts | Some m \<Rightarrow> Some m),
      Render = (case Render c of None \<Rightarrow> Some DefaultRender | Some r \<Rightarrow> Some r)\<rparr>"

definition verdict_of_reaction :: "Config \<Rightarrow> string \<Rightarrow> string option" where
  "verdict_of_reaction cfg name = (case VerdictByReaction cfg of None \<Rightarrow> None | Some m \<Rightarrow> gm_get m name)"

section \<open>Waiting\<close>

definition allowedSet :: "string list \<Rightarrow> string set option" where
  "allowedSet opts = (if opts = [] then None else Some (set opts))"

definition lookupActor :: "'w Client \<Rightarrow> string \<Rightarrow> string \<Rightarrow> 'w \<Rightarrow> ActorIdentity \<times> 'w" where
  "lookupActor client channelName userID w =
     (let i = no_actor\<lparr>ActorCanonical := channelName @ '':'' @ userID, ActorSource := ''slack-passthrough''\<rparr>
      in case client_user client userID w of
           (Inl e, w') \<Rightarrow> (i, w')
         | (Inr info, w') \<Rightarrow>
             (i\<lparr>ActorDisplayName := (if UserDisplayName info = [] then UserRealName info else UserDisplayName info),
                ActorEmail := UserEmail info, ActorSource := ''slack-lookup''\<rparr>, w'))"

text \<open>The first reaction that stands for an allowed verdict and has a user.\<close>

fun first_reaction :: "Config \<Rightarrow> string set option \<Rightarrow> Reaction list \<Rightarrow> (Reaction \<times> string) option" where
  "first_reaction cfg allowed [] = None"
| "first_reaction cfg allowed (r # rs) =
     (case verdict_of_reaction cfg (ReactionName r) of
        None \<Rightarrow> first_reaction cfg allowed rs
      | Some action \<Rightarrow>
          if (case allowed of None \<Rightarrow> False | Some a \<Rightarrow> action \<notin> a) then first_reaction cfg allowed rs
          else if ReactionUsers r = [] then first_reaction cfg allowed rs
          else Some (r, action))"

text \<open>\<open>clock\<close> reads the time; \<open>await_tick\<close> waits for the next tick or the end of the context.\<close>

record 'w slack_env =
  clock :: "'w \<Rightarrow> int \<times> 'w"
  await_tick :: "'w \<Rightarrow> string option \<times> 'w"

definition slack_verdict :: "'w slack_env \<Rightarrow> 'w Client \<Rightarrow> string \<Rightarrow> Reaction \<times> string \<Rightarrow> 'w \<Rightarrow> HumanVerdict \<times> 'w" where
  "slack_verdict env client name ra w =
     (case lookupActor client name (hd (ReactionUsers (fst ra))) w of
        (actor, w1) \<Rightarrow>
          (case clock env w1 of
             (now, w2) \<Rightarrow>
               (\<lparr>Choice = snd ra, VerdictActor = actor, VerdictChannel = name, VerdictAt = now,
                 VerdictRaw = Some [(''reaction'', RawText (ReactionName (fst ra))),
                   (''count'', RawInt (ReactionCount (fst ra))), (''users'', RawTexts (ReactionUsers (fst ra)))]\<rparr>, w2)))"

fun poll_receipts :: "'w slack_env \<Rightarrow> 'w Client \<Rightarrow> Config \<Rightarrow> string \<Rightarrow> string set option \<Rightarrow> Receipt list \<Rightarrow>
    'w \<Rightarrow> HumanVerdict option \<times> 'w" where
  "poll_receipts env client cfg name allowed [] w = (None, w)"
| "poll_receipts env client cfg name allowed (r # rs) w =
     (if ReceiptChannel r \<noteq> name then poll_receipts env client cfg name allowed rs w
      else (case client_reactions client (ReceiptTarget r) (ReceiptNative r) w of
              (Inl e, w1) \<Rightarrow> poll_receipts env client cfg name allowed rs w1
            | (Inr reactions, w1) \<Rightarrow>
                (case first_reaction cfg allowed reactions of
                   None \<Rightarrow> poll_receipts env client cfg name allowed rs w1
                 | Some ra \<Rightarrow> (case slack_verdict env client name ra w1 of (v, w2) \<Rightarrow> (Some v, w2)))))"

partial_function (option) await_loop :: "'w slack_env \<Rightarrow> 'w Client \<Rightarrow> Config \<Rightarrow> string \<Rightarrow> string set option \<Rightarrow>
    Receipt list \<Rightarrow> int \<Rightarrow> 'w \<Rightarrow> ((chan_error + HumanVerdict) \<times> 'w) option" where
  "await_loop env client cfg name allowed receipts deadline w =
     (case poll_receipts env client cfg name allowed receipts w of
        (Some v, w1) \<Rightarrow> Some (Inr v, w1)
      | (None, w1) \<Rightarrow>
          (case clock env w1 of
             (now, w2) \<Rightarrow>
               if now > deadline then Some (Inl ErrTimeout, w2)
               else (case await_tick env w2 of
                       (Some e, w3) \<Rightarrow> Some (Inl (ChanContext e), w3)
                     | (None, w3) \<Rightarrow> await_loop env client cfg name allowed receipts deadline w3)))"

definition slack_timeout :: "AwaitOpts \<Rightarrow> int" where
  "slack_timeout opts = (if AwaitTimeout opts \<le> 0 then 30 * 60 * 1000000000 else AwaitTimeout opts)"

definition slack_await :: "'w slack_env \<Rightarrow> 'w Client \<Rightarrow> Config \<Rightarrow> string \<Rightarrow> Receipt list \<Rightarrow> AwaitOpts \<Rightarrow> 'w \<Rightarrow>
    ((chan_error + HumanVerdict) \<times> 'w) option" where
  "slack_await env client cfg name receipts opts w =
     (case clock env w of
        (start, w1) \<Rightarrow>
          await_loop env client cfg name (allowedSet (AwaitOptions opts)) receipts (start + slack_timeout opts) w1)"

definition slack_notify :: "'w Client \<Rightarrow> Config \<Rightarrow> string \<Rightarrow> string \<Rightarrow> Message \<Rightarrow> 'w \<Rightarrow> (chan_error + Receipt) \<times> 'w" where
  "slack_notify client cfg name target msg w =
     (case Render cfg of
        None \<Rightarrow> (Inl (ChanFailure ''panic: nil Render''), w)
      | Some render \<Rightarrow>
          (case client_post client target (render msg) w of
             (Inl e, w') \<Rightarrow> (Inl (ChanWrapped ''slack.Post'' e), w')
           | (Inr ts, w') \<Rightarrow>
               (Inr \<lparr>ReceiptChannel = name, ReceiptTarget = target, ReceiptNative = ts, ReceiptMeta = None\<rparr>, w')))"

text \<open>A channel's wait is a total function of the model: one that does not return is a failure here.\<close>

definition returned :: "((chan_error + 'a) \<times> 'w) option \<Rightarrow> 'w \<Rightarrow> (chan_error + 'a) \<times> 'w" where
  "returned r w = (case r of None \<Rightarrow> (Inl (ChanFailure ''does not return''), w) | Some x \<Rightarrow> x)"

definition New_slack :: "'w slack_env \<Rightarrow> string \<Rightarrow> 'w Client option \<Rightarrow> Config \<Rightarrow> chan_error + 'w Channel" where
  "New_slack env name client cfg0 =
     (if name = [] then Inl (ChanFailure ''slack.New: name is required'')
      else (case client of
              None \<Rightarrow> Inl (ChanFailure ''slack.New: client is required'')
            | Some c \<Rightarrow>
                (let cfg = applyDefaults cfg0
                 in Inr \<lparr>ChannelName = name, ChannelNotify = Some (slack_notify c cfg name),
                      ChannelAwait = Some (\<lambda>rs opts w. returned (slack_await env c cfg name rs opts w) w)\<rparr>)))"

section \<open>What a verdict stands for\<close>

definition allows :: "string set option \<Rightarrow> string \<Rightarrow> bool" where
  "allows allowed action = (case allowed of None \<Rightarrow> True | Some a \<Rightarrow> action \<in> a)"

definition counts :: "Config \<Rightarrow> string set option \<Rightarrow> Reaction \<Rightarrow> string \<Rightarrow> bool" where
  "counts cfg allowed r action \<longleftrightarrow>
     verdict_of_reaction cfg (ReactionName r) = Some action \<and> allows allowed action \<and> ReactionUsers r \<noteq> []"

lemma first_reaction_Some:
  "first_reaction cfg allowed rs = Some (r, action) \<Longrightarrow>
     \<exists>us vs. rs = us @ r # vs \<and> counts cfg allowed r action \<and> (\<forall>u\<in>set us. \<forall>a. \<not> counts cfg allowed u a)"
proof (induction rs)
  case (Cons x rs)
  show ?case
  proof (cases "\<exists>a. counts cfg allowed x a")
    case True
    then have "r = x \<and> counts cfg allowed x action"
      using Cons.prems by (auto simp: counts_def allows_def split: option.splits if_splits)
    then show ?thesis by (intro exI [of _ "[]"] exI [of _ rs]) simp
  next
    case False
    then have "first_reaction cfg allowed (x # rs) = first_reaction cfg allowed rs"
      by (auto simp: counts_def allows_def split: option.splits)
    with Cons obtain us vs where "rs = us @ r # vs" "counts cfg allowed r action"
      "\<forall>u\<in>set us. \<forall>a. \<not> counts cfg allowed u a" by auto
    with False show ?thesis by (intro exI [of _ "x # us"] exI [of _ vs]) simp
  qed
qed simp

definition verdict_on :: "'w Client \<Rightarrow> Config \<Rightarrow> string \<Rightarrow> string set option \<Rightarrow> Receipt list \<Rightarrow> HumanVerdict \<Rightarrow> bool" where
  "verdict_on client cfg name allowed receipts v \<longleftrightarrow>
     (\<exists>rc\<in>set receipts. \<exists>w1 w2 us r vs. ReceiptChannel rc = name \<and>
        client_reactions client (ReceiptTarget rc) (ReceiptNative rc) w1 = (Inr (us @ r # vs), w2) \<and>
        counts cfg allowed r (Choice v) \<and> (\<forall>u\<in>set us. \<forall>a. \<not> counts cfg allowed u a) \<and>
        ActorCanonical (VerdictActor v) = name @ '':'' @ hd (ReactionUsers r) \<and> VerdictChannel v = name)"

lemma verdict_on_mono:
  assumes "verdict_on client cfg name allowed rs v" "set rs \<subseteq> set rs'"
  shows "verdict_on client cfg name allowed rs' v"
  using assms(1) unfolding verdict_on_def by (rule bexE) (rule bexI, assumption, use assms(2) in blast)

lemma lookupActor_canonical: "ActorCanonical (fst (lookupActor client name user w)) = name @ '':'' @ user"
  by (simp add: lookupActor_def Let_def split: prod.splits sum.splits)

lemma slack_verdict_fields:
  "slack_verdict env client name (r, action) w = (v, w') \<Longrightarrow>
     Choice v = action \<and> VerdictChannel v = name \<and> ActorCanonical (VerdictActor v) = name @ '':'' @ hd (ReactionUsers r)"
  using lookupActor_canonical [of client name "hd (ReactionUsers r)" w]
  by (auto simp: slack_verdict_def split: prod.splits)

lemma poll_receipts_Some:
  "poll_receipts env client cfg name allowed receipts w = (Some v, w') \<Longrightarrow> verdict_on client cfg name allowed receipts v"
proof (induction receipts arbitrary: w)
  case (Cons rc receipts)
  have mono: "verdict_on client cfg name allowed receipts v \<Longrightarrow> verdict_on client cfg name allowed (rc # receipts) v"
    unfolding verdict_on_def by auto
  show ?case
  proof (cases "ReceiptChannel rc = name")
    case False
    with Cons mono show ?thesis by simp
  next
    case True
    obtain res w1 where get: "client_reactions client (ReceiptTarget rc) (ReceiptNative rc) w = (res, w1)"
      by (metis prod.exhaust)
    show ?thesis
    proof (cases "\<exists>reactions r action. res = Inr reactions \<and> first_reaction cfg allowed reactions = Some (r, action)")
      case False
      with Cons mono True get show ?thesis by (auto split: sum.splits option.splits)
    next
      case found: True
      then obtain reactions r action where res: "res = Inr reactions" "first_reaction cfg allowed reactions = Some (r, action)"
        by blast
      from res(2) obtain us vs where r: "reactions = us @ r # vs" "counts cfg allowed r action"
        "\<forall>u\<in>set us. \<forall>a. \<not> counts cfg allowed u a" using first_reaction_Some by blast
      from Cons.prems True get res have "slack_verdict env client name (r, action) w1 = (v, w')"
        by (auto split: prod.splits)
      from slack_verdict_fields [OF this] get [unfolded res(1) r(1)] r(2,3) True show ?thesis
        unfolding verdict_on_def
        by (intro bexI [of _ rc] exI [of _ w] exI [of _ w1] exI [of _ us] exI [of _ r] exI [of _ vs]) simp_all
    qed
  qed
qed simp

definition await_outcome_ok :: "'w Client \<Rightarrow> Config \<Rightarrow> string \<Rightarrow> string set option \<Rightarrow> Receipt list \<Rightarrow>
    chan_error + HumanVerdict \<Rightarrow> bool" where
  "await_outcome_ok client cfg name allowed receipts r =
     (case r of Inr v \<Rightarrow> verdict_on client cfg name allowed receipts v
      | Inl e \<Rightarrow> e = ErrTimeout \<or> (\<exists>c. e = ChanContext c))"

lemma await_loop_outcome:
  "await_loop env client cfg name allowed receipts deadline w = Some y \<Longrightarrow>
     await_outcome_ok client cfg name allowed receipts (fst y)"
proof (rule await_loop.raw_induct [where P = "\<lambda>env client cfg name allowed receipts deadline w y.
    await_outcome_ok client cfg name allowed receipts (fst y)"])
  fix loop and env :: "'w slack_env" and client cfg name allowed receipts deadline w y
  assume IH: "\<And>env client cfg name allowed receipts deadline w y.
      loop env client cfg name allowed receipts deadline w = Some y \<Longrightarrow>
      await_outcome_ok client cfg name allowed receipts (fst y)"
    and run: "(case poll_receipts env client cfg name allowed receipts w of
        (Some v, w1) \<Rightarrow> Some (Inr v, w1)
      | (None, w1) \<Rightarrow>
          (case clock env w1 of
             (now, w2) \<Rightarrow>
               if now > deadline then Some (Inl ErrTimeout, w2)
               else (case await_tick env w2 of
                       (Some e, w3) \<Rightarrow> Some (Inl (ChanContext e), w3)
                     | (None, w3) \<Rightarrow> loop env client cfg name allowed receipts deadline w3))) = Some y"
  obtain pr w1 where p: "poll_receipts env client cfg name allowed receipts w = (pr, w1)" by (metis prod.exhaust)
  show "await_outcome_ok client cfg name allowed receipts (fst y)"
  proof (cases pr)
    case (Some v)
    with run p have "y = (Inr v, w1)" by simp
    with poll_receipts_Some [OF p [unfolded Some]] show ?thesis by (simp add: await_outcome_ok_def)
  next
    case None
    with run p show ?thesis
      by (auto simp: await_outcome_ok_def split: prod.splits if_splits option.splits
          dest!: IH [unfolded await_outcome_ok_def])
  qed
qed

lemma slack_await_outcome:
  assumes "slack_await env client cfg name receipts opts w = Some (r, w')"
  shows "case r of
      Inl e \<Rightarrow> e = ErrTimeout \<or> (\<exists>c. e = ChanContext c)
    | Inr v \<Rightarrow> (AwaitOptions opts = [] \<or> Choice v \<in> set (AwaitOptions opts)) \<and>
        (\<exists>rc\<in>set receipts. \<exists>w1 w2 us re vs. ReceiptChannel rc = name \<and>
          client_reactions client (ReceiptTarget rc) (ReceiptNative rc) w1 = (Inr (us @ re # vs), w2) \<and>
          verdict_of_reaction cfg (ReactionName re) = Some (Choice v) \<and> ReactionUsers re \<noteq> [] \<and>
          (\<forall>u\<in>set us. \<forall>a. \<not> counts cfg (allowedSet (AwaitOptions opts)) u a) \<and>
          ActorCanonical (VerdictActor v) = name @ '':'' @ hd (ReactionUsers re) \<and> VerdictChannel v = name)"
proof -
  obtain start w1 where "await_loop env client cfg name (allowedSet (AwaitOptions opts)) receipts start w1 = Some (r, w')"
    using assms by (auto simp: slack_await_def split: prod.splits)
  note out = await_loop_outcome [OF this]
  show ?thesis
  proof (cases r)
    case (Inl e)
    with out show ?thesis by (simp add: await_outcome_ok_def)
  next
    case (Inr v)
    with out have "verdict_on client cfg name (allowedSet (AwaitOptions opts)) receipts v"
      by (simp add: await_outcome_ok_def)
    then obtain rc w1 w2 us re vs where v: "rc \<in> set receipts" "ReceiptChannel rc = name"
      "client_reactions client (ReceiptTarget rc) (ReceiptNative rc) w1 = (Inr (us @ re # vs), w2)"
      "counts cfg (allowedSet (AwaitOptions opts)) re (Choice v)"
      "\<forall>u\<in>set us. \<forall>a. \<not> counts cfg (allowedSet (AwaitOptions opts)) u a"
      "ActorCanonical (VerdictActor v) = name @ '':'' @ hd (ReactionUsers re)" "VerdictChannel v = name"
      unfolding verdict_on_def by (elim bexE exE conjE)
    from v(4) have "AwaitOptions opts = [] \<or> Choice v \<in> set (AwaitOptions opts)"
      by (auto simp: counts_def allows_def allowedSet_def split: if_splits)
    moreover have "verdict_of_reaction cfg (ReactionName re) = Some (Choice v)" "ReactionUsers re \<noteq> []"
      using v(4) by (simp_all add: counts_def)
    ultimately show ?thesis unfolding Inr sum.case using v
      by (intro conjI bexI [of _ rc] exI [of _ w1] exI [of _ w2] exI [of _ us] exI [of _ re] exI [of _ vs])
  qed
qed


text \<open>
  A verdict of the Slack wait is what a human did: it stands for the first reaction on one of this
  channel's receipts that is mapped to an action, allowed by the options and has a user, and the actor
  is that user. Failing requests to Slack never end the wait: without a verdict it ends only by the
  deadline or by its context.
\<close>

theorem slack_await_verdict:
  assumes "slack_await env client cfg name receipts opts w = Some (r, w')"
  shows "case r of
      Inl e \<Rightarrow> e = ErrTimeout \<or> (\<exists>c. e = ChanContext c)
    | Inr v \<Rightarrow> (AwaitOptions opts = [] \<or> Choice v \<in> set (AwaitOptions opts)) \<and>
        (\<exists>rc\<in>set receipts. \<exists>w1 w2 us re vs. ReceiptChannel rc = name \<and>
          client_reactions client (ReceiptTarget rc) (ReceiptNative rc) w1 = (Inr (us @ re # vs), w2) \<and>
          verdict_of_reaction cfg (ReactionName re) = Some (Choice v) \<and> ReactionUsers re \<noteq> [] \<and>
          (\<forall>u\<in>set us. \<forall>a. \<not> counts cfg (allowedSet (AwaitOptions opts)) u a) \<and>
          ActorCanonical (VerdictActor v) = name @ '':'' @ hd (ReactionUsers re) \<and> VerdictChannel v = name)"
  by (rule slack_await_outcome [OF assms])

section \<open>The wait returns\<close>

text \<open>
  What a ticker promises: its \<open>n\<close>-th tick comes no earlier than \<open>n\<close> intervals after its start. \<open>N\<close> counts
  the ticks a world has seen; requests to Slack and readings of the clock are no ticks.
\<close>

definition ticker_ok :: "'w slack_env \<Rightarrow> 'w Client \<Rightarrow> int \<Rightarrow> int \<Rightarrow> ('w \<Rightarrow> nat) \<Rightarrow> bool" where
  "ticker_ok env client interval start N \<longleftrightarrow>
     (\<forall>w. start + int (N w) * interval \<le> fst (clock env w) \<and> N (snd (clock env w)) = N w) \<and>
     (\<forall>w. N (snd (await_tick env w)) \<le> Suc (N w) \<and>
        (fst (await_tick env w) = None \<longrightarrow> N (snd (await_tick env w)) = Suc (N w))) \<and>
     (\<forall>t n w. N (snd (client_reactions client t n w)) = N w) \<and> (\<forall>u w. N (snd (client_user client u w)) = N w)"

lemma ticker_okD:
  assumes "ticker_ok env client interval start N"
  shows "clock env w = (t, w') \<Longrightarrow> start + int (N w) * interval \<le> t \<and> N w' = N w"
    "await_tick env w = (x, w') \<Longrightarrow> N w' \<le> Suc (N w) \<and> (x = None \<longrightarrow> N w' = Suc (N w))"
    "client_reactions client u n w = (rs, w') \<Longrightarrow> N w' = N w"
    "client_user client u w = (i, w') \<Longrightarrow> N w' = N w"
proof -
  assume "clock env w = (t, w')"
  with assms [unfolded ticker_ok_def, THEN conjunct1, THEN spec [of _ w]]
  show "start + int (N w) * interval \<le> t \<and> N w' = N w" by simp
next
  assume "await_tick env w = (x, w')"
  with assms [unfolded ticker_ok_def, THEN conjunct2, THEN conjunct1, THEN spec [of _ w]]
  show "N w' \<le> Suc (N w) \<and> (x = None \<longrightarrow> N w' = Suc (N w))" by simp
next
  assume "client_reactions client u n w = (rs, w')"
  with assms [unfolded ticker_ok_def, THEN conjunct2, THEN conjunct2, THEN conjunct1, THEN spec [of _ u], THEN spec [of _ n], THEN spec [of _ w]]
  show "N w' = N w" by simp
next
  assume "client_user client u w = (i, w')"
  with assms [unfolded ticker_ok_def, THEN conjunct2, THEN conjunct2, THEN conjunct2, THEN spec [of _ u], THEN spec [of _ w]]
  show "N w' = N w" by simp
qed

lemma slack_verdict_ticks:
  assumes "ticker_ok env client interval start N" "slack_verdict env client name ra w = (v, w')"
  shows "N w' = N w"
proof -
  obtain actor w1 where a: "lookupActor client name (hd (ReactionUsers (fst ra))) w = (actor, w1)" by (metis prod.exhaust)
  then have "N w1 = N w"
    by (auto simp: lookupActor_def Let_def ticker_okD(4) [OF assms(1)] split: prod.splits sum.splits)
  moreover obtain t where "clock env w1 = (t, w')" using assms(2) a by (auto simp: slack_verdict_def split: prod.splits)
  ultimately show ?thesis using ticker_okD(1) [OF assms(1)] by simp
qed

lemma poll_receipts_ticks:
  assumes "ticker_ok env client interval start N"
  shows "poll_receipts env client cfg name allowed receipts w = (x, w') \<Longrightarrow> N w' = N w"
proof (induction receipts arbitrary: w)
  case (Cons rc receipts)
  obtain res w1 where get: "client_reactions client (ReceiptTarget rc) (ReceiptNative rc) w = (res, w1)" by (metis prod.exhaust)
  have "N w1 = N w" by (rule ticker_okD(3) [OF assms get])
  with Cons get slack_verdict_ticks [OF assms]
  show ?case by (auto split: if_splits sum.splits option.splits prod.splits)
qed simp

lemma await_loop_returns:
  assumes "ticker_ok env client interval start N" "0 < interval" "deadline \<le> start + int K * interval"
  shows "N w \<le> Suc K \<Longrightarrow> \<exists>r w'. await_loop env client cfg name allowed receipts deadline w = Some (r, w') \<and> N w' \<le> Suc K"
proof (induction "Suc K - N w" arbitrary: w rule: less_induct)
  case less
  obtain pr w1 where p: "poll_receipts env client cfg name allowed receipts w = (pr, w1)" by (metis prod.exhaust)
  have n1: "N w1 = N w" by (rule poll_receipts_ticks [OF assms(1) p])
  show ?case
  proof (cases pr)
    case (Some v)
    with p less(2) n1 show ?thesis by (subst await_loop.simps) simp
  next
    case None
    obtain now w2 where c: "clock env w1 = (now, w2)" by (metis prod.exhaust)
    have n2: "start + int (N w) * interval \<le> now" "N w2 = N w" using ticker_okD(1) [OF assms(1) c] n1 by simp_all
    show ?thesis
    proof (cases "now > deadline")
      case True
      with p None c n2 less(2) show ?thesis by (subst await_loop.simps) simp
    next
      case False
      then have "int (N w) * interval \<le> int K * interval" using n2(1) assms(3) by linarith
      then have K: "N w \<le> K" using assms(2) by simp
      obtain x w3 where t: "await_tick env w2 = (x, w3)" by (metis prod.exhaust)
      show ?thesis
      proof (cases x)
        case (Some e)
        with p None c False t ticker_okD(2) [OF assms(1) t] n2(2) K show ?thesis
          by (subst await_loop.simps) simp
      next
        case None': None
        have n3: "N w3 = Suc (N w)" using ticker_okD(2) [OF assms(1) t] n2(2) None' by simp
        have "\<exists>r w'. await_loop env client cfg name allowed receipts deadline w3 = Some (r, w') \<and> N w' \<le> Suc K"
          by (rule less(1)) (use n3 K in simp_all)
        with p None c False t None' show ?thesis by (subst await_loop.simps) simp
      qed
    qed
  qed
qed

lemma slack_await_ticks:
  assumes "ticker_ok env client interval start N" "0 < interval"
    and "clock env w = (t0, w1)" "t0 \<le> start" "N w1 = 0"
  shows "\<exists>r w'. slack_await env client cfg name receipts opts w = Some (r, w') \<and>
    int (N w') \<le> slack_timeout opts div interval + 2"
proof -
  let ?K = "nat (slack_timeout opts div interval) + 1"
  have pos: "0 \<le> slack_timeout opts" by (simp add: slack_timeout_def)
  then have k: "int ?K = slack_timeout opts div interval + 1" using assms(2) by (simp add: pos_imp_zdiv_nonneg_iff)
  have "slack_timeout opts < (slack_timeout opts div interval + 1) * interval"
    using div_mult_mod_eq [of "slack_timeout opts" interval] pos_mod_bound [OF assms(2), of "slack_timeout opts"]
    by (simp only: distrib_right mult_1)
  then have "t0 + slack_timeout opts \<le> start + int ?K * interval" using assms(4) unfolding k by linarith
  from await_loop_returns [where w = w1, OF assms(1,2) this, of cfg name "allowedSet (AwaitOptions opts)" receipts] assms(5)
  obtain r w' where "await_loop env client cfg name (allowedSet (AwaitOptions opts)) receipts (t0 + slack_timeout opts) w1 =
      Some (r, w')" "N w' \<le> Suc ?K" by auto
  moreover from this(2) have "int (N w') \<le> int ?K + 1" by (simp only: of_nat_le_iff of_nat_Suc [symmetric] Suc_eq_plus1 [symmetric] of_nat_1 of_nat_add [symmetric])
  then have "int (N w') \<le> slack_timeout opts div interval + 2" unfolding k by simp
  ultimately show ?thesis using assms(3) by (auto simp: slack_await_def)
qed

text \<open>
  C25: the Slack wait returns, whatever Slack answers: with a ticker of the configured interval started
  after the deadline was computed, it ends after at most two more ticks than intervals fit in
  its timeout.
\<close>

theorem slack_await_returns:
  assumes "ticker_ok env client interval start N" "0 < interval"
    and "clock env w = (t0, w1)" "t0 \<le> start" "N w1 = 0"
  shows "\<exists>r w'. slack_await env client cfg name receipts opts w = Some (r, w') \<and>
    int (N w') \<le> slack_timeout opts div interval + 2"
  by (rule slack_await_ticks [OF assms])


section \<open>How long the wait lasts\<close>

text \<open>
  The time that passes: \<open>T\<close> is the time of a world. Reading the clock gives that time and takes none; the next tick
  of a ticker, or the end of the context, comes within one interval; a request to Slack is answered, or fails, within
  \<open>latency\<close>.
\<close>

definition wait_timing :: "('w \<Rightarrow> int) \<Rightarrow> 'w slack_env \<Rightarrow> 'w Client \<Rightarrow> int \<Rightarrow> int \<Rightarrow> bool" where
  "wait_timing T env client interval latency \<longleftrightarrow>
     (\<forall>w. fst (clock env w) = T w \<and> T (snd (clock env w)) = T w) \<and>
     (\<forall>w. T (snd (await_tick env w)) \<in> {T w .. T w + interval}) \<and>
     (\<forall>t n w. T (snd (client_reactions client t n w)) \<in> {T w .. T w + latency}) \<and>
     (\<forall>u w. T (snd (client_user client u w)) \<in> {T w .. T w + latency})"

lemma wait_timingD:
  assumes "wait_timing T env client interval latency"
  shows "clock env w = (t, w') \<Longrightarrow> t = T w \<and> T w' = T w"
    "await_tick env w = (x, w') \<Longrightarrow> T w \<le> T w' \<and> T w' \<le> T w + interval"
    "client_reactions client u n w = (rs, w') \<Longrightarrow> T w \<le> T w' \<and> T w' \<le> T w + latency"
    "client_user client u w = (i, w') \<Longrightarrow> T w \<le> T w' \<and> T w' \<le> T w + latency"
    "0 \<le> latency" "0 \<le> interval"
proof -
  note laws = assms [unfolded wait_timing_def]
  note L = conjunct2 [OF laws] conjunct2 [OF conjunct2 [OF laws]]
  show "clock env w = (t, w') \<Longrightarrow> t = T w \<and> T w' = T w" using spec [OF conjunct1 [OF laws], of w] by simp
  show "await_tick env w = (x, w') \<Longrightarrow> T w \<le> T w' \<and> T w' \<le> T w + interval"
    using spec [OF conjunct1 [OF L(1)], of w] by simp
  show "client_reactions client u n w = (rs, w') \<Longrightarrow> T w \<le> T w' \<and> T w' \<le> T w + latency"
    using spec [OF spec [OF spec [OF conjunct1 [OF L(2)], of u], of n], of w] by simp
  show "client_user client u w = (i, w') \<Longrightarrow> T w \<le> T w' \<and> T w' \<le> T w + latency"
    using spec [OF spec [OF conjunct2 [OF L(2)], of u], of w] by simp
  show "0 \<le> latency" using spec [OF spec [OF conjunct2 [OF L(2)], of u], of w] by simp
  show "0 \<le> interval" using spec [OF conjunct1 [OF L(1)], of w] by simp
qed

lemma slack_verdict_time:
  assumes "wait_timing T env client interval latency" "slack_verdict env client name ra w = (v, w')"
  shows "T w' \<le> T w + latency"
proof -
  obtain actor w1 where a: "lookupActor client name (hd (ReactionUsers (fst ra))) w = (actor, w1)" by (metis prod.exhaust)
  obtain i w2 where u: "client_user client (hd (ReactionUsers (fst ra))) w = (i, w2)" by (metis prod.exhaust)
  with a have "w1 = w2" by (auto simp: lookupActor_def Let_def split: sum.splits)
  with wait_timingD(4) [OF assms(1) u] have "T w1 \<le> T w + latency" by simp
  moreover obtain t where "clock env w1 = (t, w')" using assms(2) a by (auto simp: slack_verdict_def split: prod.splits)
  ultimately show ?thesis using wait_timingD(1) [OF assms(1)] by simp
qed

text \<open>One round asks for the reactions to every post, and for a user at most once.\<close>

lemma poll_receipts_time:
  assumes "wait_timing T env client interval latency"
  shows "poll_receipts env client cfg name allowed receipts w = (x, w') \<Longrightarrow> T w' \<le> T w + (int (length receipts) + 1) * latency"
proof (induction receipts arbitrary: w)
  case Nil
  then show ?case using wait_timingD(5) [OF assms] by simp
next
  case (Cons rc receipts)
  let ?rest = "(int (length receipts) + 1) * latency"
  have all: "(int (length (rc # receipts)) + 1) * latency = latency + ?rest" by (simp add: algebra_simps)
  have rest: "latency \<le> ?rest" "0 \<le> latency"
    using wait_timingD(5) [OF assms] mult_right_mono [of 1 "int (length receipts) + 1" latency] by simp_all
  obtain res w1 where get: "client_reactions client (ReceiptTarget rc) (ReceiptNative rc) w = (res, w1)" by (metis prod.exhaust)
  have t1: "T w1 \<le> T w + latency" using wait_timingD(3) [OF assms get] by simp
  have later: "T w' \<le> T w + (latency + ?rest)" if "poll_receipts env client cfg name allowed receipts v = (x, w')" "T v \<le> T w + latency" for v
    using Cons.IH [OF that(1)] that(2) by linarith
  have found: "T w' \<le> T w + (latency + ?rest)" if "slack_verdict env client name ra w1 = (v, w')" for ra v
    using slack_verdict_time [OF assms that] t1 rest by linarith
  have now: "T w \<le> T w + latency" using rest(2) by simp
  from Cons.prems show ?case unfolding all
    by (auto simp: get split: if_splits sum.splits option.splits prod.splits intro: later [OF _ t1] later [OF _ now] found)
qed

text \<open>
  The loop ends within one interval and one round of requests after its deadline. The bound is proved of every value
  the loop returns; that it returns one is \<open>await_loop_returns\<close>.
\<close>

lemma await_loop_time:
  assumes law: "wait_timing T env client interval latency"
    and run: "await_loop env client cfg name allowed receipts deadline w = Some y"
  shows "T (snd y) \<le> max (T w) (deadline + interval) + (int (length receipts) + 1) * latency"
proof -
  have "wait_timing T env client interval latency \<longrightarrow>
    T (snd y) \<le> max (T w) (deadline + interval) + (int (length receipts) + 1) * latency"
  proof (rule await_loop.raw_induct [where P = "\<lambda>env client cfg name allowed receipts deadline w y.
      wait_timing T env client interval latency \<longrightarrow>
      T (snd y) \<le> max (T w) (deadline + interval) + (int (length receipts) + 1) * latency", OF _ run], intro impI)
    fix loop and env :: "'a slack_env" and client cfg name allowed receipts deadline w y
    assume IH: "\<And>env client cfg name allowed receipts deadline w y.
        loop env client cfg name allowed receipts deadline w = Some y \<Longrightarrow>
        wait_timing T env client interval latency \<longrightarrow>
        T (snd y) \<le> max (T w) (deadline + interval) + (int (length receipts) + 1) * latency"
      and run: "(case poll_receipts env client cfg name allowed receipts w of
          (Some v, w1) \<Rightarrow> Some (Inr v, w1)
        | (None, w1) \<Rightarrow>
            (case clock env w1 of
               (now, w2) \<Rightarrow>
                 if now > deadline then Some (Inl ErrTimeout, w2)
                 else (case await_tick env w2 of
                         (Some e, w3) \<Rightarrow> Some (Inl (ChanContext e), w3)
                       | (None, w3) \<Rightarrow> loop env client cfg name allowed receipts deadline w3))) = Some y"
      and law: "wait_timing T env client interval latency"
    let ?L = "(int (length receipts) + 1) * latency"
    have L: "0 \<le> ?L" using wait_timingD(5) [OF law] by simp
    obtain pr w1 where p: "poll_receipts env client cfg name allowed receipts w = (pr, w1)" by (metis prod.exhaust)
    obtain now w2 where c: "clock env w1 = (now, w2)" by (metis prod.exhaust)
    obtain x w3 where t: "await_tick env w2 = (x, w3)" by (metis prod.exhaust)
    note times = poll_receipts_time [OF law p] wait_timingD(1) [OF law c] wait_timingD(2) [OF law t]
    consider (early) "T (snd y) \<le> T w1" | (context_ends) "now \<le> deadline" "snd y = w3"
      | (goes_on) "now \<le> deadline" "loop env client cfg name allowed receipts deadline w3 = Some y"
      using run p c t times(2) by (cases pr; cases x) (auto split: if_splits)
    then show "T (snd y) \<le> max (T w) (deadline + interval) + ?L"
    proof cases
      case early
      with times(1) show ?thesis by linarith
    next
      case context_ends
      then have "T (snd y) \<le> deadline + interval" using times(2,3) by simp
      with L show ?thesis by linarith
    next
      case goes_on
      then have "T w3 \<le> deadline + interval" using times(2,3) by simp
      with mp [OF IH [OF goes_on(2)] law] show ?thesis by simp
    qed
  qed
  with law show ?thesis by simp
qed

lemma slack_await_time:
  assumes "wait_timing T env client interval latency" "slack_await env client cfg name receipts opts w = Some (r, w')"
  shows "T w' \<le> T w + slack_timeout opts + interval + (int (length receipts) + 1) * latency"
proof -
  obtain start w1 where c: "clock env w = (start, w1)" by (metis prod.exhaust)
  have "0 \<le> slack_timeout opts" "0 \<le> interval" using wait_timingD(6) [OF assms(1)] by (simp_all add: slack_timeout_def)
  moreover have "await_loop env client cfg name (allowedSet (AwaitOptions opts)) receipts (start + slack_timeout opts) w1 = Some (r, w')"
    using assms(2) c by (simp add: slack_await_def)
  ultimately show ?thesis using await_loop_time [OF assms(1), of cfg name _ receipts _ w1 "(r, w')"]
      wait_timingD(1) [OF assms(1) c] by fastforce
qed

section \<open>The adapter behind a dispatcher\<close>

lemma New_slack_channel:
  assumes "New_slack env name (Some client) cfg = Inr ch"
  shows "ChannelName ch = name \<and> name \<noteq> [] \<and> tags_receipts ch \<and>
    ChannelAwait ch = Some (\<lambda>rs opts w. returned (slack_await env client (applyDefaults cfg) name rs opts w) w)"
  using assms
  by (auto simp: New_slack_def Let_def tags_receipts_def slack_notify_def split: if_splits option.splits prod.splits sum.splits)

lemma slack_answer_on:
  assumes "New_slack env name (Some client) cfg = Inr ch"
    and "New_dispatcher (map option_of [SetChannel ch, SetRouter (Some router)]) = Inr d"
    and "range_order \<rho>" "race_of d race"
    and "Await race \<rho> d receipts opts w2 = (Answered v, w3)"
  shows "verdict_on client (applyDefaults cfg) name (allowedSet (AwaitOptions opts)) receipts v"
proof -
  note ch = New_slack_channel [OF assms(1)]
  from assms(2) [unfolded New_dispatcher_iff] ch
  have chans: "DispatcherChannels d = [(name, ch)]" by simp
  from Await_answer_from [OF assms(3,4,5)] obtain v0 where v0: "answers_from d receipts opts v0"
    "ActorCanonical (VerdictActor v0) = [] \<or> v = v0" by (elim exE conjE) simp
  from v0(1) obtain n ch' wait w4 w5 where n: "gm_get (DispatcherChannels d) n = Some ch'" "ChannelAwait ch' = Some wait"
    "wait (receipts_of n receipts) opts w4 = (Inr v0, w5)"
    unfolding answers_from_def by (elim exE conjE)
  from n(1) have eq: "n = name \<and> ch' = ch" by (simp add: chans gm_get_def split: if_splits)
  have "wait = (\<lambda>rs opts w. returned (slack_await env client (applyDefaults cfg) name rs opts w) w)"
    using n(2) ch eq by simp
  from n(3) [unfolded this] eq have "returned (slack_await env client (applyDefaults cfg) name (receipts_of name receipts) opts w4) w4 =
      (Inr v0, w5)" by simp
  then have run: "slack_await env client (applyDefaults cfg) name (receipts_of name receipts) opts w4 = Some (Inr v0, w5)"
    by (simp add: returned_def split: option.splits)
  obtain start w6 where "await_loop env client (applyDefaults cfg) name (allowedSet (AwaitOptions opts))
      (receipts_of name receipts) start w6 = Some (Inr v0, w5)"
    using run by (auto simp: slack_await_def split: prod.splits)
  from await_loop_outcome [OF this]
  have on: "verdict_on client (applyDefaults cfg) name (allowedSet (AwaitOptions opts)) (receipts_of name receipts) v0"
    by (simp add: await_outcome_ok_def)
  then have eq: "v = v0" using v0(2) by (auto simp: verdict_on_def)
  show ?thesis unfolding eq by (rule verdict_on_mono [OF on]) (auto simp: receipts_of_def)
qed

text \<open>
  C26: a message that was posted to Slack is decided only by a human's reaction to it: every answer that
  a dispatcher with a Slack channel gives on the receipts of a post is an allowed choice, made by the
  first counting reaction on a message of that post, and names the user of that reaction.
\<close>

theorem slack_message_decided:
  assumes "New_slack env name (Some client) cfg = Inr ch"
    and "New_dispatcher (map option_of [SetChannel ch, SetRouter (Some router)]) = Inr d"
    and "range_order \<rho>" "race_of d race" "Notify \<rho> d msg w = (Inr res, w1)"
    and "Await race \<rho> d (PostReceipts res) opts w2 = (Answered v, w3)"
  shows "(AwaitOptions opts = [] \<or> Choice v \<in> set (AwaitOptions opts)) \<and>
    (\<exists>rc\<in>set (PostReceipts res). \<exists>w4 w5 us re vs.
       client_reactions client (ReceiptTarget rc) (ReceiptNative rc) w4 = (Inr (us @ re # vs), w5) \<and>
       verdict_of_reaction (applyDefaults cfg) (ReactionName re) = Some (Choice v) \<and> ReactionUsers re \<noteq> [] \<and>
       (\<forall>u\<in>set us. \<forall>a. \<not> counts (applyDefaults cfg) (allowedSet (AwaitOptions opts)) u a) \<and>
       ActorCanonical (VerdictActor v) = name @ '':'' @ hd (ReactionUsers re))"
proof -
  note on = slack_answer_on [OF assms(1-4,6)]
  then have "AwaitOptions opts = [] \<or> Choice v \<in> set (AwaitOptions opts)"
    by (auto simp: verdict_on_def counts_def allows_def allowedSet_def split: if_splits)
  moreover from on obtain rc w4 w5 us re vs where rc: "rc \<in> set (PostReceipts res)"
    "client_reactions client (ReceiptTarget rc) (ReceiptNative rc) w4 = (Inr (us @ re # vs), w5)"
    "counts (applyDefaults cfg) (allowedSet (AwaitOptions opts)) re (Choice v)"
    "\<forall>u\<in>set us. \<forall>a. \<not> counts (applyDefaults cfg) (allowedSet (AwaitOptions opts)) u a"
    "ActorCanonical (VerdictActor v) = name @ '':'' @ hd (ReactionUsers re)"
    unfolding verdict_on_def by (elim bexE exE conjE)
  moreover have "verdict_of_reaction (applyDefaults cfg) (ReactionName re) = Some (Choice v)" "ReactionUsers re \<noteq> []"
    using rc(3) by (simp_all add: counts_def)
  ultimately show ?thesis
    by (intro conjI bexI [of _ rc] exI [of _ w4] exI [of _ w5] exI [of _ us] exI [of _ re] exI [of _ vs])
qed

section \<open>A concrete wait\<close>

text \<open>The world counts the ticks; from the second tick on the message has two reactions.\<close>

definition demo_slack_env :: "nat slack_env" where
  "demo_slack_env = \<lparr>clock = (\<lambda>w. (int w, w)), await_tick = (\<lambda>w. (None, w + 1))\<rparr>"

definition demo_client :: "nat Client" where
  "demo_client = \<lparr>client_post = (\<lambda>c opts w. (Inr ''ts'', w)),
     client_reactions = (\<lambda>c ts w. if w < 2 then (Inl (ChanFailure ''down''), w)
       else (Inr [\<lparr>ReactionName = ''eyes'', ReactionUsers = [''U0''], ReactionCount = 1\<rparr>,
                  \<lparr>ReactionName = ''x'', ReactionUsers = [''U1''], ReactionCount = 1\<rparr>], w)),
     client_user = (\<lambda>u w. (Inl (ChanFailure ''none''), w))\<rparr>"

definition demo_config :: Config where
  "demo_config = \<lparr>PollInterval = 1, VerdictByReaction = None, Render = None\<rparr>"

definition demo_slack_receipt :: Receipt where
  "demo_slack_receipt = \<lparr>ReceiptChannel = ''slack'', ReceiptTarget = ''C1'', ReceiptNative = ''ts'', ReceiptMeta = None\<rparr>"

definition demo_slack_verdict :: HumanVerdict where
  "demo_slack_verdict = \<lparr>Choice = ''reject'',
     VerdictActor = no_actor\<lparr>ActorCanonical := ''slack:U1'', ActorSource := ''slack-passthrough''\<rparr>,
     VerdictChannel = ''slack'', VerdictAt = 2,
     VerdictRaw = Some [(''reaction'', RawText ''x''), (''count'', RawInt 1), (''users'', RawTexts [''U1''])]\<rparr>"

lemma demo_slack_run:
  "slack_await demo_slack_env demo_client (applyDefaults demo_config) ''slack'' [demo_slack_receipt] demo_opts 0 =
     Some (Inr demo_slack_verdict, 2)"
  by (simp add: slack_await_def demo_slack_env_def demo_client_def demo_config_def demo_slack_receipt_def demo_opts_def
      await_loop.simps slack_verdict_def lookupActor_def applyDefaults_def verdict_of_reaction_def default_verdicts_def
      gm_get_def allowedSet_def slack_timeout_def demo_slack_verdict_def Let_def)

theorem slack_await_verdict_witness:
  "slack_await demo_slack_env demo_client (applyDefaults demo_config) ''slack'' [demo_slack_receipt] demo_opts 0 =
     Some (Inr demo_slack_verdict, 2) \<and>
   (\<exists>re :: Reaction. verdict_of_reaction (applyDefaults demo_config) (ReactionName re) = Some ''reject'' \<and> ReactionUsers re \<noteq> [])"
proof -
  have "Choice demo_slack_verdict = ''reject''" by (simp add: demo_slack_verdict_def)
  with slack_await_verdict [OF demo_slack_run] demo_slack_run show ?thesis by auto
qed

theorem slack_await_returns_witness:
  "\<exists>r w'. slack_await demo_slack_env demo_client (applyDefaults demo_config) ''slack'' [demo_slack_receipt]
     (demo_opts\<lparr>AwaitTimeout := 5\<rparr>) 0 = Some (r, w') \<and> w' \<le> 7"
proof -
  have ok: "ticker_ok demo_slack_env demo_client 1 0 (\<lambda>w. w)"
    by (simp add: ticker_ok_def demo_slack_env_def demo_client_def)
  have "clock demo_slack_env 0 = (0, 0)" by (simp add: demo_slack_env_def)
  from slack_await_returns [OF ok _ this, of "applyDefaults demo_config" "''slack''" "[demo_slack_receipt]"
      "demo_opts\<lparr>AwaitTimeout := 5\<rparr>"]
  obtain r w' where "slack_await demo_slack_env demo_client (applyDefaults demo_config) ''slack'' [demo_slack_receipt]
     (demo_opts\<lparr>AwaitTimeout := 5\<rparr>) 0 = Some (r, w')" "int w' \<le> slack_timeout (demo_opts\<lparr>AwaitTimeout := 5\<rparr>) div 1 + 2"
    by auto
  then show ?thesis by (intro exI [of _ r] exI [of _ w']) (simp add: slack_timeout_def)
qed

definition demo_slack :: "nat Channel" where
  "demo_slack = \<lparr>ChannelName = ''slack'', ChannelNotify = Some (slack_notify demo_client (applyDefaults demo_config) ''slack''),
     ChannelAwait = Some (\<lambda>rs opts w.
       returned (slack_await demo_slack_env demo_client (applyDefaults demo_config) ''slack'' rs opts w) w)\<rparr>"

definition demo_slack_dispatcher :: "nat Dispatcher" where
  "demo_slack_dispatcher = \<lparr>DispatcherChannels = [(''slack'', demo_slack)],
     DispatcherRouter = Some (FixedRouter ''slack'' ''C1''), DispatcherResolver = Some PassthroughResolver\<rparr>"

lemma demo_slack_new: "New_slack demo_slack_env ''slack'' (Some demo_client) demo_config = Inr demo_slack"
  by (simp add: New_slack_def demo_slack_def Let_def)

lemma demo_slack_built:
  "New_dispatcher (map option_of [SetChannel demo_slack, SetRouter (Some (FixedRouter ''slack'' ''C1''))]) =
     Inr demo_slack_dispatcher"
  unfolding New_dispatcher_iff by (simp add: demo_slack_dispatcher_def demo_slack_def)

lemma demo_slack_race: "race_of demo_slack_dispatcher (\<lambda>ws opts w. ([], w))"
  by (simp add: race_of_def)

lemma demo_slack_notify:
  "Notify (\<lambda>xs. xs) demo_slack_dispatcher msg 0 = (Inr \<lparr>PostReceipts = [demo_slack_receipt], PostErrors = []\<rparr>, 0)"
  by (simp add: Notify_def demo_slack_dispatcher_def FixedRouter_def gm_get_def demo_slack_def slack_notify_def
      applyDefaults_def demo_config_def demo_client_def demo_slack_receipt_def)

lemma demo_slack_await:
  assumes "slack_await demo_slack_env demo_client (applyDefaults demo_config) ''slack'' [demo_slack_receipt] opts 0 =
      Some (Inr demo_slack_verdict, 2)"
  shows "Await (\<lambda>ws opts w. ([], w)) (\<lambda>xs. xs) demo_slack_dispatcher [demo_slack_receipt] opts 0 =
      (Answered demo_slack_verdict, 2)"
proof -
  have groups: "await_groups (\<lambda>xs. xs) [demo_slack_receipt] = [(''slack'', [demo_slack_receipt])]"
    by (simp add: await_groups_def demo_slack_receipt_def receipts_of_def dedup_def)
  show ?thesis
    unfolding Await_def await_groups_eq [OF range_order_id] groups
    by (simp add: demo_slack_dispatcher_def gm_get_def demo_slack_def assms returned_def normalize_def
        demo_slack_verdict_def)
qed

theorem slack_message_decided_witness:
  "\<exists>w1 w3. Notify (\<lambda>xs. xs) demo_slack_dispatcher demo_message 0 =
      (Inr \<lparr>PostReceipts = [demo_slack_receipt], PostErrors = []\<rparr>, w1) \<and>
    Await (\<lambda>ws opts w. ([], w)) (\<lambda>xs. xs) demo_slack_dispatcher [demo_slack_receipt] demo_opts w1 =
      (Answered demo_slack_verdict, w3) \<and>
    (\<exists>re :: Reaction. verdict_of_reaction (applyDefaults demo_config) (ReactionName re) = Some ''reject'' \<and>
       ''slack:U1'' = ''slack'' @ '':'' @ hd (ReactionUsers re))"
proof -
  note await = demo_slack_await [OF demo_slack_run]
  have "Choice demo_slack_verdict = ''reject''" "ActorCanonical (VerdictActor demo_slack_verdict) = ''slack:U1''"
    by (simp_all add: demo_slack_verdict_def)
  with slack_message_decided [OF demo_slack_new demo_slack_built range_order_id demo_slack_race demo_slack_notify,
      unfolded PostResult.select_convs, OF await]
  have "\<exists>re :: Reaction. verdict_of_reaction (applyDefaults demo_config) (ReactionName re) = Some ''reject'' \<and>
       ''slack:U1'' = ''slack'' @ '':'' @ hd (ReactionUsers re)" by auto
  with demo_slack_notify await show ?thesis by blast
qed

end
