(* ===== verification/Agents.thy ===== *)
theory Agents
  imports Slack OAuth_Flow
begin

text \<open>
  Package agents: registered agents and the behaviors that wrap them (\<^verbatim>\<open>agent.go\<close>), the human verdict
  on an agent's output with its policies and predicates (\<^verbatim>\<open>verdict.go\<close>, \<^verbatim>\<open>predicates.go\<close>), and the
  resolution of OAuth credentials (\<^verbatim>\<open>oauth.go\<close>).

  An arrow gets the metadata its context carries, runs in the world \<open>'w\<close> and returns a value and perhaps an
  error, both, as Go functions do.
\<close>

section \<open>Agents and behaviors\<close>

record AgentContext =
  ContextAgentID :: string
  ContextWorkflowID :: string
  ContextRunID :: string
  InvokedBy :: string
  ContextExtra :: "(string, string) gomap"

type_synonym ('i, 'o, 'w) agent_arrow = "AgentContext \<Rightarrow> 'i \<Rightarrow> 'w \<Rightarrow> ('o \<times> oauth_error option) \<times> 'w"

type_synonym ('i, 'o, 'w) Behavior = "('i, 'o, 'w) agent_arrow \<Rightarrow> ('i, 'o, 'w) agent_arrow"

record ('i, 'o, 'w) Agent =
  AgentName :: string
  AgentVendors :: "string list"
  AgentRun :: "('i, 'o, 'w) agent_arrow"

record ('i, 'o, 'w) Spec =
  SpecID :: string
  SpecVendors :: "string list"
  SpecRun :: "('i, 'o, 'w) agent_arrow option"
  SpecBehaviors :: "('i, 'o, 'w) Behavior option list"

fun compose_behaviors :: "('i, 'o, 'w) Behavior option list \<Rightarrow> ('i, 'o, 'w) agent_arrow \<Rightarrow>
    string + ('i, 'o, 'w) agent_arrow" where
  "compose_behaviors [] composed = Inr composed"
| "compose_behaviors (None # bs) composed = Inl ''agents.Register: Behavior cannot be nil''"
| "compose_behaviors (Some b # bs) composed = compose_behaviors bs (b composed)"

definition Register_agent :: "('i, 'o, 'w) Spec \<Rightarrow> string + ('i, 'o, 'w) Agent" where
  "Register_agent spec =
     (if SpecID spec = [] then Inl ''agents.Register: Spec.ID is required''
      else (case SpecRun spec of
              None \<Rightarrow> Inl ''agents.Register: Spec.Run is required''
            | Some run \<Rightarrow>
                (case compose_behaviors (SpecBehaviors spec) run of
                   Inl e \<Rightarrow> Inl e
                 | Inr composed \<Rightarrow>
                     Inr \<lparr>AgentName = SpecID spec, AgentVendors = SpecVendors spec, AgentRun = composed\<rparr>)))"

text \<open>\<open>Inl\<close> is the panic: its value is the error.\<close>

definition MustRegister_agent :: "('i, 'o, 'w) Spec \<Rightarrow> string + ('i, 'o, 'w) Agent" where
  "MustRegister_agent spec = (case Register_agent spec of Inl e \<Rightarrow> Inl e | Inr a \<Rightarrow> Inr a)"

text \<open>What a context has under the package's own key, and the metadata read from it.\<close>

definition zero_context :: AgentContext where
  "zero_context = \<lparr>ContextAgentID = [], ContextWorkflowID = [], ContextRunID = [], InvokedBy = [], ContextExtra = []\<rparr>"

definition WithAgentContext :: "AgentContext option \<Rightarrow> AgentContext \<Rightarrow> AgentContext option" where
  "WithAgentContext parent ac = Some ac"

definition AgentContextFrom :: "AgentContext option \<Rightarrow> AgentContext" where
  "AgentContextFrom v = (case v of Some ac \<Rightarrow> ac | None \<Rightarrow> zero_context)"

section \<open>Policies\<close>

record ('o, 'w) VerdictPolicy =
  vp_required :: "AgentContext \<Rightarrow> 'o \<Rightarrow> bool"
  vp_render :: "AgentContext \<Rightarrow> 'o \<Rightarrow> Message"
  vp_await_opts :: "AgentContext \<Rightarrow> 'o \<Rightarrow> AwaitOpts"
  vp_on_verdict :: "AgentContext \<Rightarrow> 'o \<Rightarrow> HumanVerdict \<Rightarrow> 'w \<Rightarrow> ('o \<times> oauth_error option) \<times> 'w"

type_synonym ('o, 'w) outcome_fn = "AgentContext \<Rightarrow> 'o \<Rightarrow> 'w \<Rightarrow> ('o \<times> oauth_error option) \<times> 'w"

record ('o, 'w) AlwaysAskPolicy =
  RenderFn :: "(AgentContext \<Rightarrow> 'o \<Rightarrow> Message) option"
  PolicyTimeout :: int
  AllowedChoices :: "string list"
  OnReject :: "('o, 'w) outcome_fn option"
  OnSnooze :: "('o, 'w) outcome_fn option"
  OnTimeout :: "('o, 'w) outcome_fn option"

definition empty_message :: Message where
  "empty_message = \<lparr>MessageSubject = \<lparr>SubjectKind = [], SubjectID = []\<rparr>, MessageTitle = [], MessageBody = [],
     MessageSeverity = [], MessageEvidence = [], MessageActions = [], MessageLinks = [],
     MessageRef = \<lparr>RefWorkflowID = [], RefRunID = [], RefTraceURL = []\<rparr>, MessageMetadata = None\<rparr>"

definition always_render :: "('o, 'w) AlwaysAskPolicy \<Rightarrow> AgentContext \<Rightarrow> 'o \<Rightarrow> Message" where
  "always_render p ctx out =
     (case RenderFn p of
        None \<Rightarrow> empty_message\<lparr>MessageTitle := ''Agent output requires review''\<rparr>
      | Some f \<Rightarrow> f ctx out)"

definition always_await_opts :: "('o, 'w) AlwaysAskPolicy \<Rightarrow> AgentContext \<Rightarrow> 'o \<Rightarrow> AwaitOpts" where
  "always_await_opts p ctx out =
     \<lparr>AwaitTimeout = (if PolicyTimeout p \<le> 0 then 30 * 60 * 1000000000 else PolicyTimeout p),
      AwaitOptions = (if AllowedChoices p = [] then [''accept'', ''reject'', ''snooze''] else AllowedChoices p)\<rparr>"

text \<open>\<open>zero\<close> is the zero value of the response type.\<close>

definition always_on_verdict :: "'o \<Rightarrow> ('o, 'w) AlwaysAskPolicy \<Rightarrow> AgentContext \<Rightarrow> 'o \<Rightarrow> HumanVerdict \<Rightarrow> 'w \<Rightarrow>
    ('o \<times> oauth_error option) \<times> 'w" where
  "always_on_verdict zero p ctx out v w =
     (if Choice v = ''accept'' then ((out, None), w)
      else if Choice v = ''reject'' then
        (case OnReject p of Some f \<Rightarrow> f ctx out w | None \<Rightarrow> ((zero, None), w))
      else if Choice v = ''snooze'' then
        (case OnSnooze p of Some f \<Rightarrow> f ctx out w | None \<Rightarrow> ((out, Some Snoozed), w))
      else (case OnTimeout p of Some f \<Rightarrow> f ctx out w | None \<Rightarrow> ((out, None), w)))"

definition AlwaysAsk :: "'o \<Rightarrow> ('o, 'w) AlwaysAskPolicy \<Rightarrow> ('o, 'w) VerdictPolicy" where
  "AlwaysAsk zero p = \<lparr>vp_required = (\<lambda>ctx out. True), vp_render = always_render p,
     vp_await_opts = always_await_opts p, vp_on_verdict = always_on_verdict zero p\<rparr>"

definition NeverAskPolicy :: "('o, 'w) VerdictPolicy" where
  "NeverAskPolicy = \<lparr>vp_required = (\<lambda>ctx out. False), vp_render = (\<lambda>ctx out. empty_message),
     vp_await_opts = (\<lambda>ctx out. \<lparr>AwaitTimeout = 0, AwaitOptions = []\<rparr>),
     vp_on_verdict = (\<lambda>ctx out v w. ((out, None), w))\<rparr>"

type_synonym 'o PolicyPredicate = "AgentContext \<Rightarrow> 'o \<Rightarrow> bool"

definition WithPredicate :: "('o, 'w) VerdictPolicy \<Rightarrow> 'o PolicyPredicate option \<Rightarrow> ('o, 'w) VerdictPolicy" where
  "WithPredicate inner required =
     inner\<lparr>vp_required := (case required of None \<Rightarrow> vp_required inner | Some p \<Rightarrow> p)\<rparr>"

definition AnyOfPredicate :: "'o PolicyPredicate option list \<Rightarrow> 'o PolicyPredicate" where
  "AnyOfPredicate preds ctx out = list_ex (\<lambda>p. case p of None \<Rightarrow> False | Some q \<Rightarrow> q ctx out) preds"

definition AllOfPredicate :: "'o PolicyPredicate option list \<Rightarrow> 'o PolicyPredicate" where
  "AllOfPredicate preds ctx out = list_all (\<lambda>p. case p of None \<Rightarrow> False | Some q \<Rightarrow> q ctx out) preds"

definition severityRank :: "Severity \<Rightarrow> int" where
  "severityRank s =
     (if s = SeverityCritical then 5 else if s = SeverityHigh then 4 else if s = SeverityMedium then 3
      else if s = SeverityLow then 2 else if s = SeverityInfo then 1 else 0)"

definition SeverityAtLeast :: "('o \<Rightarrow> Severity) \<Rightarrow> Severity \<Rightarrow> 'o PolicyPredicate" where
  "SeverityAtLeast GetSeverity minimum ctx out \<longleftrightarrow> severityRank (GetSeverity out) \<ge> severityRank minimum"

definition SeverityIn :: "('o \<Rightarrow> Severity) \<Rightarrow> Severity list \<Rightarrow> 'o PolicyPredicate" where
  "SeverityIn GetSeverity severities ctx out \<longleftrightarrow> GetSeverity out \<in> set severities"

text \<open>\<open>flt\<close> is the comparison of floats.\<close>

definition ConfidenceBelow :: "('f \<Rightarrow> 'f \<Rightarrow> bool) \<Rightarrow> ('o \<Rightarrow> 'f) \<Rightarrow> 'f \<Rightarrow> 'o PolicyPredicate" where
  "ConfidenceBelow flt GetConfidence threshold ctx out = flt (GetConfidence out) threshold"

section \<open>The human verdict\<close>

definition attach_ref :: "AgentContext \<Rightarrow> Message \<Rightarrow> Message" where
  "attach_ref ac msg =
     (if ContextWorkflowID ac = [] then msg
      else let msg1 = (if RefWorkflowID (MessageRef msg) = []
                 then msg\<lparr>MessageRef := \<lparr>RefWorkflowID = ContextWorkflowID ac, RefRunID = ContextRunID ac, RefTraceURL = []\<rparr>\<rparr>
                 else msg);
               meta = (case MessageMetadata msg1 of None \<Rightarrow> [] | Some m \<Rightarrow> m)
           in msg1\<lparr>MessageMetadata := Some (if gm_get meta ''agent_id'' = None \<and> ContextAgentID ac \<noteq> []
                then gm_set ''agent_id'' (ContextAgentID ac) meta else meta)\<rparr>)"

text \<open>A wait that panics or does not return is an error of the arrow here.\<close>

definition WithHumanVerdict :: "'w race \<Rightarrow> (string list \<Rightarrow> string list) \<Rightarrow> 'w Dispatcher \<Rightarrow> ('o, 'w) VerdictPolicy \<Rightarrow>
    ('i, 'o, 'w) Behavior" where
  "WithHumanVerdict race \<rho> d policy inner ctx req w =
     (case inner ctx req w of
        ((out, Some e), w1) \<Rightarrow> ((out, Some e), w1)
      | ((out, None), w1) \<Rightarrow>
          if \<not> vp_required policy ctx out then ((out, None), w1)
          else (case Notify \<rho> d (attach_ref ctx (vp_render policy ctx out)) w1 of
                  (Inl e, w2) \<Rightarrow> vp_on_verdict policy ctx out no_verdict w2
                | (Inr res, w2) \<Rightarrow>
                    if PostReceipts res = [] then vp_on_verdict policy ctx out no_verdict w2
                    else (case Await race \<rho> d (PostReceipts res) (vp_await_opts policy ctx out) w2 of
                            (Answered v, w3) \<Rightarrow> vp_on_verdict policy ctx out v w3
                          | (AwaitFailed e, w3) \<Rightarrow>
                              if e = ErrTimeout then vp_on_verdict policy ctx out no_verdict w3
                              else ((out, Some (Wrapped ''hitl await'' (Failure (chan_error_text e)))), w3)
                          | (AwaitPanic m, w3) \<Rightarrow> ((out, Some (Failure (''panic: '' @ m))), w3)
                          | (AwaitBlocked, w3) \<Rightarrow> ((out, Some (Failure ''does not return'')), w3))))"

section \<open>OAuth credentials\<close>

text \<open>An arrow of a policy returns a value or an error; the store \<open>'st\<close> is part of the world.\<close>

record ('i, 'w) OAuthPolicy =
  PolicyProvider :: string
  ResolveIdentity :: "(AgentContext \<Rightarrow> 'i \<Rightarrow> 'w \<Rightarrow> (oauth_error + Identity) \<times> 'w) option"
  Inject :: "(AgentContext \<Rightarrow> 'i \<times> TokenPair \<Rightarrow> 'w \<Rightarrow> (oauth_error + 'i) \<times> 'w) option"

definition oauth_call :: "(AgentContext \<Rightarrow> 'i \<times> TokenPair \<Rightarrow> 'w \<Rightarrow> (oauth_error + 'i) \<times> 'w) \<Rightarrow>
    ('i, 'o, 'w) agent_arrow \<Rightarrow> AgentContext \<Rightarrow> ('i, 'o, 'w) TokenCall" where
  "oauth_call inject inner ctx req token w =
     (case inject ctx (req, token) w of
        (Inl e, w1) \<Rightarrow> (Inl (Wrapped ''agents.WithOAuth: inject'' e), w1)
      | (Inr injected, w1) \<Rightarrow>
          (case inner ctx injected w1 of
             ((out, Some e), w2) \<Rightarrow> (Inl e, w2)
           | ((out, None), w2) \<Rightarrow> (Inr out, w2)))"

definition run_with_oauth :: "'o \<Rightarrow> ('st, 'w) TokenStore \<Rightarrow> (TokenPair, TokenPair, 'w) oarrow \<Rightarrow> string \<Rightarrow>
    (AgentContext \<Rightarrow> 'i \<Rightarrow> 'w \<Rightarrow> (oauth_error + Identity) \<times> 'w) \<Rightarrow>
    (AgentContext \<Rightarrow> 'i \<times> TokenPair \<Rightarrow> 'w \<Rightarrow> (oauth_error + 'i) \<times> 'w) \<Rightarrow>
    ('i, 'o, 'w) agent_arrow \<Rightarrow> ('i, 'o, 'st \<times> 'w) agent_arrow" where
  "run_with_oauth zero store refresh provider resolve inject inner ctx req s =
     (case resolve ctx req (snd s) of
        (Inl e, w1) \<Rightarrow> ((zero, Some (Wrapped ''agents.WithOAuth: resolve identity'' e)), (fst s, w1))
      | (Inr identity, w1) \<Rightarrow>
          (case refreshing_call (oauth_call inject inner ctx) refresh store identity provider req (fst s, w1) of
             (Inl e, s2) \<Rightarrow>
               if error_is_not_found e then ((zero, Some (MissingCredential identity provider e)), s2)
               else ((zero, Some e), s2)
           | (Inr resp, s2) \<Rightarrow> ((resp, None), s2)))"

text \<open>\<open>Inl\<close> is the panic of the constructor.\<close>

definition WithOAuth :: "'o \<Rightarrow> ('st, 'w) TokenStore option \<Rightarrow> (TokenPair, TokenPair, 'w) oarrow option \<Rightarrow>
    ('i, 'w) OAuthPolicy \<Rightarrow> string + (('i, 'o, 'w) agent_arrow \<Rightarrow> ('i, 'o, 'st \<times> 'w) agent_arrow)" where
  "WithOAuth zero store refresh policy =
     (case store of None \<Rightarrow> Inl ''agents.WithOAuth: store is nil''
      | Some S \<Rightarrow>
          (case refresh of None \<Rightarrow> Inl ''agents.WithOAuth: refresh is nil''
           | Some r \<Rightarrow>
               if PolicyProvider policy = [] then Inl ''agents.WithOAuth: policy.Provider is empty''
               else (case ResolveIdentity policy of None \<Rightarrow> Inl ''agents.WithOAuth: policy.ResolveIdentity is nil''
                     | Some resolve \<Rightarrow>
                         (case Inject policy of None \<Rightarrow> Inl ''agents.WithOAuth: policy.Inject is nil''
                          | Some inject \<Rightarrow> Inr (run_with_oauth zero S r (PolicyProvider policy) resolve inject)))))"

definition named_identity :: "string \<Rightarrow> string \<Rightarrow> Identity" where
  "named_identity canonical provider = \<lparr>Canonical = canonical, IdProvider = provider, ProviderID = [],
     Email = [], DisplayName = [], IdRaw = []\<rparr>"

definition InvokedByIdentity :: "string \<Rightarrow> string + (AgentContext \<Rightarrow> 'i \<Rightarrow> 'w \<Rightarrow> (oauth_error + Identity) \<times> 'w)" where
  "InvokedByIdentity provider =
     (if provider = [] then Inl ''agents.InvokedByIdentity: provider is empty''
      else Inr (\<lambda>ctx req w. (if InvokedBy ctx = [] then Inl (MissingIdentity provider)
                             else Inr (named_identity (InvokedBy ctx) provider), w)))"

definition FixedIdentity :: "Identity \<Rightarrow> string + (AgentContext \<Rightarrow> 'i \<Rightarrow> 'w \<Rightarrow> (oauth_error + Identity) \<times> 'w)" where
  "FixedIdentity identity =
     (if Canonical identity = [] then Inl ''agents.FixedIdentity: identity.Canonical is empty''
      else Inr (\<lambda>ctx req w. (Inr identity, w)))"

definition StructFieldInjector :: "('i \<Rightarrow> TokenPair \<Rightarrow> 'i) option \<Rightarrow>
    string + (AgentContext \<Rightarrow> 'i \<times> TokenPair \<Rightarrow> 'w \<Rightarrow> (oauth_error + 'i) \<times> 'w)" where
  "StructFieldInjector mutate =
     (case mutate of None \<Rightarrow> Inl ''agents.StructFieldInjector: mutate is nil''
      | Some f \<Rightarrow> Inr (\<lambda>ctx inp w. (Inr (f (fst inp) (snd inp)), w)))"

text \<open>
  The texts of the errors. \<open>quote\<close> quotes, \<open>app\<close> is the text of Temporal's application error with its type.
\<close>

fun oauth_error_text :: "(string \<Rightarrow> string) \<Rightarrow> (string \<Rightarrow> string \<Rightarrow> string) \<Rightarrow> oauth_error \<Rightarrow> string" where
  "oauth_error_text quote app TokenNotFound = ''oauth: token not found''"
| "oauth_error_text quote app StateMismatch = ''oauth: state mismatch (csrf protection)''"
| "oauth_error_text quote app ProviderNotRegistered = ''oauth: provider not registered''"
| "oauth_error_text quote app TokenExpired = ''oauth: token expired''"
| "oauth_error_text quote app (ContextEnded e) = e"
| "oauth_error_text quote app (AuthenticationError status wrapped) =
     ''oauth: authentication required (status '' @ Itoa status @ '')'' @
     (case wrapped of None \<Rightarrow> [] | Some e \<Rightarrow> '': '' @ oauth_error_text quote app e)"
| "oauth_error_text quote app (Failure m) = m"
| "oauth_error_text quote app (Wrapped m e) = m @ '': '' @ oauth_error_text quote app e"
| "oauth_error_text quote app (Application kind m) = app kind m"
| "oauth_error_text quote app Snoozed = ''agents: verdict deferred (snooze)''"
| "oauth_error_text quote app (MissingIdentity provider) =
     ''agents: no InvokedBy identity in context for provider '' @ quote provider"
| "oauth_error_text quote app (MissingCredential identity provider e) =
     ''agents: no credential for identity '' @ quote (Canonical identity) @ '' on provider '' @ quote provider @
     '' (re-authentication required)''"

text \<open>
  A missing credential tells the user who has to sign in again and hides the error of the store, which stays
  visible to \<^verbatim>\<open>errors.Is\<close>.
\<close>

lemma missing_credential_text:
  "oauth_error_text quote app (MissingCredential identity provider e) = oauth_error_text quote app (MissingCredential identity provider e')"
  "error_is_not_found (MissingCredential identity provider TokenNotFound)"
  by simp_all

section \<open>Registered agents\<close>

lemma compose_behaviors_eq:
  "compose_behaviors bs f =
     (if None \<in> set bs then Inl ''agents.Register: Behavior cannot be nil'' else Inr (foldl (\<lambda>f b. the b f) f bs))"
proof (induction bs arbitrary: f)
  case (Cons b bs)
  then show ?case by (cases b) auto
qed simp

text \<open>
  An agent is registered exactly when its specification has an identifier, an arrow and no nil
  behavior; its arrow is the given one wrapped by the behaviors in their order, so the last behavior
  sees a request first and its result last.
\<close>

theorem Register_agent_iff:
  "Register_agent spec = Inr a \<longleftrightarrow> SpecID spec \<noteq> [] \<and> None \<notin> set (SpecBehaviors spec) \<and>
     (\<exists>run. SpecRun spec = Some run \<and>
       a = \<lparr>AgentName = SpecID spec, AgentVendors = SpecVendors spec,
            AgentRun = foldr (\<lambda>b f. the b f) (rev (SpecBehaviors spec)) run\<rparr>)"
  by (cases spec) (auto simp: Register_agent_def compose_behaviors_eq foldr_conv_foldl split: option.splits sum.splits)

section \<open>The gate of a human verdict\<close>

lemma always_on_verdict_default:
  assumes "OnReject p = None" "OnSnooze p = None" "OnTimeout p = None"
  shows "always_on_verdict zero p ctx out v w =
    ((if Choice v = ''reject'' then (zero, None) else if Choice v = ''snooze'' then (out, Some Snoozed) else (out, None)), w)"
  using assms by (simp add: always_on_verdict_def)

lemma allowedSet_always: "allowedSet (AwaitOptions (always_await_opts p ctx out)) = Some (set (AwaitOptions (always_await_opts p ctx out)))"
  by (simp add: allowedSet_def always_await_opts_def)

text \<open>
  C22: behind the default policy and a Slack channel only a human rejects or defers an output that the
  predicate singles out: it is dropped only when someone answered a post about it with a rejecting
  reaction, and deferred only for a deferring one. Without an answer it passes, with no error: when posting
  fails, when no post was made, and when nobody answered in time. Any other failure of the wait returns the output
  with that failure as the error. An output the predicate does not single out passes without any post. A comment
  in the source says that a failed post is surfaced; the default policy, which gets no error, cannot tell.
\<close>

theorem human_gate:
  assumes "New_slack env name (Some client) cfg = Inr ch"
    and "New_dispatcher (map option_of [SetChannel ch, SetRouter (Some router)]) = Inr d"
    and "range_order \<rho>" "race_of d race"
    and "OnReject p = None" "OnSnooze p = None" "OnTimeout p = None"
    and "inner ctx req w = ((out, None), w1)"
    and "WithHumanVerdict race \<rho> d (WithPredicate (AlwaysAsk zero p) (Some required)) inner ctx req w = ((out', err), w')"
  shows "if \<not> required ctx out then out' = out \<and> err = None \<and> w' = w1
    else (case Notify \<rho> d (attach_ref ctx (always_render p ctx out)) w1 of
        (Inl e, w2) \<Rightarrow> out' = out \<and> err = None \<and> w' = w2
      | (Inr res, w2) \<Rightarrow>
          if PostReceipts res = [] then out' = out \<and> err = None \<and> w' = w2
          else (case Await race \<rho> d (PostReceipts res) (always_await_opts p ctx out) w2 of
              (Answered v, w3) \<Rightarrow> w' = w3 \<and>
                verdict_on client (applyDefaults cfg) name (Some (set (AwaitOptions (always_await_opts p ctx out)))) (PostReceipts res) v \<and>
                (out', err) = (if Choice v = ''reject'' then (zero, None) else if Choice v = ''snooze'' then (out, Some Snoozed)
                  else (out, None))
            | (AwaitFailed e, w3) \<Rightarrow> w' = w3 \<and> out' = out \<and>
                err = (if e = ErrTimeout then None else Some (Wrapped ''hitl await'' (Failure (chan_error_text e))))
            | (AwaitPanic msg, w3) \<Rightarrow> w' = w3 \<and> out' = out \<and> err = Some (Failure (''panic: '' @ msg))
            | (AwaitBlocked, w3) \<Rightarrow> w' = w3 \<and> out' = out \<and> err = Some (Failure ''does not return'')))"
proof (cases "required ctx out")
  case False
  then show ?thesis using assms(8,9) by (simp add: WithHumanVerdict_def WithPredicate_def)
next
  case True
  note verdict = always_on_verdict_default [OF assms(5-7)]
  note gate = assms(9) [unfolded WithHumanVerdict_def, simplified assms(8) WithPredicate_def AlwaysAsk_def]
  obtain r w2 where posted: "Notify \<rho> d (attach_ref ctx (always_render p ctx out)) w1 = (r, w2)" by (metis prod.exhaust)
  show ?thesis
  proof (cases "\<exists>res. r = Inr res \<and> PostReceipts res \<noteq> []")
    case False
    with True posted gate show ?thesis by (cases r) (auto simp: verdict no_verdict_def)
  next
    case res: True
    then obtain res where res: "r = Inr res" "PostReceipts res \<noteq> []" by blast
    obtain oc w3 where await: "Await race \<rho> d (PostReceipts res) (always_await_opts p ctx out) w2 = (oc, w3)"
      by (metis prod.exhaust)
    have "verdict_on client (applyDefaults cfg) name (Some (set (AwaitOptions (always_await_opts p ctx out)))) (PostReceipts res) v"
      if "oc = Answered v" for v
      using slack_answer_on [OF assms(1-4) await [unfolded that]] unfolding allowedSet_always .
    with True posted res await gate show ?thesis
      by (cases oc) (auto simp: verdict no_verdict_def split: if_splits)
  qed
qed

text \<open>The default is to let pass: when the message cannot be posted, nobody is asked.\<close>

lemma unposted_output_passes:
  assumes "inner ctx req w = ((out, None), w1)" "OnTimeout p = None"
    and "Notify \<rho> d (attach_ref ctx (always_render p ctx out)) w1 = (Inl e, w2)"
  shows "WithHumanVerdict race \<rho> d (AlwaysAsk zero p) inner ctx req w = ((out, None), w2)"
  using assms by (simp add: WithHumanVerdict_def AlwaysAsk_def always_on_verdict_def no_verdict_def)

text \<open>A choice of a policy's own vocabulary is treated as no verdict at all.\<close>

lemma unknown_choice_passes:
  assumes "Choice v \<notin> {''accept'', ''reject'', ''snooze''}" "OnTimeout p = None"
  shows "always_on_verdict zero p ctx out v w = ((out, None), w)"
  using assms by (simp add: always_on_verdict_def)

text \<open>An unknown minimum singles out every output.\<close>

lemma unknown_minimum_asks_always:
  assumes "minimum \<notin> {SeverityInfo, SeverityLow, SeverityMedium, SeverityHigh, SeverityCritical}"
  shows "SeverityAtLeast sev minimum ctx out"
  using assms by (simp add: SeverityAtLeast_def severityRank_def)


section \<open>Acting with a user's token\<close>

text \<open>
  The actions of an agent with OAuth besides the refreshing and the storing of tokens: it injects a token into the
  request and runs the inner agent, each with what came out.
\<close>

datatype ('i, 'o) agent_action = Injects TokenPair "oauth_error + 'i" | RunsInner 'i "'o \<times> oauth_error option"

fun agent_acts :: "(AgentContext \<Rightarrow> 'i \<times> TokenPair \<Rightarrow> 'w \<Rightarrow> (oauth_error + 'i) \<times> 'w) \<Rightarrow> ('i, 'o, 'w) agent_arrow \<Rightarrow>
    AgentContext \<Rightarrow> 'i \<Rightarrow> ('i, 'o) agent_action \<Rightarrow> 'w \<Rightarrow> 'w \<Rightarrow> bool" where
  "agent_acts inject inner ctx req (Injects t z) w w1 \<longleftrightarrow> inject ctx (req, t) w = (z, w1)"
| "agent_acts inject inner ctx req (RunsInner q z) w w1 \<longleftrightarrow> inner ctx q w = (z, w1)"

text \<open>
  One attempt with a token: the token is injected into the request, and when that succeeds the inner agent runs, on
  the request with the token and on no other.
\<close>

inductive acts_with :: "TokenPair \<Rightarrow> ('i, 'o) agent_action token_step list \<Rightarrow> oauth_error + 'o \<Rightarrow> bool" where
  not_injected: "acts_with t [OwnStep (Injects t (Inl e))] (Inl (Wrapped ''agents.WithOAuth: inject'' e))"
| answered: "acts_with t [OwnStep (Injects t (Inr q)), OwnStep (RunsInner q (out, None))] (Inr out)"
| inner_failed: "acts_with t [OwnStep (Injects t (Inr q)), OwnStep (RunsInner q (out, Some e))] (Inl e)"

lemma oauth_call_acts:
  assumes "oauth_call inject inner ctx req t w = (z, w1)"
  shows "\<exists>steps. acts_with t steps z \<and> performs (agent_acts inject inner ctx req) refresh S i p steps (st, w) (st, w1)"
proof -
  obtain x w2 where x: "inject ctx (req, t) w = (x, w2)" by fastforce
  show ?thesis
  proof (cases x)
    case (Inl e)
    with x assms have "z = Inl (Wrapped ''agents.WithOAuth: inject'' e)" "w1 = w2" by (simp_all add: oauth_call_def)
    with x Inl show ?thesis
      by (intro exI [of _ "[OwnStep (Injects t (Inl e))]"]) (auto intro: not_injected performs_own performs_none)
  next
    case (Inr q)
    obtain out e w3 where run: "inner ctx q w2 = ((out, e), w3)" by (metis prod.exhaust)
    with x Inr assms have z: "z = (case e of None \<Rightarrow> Inr out | Some e \<Rightarrow> Inl e)" "w1 = w3"
      by (simp_all add: oauth_call_def split: option.splits)
    have "acts_with t [OwnStep (Injects t (Inr q)), OwnStep (RunsInner q (out, e))] z"
      by (cases e) (simp_all add: z answered inner_failed)
    moreover have "performs (agent_acts inject inner ctx req) refresh S i p
        [OwnStep (Injects t (Inr q)), OwnStep (RunsInner q (out, e))] (st, w) (st, w1)"
      using x run Inr z(2) by (intro performs_own [where w = w and ?w1.0 = w2] performs_own [where w = w2 and ?w1.0 = w3])
        (simp_all add: performs_none)
    ultimately show ?thesis by blast
  qed
qed

text \<open>A token that was not found, however deep in the error, becomes a missing credential.\<close>

definition credential_error :: "Identity \<Rightarrow> string \<Rightarrow> oauth_error \<Rightarrow> oauth_error" where
  "credential_error identity provider e = (if error_is_not_found e then MissingCredential identity provider e else e)"

text \<open>
  C23: an agent with OAuth acts only as the identity its policy resolved. Whatever it answers, all it did is:
  inject the token stored for this identity and provider into the request and run the inner agent on the request with
  that token; and, only when that ended in an authentication error, refresh that token, store the refreshed one
  and do the same once more with it. The inner agent never runs on a request without one of these two
  tokens, nothing else happens in the world or the store, and the answer is that of the last
  attempt. When nothing is stored for them, or what is stored cannot be read, the agent does not run at all; in the
  first case the error says that the credential is missing, as it also does for any later error, of the inner
  agent or of the refresh, in whose chain a token was not found.
\<close>

theorem WithOAuth_acts_as:
  assumes "aead_ok a rand" "se_cipher E = AESGCMCipher a rand" "store_holds E st m" "se_ctx_err E w1 = None"
    and "WithOAuth zero (Some (memory_token_store E)) (Some refresh) policy = Inr wrap"
    and "ResolveIdentity policy = Some resolve" "Inject policy = Some inject" "resolve ctx req w = (Inr identity, w1)"
    and "wrap inner ctx req (st, w) = ((resp, err), (st', w'))"
  shows "case m (Canonical identity, PolicyProvider policy) of
      None \<Rightarrow> resp = zero \<and> st' = st \<and> w' = w1 \<and> err = Some (MissingCredential identity (PolicyProvider policy)
        (Wrapped ''oauth: WithRefresh: load tokens'' TokenNotFound))
    | Some t \<Rightarrow> (case reread_of E t of
          Inl e \<Rightarrow> resp = zero \<and> st' = st \<and> w' = w1 \<and>
            err = Some (credential_error identity (PolicyProvider policy) (Wrapped ''oauth: WithRefresh: load tokens'' e))
        | Inr tok \<Rightarrow> \<exists>steps fresh r. refresh_protocol acts_with tok steps r fresh \<and>
            performs (agent_acts inject inner ctx req) refresh (memory_token_store E) identity (PolicyProvider policy)
              steps (st, w1) (st', w') \<and>
            store_holds E st' (stored_after identity (PolicyProvider policy) fresh m) \<and>
            (resp, err) = (case r of
                Inr out \<Rightarrow> (out, None)
              | Inl e \<Rightarrow> (zero, Some (credential_error identity (PolicyProvider policy) e))))"
proof -
  let ?p = "PolicyProvider policy"
  have wrap: "wrap = run_with_oauth zero (memory_token_store E) refresh ?p resolve inject"
    using assms(5-7) by (auto simp: WithOAuth_def split: if_splits)
  obtain r st2 w2 where call: "refreshing_call (oauth_call inject inner ctx) refresh (memory_token_store E) identity ?p req (st, w1) =
      (r, (st2, w2))" by (metis prod.exhaust)
  have run: "st2 = st'" "w2 = w'" "(resp, err) = (case r of Inr out \<Rightarrow> (out, None)
      | Inl e \<Rightarrow> (zero, Some (credential_error identity ?p e)))"
    using assms(8,9) call unfolding wrap by (auto simp: run_with_oauth_def credential_error_def split: sum.splits if_splits)
  from sealed_store.memory_refreshing_call_steps [where attempt = acts_with and own = "agent_acts inject inner ctx req",
      OF aesgcm_sealed [OF assms(1,2)] call assms(3,4) oauth_call_acts]
  have "case m (Canonical identity, ?p) of
      None \<Rightarrow> r = Inl (Wrapped ''oauth: WithRefresh: load tokens'' TokenNotFound) \<and> st2 = st \<and> w2 = w1
    | Some t \<Rightarrow> (case reread_of E t of
          Inl e \<Rightarrow> r = Inl (Wrapped ''oauth: WithRefresh: load tokens'' e) \<and> st2 = st \<and> w2 = w1
        | Inr tok \<Rightarrow> \<exists>steps fresh. refresh_protocol acts_with tok steps r fresh \<and>
            performs (agent_acts inject inner ctx req) refresh (memory_token_store E) identity ?p steps (st, w1) (st2, w2) \<and>
            store_holds E st2 (stored_after identity ?p fresh m))" .
  note steps = this
  show ?thesis
  proof (cases "m (Canonical identity, ?p)")
    case None
    with steps run show ?thesis by (simp add: credential_error_def)
  next
    case (Some t)
    show ?thesis
    proof (cases "reread_of E t")
      case (Inl e)
      with steps run Some show ?thesis by simp
    next
      case (Inr tok)
      with steps Some obtain steps fresh where "refresh_protocol acts_with tok steps r fresh"
        "performs (agent_acts inject inner ctx req) refresh (memory_token_store E) identity ?p steps (st, w1) (st2, w2)"
        "store_holds E st2 (stored_after identity ?p fresh m)" by auto
      with Some Inr run show ?thesis unfolding Some Inr option.case sum.case
        by (intro exI [of _ steps] exI [of _ fresh] exI [of _ r]) (intro conjI, simp_all)
    qed
  qed
qed


section \<open>Concrete agents\<close>

definition demo_policy :: "(string, nat) AlwaysAskPolicy" where
  "demo_policy = \<lparr>RenderFn = None, PolicyTimeout = 0, AllowedChoices = [], OnReject = None, OnSnooze = None, OnTimeout = None\<rparr>"

definition demo_context :: AgentContext where
  "demo_context = \<lparr>ContextAgentID = ''a'', ContextWorkflowID = ''wf'', ContextRunID = [], InvokedBy = ''okta:1'', ContextExtra = []\<rparr>"

definition demo_echo :: "AgentContext \<Rightarrow> string \<Rightarrow> 'w \<Rightarrow> (string \<times> oauth_error option) \<times> 'w" where
  "demo_echo ctx req w = ((req, None), w)"

definition demo_required :: "AgentContext \<Rightarrow> string \<Rightarrow> bool" where
  "demo_required ctx out = (out \<noteq> [])"

definition demo_gate :: "(string \<times> oauth_error option) \<times> nat" where
  "demo_gate = WithHumanVerdict (\<lambda>ws opts w. ([], w)) (\<lambda>xs. xs) demo_slack_dispatcher
     (WithPredicate (AlwaysAsk [] demo_policy) (Some demo_required)) demo_echo demo_context ''finding'' 0"

lemma demo_gate_await:
  "Await (\<lambda>ws opts w. ([], w)) (\<lambda>xs. xs) demo_slack_dispatcher [demo_slack_receipt]
     (always_await_opts demo_policy demo_context ''finding'') 0 = (Answered demo_slack_verdict, 2)"
  by (rule demo_slack_await)
    (simp add: slack_await_def demo_slack_env_def demo_client_def demo_config_def demo_slack_receipt_def
      always_await_opts_def demo_policy_def await_loop.simps slack_verdict_def lookupActor_def applyDefaults_def
      verdict_of_reaction_def default_verdicts_def gm_get_def allowedSet_def slack_timeout_def demo_slack_verdict_def Let_def)

lemma demo_gate_rejects: "demo_gate = (([], None), 2)"
  using demo_gate_await
  by (simp add: demo_gate_def WithHumanVerdict_def WithPredicate_def AlwaysAsk_def demo_slack_notify demo_echo_def demo_required_def)
    (simp add: always_on_verdict_def demo_slack_verdict_def demo_policy_def)

theorem human_gate_witness:
  "demo_gate = (([], None), 2) \<and> Choice demo_slack_verdict = ''reject'' \<and>
   verdict_on demo_client (applyDefaults demo_config) ''slack'' (Some {''accept'', ''reject'', ''snooze''})
      [demo_slack_receipt] demo_slack_verdict"
proof -
  have p: "OnReject demo_policy = None" "OnSnooze demo_policy = None" "OnTimeout demo_policy = None"
    by (simp_all add: demo_policy_def)
  have opts: "set (AwaitOptions (always_await_opts demo_policy demo_context ''finding'')) = {''accept'', ''reject'', ''snooze''}"
    by (simp add: always_await_opts_def demo_policy_def)
  have inner: "demo_echo demo_context ''finding'' 0 = ((''finding'', None), 0 :: nat)" by (simp add: demo_echo_def)
  from human_gate [where inner = demo_echo and ctx = demo_context and req = "''finding''" and w = "0 :: nat" and required = demo_required
      and zero = "[] :: string" and p = demo_policy, OF demo_slack_new demo_slack_built range_order_id demo_slack_race p inner
      demo_gate_rejects [unfolded demo_gate_def]]
  have "verdict_on demo_client (applyDefaults demo_config) ''slack'' (Some {''accept'', ''reject'', ''snooze''})
      [demo_slack_receipt] demo_slack_verdict"
    by (simp add: demo_slack_notify demo_gate_await opts demo_required_def)
  with demo_gate_rejects show ?thesis by (simp add: demo_slack_verdict_def)
qed

text \<open>An API that refuses the stored token and accepts the refreshed one, called for the user who invoked the agent.\<close>

definition demo_inject :: "AgentContext \<Rightarrow> string \<times> TokenPair \<Rightarrow> nat \<Rightarrow> (oauth_error + string) \<times> nat" where
  "demo_inject ctx rt w = (Inr (fst rt @ '' '' @ AccessToken (snd rt)), w)"

definition demo_resolve :: "AgentContext \<Rightarrow> string \<Rightarrow> nat \<Rightarrow> (oauth_error + Identity) \<times> nat" where
  "demo_resolve ctx req w = (Inr (named_identity (InvokedBy ctx) ''okta''), w)"

definition demo_oauth_policy :: "(string, nat) OAuthPolicy" where
  "demo_oauth_policy = \<lparr>PolicyProvider = ''okta'', ResolveIdentity = Some demo_resolve, Inject = Some demo_inject\<rparr>"

definition demo_api :: "AgentContext \<Rightarrow> string \<Rightarrow> nat \<Rightarrow> (string \<times> oauth_error option) \<times> nat" where
  "demo_api ctx q w = (if q = ''q c1+'' then (''yes'', None) else ([], Some (AuthenticationError 401 None)), w + 1)"

definition demo_agent :: "(string, string, MemoryTokenStore \<times> nat) agent_arrow" where
  "demo_agent = run_with_oauth [] (memory_token_store demo_store_env) demo_refresh ''okta'' demo_resolve demo_inject demo_api"

lemma demo_agent_unauthorized:
  "\<exists>e. demo_agent demo_context ''q'' ([], 0) = (([], Some (MissingCredential (named_identity ''okta:1'' ''okta'') ''okta'' e)), ([], 0))"
  by (simp add: demo_agent_def run_with_oauth_def demo_resolve_def demo_context_def refreshing_call_def memory_token_store_def
      memory_get_def demo_store_env_def)

lemma demo_agent_answers: "fst (demo_agent demo_context ''q'' (demo_full_store, 4)) = (''yes'', None)"
  by code_simp

theorem WithOAuth_acts_as_witness:
  "\<exists>st' w' steps fresh. demo_agent demo_context ''q'' (demo_full_store, 4) = ((''yes'', None), (st', w')) \<and>
     refresh_protocol acts_with (demo_token ''c1'') steps (Inr ''yes'') fresh \<and>
     performs (agent_acts demo_inject demo_api demo_context ''q'') demo_refresh (memory_token_store demo_store_env)
       (named_identity ''okta:1'' ''okta'') ''okta'' steps (demo_full_store, 4) (st', w')"
proof -
  let ?id = "named_identity ''okta:1'' ''okta''"
  let ?wrap = "run_with_oauth [] (memory_token_store demo_store_env) demo_refresh ''okta'' demo_resolve demo_inject"
  have wrap: "WithOAuth [] (Some (memory_token_store demo_store_env)) (Some demo_refresh) demo_oauth_policy = Inr ?wrap"
    by (simp add: WithOAuth_def demo_oauth_policy_def)
  have p: "ResolveIdentity demo_oauth_policy = Some demo_resolve" "Inject demo_oauth_policy = Some demo_inject"
    "PolicyProvider demo_oauth_policy = ''okta''"
    by (simp_all add: demo_oauth_policy_def)
  have i: "demo_resolve demo_context ''q'' 4 = (Inr ?id, 4)" by (simp add: demo_resolve_def demo_context_def)
  have alive: "se_ctx_err demo_store_env 4 = None" by (simp add: demo_store_env_def)
  have found: "demo_full_map (Canonical ?id, ''okta'') = Some (demo_token ''c1'')"
    by (simp add: demo_full_map_def named_identity_def)
  obtain st' w' where run: "demo_agent demo_context ''q'' (demo_full_store, 4) = ((''yes'', None), (st', w'))"
    using demo_agent_answers by (metis prod.collapse)
  from WithOAuth_acts_as [where inner = demo_api and ctx = demo_context and req = "''q''" and resolve = demo_resolve
      and inject = demo_inject and policy = demo_oauth_policy and zero = "[] :: string" and wrap = ?wrap,
      OF demo_aead_ok demo_cipher demo_full_store_holds alive wrap p(1,2) i run [unfolded demo_agent_def]]
  obtain steps fresh r where "refresh_protocol acts_with (demo_token ''c1'') steps r fresh"
    "performs (agent_acts demo_inject demo_api demo_context ''q'') demo_refresh (memory_token_store demo_store_env)
       ?id ''okta'' steps (demo_full_store, 4) (st', w')"
    "(''yes'', None) = (case r of Inr out \<Rightarrow> (out, None) | Inl e \<Rightarrow> ([], Some (credential_error ?id ''okta'' e)))"
    unfolding p(3) found option.case demo_full_reread sum.case by (elim exE conjE) (rule that)
  moreover from this(3) have "r = Inr ''yes''" by (cases r) simp_all
  ultimately show ?thesis using run by blast
qed


end
