(* ===== verification/Review.thy ===== *)
theory Review
  imports Broker_Runs Converge
begin

text \<open>
  Package agent, files \<^verbatim>\<open>stream.go\<close>, \<^verbatim>\<open>review_workflow.go\<close> and \<^verbatim>\<open>broker_temporal.go\<close>: streamed
  completions, the activities of the pull-request review and the workflow that runs them in layers.

  An activity works on the broker of its process and on a world \<open>'w\<close> (the model, the network). A stream is
  what its reader receives until the channel is closed; a nil channel is \<open>None\<close>.
\<close>

section \<open>Streams\<close>

record TokenChunk =
  ChunkText :: string
  ChunkIndex :: int
  ChunkFinal :: bool
  ChunkErr :: "llm_error option"

datatype stream_reply = StreamError llm_error | Stream "TokenChunk list option" | StreamPanic string

type_synonym 'w CompleteStreamFunc = "string \<Rightarrow> string \<Rightarrow> 'w \<Rightarrow> stream_reply \<times> 'w"

text \<open>
  \<open>cancelled\<close> tells that the select of the producer takes the end of the context. A panic of its goroutine
  ends the process.
\<close>

definition StreamFromComplete :: "('w \<Rightarrow> bool) \<Rightarrow> 'w CompleteFunc option \<Rightarrow> 'w CompleteStreamFunc option" where
  "StreamFromComplete cancelled c =
     (case c of
        None \<Rightarrow> None
      | Some f \<Rightarrow> Some (\<lambda>sys user w.
          (case f sys user w of
             (Panicked p, w1) \<Rightarrow> (StreamPanic p, w1)
           | (Returned out err, w1) \<Rightarrow>
               (Stream (Some (if cancelled w1 then []
                  else [\<lparr>ChunkText = out, ChunkIndex = 0, ChunkFinal = True, ChunkErr = err\<rparr>])), w1))))"

definition chunk_event :: "string \<Rightarrow> TokenChunk \<Rightarrow> 'p event" where
  "chunk_event callID c =
     TokenChunkEvent \<lparr>WID = [], TS = None\<rparr> callID (ChunkIndex c) (ChunkText c) (ChunkFinal c)"

definition broker_panicked :: reply where
  "broker_panicked = Panicked ''send on closed channel''"

fun collect_chunks :: "Emitter option \<Rightarrow> string \<Rightarrow> TokenChunk list \<Rightarrow> string \<Rightarrow> 'p MemoryBroker \<Rightarrow> reply \<times> 'p MemoryBroker" where
  "collect_chunks emitter callID [] out b = (Returned out None, b)"
| "collect_chunks emitter callID (chunk # chunks) out b =
     (case (if ChunkText chunk \<noteq> [] then Emit emitter (chunk_event callID chunk) b else (None, b)) of
        (Some p, b1) \<Rightarrow> (broker_panicked, b1)
      | (None, b1) \<Rightarrow>
          (case ChunkErr chunk of
             Some e \<Rightarrow> (Returned (out @ ChunkText chunk) (Some e), b1)
           | None \<Rightarrow> collect_chunks emitter callID chunks (out @ ChunkText chunk) b1))"

definition CollectStream :: "TokenChunk list option \<Rightarrow> Emitter option \<Rightarrow> string \<Rightarrow> 'p MemoryBroker \<Rightarrow> reply \<times> 'p MemoryBroker" where
  "CollectStream stream emitter callID b =
     (case stream of None \<Rightarrow> (Returned [] None, b) | Some chunks \<Rightarrow> collect_chunks emitter callID chunks [] b)"

section \<open>Contexts and emitters\<close>

text \<open>
  What the context of a call holds: an injected emitter, the workflow ID put there by \<open>WithWorkflowID\<close>, the
  ID of the workflow execution when the call is an activity; and whether a global broker is registered.
\<close>

record call_context =
  ctx_emitter :: "Emitter option"
  ctx_wid :: "string option"
  ctx_activity :: "string option"
  ctx_global :: bool

definition NewEmitter :: "bool \<Rightarrow> string \<Rightarrow> Emitter" where
  "NewEmitter has_broker workflowID = \<lparr>emitter_broker = has_broker, emitter_wid = workflowID\<rparr>"

definition WithEmitter :: "call_context \<Rightarrow> Emitter option \<Rightarrow> call_context" where
  "WithEmitter ctx emitter = ctx\<lparr>ctx_emitter := emitter\<rparr>"

definition WithWorkflowID :: "call_context \<Rightarrow> string \<Rightarrow> call_context" where
  "WithWorkflowID ctx workflowID = ctx\<lparr>ctx_wid := Some workflowID\<rparr>"

definition SetGlobalBroker :: "bool \<Rightarrow> call_context \<Rightarrow> call_context" where
  "SetGlobalBroker present ctx = ctx\<lparr>ctx_global := present\<rparr>"

definition EmitterForActivity :: "call_context \<Rightarrow> Emitter" where
  "EmitterForActivity ctx =
     (case ctx_emitter ctx of
        Some e \<Rightarrow> e
      | None \<Rightarrow>
          if \<not> ctx_global ctx then \<lparr>emitter_broker = False, emitter_wid = []\<rparr>
          else \<lparr>emitter_broker = True, emitter_wid = (case ctx_activity ctx of Some wid \<Rightarrow> wid | None \<Rightarrow> [])\<rparr>)"

definition context_emitter :: "call_context \<Rightarrow> Emitter" where
  "context_emitter ctx = EmitterFromContext (ctx_emitter ctx) (ctx_wid ctx) (ctx_global ctx)"

definition CompleteWithStreaming :: "call_context \<Rightarrow> 'w CompleteStreamFunc option \<Rightarrow> 'w CompleteFunc option \<Rightarrow>
    string \<Rightarrow> string \<Rightarrow> string \<Rightarrow> 'p MemoryBroker \<times> 'w \<Rightarrow> reply \<times> 'p MemoryBroker \<times> 'w" where
  "CompleteWithStreaming ctx stream fallback sys user callID s =
     (let emitter = Some (context_emitter ctx) in
      case stream of
        Some f \<Rightarrow>
          (case f sys user (snd s) of
             (StreamPanic p, w1) \<Rightarrow> (Panicked p, fst s, w1)
           | (StreamError e, w1) \<Rightarrow> (Returned [] (Some e), fst s, w1)
           | (Stream ch, w1) \<Rightarrow>
               (case CollectStream ch emitter callID (fst s) of (r, b1) \<Rightarrow> (r, b1, w1)))
      | None \<Rightarrow>
          (case fallback of
             Some g \<Rightarrow>
               (case g sys user (snd s) of
                  (Panicked p, w1) \<Rightarrow> (Panicked p, fst s, w1)
                | (Returned out err, w1) \<Rightarrow>
                    (case Emit emitter (chunk_event callID
                        \<lparr>ChunkText = out, ChunkIndex = 0, ChunkFinal = True, ChunkErr = None\<rparr>) (fst s) of
                       (Some p, b1) \<Rightarrow> (broker_panicked, b1, w1)
                     | (None, b1) \<Rightarrow> (Returned out err, b1, w1)))
           | None \<Rightarrow> (Returned [] None, s)))"

section \<open>The review\<close>

record PRReviewInput =
  Diff :: string
  StreamingBackend :: bool

record PRReviewOutput =
  OutParse :: string
  OutSecurity :: string
  OutTests :: string
  OutStyle :: string
  OutSynthesis :: string
  DurationMs :: int

record AnalyzerInput =
  AnalyzerNodeID :: string
  ParseText :: string
  AnalyzerStreaming :: bool

record SynthesizeInput =
  SynthNodeID :: string
  SynthSecurity :: string
  SynthTests :: string
  SynthStyle :: string
  SynthStreaming :: bool

definition ReviewWorkflowName :: string where "ReviewWorkflowName = ''PRReviewWorkflow''"
definition ParseDiffActivityName :: string where "ParseDiffActivityName = ''ParseDiff''"
definition SecurityAuditActivityName :: string where "SecurityAuditActivityName = ''SecurityAudit''"
definition TestCoverageActivityName :: string where "TestCoverageActivityName = ''TestCoverage''"
definition StyleCheckActivityName :: string where "StyleCheckActivityName = ''StyleCheck''"
definition SynthesizeReviewActivity :: string where "SynthesizeReviewActivity = ''SynthesizeReview''"

record 'w review_activities =
  act_complete :: "'w CompleteFunc option"
  act_stream :: "'w CompleteStreamFunc option"

datatype review_error =
    NoComplete
  | LLMFailed llm_error
  | Crash string

section \<open>Activities\<close>

definition callLLMWithStreaming :: "call_context \<Rightarrow> 'w review_activities \<Rightarrow> string \<Rightarrow> string \<Rightarrow> string \<Rightarrow> bool \<Rightarrow>
    'p MemoryBroker \<times> 'w \<Rightarrow> reply \<times> 'p MemoryBroker \<times> 'w" where
  "callLLMWithStreaming ctx a sys user callID streaming s =
     (if streaming \<and> act_stream a \<noteq> None
      then CompleteWithStreaming ctx (act_stream a) (act_complete a) sys user callID s
      else CompleteWithStreaming ctx None (act_complete a) sys user callID s)"

text \<open>\<open>now\<close> reads the clock, \<open>show_error\<close> is the text of an error. Tracing spans are not modelled.\<close>

record 'w review_env =
  re_now :: "'w \<Rightarrow> int"
  re_show :: "llm_error \<Rightarrow> string"

definition finish_call :: "'w review_env \<Rightarrow> Emitter \<Rightarrow> string \<Rightarrow> string \<Rightarrow> int \<Rightarrow> reply \<times> 'p MemoryBroker \<times> 'w \<Rightarrow>
    (review_error + string) \<times> 'p MemoryBroker \<times> 'w" where
  "finish_call env emitter name nodeID start rs =
     (case rs of
        (Panicked p, b, w) \<Rightarrow> (Inl (Crash p), b, w)
      | (Returned out err, b, w) \<Rightarrow>
          (case Emit (Some emitter) (NewActivityCompleted (re_now env w) [] name nodeID
              (map_option (re_show env) err) (re_now env w - start)) b of
             (Some p, b1) \<Rightarrow> (Inl (Crash ''send on closed channel''), b1, w)
           | (None, b1) \<Rightarrow>
               (case err of Some e \<Rightarrow> (Inl (LLMFailed e), b1, w) | None \<Rightarrow> (Inr out, b1, w))))"

definition observed_call :: "'w review_env \<Rightarrow> call_context \<Rightarrow> 'w review_activities \<Rightarrow> string \<Rightarrow> string \<Rightarrow> string \<Rightarrow> string \<Rightarrow> bool \<Rightarrow>
    'p MemoryBroker \<times> 'w \<Rightarrow> (review_error + string) \<times> 'p MemoryBroker \<times> 'w" where
  "observed_call env ctx a name nodeID sys user streaming s =
     (if act_complete a = None then (Inl NoComplete, s)
      else (let emitter = EmitterForActivity ctx; start = re_now env (snd s) in
            case Emit (Some emitter) (NewActivityStarted (re_now env (snd s)) [] name nodeID) (fst s) of
              (Some p, b1) \<Rightarrow> (Inl (Crash ''send on closed channel''), b1, snd s)
            | (None, b1) \<Rightarrow>
                finish_call env emitter name nodeID start
                  (callLLMWithStreaming ctx a sys user nodeID streaming (b1, snd s))))"

definition runAnalyzer :: "'w review_env \<Rightarrow> call_context \<Rightarrow> 'w review_activities \<Rightarrow> AnalyzerInput \<Rightarrow> string \<Rightarrow> string \<Rightarrow> string \<Rightarrow>
    'p MemoryBroker \<times> 'w \<Rightarrow> (review_error + string) \<times> 'p MemoryBroker \<times> 'w" where
  "runAnalyzer env ctx a inp activityName sys user =
     observed_call env ctx a activityName (AnalyzerNodeID inp) sys user (AnalyzerStreaming inp)"
definition newlines :: string where "newlines = newline @ newline"

definition security_system :: string where
  "security_system = ''You are a security-focused code reviewer.''"

definition security_prompt :: "string \<Rightarrow> string" where
  "security_prompt parse = ''Audit this change for security risks: SQL injection, unsanitized user input, hard-coded secrets, path traversal, insecure deserialization, missing authorization checks. Be concise (3-4 sentences). The change summary follows:'' @ newlines @ parse"

definition tests_system :: string where
  "tests_system = ''You are a code-quality reviewer focused on testing.''"

definition tests_prompt :: "string \<Rightarrow> string" where
  "tests_prompt parse = ''Assess whether this change has adequate test coverage. Look for: new functions without tests, edge cases not exercised, integration tests missing. Be concise (3-4 sentences). The change summary follows:'' @ newlines @ parse"

definition style_system :: string where
  "style_system = ''You are a code-style reviewer focused on Go idioms.''"

definition style_prompt :: "string \<Rightarrow> string" where
  "style_prompt parse = ''Review this change for style and idiom issues: naming, error handling, package conventions, godoc completeness, gofmt compliance. Be concise (3-4 sentences). The change summary follows:'' @ newlines @ parse"

definition synthesis_system :: string where
  "synthesis_system = ''You are a senior code reviewer combining three specialist reviews into one final verdict.''"

definition synthesis_prompt :: "string \<Rightarrow> string \<Rightarrow> string \<Rightarrow> string" where
  "synthesis_prompt security tests style =
     ''Synthesize the following three reviews into one concise final verdict (5-7 sentences). End with **APPROVE** or **REQUEST CHANGES**.'' @ newlines
     @ ''## Security review'' @ newline @ security @ newlines @ ''## Test coverage review'' @ newline @ tests
     @ newlines @ ''## Style review'' @ newline @ style"

definition parse_summary :: "PRReviewInput \<Rightarrow> string" where
  "parse_summary inp = ''Parsed diff ('' @ Itoa (int (length (Diff inp))) @ '' chars). Files appear to touch: agent/, cmd/, worker/.''"

text \<open>The stub sleeps for a while: \<open>pause\<close> is the world after it.\<close>

definition ParseDiff :: "'w review_env \<Rightarrow> ('w \<Rightarrow> 'w) \<Rightarrow> call_context \<Rightarrow> PRReviewInput \<Rightarrow> 'p MemoryBroker \<times> 'w \<Rightarrow>
    (review_error + string) \<times> 'p MemoryBroker \<times> 'w" where
  "ParseDiff env pause ctx inp s =
     (let emitter = EmitterForActivity ctx; start = re_now env (snd s) in
      case Emit (Some emitter) (NewActivityStarted (re_now env (snd s)) [] ParseDiffActivityName ''parse_diff'') (fst s) of
        (Some p, b1) \<Rightarrow> (Inl (Crash ''send on closed channel''), b1, snd s)
      | (None, b1) \<Rightarrow>
          finish_call env emitter ParseDiffActivityName ''parse_diff'' start
            (Returned (parse_summary inp) None, b1, pause (snd s)))"

definition SecurityAudit :: "'w review_env \<Rightarrow> call_context \<Rightarrow> 'w review_activities \<Rightarrow> AnalyzerInput \<Rightarrow>
    'p MemoryBroker \<times> 'w \<Rightarrow> (review_error + string) \<times> 'p MemoryBroker \<times> 'w" where
  "SecurityAudit env ctx a inp =
     runAnalyzer env ctx a inp SecurityAuditActivityName security_system (security_prompt (ParseText inp))"

definition TestCoverage :: "'w review_env \<Rightarrow> call_context \<Rightarrow> 'w review_activities \<Rightarrow> AnalyzerInput \<Rightarrow>
    'p MemoryBroker \<times> 'w \<Rightarrow> (review_error + string) \<times> 'p MemoryBroker \<times> 'w" where
  "TestCoverage env ctx a inp =
     runAnalyzer env ctx a inp TestCoverageActivityName tests_system (tests_prompt (ParseText inp))"

definition StyleCheck :: "'w review_env \<Rightarrow> call_context \<Rightarrow> 'w review_activities \<Rightarrow> AnalyzerInput \<Rightarrow>
    'p MemoryBroker \<times> 'w \<Rightarrow> (review_error + string) \<times> 'p MemoryBroker \<times> 'w" where
  "StyleCheck env ctx a inp =
     runAnalyzer env ctx a inp StyleCheckActivityName style_system (style_prompt (ParseText inp))"

definition SynthesizeReview :: "'w review_env \<Rightarrow> call_context \<Rightarrow> 'w review_activities \<Rightarrow> SynthesizeInput \<Rightarrow>
    'p MemoryBroker \<times> 'w \<Rightarrow> (review_error + string) \<times> 'p MemoryBroker \<times> 'w" where
  "SynthesizeReview env ctx a inp =
     observed_call env ctx a SynthesizeReviewActivity (SynthNodeID inp) synthesis_system
       (synthesis_prompt (SynthSecurity inp) (SynthTests inp) (SynthStyle inp)) (SynthStreaming inp)"

section \<open>The workflow\<close>

text \<open>
  Temporal runs the activities. \<open>exec calls s\<close> is the outcome of the calls that are started together: the
  result of each, after its retries, and the state when they are over.
\<close>

datatype review_call =
    CallParseDiff PRReviewInput
  | CallSecurityAudit AnalyzerInput
  | CallTestCoverage AnalyzerInput
  | CallStyleCheck AnalyzerInput
  | CallSynthesizeReview SynthesizeInput

datatype 'e workflow_error = EmptyDiff | StageFailed string 'e

type_synonym ('e, 's) executor = "review_call list \<Rightarrow> 's \<Rightarrow> (review_call \<Rightarrow> 'e + string) \<times> 's"

definition analyzer_input :: "string \<Rightarrow> string \<Rightarrow> PRReviewInput \<Rightarrow> AnalyzerInput" where
  "analyzer_input nodeID parseOut inp =
     \<lparr>AnalyzerNodeID = nodeID, ParseText = parseOut, AnalyzerStreaming = StreamingBackend inp\<rparr>"

definition synthesize_input :: "string \<Rightarrow> string \<Rightarrow> string \<Rightarrow> PRReviewInput \<Rightarrow> SynthesizeInput" where
  "synthesize_input security tests style inp =
     \<lparr>SynthNodeID = ''synthesize'', SynthSecurity = security, SynthTests = tests, SynthStyle = style,
      SynthStreaming = StreamingBackend inp\<rparr>"

definition analyzer_calls :: "string \<Rightarrow> PRReviewInput \<Rightarrow> review_call list" where
  "analyzer_calls parseOut inp =
     [CallSecurityAudit (analyzer_input ''security_audit'' parseOut inp),
      CallTestCoverage (analyzer_input ''test_coverage'' parseOut inp),
      CallStyleCheck (analyzer_input ''style_check'' parseOut inp)]"

definition PRReviewWorkflow :: "('s \<Rightarrow> int) \<Rightarrow> ('e, 's) executor \<Rightarrow> PRReviewInput \<Rightarrow> 's \<Rightarrow>
    ('e workflow_error + PRReviewOutput) \<times> 's" where
  "PRReviewWorkflow now exec inp s =
     (if Diff inp = [] then (Inl EmptyDiff, s)
      else (let start = now s; parse = CallParseDiff inp in
        case exec [parse] s of (f, s1) \<Rightarrow>
          (case f parse of
             Inl e \<Rightarrow> (Inl (StageFailed ''parse_diff'' e), s1)
           | Inr parseOut \<Rightarrow>
               (let layer = analyzer_calls parseOut inp in
                case exec layer s1 of (g, s2) \<Rightarrow>
                  (case g (layer ! 0) of
                     Inl e \<Rightarrow> (Inl (StageFailed ''security_audit'' e), s2)
                   | Inr secOut \<Rightarrow>
                       (case g (layer ! 1) of
                          Inl e \<Rightarrow> (Inl (StageFailed ''test_coverage'' e), s2)
                        | Inr testOut \<Rightarrow>
                            (case g (layer ! 2) of
                               Inl e \<Rightarrow> (Inl (StageFailed ''style_check'' e), s2)
                             | Inr styleOut \<Rightarrow>
                                 (let synth = CallSynthesizeReview (synthesize_input secOut testOut styleOut inp) in
                                  case exec [synth] s2 of (h, s3) \<Rightarrow>
                                    (case h synth of
                                       Inl e \<Rightarrow> (Inl (StageFailed ''synthesize'' e), s3)
                                     | Inr out \<Rightarrow>
                                         (Inr \<lparr>OutParse = parseOut, OutSecurity = secOut, OutTests = testOut,
                                            OutStyle = styleOut, OutSynthesis = out,
                                            DurationMs = milliseconds (now s3 - start)\<rparr>, s3))))))))))"

text \<open>The activities of a worker, by the call.\<close>

fun review_body :: "'w review_env \<Rightarrow> ('w \<Rightarrow> 'w) \<Rightarrow> call_context \<Rightarrow> 'w review_activities \<Rightarrow> review_call \<Rightarrow>
    'p MemoryBroker \<times> 'w \<Rightarrow> (review_error + string) \<times> 'p MemoryBroker \<times> 'w" where
  "review_body env pause ctx a (CallParseDiff inp) s = ParseDiff env pause ctx inp s"
| "review_body env pause ctx a (CallSecurityAudit inp) s = SecurityAudit env ctx a inp s"
| "review_body env pause ctx a (CallTestCoverage inp) s = TestCoverage env ctx a inp s"
| "review_body env pause ctx a (CallStyleCheck inp) s = StyleCheck env ctx a inp s"
| "review_body env pause ctx a (CallSynthesizeReview inp) s = SynthesizeReview env ctx a inp s"

text \<open>
  What an executor may do with them: run each call at least once, in any order and as often as it likes;
  the result of a call is that of its last run. Other work may change the state between two runs.
\<close>

inductive runs_calls :: "(review_call \<Rightarrow> 's \<Rightarrow> ('e + string) \<times> 's) \<Rightarrow> review_call list \<Rightarrow> 's \<Rightarrow>
    (review_call \<Rightarrow> 'e + string) \<Rightarrow> 's \<Rightarrow> bool" for body where
  runs_Nil: "runs_calls body [] s f s"
| runs_snoc: "runs_calls body cs s f s1 \<Longrightarrow> body c s2 = (r, s3) \<Longrightarrow> runs_calls body (cs @ [c]) s (f(c := r)) s3"

definition executes :: "(review_call \<Rightarrow> 's \<Rightarrow> ('e + string) \<times> 's) \<Rightarrow> ('e, 's) executor \<Rightarrow> bool" where
  "executes body exec \<longleftrightarrow> (\<forall>calls s f s'. exec calls s = (f, s') \<longrightarrow>
     (\<exists>cs. set cs = set calls \<and> runs_calls body cs s f s'))"


section \<open>Publishing several events\<close>

fun publish_all :: "'p event list \<Rightarrow> 'p MemoryBroker \<Rightarrow> broker_panic option \<times> 'p MemoryBroker" where
  "publish_all [] b = (None, b)"
| "publish_all (ev # evs) b = (case Publish ev b of (Some p, b1) \<Rightarrow> (Some p, b1) | (None, b1) \<Rightarrow> publish_all evs b1)"

definition stamped :: "Emitter \<Rightarrow> 'p event \<Rightarrow> 'p event" where
  "stamped em ev = (if event_workflow ev = [] then withWorkflowID ev (emitter_wid em) else ev)"

definition sent :: "Emitter \<Rightarrow> 'p event list \<Rightarrow> 'p event list" where
  "sent em evs = (if emitter_broker em then map (stamped em) evs else [])"

lemma sent_simps [simp]:
  "sent em [] = []" "sent em (evs @ evs') = sent em evs @ sent em evs'"
  by (simp_all add: sent_def)

lemma publish_all_append:
  "publish_all (xs @ ys) b =
     (case publish_all xs b of (Some p, b1) \<Rightarrow> (Some p, b1) | (None, b1) \<Rightarrow> publish_all ys b1)"
  by (induction xs arbitrary: b) (auto split: prod.splits option.splits)

lemma publish_all_sent_Cons:
  "publish_all (sent em (ev # evs)) b =
     (case publish_all (sent em [ev]) b of (Some p, b1) \<Rightarrow> (Some p, b1) | (None, b1) \<Rightarrow> publish_all (sent em evs) b1)"
  by (simp add: sent_def split: prod.split option.split)

lemma Emit_sent: "Emit (Some em) ev b = publish_all (sent em [ev]) b"
  by (auto simp: Emit_def sent_def stamped_def split: prod.splits option.splits)

text \<open>A broker in use: not closed, its registered channels distinct and open.\<close>

definition broker_ok :: "'p MemoryBroker \<Rightarrow> bool" where
  "broker_ok b \<longleftrightarrow> \<not> broker_closed b \<and> int64 (dropped b) \<and>
     (\<forall>ev. distinct (matching b ev) \<and> (\<forall>i\<in>set (matching b ev). i < length (chans b) \<and> \<not> chan_closed (chans b ! i)))"

lemma session_broker_ok:
  assumes "session_inv s" "\<not> broker_closed (broker s)"
  shows "broker_ok (broker s)"
proof -
  have reg: "registry_ok s" and "int64 (dropped (broker s))"
    using assms(1) wrap64_range by (auto simp: session_inv_def counters_ok_def)
  then show ?thesis
    using assms(2) matching_open [OF reg] by (auto simp: broker_ok_def registry_ok_def)
qed

lemma Publish_ok:
  assumes "broker_ok b"
  shows "\<exists>b'. Publish ev b = (None, b') \<and> broker_ok b' \<and> length (chans b') = length (chans b) \<and>
    matching b' = matching b \<and>
    (\<forall>i<length (chans b). chans b' ! i = (if i \<in> set (matching b ev) then push ev (chans b ! i) else chans b ! i))"
proof -
  let ?b = "b\<lparr>published := wrap64 (published b + 1)\<rparr>"
  have "distinct (matching b ev)" "\<forall>i\<in>set (matching b ev). i < length (chans ?b) \<and> \<not> chan_closed (chans ?b ! i)"
    "int64 (dropped ?b)" using assms by (auto simp: broker_ok_def)
  from send_all_open [OF this, where ev = ev] obtain b' where b': "send_all ev (matching b ev) ?b = (None, b')"
    "length (chans b') = length (chans b)"
    "\<forall>i<length (chans b). chans b' ! i = (if i \<in> set (matching b ev) then push ev (chans b ! i) else chans b ! i)"
    "int64 (dropped b')" "workflowSubs b' = workflowSubs b" "allSubs b' = allSubs b" "broker_closed b' = broker_closed b"
    by auto
  have m: "matching b' = matching b"
    by (rule ext) (simp add: matching_def subs_of_def b'(5,6))
  have "broker_ok b'"
    using assms b'(2-4,7) by (auto simp: broker_ok_def m)
  with b' m assms show ?thesis by (auto simp: Publish_open broker_ok_def)
qed

lemma publish_all_ok:
  assumes "broker_ok b"
  shows "\<exists>b'. publish_all evs b = (None, b') \<and> broker_ok b' \<and> length (chans b') = length (chans b) \<and>
    matching b' = matching b \<and>
    (\<forall>i<length (chans b). chans b' ! i = fold push (filter (\<lambda>ev. i \<in> set (matching b ev)) evs) (chans b ! i))"
  using assms
proof (induction evs arbitrary: b)
  case (Cons ev evs)
  from Publish_ok [OF Cons.prems] obtain b1 where b1: "Publish ev b = (None, b1)" "broker_ok b1"
    "length (chans b1) = length (chans b)" "matching b1 = matching b"
    "\<forall>i<length (chans b). chans b1 ! i = (if i \<in> set (matching b ev) then push ev (chans b ! i) else chans b ! i)"
    by blast
  from Cons.IH [OF b1(2)] b1 show ?case by auto
qed simp

lemma publish_all_session:
  assumes "session_inv s" "\<not> broker_closed (broker s)" "publish_all evs (broker s) = (None, b')"
    and "i < length (kinds s)" "\<not> chan_closed (chans (broker s) ! i)"
  shows "chans b' ! i = fold push (filter (wants (kinds s ! i)) evs) (chans (broker s) ! i)"
proof -
  have reg: "registry_ok s" using assms(1) by (simp add: session_inv_def)
  then have "i < length (chans (broker s))" using assms(4) by (simp add: registry_ok_def)
  moreover have "(\<lambda>ev. i \<in> set (matching (broker s) ev)) = wants (kinds s ! i)"
    using assms(4,5) by (intro ext) (simp add: matching_open(2) [OF reg])
  ultimately show ?thesis
    using publish_all_ok [OF session_broker_ok [OF assms(1,2)], of evs] assms(3) by auto
qed

section \<open>What a stream is collected to\<close>

text \<open>The chunks that are read: up to the first one with an error.\<close>

fun used_chunks :: "TokenChunk list \<Rightarrow> TokenChunk list" where
  "used_chunks [] = []"
| "used_chunks (c # cs) = c # (if ChunkErr c = None then used_chunks cs else [])"

definition stream_error :: "TokenChunk list \<Rightarrow> llm_error option" where
  "stream_error cs = (case used_chunks cs of [] \<Rightarrow> None | us \<Rightarrow> ChunkErr (last us))"

definition stream_text :: "TokenChunk list \<Rightarrow> string" where
  "stream_text cs = concat (map ChunkText (used_chunks cs))"

definition stream_events :: "string \<Rightarrow> TokenChunk list \<Rightarrow> 'p event list" where
  "stream_events callID cs = map (chunk_event callID) (filter (\<lambda>c. ChunkText c \<noteq> []) (used_chunks cs))"

lemma stream_simps [simp]:
  "stream_error [] = None" "stream_text [] = []" "stream_events callID [] = []"
  "stream_error (c # cs) = (case ChunkErr c of Some e \<Rightarrow> Some e | None \<Rightarrow> stream_error cs)"
  "stream_text (c # cs) = ChunkText c @ (if ChunkErr c = None then stream_text cs else [])"
  "stream_events callID (c # cs) = (if ChunkText c = [] then [] else [chunk_event callID c]) @
     (if ChunkErr c = None then stream_events callID cs else [])"
  by (auto simp: stream_error_def stream_text_def stream_events_def split: list.splits option.splits)

lemma collect_chunks_eq:
  "collect_chunks (Some em) callID chunks out b =
     (case publish_all (sent em (stream_events callID chunks)) b of
        (Some p, b1) \<Rightarrow> (broker_panicked, b1)
      | (None, b1) \<Rightarrow> (Returned (out @ stream_text chunks) (stream_error chunks), b1))"
proof (induction chunks arbitrary: out b)
  case (Cons c cs)
  show ?case
  proof (cases "ChunkText c = []")
    case True
    then show ?thesis by (cases "ChunkErr c") (simp_all add: Cons.IH split: prod.split option.split)
  next
    case False
    obtain p b1 where e: "publish_all (sent em [chunk_event callID c]) b = (p, b1)" by (metis prod.exhaust)
    then show ?thesis
      using False by (cases "ChunkErr c"; cases p) (simp_all add: Emit_sent Cons.IH
        publish_all_sent_Cons [where ev = "chunk_event callID c" and evs = "stream_events callID cs"] split: prod.split option.split)
  qed
qed simp


text \<open>
  Collecting a stream gives the concatenation of its chunks up to the first one that carries an error,
  with that error, and publishes one event for every chunk of these that has a text, in order. In
  particular a stream that just ends, as that of a cancelled call does, is a success with the text so far.
\<close>

theorem CollectStream_collects:
  assumes "broker_ok b"
  shows "\<exists>b'. CollectStream (Some chunks) (Some em) callID b = (Returned (stream_text chunks) (stream_error chunks), b') \<and>
     publish_all (sent em (stream_events callID chunks)) b = (None, b') \<and> broker_ok b' \<and>
     (stream_error chunks = None \<longleftrightarrow> list_all (\<lambda>c. ChunkErr c = None) chunks) \<and>
     (stream_error chunks = None \<longrightarrow> stream_text chunks = concat (map ChunkText chunks))"
proof -
  from publish_all_ok [OF assms] obtain b' where b': "publish_all (sent em (stream_events callID chunks)) b = (None, b')"
    "broker_ok b'" by blast
  moreover have "(stream_error chunks = None \<longleftrightarrow> list_all (\<lambda>c. ChunkErr c = None) chunks) \<and>
      (stream_error chunks = None \<longrightarrow> stream_text chunks = concat (map ChunkText chunks))"
    by (induction chunks) (auto split: option.splits)
  ultimately show ?thesis by (simp add: CollectStream_def collect_chunks_eq)
qed

section \<open>Answers of the model\<close>

text \<open>A text the model gave for a prompt: a complete stream, or the reply of the completion function.\<close>

definition answered :: "'w CompleteStreamFunc option \<Rightarrow> 'w CompleteFunc option \<Rightarrow> string \<Rightarrow> string \<Rightarrow> string \<Rightarrow> bool" where
  "answered stream fallback sys user out \<longleftrightarrow> (\<exists>w w'.
     case stream of
       Some f \<Rightarrow> f sys user w = (Stream None, w') \<and> out = [] \<or>
         (\<exists>chunks. f sys user w = (Stream (Some chunks), w') \<and> (\<forall>c\<in>set chunks. ChunkErr c = None) \<and>
            out = concat (map ChunkText chunks))
     | None \<Rightarrow> (case fallback of Some g \<Rightarrow> g sys user w = (Returned out None, w') | None \<Rightarrow> out = []))"

lemma stream_error_None:
  "stream_error chunks = None \<Longrightarrow> (\<forall>c\<in>set chunks. ChunkErr c = None) \<and> stream_text chunks = concat (map ChunkText chunks)"
  by (induction chunks) (auto split: option.splits if_splits)

lemma CompleteWithStreaming_answered:
  assumes "CompleteWithStreaming ctx stream fallback sys user callID (b, w) = (Returned out None, b', w')"
  shows "answered stream fallback sys user out"
proof (cases stream)
  case (Some f)
  from assms Some obtain ch where f: "f sys user w = (Stream ch, w')"
    and c: "CollectStream ch (Some (context_emitter ctx)) callID b = (Returned out None, b')"
    by (auto simp: CompleteWithStreaming_def Let_def split: prod.splits stream_reply.splits)
  show ?thesis
  proof (cases ch)
    case None
    with c have "out = []" by (simp add: CollectStream_def)
    with f None Some show ?thesis by (auto simp: answered_def)
  next
    case (Some chunks)
    with c have "out = stream_text chunks" "stream_error chunks = None"
      by (auto simp: CollectStream_def collect_chunks_eq broker_panicked_def split: prod.splits option.splits)
    with stream_error_None [of chunks] f Some \<open>stream = Some f\<close> show ?thesis by (auto simp: answered_def)
  qed
next
  case None
  with assms show ?thesis
    by (auto simp: CompleteWithStreaming_def answered_def broker_panicked_def Let_def split: prod.splits option.splits reply.splits)
qed

lemma CompleteWithStreaming_events:
  assumes "CompleteWithStreaming ctx stream fallback sys user callID (b, w) = (Returned out err, b', w')"
  shows "\<exists>cs. publish_all (sent (context_emitter ctx) (map (chunk_event callID) cs)) b = (None, b')"
proof (cases stream)
  case (Some f)
  show ?thesis
  proof (cases "fst (f sys user w)")
    case (Stream ch)
    with assms Some have c: "CollectStream ch (Some (context_emitter ctx)) callID b = (Returned out err, b')"
      by (auto simp: CompleteWithStreaming_def Let_def split: prod.splits)
    show ?thesis
    proof (cases ch)
      case None
      with c show ?thesis by (intro exI [of _ "[]"]) (simp add: CollectStream_def)
    next
      case (Some chunks)
      with c have "publish_all (sent (context_emitter ctx) (stream_events callID chunks)) b = (None, b')"
        by (auto simp: CollectStream_def collect_chunks_eq broker_panicked_def split: prod.splits option.splits)
      then show ?thesis unfolding stream_events_def by blast
    qed
  next
    case (StreamError e)
    with assms Some show ?thesis
      by (intro exI [of _ "[]"]) (auto simp: CompleteWithStreaming_def Let_def split: prod.splits)
  next
    case (StreamPanic p)
    with assms Some show ?thesis by (auto simp: CompleteWithStreaming_def Let_def split: prod.splits)
  qed
next
  case None
  show ?thesis
  proof (cases fallback)
    case (Some g)
    with assms None show ?thesis
      by (intro exI [of _ "[\<lparr>ChunkText = out, ChunkIndex = 0, ChunkFinal = True, ChunkErr = None\<rparr>]"])
        (auto simp: CompleteWithStreaming_def Emit_sent broker_panicked_def Let_def split: prod.splits option.splits reply.splits)
  next
    case None
    with assms \<open>stream = None\<close> show ?thesis
      by (intro exI [of _ "[]"]) (simp add: CompleteWithStreaming_def)
  qed
qed


lemma callLLMWithStreaming_eq:
  "callLLMWithStreaming ctx a sys user callID streaming s =
     CompleteWithStreaming ctx (if streaming then act_stream a else None) (act_complete a) sys user callID s"
  by (simp add: callLLMWithStreaming_def)

lemma finish_call_Inr:
  "finish_call env emitter name nodeID start rs = (Inr out, b', w') \<Longrightarrow> \<exists>b w. rs = (Returned out None, b, w)"
  by (auto simp: finish_call_def split: prod.splits reply.splits option.splits)

lemma ParseDiff_Inr: "ParseDiff env pause ctx inp s = (Inr out, s') \<Longrightarrow> out = parse_summary inp"
  by (cases s') (auto simp: ParseDiff_def Let_def dest!: finish_call_Inr split: prod.splits option.splits)

lemma observed_call_Inr:
  assumes "observed_call env ctx a name nodeID sys user streaming s = (Inr out, s')"
  shows "answered (if streaming then act_stream a else None) (act_complete a) sys user out"
proof -
  obtain b1 where "finish_call env (EmitterForActivity ctx) name nodeID (re_now env (snd s))
      (callLLMWithStreaming ctx a sys user nodeID streaming (b1, snd s)) = (Inr out, s')"
    using assms by (auto simp: observed_call_def Let_def split: if_splits prod.splits option.splits)
  then obtain b2 w2 where "callLLMWithStreaming ctx a sys user nodeID streaming (b1, snd s) = (Returned out None, b2, w2)"
    by (cases s') (auto dest: finish_call_Inr)
  then show ?thesis unfolding callLLMWithStreaming_eq by (rule CompleteWithStreaming_answered)
qed

section \<open>What the workflow returns\<close>

lemma runs_calls_result:
  "runs_calls body cs s f s' \<Longrightarrow> c \<in> set cs \<Longrightarrow> \<exists>s1 s2. body c s1 = (f c, s2)"
proof (induction rule: runs_calls.induct)
  case (runs_snoc cs s f s1 d s2 r s3)
  show ?case
  proof (cases "c = d")
    case True
    with runs_snoc.hyps(2) show ?thesis by auto
  next
    case False
    with runs_snoc show ?thesis by auto
  qed
qed simp

lemma executes_result:
  "executes body exec \<Longrightarrow> exec cs s = (f, s') \<Longrightarrow> c \<in> set cs \<Longrightarrow> \<exists>s1 s2. body c s1 = (f c, s2)"
  unfolding executes_def by (metis runs_calls_result)

lemma executes_all:
  "executes body exec \<Longrightarrow> exec cs s = (f, s') \<Longrightarrow> list_all (\<lambda>c. \<exists>s1 s2. body c s1 = (f c, s2)) cs"
  by (auto simp: list_all_iff dest: executes_result)

text \<open>The stages of a run that returns an output, and of one that fails.\<close>

lemma PRReview_stages:
  assumes "PRReviewWorkflow now exec inp s = (Inr out, s')"
  shows "Diff inp \<noteq> [] \<and> (\<exists>f g h s1 s2. exec [CallParseDiff inp] s = (f, s1) \<and> f (CallParseDiff inp) = Inr (OutParse out) \<and>
      exec (analyzer_calls (OutParse out) inp) s1 = (g, s2) \<and>
      map g (analyzer_calls (OutParse out) inp) = map Inr [OutSecurity out, OutTests out, OutStyle out] \<and>
      (let synth = CallSynthesizeReview (synthesize_input (OutSecurity out) (OutTests out) (OutStyle out) inp)
       in exec [synth] s2 = (h, s') \<and> h synth = Inr (OutSynthesis out)))"
  using assms
  by (auto simp: PRReviewWorkflow_def analyzer_calls_def Let_def split: if_splits prod.splits sum.splits)

lemma PRReview_failure:
  assumes "executes body exec" and "PRReviewWorkflow now exec inp s = (Inl err, s')"
  shows "err = EmptyDiff \<and> Diff inp = [] \<and> s' = s \<or> (\<exists>stage e. err = StageFailed stage e \<and> (\<exists>c s1 s2. body c s1 = (Inl e, s2)))"
proof -
  have ran: "\<exists>s1 s2. body c s1 = (Inl e, s2)" if "exec cs s1 = (f, s2)" "f c = Inl e" "c \<in> set cs" for cs s1 f s2 c e
    using executes_result [OF assms(1) that(1,3)] that(2) by simp
  from assms(2) show ?thesis
    by (auto simp: PRReviewWorkflow_def analyzer_calls_def Let_def split: if_splits prod.splits sum.splits)
      (rule exI, rule ran, assumption, assumption, simp)+
qed

text \<open>
  C27: a review that is returned is what its activities produced in layers: the parse summary of the diff,
  three answers of the model to the specialist prompts over this summary, and its answer to the synthesis
  prompt over exactly these three texts. Each is a complete stream, or a reply without error when the
  review does not stream or no streaming backend is set.
\<close>

theorem PRReview_review:
  fixes exec :: "(review_error, 'p MemoryBroker \<times> 'w) executor"
  assumes "executes (review_body env pause ctx a) exec"
    and "PRReviewWorkflow now exec inp s = (Inr out, s')"
  shows "let ask = answered (if StreamingBackend inp then act_stream a else None) (act_complete a);
      parse = parse_summary inp
    in Diff inp \<noteq> [] \<and> OutParse out = parse \<and>
       ask security_system (security_prompt parse) (OutSecurity out) \<and>
       ask tests_system (tests_prompt parse) (OutTests out) \<and>
       ask style_system (style_prompt parse) (OutStyle out) \<and>
       ask synthesis_system (synthesis_prompt (OutSecurity out) (OutTests out) (OutStyle out)) (OutSynthesis out)"
proof -
  from PRReview_stages [OF assms(2)] obtain f g h s1 s2 where nonempty: "Diff inp \<noteq> []"
    and f: "exec [CallParseDiff inp] s = (f, s1)" "f (CallParseDiff inp) = Inr (OutParse out)"
    and g: "exec (analyzer_calls (OutParse out) inp) s1 = (g, s2)"
      "map g (analyzer_calls (OutParse out) inp) = map Inr [OutSecurity out, OutTests out, OutStyle out]"
    and h: "exec [CallSynthesizeReview (synthesize_input (OutSecurity out) (OutTests out) (OutStyle out) inp)] s2 = (h, s')"
      "h (CallSynthesizeReview (synthesize_input (OutSecurity out) (OutTests out) (OutStyle out) inp)) = Inr (OutSynthesis out)"
    unfolding Let_def by blast
  note ran = executes_all [OF assms(1)]
  from ran [OF f(1)] f(2) have parse: "OutParse out = parse_summary inp"
    by (auto dest: ParseDiff_Inr)
  have ask: "answered (if StreamingBackend inp then act_stream a else None) (act_complete a) sys user r"
    if "\<exists>(s1 :: 'p MemoryBroker \<times> 'w) s2. observed_call env ctx a name nodeID sys user (StreamingBackend inp) s1 = (Inr r, s2)" for name nodeID sys user r
    using that observed_call_Inr by blast
  note bodies = SecurityAudit_def TestCoverage_def StyleCheck_def SynthesizeReview_def runAnalyzer_def
    analyzer_input_def synthesize_input_def
  have security: "\<exists>(s1 :: 'p MemoryBroker \<times> 'w) s2. observed_call env ctx a SecurityAuditActivityName ''security_audit'' security_system
      (security_prompt (OutParse out)) (StreamingBackend inp) s1 = (Inr (OutSecurity out), s2)"
    and tests: "\<exists>(s1 :: 'p MemoryBroker \<times> 'w) s2. observed_call env ctx a TestCoverageActivityName ''test_coverage'' tests_system
      (tests_prompt (OutParse out)) (StreamingBackend inp) s1 = (Inr (OutTests out), s2)"
    and style: "\<exists>(s1 :: 'p MemoryBroker \<times> 'w) s2. observed_call env ctx a StyleCheckActivityName ''style_check'' style_system
      (style_prompt (OutParse out)) (StreamingBackend inp) s1 = (Inr (OutStyle out), s2)"
    using ran [OF g(1)] g(2) by (simp_all add: analyzer_calls_def bodies)
  have last: "\<exists>(s1 :: 'p MemoryBroker \<times> 'w) s2. observed_call env ctx a SynthesizeReviewActivity ''synthesize'' synthesis_system
      (synthesis_prompt (OutSecurity out) (OutTests out) (OutStyle out)) (StreamingBackend inp) s1 = (Inr (OutSynthesis out), s2)"
    using ran [OF h(1)] h(2) by (simp add: bodies)
  show ?thesis
    using nonempty parse ask [OF security] ask [OF tests] ask [OF style] ask [OF last] unfolding Let_def by simp
qed


section \<open>Who sees the events of an activity\<close>

text \<open>The events of an activity that does not crash: its start, the chunks of the call, its end.\<close>

definition started_event :: "int \<Rightarrow> string \<Rightarrow> string \<Rightarrow> string \<Rightarrow> 'p event" where
  "started_event t wid name nodeID = ActivityStarted (stamp t wid) name nodeID"

definition completed_event :: "int \<Rightarrow> string \<Rightarrow> string \<Rightarrow> string \<Rightarrow> string \<Rightarrow> int \<Rightarrow> 'p event" where
  "completed_event t wid name nodeID msg d = ActivityCompleted (stamp t wid) name nodeID msg d"

lemma observed_call_events:
  assumes "observed_call env ctx a name nodeID sys user streaming (b, w) = (r, b', w')"
    and "act_complete a \<noteq> None" "\<forall>p. r \<noteq> Inl (Crash p)"
  shows "\<exists>t1 cs t2 err d. publish_all (sent (EmitterForActivity ctx) [NewActivityStarted t1 [] name nodeID] @
      sent (context_emitter ctx) (map (chunk_event nodeID) cs) @
      sent (EmitterForActivity ctx) [NewActivityCompleted t2 [] name nodeID err d]) b = (None, b')"
proof -
  let ?em = "EmitterForActivity ctx"
  let ?start = "NewActivityStarted (re_now env w) [] name nodeID"
  obtain b1 where b1: "publish_all (sent ?em [?start]) b = (None, b1)"
    and fin: "finish_call env ?em name nodeID (re_now env w)
      (callLLMWithStreaming ctx a sys user nodeID streaming (b1, w)) = (r, b', w')"
    using assms by (auto simp: observed_call_def Emit_sent Let_def split: prod.splits option.splits)
  then obtain out err b2 w2 where llm: "callLLMWithStreaming ctx a sys user nodeID streaming (b1, w) = (Returned out err, b2, w2)"
    and done': "publish_all (sent ?em [NewActivityCompleted (re_now env w2) [] name nodeID (map_option (re_show env) err)
        (re_now env w2 - re_now env w)]) b2 = (None, b')"
    using assms(3) by (auto simp: finish_call_def Emit_sent split: prod.splits reply.splits option.splits)
  from CompleteWithStreaming_events [OF llm [unfolded callLLMWithStreaming_eq]]
  obtain cs where "publish_all (sent (context_emitter ctx) (map (chunk_event nodeID) cs)) b1 = (None, b2)" by blast
  with b1 done' show ?thesis
    by (intro exI [of _ "re_now env w"] exI [of _ cs] exI [of _ "re_now env w2"] exI [of _ "map_option (re_show env) err"]
        exI [of _ "re_now env w2 - re_now env w"]) (simp add: publish_all_append)
qed

lemma chunk_event_unstamped [simp]: "stamped \<lparr>emitter_broker = g, emitter_wid = []\<rparr> (chunk_event callID c) = chunk_event callID c"
  by (simp add: stamped_def chunk_event_def event_workflow_def)

lemma stamped_activity [simp]:
  "stamped em (NewActivityStarted t [] name nodeID) = started_event t (emitter_wid em) name nodeID"
  "stamped em (NewActivityCompleted t [] name nodeID err d) =
     completed_event t (emitter_wid em) name nodeID (error_message err) (milliseconds d)"
  by (simp_all add: stamped_def started_event_def completed_event_def NewActivityStarted_def NewActivityCompleted_def
      event_workflow_def stamp_def)

lemma chunk_event_workflow [simp]: "event_workflow (chunk_event callID c) = []"
  by (simp add: chunk_event_def event_workflow_def)

text \<open>
  C28: the text chunks of an activity do not reach those who subscribed to its workflow. In an activity that
  no one gave an emitter or a workflow ID through its context, with the global broker registered, a
  subscriber of the workflow is offered the start and the end of the call and nothing else; the chunks
  go, without workflow ID, to the subscribers of everything (and to those of the empty ID).
\<close>

theorem chunks_miss_workflow:
  assumes "session_inv s" "\<not> broker_closed (broker s)"
    and "ctx_emitter ctx = None" "ctx_wid ctx = None" "ctx_activity ctx = Some wid" "ctx_global ctx" "wid \<noteq> []"
    and "act_complete a \<noteq> None" "\<forall>p. r \<noteq> Inl (Crash p)"
    and "observed_call env ctx a name nodeID sys user streaming (broker s, w) = (r, b', w')"
  shows "\<exists>t1 cs t2 msg d. let start = started_event t1 wid name nodeID; fin = completed_event t2 wid name nodeID msg d;
      chunks = map (chunk_event nodeID) cs
    in \<forall>i<length (kinds s). chan_closed (chans (broker s) ! i) \<or>
      chans b' ! i = fold push (case kinds s ! i of None \<Rightarrow> start # chunks @ [fin]
        | Some v \<Rightarrow> if v = wid then [start, fin] else if v = [] then chunks else []) (chans (broker s) ! i)"
proof -
  have em: "EmitterForActivity ctx = \<lparr>emitter_broker = True, emitter_wid = wid\<rparr>"
    "context_emitter ctx = \<lparr>emitter_broker = True, emitter_wid = []\<rparr>"
    using assms(3-6) by (simp_all add: EmitterForActivity_def context_emitter_def EmitterFromContext_def
        workflowIDFromActivityContext_def)
  from observed_call_events [OF assms(10,8,9)] obtain t1 cs t2 err d where
    "publish_all (sent (EmitterForActivity ctx) [NewActivityStarted t1 [] name nodeID] @
      sent (context_emitter ctx) (map (chunk_event nodeID) cs) @
      sent (EmitterForActivity ctx) [NewActivityCompleted t2 [] name nodeID err d]) (broker s) = (None, b')" by blast
  moreover define msg where "msg = error_message err"
  moreover define ms where "ms = milliseconds d"
  ultimately have pub: "publish_all (started_event t1 wid name nodeID # map (chunk_event nodeID) cs @
      [completed_event t2 wid name nodeID msg ms]) (broker s) = (None, b')"
    by (simp add: em sent_def comp_def)
  have wf: "event_workflow (started_event t1 wid name nodeID) = wid"
    "event_workflow (completed_event t2 wid name nodeID msg ms) = wid"
    by (simp_all add: started_event_def completed_event_def event_workflow_def stamp_def)
  have "chans b' ! i = fold push (case kinds s ! i of
        None \<Rightarrow> started_event t1 wid name nodeID # map (chunk_event nodeID) cs @ [completed_event t2 wid name nodeID msg ms]
      | Some v \<Rightarrow> if v = wid then [started_event t1 wid name nodeID, completed_event t2 wid name nodeID msg ms]
          else if v = [] then map (chunk_event nodeID) cs else []) (chans (broker s) ! i)"
    if i: "i < length (kinds s)" "\<not> chan_closed (chans (broker s) ! i)" for i
  proof -
    have "chans b' ! i = fold push (filter (wants (kinds s ! i)) (started_event t1 wid name nodeID #
        map (chunk_event nodeID) cs @ [completed_event t2 wid name nodeID msg ms])) (chans (broker s) ! i)"
      by (rule publish_all_session [OF assms(1,2) pub i])
    then show ?thesis
      using assms(7) by (cases "kinds s ! i") (auto simp: wf filter_map comp_def)
  qed
  then show ?thesis
    by (intro exI [of _ t1] exI [of _ cs] exI [of _ t2] exI [of _ msg] exI [of _ ms]) (simp add: Let_def disj_imp)
qed


text \<open>
  The worker registration would only have to put the ID in the context: both emitters are the same then.
\<close>

lemma emitters_agree_with_id:
  "ctx_emitter ctx = None \<Longrightarrow> ctx_activity ctx = Some wid \<Longrightarrow>
     context_emitter (WithWorkflowID ctx wid) = EmitterForActivity (WithWorkflowID ctx wid)"
  by (simp add: context_emitter_def EmitterFromContext_def WithWorkflowID_def EmitterForActivity_def
      workflowIDFromActivityContext_def)

section \<open>Streaming a completion function\<close>

text \<open>
  A completion function wrapped as a stream is used like the function itself: the activity gets the
  same reply and the broker the same events, as long as the call is not cancelled and the reply is not empty.
\<close>

theorem StreamFromComplete_agrees:
  assumes "c sys user w = (Returned out err, w1)" "\<not> cancelled w1" "out \<noteq> []"
  shows "CompleteWithStreaming ctx (StreamFromComplete cancelled (Some c)) fallback sys user callID (b, w) =
    CompleteWithStreaming ctx None (Some c) sys user callID (b, w)"
  using assms
  by (cases err) (simp_all add: CompleteWithStreaming_def StreamFromComplete_def CollectStream_def Let_def chunk_event_def
      split: prod.split option.split)

text \<open>A cancelled call is a success with an empty reply; the error of the function is lost with it.\<close>

lemma cancelled_stream_succeeds:
  assumes "c sys user w = (Returned out err, w1)" "cancelled w1"
  shows "CompleteWithStreaming ctx (StreamFromComplete cancelled (Some c)) fallback sys user callID (b, w) =
    (Returned [] None, b, w1)"
  using assms by (simp add: CompleteWithStreaming_def StreamFromComplete_def CollectStream_def Let_def)

section \<open>Activities return\<close>

lemma Emit_ok:
  assumes "broker_ok b"
  obtains b' where "Emit (Some em) ev b = (None, b')" "broker_ok b'"
  unfolding Emit_sent using publish_all_ok [OF assms] by blast

text \<open>With a completion function that replies and no streaming an activity ends with its reply.\<close>

lemma observed_call_returns:
  assumes "act_complete a = Some c" "act_stream a = None" "c sys user w = (Returned out err, w1)" "broker_ok b"
  shows "\<exists>b'. observed_call env ctx a name nodeID sys user streaming (b, w) =
      ((case err of None \<Rightarrow> Inr out | Some e \<Rightarrow> Inl (LLMFailed e)), b', w1) \<and> broker_ok b'"
proof -
  let ?em = "EmitterForActivity ctx"
  from assms(4) obtain b1 where b1: "Emit (Some ?em) (NewActivityStarted (re_now env w) [] name nodeID) b = (None, b1)" "broker_ok b1"
    by (rule Emit_ok)
  from b1(2) obtain b2 where b2: "Emit (Some (context_emitter ctx)) (chunk_event nodeID
      \<lparr>ChunkText = out, ChunkIndex = 0, ChunkFinal = True, ChunkErr = None\<rparr>) b1 = (None, b2)" "broker_ok b2"
    by (rule Emit_ok)
  from b2(2) obtain b3 where b3: "Emit (Some ?em) (NewActivityCompleted (re_now env w1) [] name nodeID
      (map_option (re_show env) err) (re_now env w1 - re_now env w)) b2 = (None, b3)" "broker_ok b3"
    by (rule Emit_ok)
  have "callLLMWithStreaming ctx a sys user nodeID streaming (b1, w) = (Returned out err, b2, w1)"
    using assms(1-3) b2(1) by (simp add: callLLMWithStreaming_def CompleteWithStreaming_def)
  with assms(1) b1(1) b3 show ?thesis
    by (cases err) (simp_all add: observed_call_def finish_call_def Let_def)
qed

text \<open>An executor that runs the calls one after the other.\<close>

definition run_in_turn :: "(review_call \<Rightarrow> 's \<Rightarrow> ('e + string) \<times> 's) \<Rightarrow> ('e, 's) executor" where
  "run_in_turn body cs s = foldl (\<lambda>(f, s1) c. case body c s1 of (r, s2) \<Rightarrow> (f(c := r), s2)) (\<lambda>c. Inr [], s) cs"

lemma run_in_turn_executes: "executes body (run_in_turn body)"
proof -
  have "runs_calls body cs s (fst (run_in_turn body cs s)) (snd (run_in_turn body cs s))" for cs s
  proof (induction cs rule: rev_induct)
    case Nil
    then show ?case by (simp add: run_in_turn_def runs_Nil)
  next
    case (snoc c cs)
    obtain f s1 where f: "run_in_turn body cs s = (f, s1)" by (metis prod.exhaust)
    obtain r s2 where r: "body c s1 = (r, s2)" by (metis prod.exhaust)
    have eq: "run_in_turn body (cs @ [c]) s = (f(c := r), s2)"
      using f r by (simp add: run_in_turn_def)
    show ?case
      unfolding eq fst_conv snd_conv by (rule runs_snoc [OF snoc [unfolded f fst_conv snd_conv] r])
  qed
  then show ?thesis unfolding executes_def by (metis fst_conv snd_conv)
qed

section \<open>A concrete review\<close>

definition demo_review_env :: "nat review_env" where
  "demo_review_env = \<lparr>re_now = int, re_show = (\<lambda>e. ''failed'')\<rparr>"

definition demo_model :: "nat CompleteFunc" where
  "demo_model sys user w = (Returned (if sys = synthesis_system then ''APPROVE'' else ''fine'') None, Suc w)"

definition demo_review_activities :: "nat review_activities" where
  "demo_review_activities = \<lparr>act_complete = Some demo_model, act_stream = None\<rparr>"

definition demo_quiet :: call_context where
  "demo_quiet = \<lparr>ctx_emitter = None, ctx_wid = None, ctx_activity = Some ''wf'', ctx_global = False\<rparr>"

definition demo_review_exec :: "(review_error, unit MemoryBroker \<times> nat) executor" where
  "demo_review_exec = run_in_turn (review_body demo_review_env Suc demo_quiet demo_review_activities)"

definition demo_review_input :: PRReviewInput where
  "demo_review_input = \<lparr>Diff = ''+1'', StreamingBackend = True\<rparr>"

lemma demo_call:
  "observed_call demo_review_env demo_quiet demo_review_activities name nodeID sys user streaming (b, w) =
     (Inr (if sys = synthesis_system then ''APPROVE'' else ''fine''), b, Suc w)"
  by (simp add: observed_call_def finish_call_def callLLMWithStreaming_def CompleteWithStreaming_def demo_review_activities_def
      demo_model_def demo_quiet_def EmitterForActivity_def context_emitter_def EmitterFromContext_def Emit_def Let_def)

lemma demo_parse:
  "ParseDiff demo_review_env Suc demo_quiet inp (b, w) = (Inr (parse_summary inp), b, Suc w)"
  by (simp add: ParseDiff_def finish_call_def demo_quiet_def EmitterForActivity_def Emit_def Let_def)

lemma systems_differ:
  "security_system \<noteq> synthesis_system" "tests_system \<noteq> synthesis_system" "style_system \<noteq> synthesis_system"
  by (simp_all add: security_system_def tests_system_def style_system_def synthesis_system_def)

lemma demo_review_runs:
  "\<exists>out. PRReviewWorkflow (int \<circ> snd) demo_review_exec demo_review_input (b, 0) = (Inr out, (b, 5)) \<and>
     OutSecurity out = ''fine'' \<and> OutSynthesis out = ''APPROVE''"
  by (simp add: PRReviewWorkflow_def demo_review_exec_def run_in_turn_def analyzer_calls_def demo_parse demo_call systems_differ
      SecurityAudit_def TestCoverage_def StyleCheck_def SynthesizeReview_def runAnalyzer_def demo_review_input_def Let_def)


theorem PRReview_review_witness:
  "\<exists>out :: PRReviewOutput. OutParse out = parse_summary demo_review_input \<and> OutSynthesis out = ''APPROVE'' \<and>
     answered None (Some demo_model) security_system (security_prompt (parse_summary demo_review_input)) (OutSecurity out)"
proof -
  obtain out :: PRReviewOutput where out: "PRReviewWorkflow (int \<circ> snd) demo_review_exec demo_review_input (NewMemoryBroker, 0) =
      (Inr out, (NewMemoryBroker, 5))" "OutSynthesis out = ''APPROVE''"
    using demo_review_runs by blast
  have "executes (review_body demo_review_env Suc demo_quiet demo_review_activities) demo_review_exec"
    unfolding demo_review_exec_def by (rule run_in_turn_executes)
  from PRReview_review [OF this out(1)] out(2) show ?thesis
    by (auto simp: Let_def demo_review_activities_def demo_review_input_def)
qed

definition demo_listening :: call_context where
  "demo_listening = \<lparr>ctx_emitter = None, ctx_wid = None, ctx_activity = Some ''wf'', ctx_global = True\<rparr>"

definition demo_listener :: "unit session" where
  "demo_listener = snd (exec_op (\<lambda>xs. xs) (OpSubscribe ''wf'' 8) new_session)"

lemma demo_listener_simps:
  "session_inv demo_listener" "kinds demo_listener = [Some ''wf'']" "\<not> broker_closed (broker demo_listener)"
  "chans (broker demo_listener) = [\<lparr>chan_buf = [], chan_cap = 8, chan_closed = False\<rparr>]"
  using exec_subscribe [OF session_inv_new, of "\<lambda>xs. xs" "''wf''" 8]
  by (simp_all add: demo_listener_def new_session_def NewMemoryBroker_def Subscribe_def make_chan_def)

theorem chunks_miss_workflow_witness:
  "\<exists>b' t1 t2 msg d. observed_call demo_review_env demo_listening demo_review_activities ''StyleCheck'' ''style_check''
       style_system ''p'' True (broker demo_listener, 0) = (Inr ''fine'', b', 1) \<and>
     chan_buf (chans b' ! 0) = [started_event t1 ''wf'' ''StyleCheck'' ''style_check'',
       completed_event t2 ''wf'' ''StyleCheck'' ''style_check'' msg d]"
proof -
  let ?s = demo_listener
  have ok: "broker_ok (broker ?s)"
    by (rule session_broker_ok [OF demo_listener_simps(1,3)])
  have "demo_model style_system ''p'' 0 = (Returned ''fine'' None, 1)"
    by (simp add: demo_model_def systems_differ)
  from observed_call_returns [where c = demo_model and a = demo_review_activities and env = demo_review_env and ctx = demo_listening
      and name = "''StyleCheck''" and nodeID = "''style_check''" and streaming = True, OF _ _ this ok]
  obtain b' where run: "observed_call demo_review_env demo_listening demo_review_activities ''StyleCheck'' ''style_check''
       style_system ''p'' True (broker ?s, 0) = (Inr ''fine'', b', 1)"
    by (auto simp: demo_review_activities_def)
  have ctx: "ctx_emitter demo_listening = None" "ctx_wid demo_listening = None" "ctx_activity demo_listening = Some ''wf''"
    "ctx_global demo_listening" "act_complete demo_review_activities \<noteq> None"
    by (simp_all add: demo_listening_def demo_review_activities_def)
  have "\<forall>p. (Inr ''fine'' :: review_error + string) \<noteq> Inl (Crash p)" "''wf'' \<noteq> []" by simp_all
  from chunks_miss_workflow [OF demo_listener_simps(1,3) ctx(1-4) this(2) ctx(5) this(1) run] run show ?thesis
    by (auto simp: Let_def demo_listener_simps push_def has_room_def) blast+
qed

theorem StreamFromComplete_agrees_witness:
  "CompleteWithStreaming demo_listening (StreamFromComplete (\<lambda>w. False) (Some demo_model)) None ''s'' ''u'' ''c'' (broker demo_listener, 0) =
   CompleteWithStreaming demo_listening None (Some demo_model) ''s'' ''u'' ''c'' (broker demo_listener, 0)"
proof -
  have "demo_model ''s'' ''u'' 0 = (Returned ''fine'' None, 1)"
    by (simp add: demo_model_def synthesis_system_def)
  from StreamFromComplete_agrees [where c = demo_model and cancelled = "\<lambda>w. False", OF this] show ?thesis by simp
qed

definition demo_chunks :: "TokenChunk list" where
  "demo_chunks = [\<lparr>ChunkText = ''a'', ChunkIndex = 0, ChunkFinal = False, ChunkErr = None\<rparr>,
     \<lparr>ChunkText = ''b'', ChunkIndex = 1, ChunkFinal = True, ChunkErr = Some NoResponses\<rparr>]"

theorem CollectStream_collects_witness:
  "\<exists>b'. CollectStream (Some demo_chunks) (Some \<lparr>emitter_broker = True, emitter_wid = ''wf''\<rparr>) ''c'' (broker demo_listener) =
     (Returned ''ab'' (Some NoResponses), b')"
proof -
  have "broker_ok (broker demo_listener)"
    by (rule session_broker_ok [OF demo_listener_simps(1,3)])
  from CollectStream_collects [OF this, of demo_chunks "\<lparr>emitter_broker = True, emitter_wid = ''wf''\<rparr>" "''c''"] show ?thesis
    by (auto simp: demo_chunks_def)
qed

end
