(* ===== verification/Okta.thy ===== *)
theory Okta
  imports OAuth_Flow
begin

text \<open>
  Package okta, file \<^verbatim>\<open>auth/oauth/providers/okta/okta.go\<close>: the provider for Okta, that is the address the user
  is sent to, the requests to the token, user and revocation endpoints, and what their answers are
  taken for. The HTTP client, the builder of requests, the JSON decoder and the clock are parameters.

  A JSON number is kept as the integer that \<^verbatim>\<open>int(n)\<close> truncates it to: the rounding of a decimal to a \<^verbatim>\<open>float64\<close> and its
  conversion, which Go leaves to the implementation outside the 64-bit numbers, belong to the decoder that is a
  parameter.
\<close>

section \<open>Form values\<close>

text \<open>\<^verbatim>\<open>url.Values\<close> with one value for a key, as \<open>Set\<close> makes it; \<open>Encode\<close> goes through the sorted keys.\<close>

type_synonym form_values = "(string, string) gomap"

definition form_set :: "string \<Rightarrow> string \<Rightarrow> form_values \<Rightarrow> form_values" where
  "form_set = gm_set"

definition form_pairs :: "form_values \<Rightarrow> (string \<times> string) list" where
  "form_pairs form = map (\<lambda>k. (k, the (gm_get form k))) (sort (gm_keys form))"

definition form_encode :: "form_values \<Rightarrow> string" where
  "form_encode form = encode_query (form_pairs form)"

section \<open>The provider\<close>

text \<open>\<open>oe_build\<close> is the error of building a request to an address, \<open>oe_do\<close> the client.\<close>

record 'w okta_env =
  oe_build :: "string \<Rightarrow> string option"
  oe_do :: "client_request \<Rightarrow> 'w \<Rightarrow> (string + client_response) \<times> 'w"
  oe_json :: "string \<Rightarrow> string + claims"
  oe_now :: "'w \<Rightarrow> int \<times> 'w"

record OktaConfig =
  ClientID :: string
  Issuer :: string

text \<open>\<^verbatim>\<open>strings.TrimRight\<close> with one byte as the cut set, and \<^verbatim>\<open>strconv.Atoi\<close>.\<close>

definition TrimRight_byte :: "char \<Rightarrow> string \<Rightarrow> string" where
  "TrimRight_byte c s = rev (dropWhile (\<lambda>x. x = c) (rev s))"

definition Atoi :: "string \<Rightarrow> int option" where
  "Atoi s =
     (let (neg, ds) = (case s of [] \<Rightarrow> (False, []) | c # cs \<Rightarrow>
            if c = CHR ''-'' then (True, cs) else if c = CHR ''+'' then (False, cs) else (False, s));
          n = (if neg then - int (digits_value 0 ds) else int (digits_value 0 ds))
      in if ds = [] \<or> \<not> list_all (\<lambda>c. c \<in> set ''0123456789'') ds \<or> \<not> int64 n then None else Some n)"

definition stringField :: "claims \<Rightarrow> string \<Rightarrow> string" where
  "stringField m key = (case gm_get m key of Some (ClaimText s) \<Rightarrow> s | _ \<Rightarrow> [])"

definition numberField :: "claims \<Rightarrow> string \<Rightarrow> int" where
  "numberField m key =
     (case gm_get m key of
        None \<Rightarrow> 0
      | Some (ClaimNumber n) \<Rightarrow> n
      | Some (ClaimText s) \<Rightarrow> (case Atoi s of Some i \<Rightarrow> i | None \<Rightarrow> 0)
      | Some (ClaimOther x) \<Rightarrow> 0)"

definition status_text :: "string \<Rightarrow> int \<Rightarrow> string \<Rightarrow> string" where
  "status_text what status body = what @ '': status '' @ Itoa status @ '': '' @ body"

definition form_header :: "(string \<times> string) list" where
  "form_header = [(''Content-Type'', ''application/x-www-form-urlencoded'')]"

definition accept_json :: "(string \<times> string) list" where
  "accept_json = [(''Accept'', ''application/json'')]"

definition post_request :: "string \<Rightarrow> (string \<times> string) list \<Rightarrow> form_values \<Rightarrow> client_request" where
  "post_request url header form = \<lparr>HttpMethod = ''POST'', HttpURL = url, HttpHeader = header, HttpBody = form_encode form\<rparr>"

text \<open>A duration of so many seconds, and the expiry it gives: the product is a 64-bit number.\<close>

definition expiry_after :: "int \<Rightarrow> int \<Rightarrow> int" where
  "expiry_after now expiresIn = now + wrap64 (expiresIn * 1000000000)"

definition token_pair :: "claims \<Rightarrow> TokenPair" where
  "token_pair raw = \<lparr>AccessToken = stringField raw ''access_token'', RefreshToken = stringField raw ''refresh_token'',
     TokenType = stringField raw ''token_type'', ExpiresAt = None, TokenScope = stringField raw ''scope'', TokenRaw = raw\<rparr>"

definition parse_tokens :: "'w okta_env \<Rightarrow> string \<Rightarrow> 'w \<Rightarrow> (oauth_error + TokenPair) \<times> 'w" where
  "parse_tokens env body w =
     (case oe_json env body of
        Inl e \<Rightarrow> (Inl (Wrapped ''okta token: parse json'' (Failure e)), w)
      | Inr raw \<Rightarrow>
          (let pair = token_pair raw in
           if AccessToken pair = [] then (Inl (Failure ''okta token: response missing access_token''), w)
           else if numberField raw ''expires_in'' > 0
           then (case oe_now env w of (now, w1) \<Rightarrow>
             (Inr (pair\<lparr>ExpiresAt := Some (expiry_after now (numberField raw ''expires_in''))\<rparr>), w1))
           else (Inr pair, w)))"

definition postForm :: "'w okta_env \<Rightarrow> string \<Rightarrow> form_values \<Rightarrow> 'w \<Rightarrow> (oauth_error + TokenPair) \<times> 'w" where
  "postForm env endpoint form w =
     (case oe_build env endpoint of
        Some e \<Rightarrow> (Inl (Wrapped ''okta token: build request'' (Failure e)), w)
      | None \<Rightarrow>
          (case oe_do env (post_request endpoint (form_header @ accept_json) form) w of
             (Inl e, w1) \<Rightarrow> (Inl (Wrapped ''okta token: http'' (Failure e)), w1)
           | (Inr resp, w1) \<Rightarrow>
               if StatusCode resp = 401
               then (Inl (AuthenticationError 401 (Some (Failure (status_text ''okta token'' 401 (ResponseBody resp))))), w1)
               else if StatusCode resp < 200 \<or> StatusCode resp \<ge> 300
               then (Inl (Failure (status_text ''okta token'' (StatusCode resp) (ResponseBody resp))), w1)
               else parse_tokens env (ResponseBody resp) w1))"

definition exchange_form :: "string \<Rightarrow> ExchangeRequest \<Rightarrow> form_values" where
  "exchange_form clientID inp =
     form_set ''redirect_uri'' (ExRedirectURI inp) (form_set ''code_verifier'' (ExCodeVerifier inp)
       (form_set ''code'' (CodeValue (ExCode inp)) (form_set ''client_id'' clientID
         (form_set ''grant_type'' ''authorization_code'' []))))"

definition makeExchangeArrow :: "'w okta_env \<Rightarrow> string \<Rightarrow> string \<Rightarrow> (ExchangeRequest, TokenPair, 'w) oarrow" where
  "makeExchangeArrow env tokenEndpoint clientID inp w = postForm env tokenEndpoint (exchange_form clientID inp) w"

definition refresh_form :: "string \<Rightarrow> TokenPair \<Rightarrow> form_values" where
  "refresh_form clientID tokens =
     form_set ''refresh_token'' (RefreshToken tokens) (form_set ''client_id'' clientID
       (form_set ''grant_type'' ''refresh_token'' []))"

definition makeRefreshArrow :: "'w okta_env \<Rightarrow> string \<Rightarrow> string \<Rightarrow> (TokenPair, TokenPair, 'w) oarrow" where
  "makeRefreshArrow env tokenEndpoint clientID tokens w =
     (if RefreshToken tokens = [] then (Inl (Failure ''okta: refresh: no refresh token in pair''), w)
      else postForm env tokenEndpoint (refresh_form clientID tokens) w)"

definition okta_identity :: "claims \<Rightarrow> oauth_error + Identity" where
  "okta_identity raw =
     (let sub = stringField raw ''sub''; email = stringField raw ''email''; name = stringField raw ''name'' in
      if sub = [] then Inl (Failure ''okta whoami: response missing sub'')
      else Inr \<lparr>Canonical = ''okta:'' @ sub, IdProvider = ''okta'', ProviderID = sub, Email = email,
                DisplayName = name, IdRaw = raw\<rparr>)"

definition whoami_request :: "string \<Rightarrow> TokenPair \<Rightarrow> client_request" where
  "whoami_request url tokens = \<lparr>HttpMethod = ''GET'', HttpURL = url,
     HttpHeader = (''Authorization'', ''Bearer '' @ AccessToken tokens) # accept_json, HttpBody = []\<rparr>"

definition makeWhoamiArrow :: "'w okta_env \<Rightarrow> string \<Rightarrow> (TokenPair, Identity, 'w) oarrow" where
  "makeWhoamiArrow env userInfoEndpoint tokens w =
     (case oe_build env userInfoEndpoint of
        Some e \<Rightarrow> (Inl (Wrapped ''okta whoami: build request'' (Failure e)), w)
      | None \<Rightarrow>
          (case oe_do env (whoami_request userInfoEndpoint tokens) w of
             (Inl e, w1) \<Rightarrow> (Inl (Wrapped ''okta whoami: http'' (Failure e)), w1)
           | (Inr resp, w1) \<Rightarrow>
               (let failure = Failure (status_text ''okta whoami'' (StatusCode resp) (ResponseBody resp)) in
                if StatusCode resp = 401 \<or> StatusCode resp = 403
                then (Inl (AuthenticationError (StatusCode resp) (Some failure)), w1)
                else if StatusCode resp < 200 \<or> StatusCode resp \<ge> 300 then (Inl failure, w1)
                else (case oe_json env (ResponseBody resp) of
                        Inl e \<Rightarrow> (Inl (Wrapped ''okta whoami: parse json'' (Failure e)), w1)
                      | Inr raw \<Rightarrow> (okta_identity raw, w1)))))"

definition revoke_form :: "string \<Rightarrow> TokenPair \<Rightarrow> form_values" where
  "revoke_form clientID tokens =
     form_set ''token_type_hint'' ''access_token'' (form_set ''token'' (AccessToken tokens) (form_set ''client_id'' clientID []))"

definition makeRevokeArrow :: "'w okta_env \<Rightarrow> string \<Rightarrow> string \<Rightarrow> (TokenPair, unit, 'w) oarrow" where
  "makeRevokeArrow env revokeEndpoint clientID tokens w =
     (case oe_build env revokeEndpoint of
        Some e \<Rightarrow> (Inl (Wrapped ''okta revoke: build request'' (Failure e)), w)
      | None \<Rightarrow>
          (case oe_do env (post_request revokeEndpoint form_header (revoke_form clientID tokens)) w of
             (Inl e, w1) \<Rightarrow> (Inl (Wrapped ''okta revoke: http'' (Failure e)), w1)
           | (Inr resp, w1) \<Rightarrow>
               if StatusCode resp < 200 \<or> StatusCode resp \<ge> 300
               then (Inl (Failure (status_text ''okta revoke'' (StatusCode resp) (ResponseBody resp))), w1)
               else (Inr (), w1)))"

definition endpoint :: "OktaConfig \<Rightarrow> string \<Rightarrow> string" where
  "endpoint cfg path = TrimRight_byte (CHR ''/'') (Issuer cfg) @ path"

definition authorize_form :: "string \<Rightarrow> AuthRequest \<Rightarrow> form_values" where
  "authorize_form clientID inp =
     form_set ''code_challenge_method'' ''S256'' (form_set ''code_challenge'' (ReqCodeChallenge inp)
       (form_set ''state'' (ReqState inp) (form_set ''scope'' (join '' '' (ReqScopes inp))
         (form_set ''redirect_uri'' (ReqRedirectURI inp) (form_set ''response_type'' ''code''
           (form_set ''client_id'' clientID []))))))"

definition okta_authorize :: "OktaConfig \<Rightarrow> (AuthRequest, AuthorizeRedirect, 'w) oarrow" where
  "okta_authorize cfg inp w =
     (Inr \<lparr>RedirectURL = endpoint cfg ''/v1/authorize'' @ ''?'' @ form_encode (authorize_form (ClientID cfg) inp),
           RedirectState = ReqState inp, RedirectVerifier = ReqCodeVerifier inp\<rparr>, w)"

definition NewOktaProvider :: "'w okta_env \<Rightarrow> OktaConfig \<Rightarrow> oauth_error + 'w Provider" where
  "NewOktaProvider env cfg =
     (if ClientID cfg = [] then Inl (Failure ''okta: ClientID is required'')
      else if Issuer cfg = [] then Inl (Failure ''okta: Issuer is required'')
      else Inr \<lparr>ProviderName = ''okta'', Authorize = Some (okta_authorize cfg),
             Exchange = Some (makeExchangeArrow env (endpoint cfg ''/v1/token'') (ClientID cfg)),
             Refresh = Some (makeRefreshArrow env (endpoint cfg ''/v1/token'') (ClientID cfg)),
             Whoami = Some (makeWhoamiArrow env (endpoint cfg ''/v1/userinfo'')),
             Revoke = Some (makeRevokeArrow env (endpoint cfg ''/v1/revoke'') (ClientID cfg))\<rparr>)"

section \<open>Reading forms back\<close>

lemma form_encode_parses: "ParseQuery (form_encode form) = Some (form_pairs form)"
  by (simp add: form_encode_def ParseQuery_encode_query)

lemma map_of_form_pairs: "map_of (form_pairs form) k = gm_get form k"
proof -
  have "map_of (map (\<lambda>k. (k, the (gm_get form k))) ks) k = (if k \<in> set ks then Some (the (gm_get form k)) else None)" for ks
    by (induction ks) auto
  then have "map_of (form_pairs form) k = (if k \<in> set (gm_keys form) then Some (the (gm_get form k)) else None)"
    by (simp add: form_pairs_def)
  then show ?thesis
    using gm_get_None_iff [of form k] by (cases "gm_get form k") auto
qed

lemma values_get_form: "values_get (form_pairs form) k = (case gm_get form k of None \<Rightarrow> [] | Some v \<Rightarrow> v)"
  by (simp add: values_get_def map_of_form_pairs)

lemma form_pairs_keys: "set (map fst (form_pairs form)) = set (gm_keys form)"
  by (simp add: form_pairs_def image_image comp_def)

lemma Atoi_Itoa:
  assumes "int64 n"
  shows "Atoi (Itoa n) = Some n"
proof -
  have digits: "nat_digits m \<noteq> []" "list_all (\<lambda>c. c \<in> set ''0123456789'') (nat_digits m)" for m
    using nat_digits_digit [of _ m] by (simp_all add: nat_digits.simps [of m] list_all_iff)
  show ?thesis
  proof (cases "n < 0")
    case True
    then show ?thesis
      using assms digits [of "nat (- n)"] by (simp add: Atoi_def Itoa_neg digits_value_nat_digits)
  next
    case False
    obtain c cs where c: "nat_digits (nat n) = c # cs" using digits(1) by (cases "nat_digits (nat n)") auto
    then have "c \<in> set ''0123456789''" using nat_digits_digit [of c "nat n"] by simp
    then have "c \<noteq> CHR ''-''" "c \<noteq> CHR ''+''" by auto
    then show ?thesis
      using False assms digits [of "nat n"] digits_value_nat_digits [of "nat n"] c
      by (simp add: Atoi_def Itoa_nonneg)
  qed
qed

section \<open>Sending the user away\<close>

lemma NewOktaProvider_Inr:
  "NewOktaProvider env cfg = Inr p \<longleftrightarrow> ClientID cfg \<noteq> [] \<and> Issuer cfg \<noteq> [] \<and>
     p = \<lparr>ProviderName = ''okta'', Authorize = Some (okta_authorize cfg),
          Exchange = Some (makeExchangeArrow env (endpoint cfg ''/v1/token'') (ClientID cfg)),
          Refresh = Some (makeRefreshArrow env (endpoint cfg ''/v1/token'') (ClientID cfg)),
          Whoami = Some (makeWhoamiArrow env (endpoint cfg ''/v1/userinfo'')),
          Revoke = Some (makeRevokeArrow env (endpoint cfg ''/v1/revoke'') (ClientID cfg))\<rparr>"
  by (auto simp: NewOktaProvider_def)

text \<open>
  The address a user is sent to is the authorization endpoint of the issuer with a query from which
  Okta reads back exactly the request: the client, the code flow, the redirect address, the scopes, the
  state and the challenge with its method. It has no other parameter, so the verifier, which the
  redirect hands back to the caller only, does not leave the process.
\<close>

theorem okta_authorize_roundtrip:
  assumes "NewOktaProvider env cfg = Inr p" "Authorize p = Some authorize" "authorize inp w = (r, w')"
  shows "\<exists>redirect query kvs. r = Inr redirect \<and> w' = w \<and>
    RedirectURL redirect = TrimRight_byte (CHR ''/'') (Issuer cfg) @ ''/v1/authorize?'' @ query \<and> ParseQuery query = Some kvs \<and>
    map (values_get kvs) [''client_id'', ''response_type'', ''redirect_uri'', ''scope'', ''state'', ''code_challenge'', ''code_challenge_method''] =
      [ClientID cfg, ''code'', ReqRedirectURI inp, join '' '' (ReqScopes inp), ReqState inp, ReqCodeChallenge inp, ''S256''] \<and>
    set (map fst kvs) = {''client_id'', ''response_type'', ''redirect_uri'', ''scope'', ''state'', ''code_challenge'', ''code_challenge_method''} \<and>
    RedirectState redirect = ReqState inp \<and> RedirectVerifier redirect = ReqCodeVerifier inp"
proof -
  let ?form = "authorize_form (ClientID cfg) inp"
  have r: "r = Inr \<lparr>RedirectURL = endpoint cfg ''/v1/authorize'' @ ''?'' @ form_encode ?form,
      RedirectState = ReqState inp, RedirectVerifier = ReqCodeVerifier inp\<rparr>" "w' = w"
    using assms by (auto simp: NewOktaProvider_Inr okta_authorize_def)
  have vals: "map (values_get (form_pairs ?form))
      [''client_id'', ''response_type'', ''redirect_uri'', ''scope'', ''state'', ''code_challenge'', ''code_challenge_method''] =
      [ClientID cfg, ''code'', ReqRedirectURI inp, join '' '' (ReqScopes inp), ReqState inp, ReqCodeChallenge inp, ''S256'']"
    by (simp add: values_get_form authorize_form_def form_set_def)
  have keys: "set (map fst (form_pairs ?form)) =
      {''client_id'', ''response_type'', ''redirect_uri'', ''scope'', ''state'', ''code_challenge'', ''code_challenge_method''}"
    unfolding form_pairs_keys by (simp add: authorize_form_def form_set_def gm_keys_def gm_set_def)
  let ?red = "\<lparr>RedirectURL = endpoint cfg ''/v1/authorize'' @ ''?'' @ form_encode ?form,
      RedirectState = ReqState inp, RedirectVerifier = ReqCodeVerifier inp\<rparr>"
  show ?thesis
    using r vals keys form_encode_parses [of ?form]
    by (intro exI [of _ ?red] exI [of _ "form_encode ?form"] exI [of _ "form_pairs ?form"])
      (simp add: endpoint_def)
qed

definition demo_okta_config :: OktaConfig where
  "demo_okta_config = \<lparr>ClientID = ''app'', Issuer = ''https://o.example/default/''\<rparr>"

definition demo_okta_env :: "nat okta_env" where
  "demo_okta_env = \<lparr>oe_build = (\<lambda>u. None),
     oe_do = (\<lambda>q w. (Inr \<lparr>StatusCode = 200, ResponseBody = HttpMethod q\<rparr>, w + 1)),
     oe_json = (\<lambda>b. Inr (if b = ''GET'' then [(''sub'', ClaimText ''u1'')]
        else [(''access_token'', ClaimText ''a''), (''expires_in'', ClaimNumber 3600)])),
     oe_now = (\<lambda>w. (int w, w))\<rparr>"

definition demo_okta_request :: AuthRequest where
  "demo_okta_request = \<lparr>ReqProvider = ''okta'', ReqScopes = [''openid'', ''email''], ReqRedirectURI = ''http://cb/?a=b'',
     ReqState = ''s&t'', ReqCodeVerifier = ''v'', ReqCodeChallenge = ''c''\<rparr>"

lemma demo_okta_provider:
  "\<exists>p. NewOktaProvider demo_okta_env demo_okta_config = Inr p \<and> ProviderName p = ''okta'' \<and>
     Authorize p = Some (okta_authorize demo_okta_config) \<and>
     Exchange p = Some (makeExchangeArrow demo_okta_env ''https://o.example/default/v1/token'' ''app'') \<and>
     Whoami p = Some (makeWhoamiArrow demo_okta_env ''https://o.example/default/v1/userinfo'')"
  by (simp add: NewOktaProvider_Inr demo_okta_config_def endpoint_def TrimRight_byte_def)

theorem okta_authorize_roundtrip_witness:
  "\<exists>redirect query kvs. okta_authorize demo_okta_config demo_okta_request (0::nat) = (Inr redirect, 0) \<and>
     RedirectURL redirect = ''https://o.example/default/v1/authorize?'' @ query \<and> ParseQuery query = Some kvs \<and>
     values_get kvs ''state'' = ''s&t'' \<and> values_get kvs ''scope'' = ''openid email''"
proof -
  obtain p where p: "NewOktaProvider demo_okta_env demo_okta_config = Inr p"
    "Authorize p = Some (okta_authorize demo_okta_config)" using demo_okta_provider by blast
  obtain r w' where r: "okta_authorize demo_okta_config demo_okta_request (0::nat) = (r, w')" by (metis prod.exhaust)
  have "TrimRight_byte (CHR ''/'') (Issuer demo_okta_config) = ''https://o.example/default''"
    by (simp add: demo_okta_config_def TrimRight_byte_def)
  with okta_authorize_roundtrip [OF p r] r show ?thesis
    by (auto simp: demo_okta_request_def)
qed


section \<open>Requests and what their answers are taken for\<close>

lemma post_request_parses:
  "ParseQuery (HttpBody (post_request url header form)) = Some (form_pairs form)"
  by (simp add: post_request_def form_encode_parses)

lemma parse_tokens_Inr:
  assumes "parse_tokens env body w = (Inr pair, w')"
  shows "\<exists>raw. oe_json env body = Inr raw \<and> AccessToken pair = stringField raw ''access_token'' \<and> AccessToken pair \<noteq> [] \<and>
    RefreshToken pair = stringField raw ''refresh_token'' \<and>
    ExpiresAt pair = (if numberField raw ''expires_in'' > 0
      then Some (expiry_after (fst (oe_now env w)) (numberField raw ''expires_in'')) else None)"
proof -
  obtain raw where raw: "oe_json env body = Inr raw"
    using assms by (cases "oe_json env body") (auto simp: parse_tokens_def)
  have token: "AccessToken (token_pair raw) = stringField raw ''access_token''"
    "RefreshToken (token_pair raw) = stringField raw ''refresh_token''" "ExpiresAt (token_pair raw) = None"
    by (simp_all add: token_pair_def)
  obtain now w1 where now: "oe_now env w = (now, w1)" by (metis prod.exhaust)
  show ?thesis
    using assms unfolding parse_tokens_def raw sum.case Let_def now prod.case
    by (auto simp: token split: if_splits)
qed

lemma postForm_Inr:
  assumes "postForm env url form w = (Inr pair, w')"
  shows "\<exists>resp w1 raw. oe_do env (post_request url (form_header @ accept_json) form) w = (Inr resp, w1) \<and>
    200 \<le> StatusCode resp \<and> StatusCode resp < 300 \<and> oe_json env (ResponseBody resp) = Inr raw \<and>
    AccessToken pair = stringField raw ''access_token'' \<and> AccessToken pair \<noteq> [] \<and>
    RefreshToken pair = stringField raw ''refresh_token'' \<and>
    ExpiresAt pair = (if numberField raw ''expires_in'' > 0
      then Some (expiry_after (fst (oe_now env w1)) (numberField raw ''expires_in'')) else None)"
proof -
  obtain resp w1 where "oe_do env (post_request url (form_header @ accept_json) form) w = (Inr resp, w1)"
    "200 \<le> StatusCode resp" "StatusCode resp < 300" "parse_tokens env (ResponseBody resp) w1 = (Inr pair, w')"
    using assms by (auto simp: postForm_def split: option.splits prod.splits sum.splits if_splits)
  with parse_tokens_Inr [of env "ResponseBody resp" w1 pair w'] show ?thesis by blast
qed

lemma makeWhoamiArrow_Inr:
  assumes "makeWhoamiArrow env url tokens w = (Inr identity, w')"
  shows "\<exists>resp raw. oe_do env (whoami_request url tokens) w = (Inr resp, w') \<and>
    200 \<le> StatusCode resp \<and> StatusCode resp < 300 \<and> oe_json env (ResponseBody resp) = Inr raw \<and>
    ProviderID identity = stringField raw ''sub'' \<and> ProviderID identity \<noteq> [] \<and>
    Canonical identity = ''okta:'' @ ProviderID identity"
  using assms
  by (auto simp: makeWhoamiArrow_def okta_identity_def Let_def split: option.splits prod.splits sum.splits if_splits)

text \<open>
  C29: a flow with Okta that returns a session posted one form to the token endpoint of the issuer, in which
  Okta reads the code, its verifier and the redirect address of the callback, was answered in the 200s
  with the access token of the session, and then asked the userinfo endpoint with that token as the
  bearer; the session's identity is the subject of that answer with the prefix of the provider, and the
  store gives the session's tokens for it from then on.
\<close>

theorem okta_session:
  assumes "aead_ok a rand" "se_cipher E = AESGCMCipher a rand" "store_holds E st m"
    and "NewOktaProvider env cfg = Inr p"
    and "NewFlow tick p (Some (memory_token_store E)) inp (st, w) = (Returns ses, (st', w'))"
  shows "\<exists>exchange kvs tokens w1 who answer w2 w3 raw sub.
    oe_do env exchange w = (Inr tokens, w1) \<and> 200 \<le> StatusCode tokens \<and> StatusCode tokens < 300 \<and>
    HttpMethod exchange = ''POST'' \<and> HttpURL exchange = endpoint cfg ''/v1/token'' \<and> ParseQuery (HttpBody exchange) = Some kvs \<and>
    map (values_get kvs) [''grant_type'', ''client_id'', ''code'', ''code_verifier'', ''redirect_uri''] =
      [''authorization_code'', ClientID cfg, CodeValue (FlowCode inp), FlowCodeVerifier inp, FlowRedirectURI inp] \<and>
    oe_json env (ResponseBody tokens) = Inr raw \<and> AccessToken (SessionToken ses) = stringField raw ''access_token'' \<and>
    oe_do env who w2 = (Inr answer, w3) \<and> 200 \<le> StatusCode answer \<and> StatusCode answer < 300 \<and>
    HttpMethod who = ''GET'' \<and> HttpURL who = endpoint cfg ''/v1/userinfo'' \<and>
    (''Authorization'', ''Bearer '' @ AccessToken (SessionToken ses)) \<in> set (HttpHeader who) \<and>
    oe_json env (ResponseBody answer) = Inr sub \<and> stringField sub ''sub'' \<noteq> [] \<and>
    Canonical (SessionIdentity ses) = ''okta:'' @ stringField sub ''sub'' \<and>
    store_holds E st' (m((Canonical (SessionIdentity ses), ''okta'') \<mapsto> SessionToken ses))"
proof -
  let ?url = "endpoint cfg ''/v1/token''" and ?who = "endpoint cfg ''/v1/userinfo''"
  let ?form = "exchange_form (ClientID cfg) (exchange_request inp)"
  have p: "ProviderName p = ''okta''" "Exchange p = Some (makeExchangeArrow env ?url (ClientID cfg))"
      "Whoami p = Some (makeWhoamiArrow env ?who)"
    using assms(4) by (auto simp: NewOktaProvider_Inr)
  obtain w1 w2 where ex: "postForm env ?url ?form w = (Inr (SessionToken ses), w1)"
    and who: "makeWhoamiArrow env ?who (SessionToken ses) w1 = (Inr (SessionIdentity ses), w2)"
    and holds: "store_holds E st' (m((Canonical (SessionIdentity ses), ''okta'') \<mapsto> SessionToken ses))"
    using sealed_store.memory_NewFlow_Returns [OF aesgcm_sealed [OF assms(1,2)] assms(5,3)]
    by (auto simp: p makeExchangeArrow_def)
  obtain tokens v raw where t: "oe_do env (post_request ?url (form_header @ accept_json) ?form) w = (Inr tokens, v)"
      "200 \<le> StatusCode tokens" "StatusCode tokens < 300" "oe_json env (ResponseBody tokens) = Inr raw"
      "AccessToken (SessionToken ses) = stringField raw ''access_token''"
    using postForm_Inr [OF ex] by blast
  obtain answer sub where u: "oe_do env (whoami_request ?who (SessionToken ses)) w1 = (Inr answer, w2)"
      "200 \<le> StatusCode answer" "StatusCode answer < 300" "oe_json env (ResponseBody answer) = Inr sub"
      "stringField sub ''sub'' \<noteq> []" "Canonical (SessionIdentity ses) = ''okta:'' @ stringField sub ''sub''"
    using makeWhoamiArrow_Inr [OF who] by metis
  have vals: "map (values_get (form_pairs ?form)) [''grant_type'', ''client_id'', ''code'', ''code_verifier'', ''redirect_uri''] =
      [''authorization_code'', ClientID cfg, CodeValue (FlowCode inp), FlowCodeVerifier inp, FlowRedirectURI inp]"
    by (simp add: values_get_form exchange_form_def exchange_request_def form_set_def)
  have shape: "HttpMethod (post_request ?url (form_header @ accept_json) ?form) = ''POST''"
      "HttpURL (post_request ?url (form_header @ accept_json) ?form) = ?url"
      "HttpMethod (whoami_request ?who (SessionToken ses)) = ''GET''"
      "HttpURL (whoami_request ?who (SessionToken ses)) = ?who"
      "(''Authorization'', ''Bearer '' @ AccessToken (SessionToken ses)) \<in> set (HttpHeader (whoami_request ?who (SessionToken ses)))"
    by (simp_all add: post_request_def whoami_request_def)
  show ?thesis
    using t u shape vals holds post_request_parses [of ?url "form_header @ accept_json" ?form]
    by (intro exI [of _ "post_request ?url (form_header @ accept_json) ?form"] exI [of _ "form_pairs ?form"]
        exI [of _ tokens] exI [of _ v] exI [of _ "whoami_request ?who (SessionToken ses)"] exI [of _ answer]
        exI [of _ w1] exI [of _ w2] exI [of _ raw] exI [of _ sub] conjI)
qed

definition demo_okta_flow :: "Session flow_result \<times> MemoryTokenStore \<times> nat" where
  "demo_okta_flow = (case NewOktaProvider demo_okta_env demo_okta_config of
     Inl e \<Rightarrow> (Fails e, ([], 0))
   | Inr p \<Rightarrow> NewFlow demo_tick p (Some (memory_token_store demo_store_env))
       \<lparr>FlowCode = \<lparr>CodeValue = ''c1'', CodeState = ''s''\<rparr>, FlowCodeVerifier = ''v'', FlowRedirectURI = ''http://cb''\<rparr> ([], 0))"

lemma demo_okta_flow_returns:
  "\<exists>ses st w. demo_okta_flow = (Returns ses, (st, w)) \<and> AccessToken (SessionToken ses) = ''a'' \<and>
     Canonical (SessionIdentity ses) = ''okta:u1''"
proof -
  obtain p where p: "NewOktaProvider demo_okta_env demo_okta_config = Inr p" "ProviderName p = ''okta''"
    "Exchange p = Some (makeExchangeArrow demo_okta_env ''https://o.example/default/v1/token'' ''app'')"
    "Whoami p = Some (makeWhoamiArrow demo_okta_env ''https://o.example/default/v1/userinfo'')"
    using demo_okta_provider by blast
  show ?thesis
    unfolding demo_okta_flow_def p(1) sum.case
    by (simp add: gm_get_def Let_def p NewFlow_def makeExchangeArrow_def postForm_def demo_okta_env_def
        post_request_def parse_tokens_def token_pair_def stringField_def numberField_def makeWhoamiArrow_def
        whoami_request_def okta_identity_def memory_token_store_def memory_put_def demo_store_env_def
        AESGCMCipher_def demo_rand_def demo_tick_def session_of_def)
qed

theorem okta_session_witness:
  "\<exists>ses st w (exchange :: client_request) kvs. demo_okta_flow = (Returns ses, (st, w)) \<and>
     store_holds demo_store_env st ((\<lambda>_. None)((''okta:u1'', ''okta'') \<mapsto> SessionToken ses)) \<and>
     HttpURL exchange = ''https://o.example/default/v1/token'' \<and> ParseQuery (HttpBody exchange) = Some kvs \<and>
     values_get kvs ''redirect_uri'' = ''http://cb''"
proof -
  obtain ses st w where run: "demo_okta_flow = (Returns ses, (st, w))" "Canonical (SessionIdentity ses) = ''okta:u1''"
    using demo_okta_flow_returns by blast
  obtain p where p: "NewOktaProvider demo_okta_env demo_okta_config = Inr p" using demo_okta_provider by blast
  have url: "endpoint demo_okta_config ''/v1/token'' = ''https://o.example/default/v1/token''"
    by (simp add: demo_okta_config_def endpoint_def TrimRight_byte_def)
  let ?inp = "\<lparr>FlowCode = \<lparr>CodeValue = ''c1'', CodeState = ''s''\<rparr>, FlowCodeVerifier = ''v'', FlowRedirectURI = ''http://cb''\<rparr>"
  obtain exchange :: client_request and kvs where url': "HttpURL exchange = endpoint demo_okta_config ''/v1/token''"
    and kvs: "ParseQuery (HttpBody exchange) = Some kvs"
    and vals: "map (values_get kvs) [''grant_type'', ''client_id'', ''code'', ''code_verifier'', ''redirect_uri''] =
      [''authorization_code'', ClientID demo_okta_config, CodeValue (FlowCode ?inp), FlowCodeVerifier ?inp, FlowRedirectURI ?inp]"
    and holds: "store_holds demo_store_env st ((\<lambda>_. None)((Canonical (SessionIdentity ses), ''okta'') \<mapsto> SessionToken ses))"
    using okta_session [OF demo_aead_ok demo_cipher store_holds_empty p run(1) [unfolded demo_okta_flow_def p sum.case]]
    by (elim exE conjE) (rule that; assumption)
  have "values_get kvs ''redirect_uri'' = ''http://cb''" using vals by simp
  with url' [unfolded url] kvs run(1) holds [unfolded run(2)] show ?thesis
    by (intro exI conjI)
qed


text \<open>
  Tokens expire exactly as many seconds after the clock was read as the answer says, for every positive
  number of seconds whose duration is a 64-bit number of nanoseconds (292 years); an answer without a
  positive number gives tokens that do not expire, and the next larger number gives tokens that are
  long expired, because the product wraps around.
\<close>

theorem okta_expiry_bounds:
  assumes "postForm env url form w = (Inr pair, w')"
  shows "\<exists>resp w1 raw. oe_do env (post_request url (form_header @ accept_json) form) w = (Inr resp, w1) \<and>
    oe_json env (ResponseBody resp) = Inr raw \<and>
    (let n = numberField raw ''expires_in''; now = fst (oe_now env w1)
     in ExpiresAt pair =
       (if n \<le> 0 then None
        else if n \<le> 9223372036 then Some (now + n * 1000000000)
        else if n = 9223372037 then Some (now - 9223372036709551616)
        else Some (now + wrap64 (n * 1000000000))))"
proof -
  obtain resp w1 raw where r: "oe_do env (post_request url (form_header @ accept_json) form) w = (Inr resp, w1)"
    "oe_json env (ResponseBody resp) = Inr raw"
    "ExpiresAt pair = (if numberField raw ''expires_in'' > 0
      then Some (expiry_after (fst (oe_now env w1)) (numberField raw ''expires_in'')) else None)"
    using postForm_Inr [OF assms] by blast
  have small: "wrap64 (n * 1000000000) = n * 1000000000" if "0 < n" "n \<le> 9223372036" for n :: int
    using that by (simp add: wrap64_def)
  have large: "wrap64 (9223372037 * 1000000000) = - 9223372036709551616"
    by (simp add: wrap64_def)
  have "let n = numberField raw ''expires_in''; now = fst (oe_now env w1)
     in ExpiresAt pair =
       (if n \<le> 0 then None
        else if n \<le> 9223372036 then Some (now + n * 1000000000)
        else if n = 9223372037 then Some (now - 9223372036709551616)
        else Some (now + wrap64 (n * 1000000000)))"
    using r(3) small large by (simp add: Let_def expiry_after_def)
  with r(1,2) show ?thesis by blast
qed

theorem okta_expiry_bounds_witness:
  "\<exists>pair w'. postForm demo_okta_env ''http://o/token'' [] 5 = (Inr pair, w') \<and> ExpiresAt pair = Some 3600000000006"
proof -
  obtain r w' where run: "postForm demo_okta_env ''http://o/token'' [] 5 = (r, w')" by (metis prod.exhaust)
  obtain pair where pair: "r = Inr pair"
    using run by (auto simp: postForm_def demo_okta_env_def post_request_def parse_tokens_def token_pair_def stringField_def
      numberField_def gm_get_def Let_def)
  from okta_expiry_bounds [OF run [unfolded pair]] have "ExpiresAt pair = Some 3600000000006"
    by (auto simp: demo_okta_env_def post_request_def numberField_def gm_get_def)
  with run pair show ?thesis by blast
qed

text \<open>
  C30: the challenge in the address the user is sent to is the one that Okta computes from the verifier it
  gets with the code: the BASE64URL form of its SHA-256 hash. This holds for a flow that starts with
  the verifier the redirect handed back.
\<close>

theorem okta_pkce:
  assumes "NewOktaProvider env cfg = Inr p" "Authorize p = Some authorize" "Exchange p = Some exchange"
    and "NewAuthRequest rand sha256 ''okta'' uri scopes w0 = (Inr req, w1)"
    and "authorize req w = (Inr redirect, w2)"
    and "exchange \<lparr>ExCode = code, ExCodeVerifier = RedirectVerifier redirect, ExRedirectURI = uri\<rparr> v = (Inr tokens, v')"
  shows "\<exists>query sent posted form resp v1.
    RedirectURL redirect = endpoint cfg ''/v1/authorize'' @ ''?'' @ query \<and> ParseQuery query = Some sent \<and>
    oe_do env posted v = (Inr resp, v1) \<and> ParseQuery (HttpBody posted) = Some form \<and>
    values_get sent ''code_challenge'' = base64url (sha256 (values_get form ''code_verifier'')) \<and>
    values_get sent ''redirect_uri'' = values_get form ''redirect_uri'' \<and>
    values_get sent ''client_id'' = values_get form ''client_id''"
proof -
  let ?sent = "authorize_form (ClientID cfg) req"
  let ?form = "exchange_form (ClientID cfg) \<lparr>ExCode = code, ExCodeVerifier = RedirectVerifier redirect, ExRedirectURI = uri\<rparr>"
  let ?posted = "post_request (endpoint cfg ''/v1/token'') (form_header @ accept_json) ?form"
  have p: "authorize = okta_authorize cfg" "exchange = makeExchangeArrow env (endpoint cfg ''/v1/token'') (ClientID cfg)"
    using assms(1-3) by (auto simp: NewOktaProvider_Inr)
  have req: "ReqCodeChallenge req = base64url (sha256 (ReqCodeVerifier req))" "ReqRedirectURI req = uri"
    using assms(4) by (auto simp: NewAuthRequest_def pkceS256Challenge_def split: prod.splits sum.splits)
  have red: "RedirectURL redirect = endpoint cfg ''/v1/authorize'' @ ''?'' @ form_encode ?sent"
      "RedirectVerifier redirect = ReqCodeVerifier req"
    using assms(5) by (auto simp: p okta_authorize_def)
  obtain resp v1 where posted: "oe_do env ?posted v = (Inr resp, v1)"
    using postForm_Inr [OF assms(6) [unfolded p makeExchangeArrow_def]] by blast
  have sent: "values_get (form_pairs ?sent) ''code_challenge'' = base64url (sha256 (values_get (form_pairs ?form) ''code_verifier''))"
      "values_get (form_pairs ?sent) ''redirect_uri'' = values_get (form_pairs ?form) ''redirect_uri''"
      "values_get (form_pairs ?sent) ''client_id'' = values_get (form_pairs ?form) ''client_id''"
    by (simp_all add: values_get_form authorize_form_def exchange_form_def form_set_def req red(2))
  show ?thesis
    using red(1) posted sent form_encode_parses [of ?sent] post_request_parses [of _ _ ?form]
    by (intro exI [of _ "form_encode ?sent"] exI [of _ "form_pairs ?sent"] exI [of _ ?posted]
        exI [of _ "form_pairs ?form"] exI [of _ resp] exI [of _ v1] conjI)
qed

theorem okta_pkce_witness:
  "\<exists>req (redirect :: AuthorizeRedirect) query sent posted form. NewAuthRequest demo_rand rev ''okta'' ''http://cb'' [] 65 = (Inr req, 67) \<and>
     RedirectURL redirect = endpoint demo_okta_config ''/v1/authorize'' @ ''?'' @ query \<and> ParseQuery query = Some sent \<and>
     ParseQuery (HttpBody (posted :: client_request)) = Some form \<and>
     values_get sent ''code_challenge'' = base64url (rev (values_get form ''code_verifier''))"
proof -
  obtain p where p: "NewOktaProvider demo_okta_env demo_okta_config = Inr p"
    "Authorize p = Some (okta_authorize demo_okta_config)"
    "Exchange p = Some (makeExchangeArrow demo_okta_env ''https://o.example/default/v1/token'' ''app'')"
    using demo_okta_provider by blast
  obtain req where req: "NewAuthRequest demo_rand rev ''okta'' ''http://cb'' [] 65 = (Inr req, 67)"
    by (auto simp: NewAuthRequest_def randomBase64URL_def demo_rand_def)
  obtain redirect where red: "okta_authorize demo_okta_config req (0::nat) = (Inr redirect, 0)"
    by (auto simp: okta_authorize_def)
  let ?ex = "\<lparr>ExCode = \<lparr>CodeValue = ''c'', CodeState = ''s''\<rparr>, ExCodeVerifier = RedirectVerifier redirect, ExRedirectURI = ''http://cb''\<rparr>"
  obtain r v' where run: "makeExchangeArrow demo_okta_env ''https://o.example/default/v1/token'' ''app'' ?ex 0 = (r, v')"
    by (metis prod.exhaust)
  obtain tokens where r: "r = Inr tokens"
    using run by (auto simp: makeExchangeArrow_def postForm_def demo_okta_env_def post_request_def parse_tokens_def
      token_pair_def stringField_def numberField_def gm_get_def Let_def)
  obtain query sent form and posted :: client_request where
    "RedirectURL redirect = endpoint demo_okta_config ''/v1/authorize'' @ ''?'' @ query" "ParseQuery query = Some sent"
    "ParseQuery (HttpBody posted) = Some form"
    "values_get sent ''code_challenge'' = base64url (rev (values_get form ''code_verifier''))"
    using okta_pkce [OF p req red run [unfolded r]] by (elim exE conjE) (rule that; assumption)
  with req show ?thesis by (intro exI conjI)
qed

text \<open>
  An answer to a refresh that carries no refresh token, which OAuth 2.0 allows and by which the old one
  stays in force, gives tokens that cannot be refreshed again: the old one is not kept.
\<close>

lemma okta_refresh_forgets:
  assumes "makeRefreshArrow env url cid tokens w = (Inr fresh, w')"
    and "\<And>body raw. oe_json env body = Inr raw \<Longrightarrow> gm_get raw ''refresh_token'' = None"
  shows "RefreshToken tokens \<noteq> [] \<and> RefreshToken fresh = [] \<and>
    makeRefreshArrow env url cid fresh v = (Inl (Failure ''okta: refresh: no refresh token in pair''), v)"
proof -
  have run: "RefreshToken tokens \<noteq> []" "postForm env url (refresh_form cid tokens) w = (Inr fresh, w')"
    using assms(1) by (auto simp: makeRefreshArrow_def split: if_splits)
  obtain body raw where "oe_json env body = Inr raw" "RefreshToken fresh = stringField raw ''refresh_token''"
    using postForm_Inr [OF run(2)] by blast
  with assms(2) have "RefreshToken fresh = []" by (simp add: stringField_def)
  with run(1) show ?thesis by (simp add: makeRefreshArrow_def)
qed

text \<open>The provider has every arrow: it can be registered, and it can revoke.\<close>

lemma okta_registers:
  assumes "NewOktaProvider env cfg = Inr p"
  shows "RegisterProvider p NewRegistry = (None, [(''okta'', p)]) \<and> ProviderHasRevoke p"
  using assms by (auto simp: NewOktaProvider_Inr RegisterProvider_def NewRegistry_def ProviderHasRevoke_def gm_set_def)

end
