(* ===== verification/Sqlite_Store.thy ===== *)
theory Sqlite_Store
  imports OAuth_Flow
begin

text \<open>
  Package auth/oauth, file \<^verbatim>\<open>store_sqlite.go\<close>: the token store over a table of a SQLite database.

  The database is a parameter: its content \<open>'d\<close>, and one operation for each statement the store
  executes. What the store relies on is \<open>token_db_ok\<close>: a statement that succeeds does to the table what
  SQL says, one that fails does nothing (SQLite's statements are atomic), and \<open>up w\<close> says that queries
  are answered in the world \<open>w\<close>. The store is shown to keep the contract of a token store.
\<close>

section \<open>The table\<close>

text \<open>A row of \<^verbatim>\<open>oauth_tokens\<close> beside its primary key, and a row as \<open>List\<close> selects it.\<close>

record token_row =
  RowIdentity :: string
  RowToken :: string
  RowExpires :: int
  RowUpdated :: int

record listing =
  ListedIdentity :: string
  ListedProvider :: string
  ListedExpires :: int
  ListedUpdated :: int

text \<open>
  The statements. \<open>db_select\<close> gives \<open>None\<close> for \<^verbatim>\<open>sql.ErrNoRows\<close>; \<open>db_rows\<close> gives what scanning each row
  gives, and the error after the last one.
\<close>

record ('d, 'w) token_db =
  db_create :: "'d \<times> 'w \<Rightarrow> string option \<times> 'd \<times> 'w"
  db_select :: "storeKey \<Rightarrow> 'd \<times> 'w \<Rightarrow> string + string option"
  db_upsert :: "storeKey \<Rightarrow> token_row \<Rightarrow> 'd \<times> 'w \<Rightarrow> string option \<times> 'd \<times> 'w"
  db_delete :: "storeKey \<Rightarrow> 'd \<times> 'w \<Rightarrow> string option \<times> 'd \<times> 'w"
  db_rows :: "'d \<times> 'w \<Rightarrow> string + ((string + listing) list \<times> string option)"
  db_close :: "'d \<times> 'w \<Rightarrow> string option \<times> 'd \<times> 'w"

text \<open>The store: its database, its cipher, and the JSON encoding of identities.\<close>

record ('d, 'w) sqlite_env =
  sq_db :: "('d, 'w) token_db"
  sq_env :: "'w store_env"
  sq_marshal :: "Identity \<Rightarrow> string + string"
  sq_unmarshal :: "string \<Rightarrow> string + Identity"

section \<open>Opening\<close>

definition sqlite_dsn :: "string \<Rightarrow> string" where
  "sqlite_dsn path = ''file:'' @ path @ ''?_journal=WAL&_busy_timeout=5000&_synchronous=NORMAL''"

definition ensureSchema :: "('d, 'w) token_db \<Rightarrow> 'd \<times> 'w \<Rightarrow> oauth_error option \<times> 'd \<times> 'w" where
  "ensureSchema D s =
     (case db_create D s of
        (Some e, s') \<Rightarrow> (Some (Wrapped ''oauth sqlite: ensure schema'' (Failure e)), s')
      | (None, s') \<Rightarrow> (None, s'))"

text \<open>\<open>open_db\<close> is \<^verbatim>\<open>sql.Open\<close>, \<open>quote\<close> the verb \<^verbatim>\<open>%q\<close>. A handle whose schema fails is closed.\<close>

definition NewSQLiteTokenStore :: "(string \<Rightarrow> 'w \<Rightarrow> (string + 'd) \<times> 'w) \<Rightarrow> (string \<Rightarrow> string) \<Rightarrow> ('d, 'w) token_db \<Rightarrow>
    string \<Rightarrow> 'w TokenCipher option \<Rightarrow> 'w \<Rightarrow> (oauth_error + 'd) \<times> 'w" where
  "NewSQLiteTokenStore open_db quote D path cipher w =
     (case cipher of
        None \<Rightarrow> (Inl (Failure ''oauth: SQLiteTokenStore requires a non-nil TokenCipher''), w)
      | Some _ \<Rightarrow>
          (case open_db (sqlite_dsn path) w of
             (Inl e, w1) \<Rightarrow> (Inl (Wrapped (''oauth sqlite: open '' @ quote path) (Failure e)), w1)
           | (Inr d, w1) \<Rightarrow>
               (case ensureSchema D (d, w1) of
                  (Some e, s2) \<Rightarrow> (Inl e, snd (snd (db_close D s2)))
                | (None, (d2, w2)) \<Rightarrow> (Inr d2, w2))))"

section \<open>The methods\<close>

definition sqlite_get :: "('d, 'w) sqlite_env \<Rightarrow> Identity \<Rightarrow> string \<Rightarrow> 'd \<times> 'w \<Rightarrow> oauth_error + TokenPair" where
  "sqlite_get S identity provider s =
     (case db_select (sq_db S) (Canonical identity, provider) s of
        Inl e \<Rightarrow> Inl (Wrapped ''oauth sqlite: get'' (Failure e))
      | Inr None \<Rightarrow> Inl TokenNotFound
      | Inr (Some blob) \<Rightarrow>
          (case Decrypt (se_cipher (sq_env S)) blob of
             Inl e \<Rightarrow> Inl (Wrapped ''oauth sqlite: decrypt'' (Failure e))
           | Inr plaintext \<Rightarrow>
               (case se_unmarshal (sq_env S) plaintext of
                  Inl e \<Rightarrow> Inl (Wrapped ''oauth sqlite: unmarshal'' (Failure e))
                | Inr tokens \<Rightarrow> Inr tokens)))"

text \<open>Times are stored in whole seconds, rounded down; 0 stands for no expiry.\<close>

definition unix_seconds :: "int \<Rightarrow> int" where
  "unix_seconds t = t div 1000000000"

definition expires_unix :: "TokenPair \<Rightarrow> int" where
  "expires_unix tokens = (case ExpiresAt tokens of None \<Rightarrow> 0 | Some t \<Rightarrow> unix_seconds t)"

definition sqlite_put :: "('d, 'w) sqlite_env \<Rightarrow> Identity \<Rightarrow> string \<Rightarrow> TokenPair \<Rightarrow> 'd \<times> 'w \<Rightarrow>
    oauth_error option \<times> 'd \<times> 'w" where
  "sqlite_put S identity provider tokens s =
     (case se_marshal (sq_env S) tokens of
        Inl e \<Rightarrow> (Some (Wrapped ''oauth sqlite: marshal tokens'' (Failure e)), s)
      | Inr plaintext \<Rightarrow>
          (case Encrypt (se_cipher (sq_env S)) plaintext (snd s) of
             (Inl e, w1) \<Rightarrow> (Some (Wrapped ''oauth sqlite: encrypt'' (Failure e)), (fst s, w1))
           | (Inr ciphertext, w1) \<Rightarrow>
               (case sq_marshal S identity of
                  Inl e \<Rightarrow> (Some (Wrapped ''oauth sqlite: marshal identity'' (Failure e)), (fst s, w1))
                | Inr identityJSON \<Rightarrow>
                    (case db_upsert (sq_db S) (Canonical identity, provider)
                        \<lparr>RowIdentity = identityJSON, RowToken = ciphertext, RowExpires = expires_unix tokens,
                         RowUpdated = unix_seconds (se_now (sq_env S) w1)\<rparr> (fst s, w1) of
                       (Some e, s2) \<Rightarrow> (Some (Wrapped ''oauth sqlite: put'' (Failure e)), s2)
                     | (None, s2) \<Rightarrow> (None, s2)))))"

definition sqlite_delete :: "('d, 'w) sqlite_env \<Rightarrow> Identity \<Rightarrow> string \<Rightarrow> 'd \<times> 'w \<Rightarrow> oauth_error option \<times> 'd \<times> 'w" where
  "sqlite_delete S identity provider s =
     (case db_delete (sq_db S) (Canonical identity, provider) s of
        (Some e, s') \<Rightarrow> (Some (Wrapped ''oauth sqlite: delete'' (Failure e)), s')
      | (None, s') \<Rightarrow> (None, s'))"

definition listed_ref :: "listing \<Rightarrow> Identity \<Rightarrow> TokenRef" where
  "listed_ref row identity =
     \<lparr>RefIdentity = identity, RefProvider = ListedProvider row,
      RefExpiresAt = (if ListedExpires row > 0 then Some (ListedExpires row * 1000000000) else None),
      RefUpdatedAt = ListedUpdated row * 1000000000\<rparr>"

fun list_rows :: "('d, 'w) sqlite_env \<Rightarrow> (string + listing) list \<Rightarrow> TokenRef list \<Rightarrow> oauth_error + TokenRef list" where
  "list_rows S [] refs = Inr refs"
| "list_rows S (scanned # rest) refs =
     (case scanned of
        Inl e \<Rightarrow> Inl (Wrapped ''oauth sqlite: scan'' (Failure e))
      | Inr row \<Rightarrow>
          (case sq_unmarshal S (ListedIdentity row) of
             Inl e \<Rightarrow> Inl (Wrapped ''oauth sqlite: unmarshal identity'' (Failure e))
           | Inr identity \<Rightarrow> list_rows S rest (refs @ [listed_ref row identity])))"

text \<open>The references read so far are returned beside the error of the last row.\<close>

definition sqlite_list :: "('d, 'w) sqlite_env \<Rightarrow> 'd \<times> 'w \<Rightarrow> TokenRef list \<times> oauth_error option" where
  "sqlite_list S s =
     (case db_rows (sq_db S) s of
        Inl e \<Rightarrow> ([], Some (Wrapped ''oauth sqlite: list'' (Failure e)))
      | Inr (scanned, rows_err) \<Rightarrow>
          (case list_rows S scanned [] of
             Inl e \<Rightarrow> ([], Some e)
           | Inr refs \<Rightarrow> (refs, map_option Failure rows_err)))"

definition sqlite_close :: "('d, 'w) sqlite_env \<Rightarrow> 'd \<times> 'w \<Rightarrow> oauth_error option \<times> 'd \<times> 'w" where
  "sqlite_close S s = (case db_close (sq_db S) s of (e, s') \<Rightarrow> (map_option Failure e, s'))"

definition sqlite_token_store :: "('d, 'w) sqlite_env \<Rightarrow> ('d, 'w) TokenStore" where
  "sqlite_token_store S = \<lparr>ts_get = sqlite_get S, ts_put = sqlite_put S, ts_delete = sqlite_delete S\<rparr>"

section \<open>What the store relies on\<close>

text \<open>\<open>rows d\<close> is the content of the table.\<close>

definition token_db_ok :: "('d, 'w) token_db \<Rightarrow> ('d \<Rightarrow> storeKey \<Rightarrow> token_row option) \<Rightarrow> ('w \<Rightarrow> bool) \<Rightarrow> bool" where
  "token_db_ok D rows up \<longleftrightarrow>
     (\<forall>k d w. up w \<longrightarrow> db_select D k (d, w) = Inr (map_option RowToken (rows d k))) \<and>
     (\<forall>k r s d' w'. db_upsert D k r s = (None, (d', w')) \<longrightarrow> rows d' = (rows (fst s))(k \<mapsto> r)) \<and>
     (\<forall>k s d' w'. db_delete D k s = (None, (d', w')) \<longrightarrow> rows d' = (rows (fst s))(k := None)) \<and>
     (\<forall>k r s e d' w'. db_upsert D k r s = (Some e, (d', w')) \<longrightarrow> d' = fst s) \<and>
     (\<forall>k s e d' w'. db_delete D k s = (Some e, (d', w')) \<longrightarrow> d' = fst s)"

lemma token_db_okD:
  assumes "token_db_ok D rows up"
  shows "up w \<Longrightarrow> db_select D k (d, w) = Inr (map_option RowToken (rows d k))"
    "db_upsert D k r s = (None, (d', w')) \<Longrightarrow> rows d' = (rows (fst s))(k \<mapsto> r)"
    "db_delete D k s = (None, (d', w')) \<Longrightarrow> rows d' = (rows (fst s))(k := None)"
    "db_upsert D k r s = (Some e, (d', w')) \<Longrightarrow> d' = fst s"
    "db_delete D k s = (Some e, (d', w')) \<Longrightarrow> d' = fst s"
proof -
  note laws = assms [unfolded token_db_ok_def]
  show "up w \<Longrightarrow> db_select D k (d, w) = Inr (map_option RowToken (rows d k))"
    using conjunct1 [OF laws] by blast
  show "db_upsert D k r s = (None, (d', w')) \<Longrightarrow> rows d' = (rows (fst s))(k \<mapsto> r)"
    using conjunct1 [OF conjunct2 [OF laws]] by blast
  show "db_delete D k s = (None, (d', w')) \<Longrightarrow> rows d' = (rows (fst s))(k := None)"
    using conjunct1 [OF conjunct2 [OF conjunct2 [OF laws]]] by blast
  show "db_upsert D k r s = (Some e, (d', w')) \<Longrightarrow> d' = fst s"
    using conjunct1 [OF conjunct2 [OF conjunct2 [OF conjunct2 [OF laws]]]] by blast
  show "db_delete D k s = (Some e, (d', w')) \<Longrightarrow> d' = fst s"
    using conjunct2 [OF conjunct2 [OF conjunct2 [OF conjunct2 [OF laws]]]] by blast
qed

text \<open>The listing: one row for each of the table, newest first.\<close>

definition token_rows_ok :: "('d, 'w) token_db \<Rightarrow> ('d \<Rightarrow> storeKey \<Rightarrow> token_row option) \<Rightarrow> ('w \<Rightarrow> bool) \<Rightarrow> bool" where
  "token_rows_ok D rows up \<longleftrightarrow> (\<forall>d w. up w \<longrightarrow> (\<exists>ks.
     db_rows D (d, w) = Inr (map (\<lambda>k. let r = the (rows d k) in Inr
       \<lparr>ListedIdentity = RowIdentity r, ListedProvider = snd k, ListedExpires = RowExpires r,
        ListedUpdated = RowUpdated r\<rparr>) ks, None) \<and>
     distinct ks \<and> set ks = dom (rows d) \<and>
     sorted_wrt (\<lambda>j k. RowUpdated (the (rows d k)) \<le> RowUpdated (the (rows d j))) ks))"


section \<open>The store keeps the contract of a token store\<close>

text \<open>What a later \<open>Get\<close> makes of a stored token.\<close>

definition sqlite_reread :: "('d, 'w) sqlite_env \<Rightarrow> TokenPair \<Rightarrow> oauth_error + TokenPair" where
  "sqlite_reread S t =
     (case se_marshal (sq_env S) t of
        Inl e \<Rightarrow> Inl (Failure e)
      | Inr plaintext \<Rightarrow>
          (case se_unmarshal (sq_env S) plaintext of
             Inl e \<Rightarrow> Inl (Wrapped ''oauth sqlite: unmarshal'' (Failure e))
           | Inr tokens \<Rightarrow> Inr tokens))"

lemma sqlite_put_None:
  assumes "sqlite_put S i p t s = (None, s')"
  shows "\<exists>pt c w1 json. se_marshal (sq_env S) t = Inr pt \<and> Encrypt (se_cipher (sq_env S)) pt (snd s) = (Inr c, w1) \<and>
    sq_marshal S i = Inr json \<and>
    db_upsert (sq_db S) (Canonical i, p) \<lparr>RowIdentity = json, RowToken = c, RowExpires = expires_unix t,
      RowUpdated = unix_seconds (se_now (sq_env S) w1)\<rparr> (fst s, w1) = (None, s')"
  using assms by (auto simp: sqlite_put_def split: sum.splits prod.splits option.splits)

lemma sqlite_put_Some:
  assumes "sqlite_put S i p t s = (Some e, (d', w'))"
  shows "d' = fst s \<or> (\<exists>r w1 m. db_upsert (sq_db S) (Canonical i, p) r (fst s, w1) = (Some m, (d', w')))"
  using assms by (auto simp: sqlite_put_def split: sum.splits prod.splits option.splits)

lemma sqlite_token_store_contract:
  assumes db: "token_db_ok (sq_db S) rows up" and "sealed_store (sq_env S)"
  shows "token_store (sqlite_get S) (sqlite_put S) (sqlite_delete S) (sqlite_reread S) up"
proof
  fix i p t s d' w' w j q
  assume put: "sqlite_put S i p t s = (None, (d', w'))" and up: "up w"
  obtain pt c w1 json where r: "se_marshal (sq_env S) t = Inr pt" "Encrypt (se_cipher (sq_env S)) pt (snd s) = (Inr c, w1)"
    "db_upsert (sq_db S) (Canonical i, p) \<lparr>RowIdentity = json, RowToken = c, RowExpires = expires_unix t,
      RowUpdated = unix_seconds (se_now (sq_env S) w1)\<rparr> (fst s, w1) = (None, (d', w'))"
    using sqlite_put_None [OF put] by blast
  have "Decrypt (se_cipher (sq_env S)) c = Inr pt" by (rule sealed_store.decrypt_encrypt [OF assms(2) r(2)])
  with token_db_okD(2) [OF db r(3)] r(1) token_db_okD(1) [OF db up]
  show "sqlite_get S j q (d', w) =
      (if Canonical j = Canonical i \<and> q = p then sqlite_reread S t else sqlite_get S j q (fst s, w))"
    by (simp add: sqlite_get_def sqlite_reread_def)
next
  fix i p s d' w' w j q
  assume "sqlite_delete S i p s = (None, (d', w'))" and up: "up w"
  then have "db_delete (sq_db S) (Canonical i, p) s = (None, (d', w'))"
    by (auto simp: sqlite_delete_def split: prod.splits option.splits)
  with token_db_okD(3) [OF db this] token_db_okD(1) [OF db up]
  show "sqlite_get S j q (d', w) =
      (if Canonical j = Canonical i \<and> q = p then Inl TokenNotFound else sqlite_get S j q (fst s, w))"
    by (simp add: sqlite_get_def)
next
  fix i p t s e d' w'
  assume "sqlite_put S i p t s = (Some e, (d', w'))"
  from sqlite_put_Some [OF this] show "d' = fst s" using token_db_okD(4) [OF db] by fastforce
next
  fix i p s e d' w'
  assume "sqlite_delete S i p s = (Some e, (d', w'))"
  then obtain m where "db_delete (sq_db S) (Canonical i, p) s = (Some m, (d', w'))"
    by (auto simp: sqlite_delete_def split: prod.splits option.splits)
  then show "d' = fst s" by (rule token_db_okD(5) [OF db])
qed

lemma sqlite_holds_empty:
  assumes "token_db_ok (sq_db S) rows up" "sealed_store (sq_env S)" "rows d = (\<lambda>_. None)"
  shows "token_store.holds (sqlite_get S) (sqlite_reread S) up d (\<lambda>_. None)"
  using assms(3) token_db_okD(1) [OF assms(1)]
  by (simp add: token_store.holds_def [OF sqlite_token_store_contract [OF assms(1,2)]] sqlite_get_def)

lemmas sqlite_holds_run = token_store.holds_run [OF sqlite_token_store_contract]
lemmas sqlite_holds_get = token_store.holds_get [OF sqlite_token_store_contract]
lemmas sqlite_NewFlow_Returns = token_store.NewFlow_Returns [OF sqlite_token_store_contract, folded sqlite_token_store_def]

section \<open>Listing\<close>

text \<open>Every row was written for the identity of its key.\<close>

definition rows_named :: "('d, 'w) sqlite_env \<Rightarrow> (storeKey \<Rightarrow> token_row option) \<Rightarrow> bool" where
  "rows_named S rows \<longleftrightarrow> (\<forall>k r. rows k = Some r \<longrightarrow>
     (\<exists>i t. sq_marshal S i = Inr (RowIdentity r) \<and> Canonical i = fst k \<and> RowExpires r = expires_unix t))"

lemma rows_named_put:
  assumes db: "token_db_ok (sq_db S) rows up" and put: "sqlite_put S i p t (d, w) = (e, (d1, w1))" and "rows_named S (rows d)"
  shows "rows_named S (rows d1)"
proof (cases e)
  case None
  obtain c v json where r: "sq_marshal S i = Inr json"
    "db_upsert (sq_db S) (Canonical i, p) \<lparr>RowIdentity = json, RowToken = c, RowExpires = expires_unix t,
      RowUpdated = unix_seconds (se_now (sq_env S) v)\<rparr> (d, v) = (None, (d1, w1))"
    using sqlite_put_None [OF put [unfolded None]] by auto
  from token_db_okD(2) [OF db r(2)] assms(3) r(1) show ?thesis
    by (auto simp: rows_named_def)
next
  case (Some m)
  from sqlite_put_Some [OF put [unfolded Some]] have "d1 = d"
    using token_db_okD(4) [OF db] by fastforce
  with assms(3) show ?thesis by simp
qed

lemma rows_named_delete:
  assumes db: "token_db_ok (sq_db S) rows up" and "sqlite_delete S i p (d, w) = (e, (d1, w1))" and "rows_named S (rows d)"
  shows "rows_named S (rows d1)"
proof -
  obtain m where del: "db_delete (sq_db S) (Canonical i, p) (d, w) = (m, (d1, w1))"
    using assms(2) by (auto simp: sqlite_delete_def split: prod.splits option.splits)
  show ?thesis
  proof (cases m)
    case None
    from token_db_okD(3) [OF db del [unfolded None]] assms(3) show ?thesis by (auto simp: rows_named_def)
  next
    case (Some x)
    from token_db_okD(5) [OF db del [unfolded Some]] assms(3) show ?thesis by simp
  qed
qed

lemma rows_named_run:
  assumes db: "token_db_ok (sq_db S) rows up"
    and "run_writes (sqlite_put S) (sqlite_delete S) ws (d, w) = (succeeded, (d', w'))" "rows_named S (rows d)"
  shows "rows_named S (rows d')"
  using assms(2,3)
proof (induction ws arbitrary: d w succeeded)
  case Nil
  then show ?case by simp
next
  case (Cons x ws)
  let ?step = "case x of PutToken i p t \<Rightarrow> sqlite_put S i p t (d, w) | DeleteToken i p \<Rightarrow> sqlite_delete S i p (d, w)"
  obtain e d1 w1 where step: "?step = (e, (d1, w1))" by (metis prod.exhaust)
  obtain rest where rest: "run_writes (sqlite_put S) (sqlite_delete S) ws (d1, w1) = (rest, (d', w'))"
    using Cons.prems(1) step by (auto split: prod.splits)
  have "rows_named S (rows d1)"
    using step Cons.prems(2) by (cases x) (auto intro: rows_named_put [OF db] rows_named_delete [OF db])
  from Cons.IH [OF rest this] show ?case .
qed

lemma list_rows_ok:
  assumes "list_all2 (\<lambda>r i. sq_unmarshal S (ListedIdentity r) = Inr i) ls is"
  shows "list_rows S (map Inr ls) refs = Inr (refs @ map2 listed_ref ls is)"
  using assms by (induction arbitrary: refs rule: list_all2_induct) simp_all


section \<open>Properties\<close>

lemma sqlite_refines_map:
  assumes "aead_ok a rand" "se_cipher (sq_env S) = AESGCMCipher a rand" "token_db_ok (sq_db S) rows up" "rows d0 = (\<lambda>_. None)"
    and "run_writes (sqlite_put S) (sqlite_delete S) ws (d0, w) = (succeeded, (d, w'))" "up v"
  shows "sqlite_get S j q (d, v) =
    (case fold write_effect succeeded (\<lambda>_. None) (Canonical j, q) of
       None \<Rightarrow> Inl TokenNotFound | Some t \<Rightarrow> sqlite_reread S t)"
proof -
  note sealed = aesgcm_sealed [OF assms(1,2)]
  show ?thesis
    by (rule sqlite_holds_get [OF assms(3) sealed
          sqlite_holds_run [OF assms(3) sealed sqlite_holds_empty [OF assms(3) sealed assms(4)] assms(5)] assms(6)])
qed

text \<open>
  C31: the two stores are interchangeable: when the same writes succeeded in an empty store in memory and in
  one over an empty table, then whatever the encoding of tokens does, a read of one gives a token
  exactly when a read of the other gives the same, and finds nothing exactly when the other does.
\<close>

theorem stores_agree:
  assumes "aead_ok a rand" "se_cipher (sq_env S) = AESGCMCipher a rand" "token_db_ok (sq_db S) rows up" "rows d0 = (\<lambda>_. None)"
    and "run_writes (sqlite_put S) (sqlite_delete S) ws (d0, w) = (succeeded, (d, w'))" "up v"
    and "run_writes (memory_put (sq_env S)) (memory_delete (sq_env S)) ws' ([], u) = (succeeded, (st, u'))"
    and "se_ctx_err (sq_env S) v' = None"
  shows "(sqlite_get S j q (d, v) = Inr t \<longleftrightarrow> memory_get (sq_env S) j q (st, v') = Inr t) \<and>
    (sqlite_get S j q (d, v) = Inl TokenNotFound \<longleftrightarrow> memory_get (sq_env S) j q (st, v') = Inl TokenNotFound)"
proof -
  have "memory_get (sq_env S) j q (st, v') =
      (case fold write_effect succeeded (\<lambda>_. None) (Canonical j, q) of
         None \<Rightarrow> Inl TokenNotFound | Some t \<Rightarrow> reread_of (sq_env S) t)"
    by (rule sealed_store.reads_last_write [OF aesgcm_sealed [OF assms(1,2)] assms(7,8)])
  with sqlite_refines_map [OF assms(1-6), of j q] show ?thesis
    by (auto simp: sqlite_reread_def reread_of_def split: option.splits sum.splits)
qed

text \<open>
  After any sequence of writes to an empty table the listing has one entry for each identity and
  provider that has a token, and no other, newest first; the identity is the one of the key.
\<close>

theorem sqlite_list_complete:
  assumes "aead_ok a rand" "se_cipher (sq_env S) = AESGCMCipher a rand"
    and "token_db_ok (sq_db S) rows up" "token_rows_ok (sq_db S) rows up" "rows d0 = (\<lambda>_. None)"
    and "\<And>i json. sq_marshal S i = Inr json \<Longrightarrow> sq_unmarshal S json = Inr i"
    and "run_writes (sqlite_put S) (sqlite_delete S) ws (d0, w) = (succeeded, (d, w'))" "up v"
  shows "\<exists>refs. sqlite_list S (d, v) = (refs, None) \<and>
    distinct (map (\<lambda>r. (Canonical (RefIdentity r), RefProvider r)) refs) \<and>
    set (map (\<lambda>r. (Canonical (RefIdentity r), RefProvider r)) refs) = dom (fold write_effect succeeded (\<lambda>_. None)) \<and>
    sorted_wrt (\<ge>) (map RefUpdatedAt refs)"
proof -
  obtain ks where ks: "db_rows (sq_db S) (d, v) = Inr (map (\<lambda>k. let r = the (rows d k) in Inr
       \<lparr>ListedIdentity = RowIdentity r, ListedProvider = snd k, ListedExpires = RowExpires r,
        ListedUpdated = RowUpdated r\<rparr>) ks, None)"
    "distinct ks" "set ks = dom (rows d)"
    "sorted_wrt (\<lambda>j k. RowUpdated (the (rows d k)) \<le> RowUpdated (the (rows d j))) ks"
    using assms(4,8) unfolding token_rows_ok_def by blast
  have dom: "dom (rows d) = dom (fold write_effect succeeded (\<lambda>_. None))"
  proof -
    have "rows d (c, p) = None \<longleftrightarrow> fold write_effect succeeded (\<lambda>_. None) (c, p) = None" for c p
      using sqlite_refines_map [OF assms(1,2,3,5,7,8), of "\<lparr>Canonical = c, IdProvider = [], ProviderID = [], Email = [], DisplayName = [], IdRaw = []\<rparr>" p]
        token_db_okD(1) [OF assms(3,8), of "(c, p)" d]
      by (auto simp: sqlite_get_def sqlite_reread_def split: option.splits sum.splits)
    then have "(k \<in> dom (rows d)) = (k \<in> dom (fold write_effect succeeded (\<lambda>_. None)))" for k
      by (cases k) (simp add: domIff)
    then show ?thesis by blast
  qed
  let ?row = "\<lambda>k. let r = the (rows d k) in \<lparr>ListedIdentity = RowIdentity r, ListedProvider = snd k,
      ListedExpires = RowExpires r, ListedUpdated = RowUpdated r\<rparr>"
  have "rows_named S (rows d)"
    by (rule rows_named_run [OF assms(3,7)]) (simp add: rows_named_def assms(5))
  then have "\<exists>i. sq_unmarshal S (ListedIdentity (?row k)) = Inr i \<and> Canonical i = fst k" if "k \<in> set ks" for k
  proof -
    have "k \<in> dom (rows d)" using that unfolding ks(3) .
    then obtain r where r: "rows d k = Some r" by (auto dest: domD)
    then obtain i where "sq_marshal S i = Inr (RowIdentity r)" "Canonical i = fst k"
      using \<open>rows_named S (rows d)\<close> unfolding rows_named_def by blast
    with assms(6) r show ?thesis by auto
  qed
  then obtain ident where ident: "\<And>k. k \<in> set ks \<Longrightarrow> sq_unmarshal S (ListedIdentity (?row k)) = Inr (ident k) \<and> Canonical (ident k) = fst k"
    by metis
  let ?refs = "map (\<lambda>k. listed_ref (?row k) (ident k)) ks"
  have "list_all2 (\<lambda>r i. sq_unmarshal S (ListedIdentity r) = Inr i) (map ?row ks) (map ident ks)"
    using ident by (simp add: list_all2_conv_all_nth)
  from list_rows_ok [OF this, of "[]"] ks(1)
  have "sqlite_list S (d, v) = (?refs, None)"
    by (simp add: sqlite_list_def Let_def comp_def zip_map_map zip_same_conv_map)
  moreover have "map (\<lambda>r. (Canonical (RefIdentity r), RefProvider r)) ?refs = ks"
    using ident by (simp add: listed_ref_def Let_def comp_def map_idI)
  moreover have "sorted_wrt (\<ge>) (map RefUpdatedAt ?refs)"
    using ks(4) by (simp add: sorted_wrt_map listed_ref_def Let_def)
  ultimately show ?thesis
    using ks(2) ks(3) [unfolded dom] by (intro exI [of _ ?refs]) simp
qed


text \<open>A table kept as an association list; statements fail in the world 7.\<close>

definition demo_db :: "((storeKey, token_row) gomap, nat) token_db" where
  "demo_db = \<lparr>db_create = (\<lambda>s. (None, s)),
     db_select = (\<lambda>k s. if snd s = 7 then Inl ''interrupted'' else Inr (map_option RowToken (gm_get (fst s) k))),
     db_upsert = (\<lambda>k r s. if snd s = 7 then (Some ''interrupted'', s) else (None, (gm_set k r (fst s), snd s))),
     db_delete = (\<lambda>k s. if snd s = 7 then (Some ''interrupted'', s) else (None, (gm_del k (fst s), snd s))),
     db_rows = (\<lambda>s. Inr (map (\<lambda>k. let r = the (gm_get (fst s) k) in Inr
       \<lparr>ListedIdentity = RowIdentity r, ListedProvider = snd k, ListedExpires = RowExpires r,
        ListedUpdated = RowUpdated r\<rparr>)
       (sort_key (\<lambda>k. - RowUpdated (the (gm_get (fst s) k))) (remdups (gm_keys (fst s)))), None)),
     db_close = (\<lambda>s. (None, s))\<rparr>"

definition demo_sqlite :: "((storeKey, token_row) gomap, nat) sqlite_env" where
  "demo_sqlite = \<lparr>sq_db = demo_db, sq_env = demo_store_env, sq_marshal = (\<lambda>i. if i = demo_identity (Canonical i) then Inr (Canonical i) else Inl ''unsupported''),
     sq_unmarshal = (\<lambda>c. Inr (demo_identity c))\<rparr>"

lemma demo_db_ok: "token_db_ok demo_db gm_get (\<lambda>w. w \<noteq> 7)"
  unfolding token_db_ok_def demo_db_def by (auto split: if_splits)

lemma demo_rows_ok: "token_rows_ok demo_db gm_get (\<lambda>w. w \<noteq> 7)"
  unfolding token_rows_ok_def
proof (intro allI impI)
  fix d :: "(storeKey, token_row) gomap" and w :: nat
  let ?f = "\<lambda>k. - RowUpdated (the (gm_get d k))"
  let ?ks = "sort_key ?f (remdups (gm_keys d))"
  have "sorted_wrt (\<lambda>j k. ?f j \<le> ?f k) ?ks"
    using sorted_sort_key [of ?f "remdups (gm_keys d)"] by (simp add: sorted_wrt_map)
  then have "sorted_wrt (\<lambda>j k. RowUpdated (the (gm_get d k)) \<le> RowUpdated (the (gm_get d j))) ?ks" by simp
  moreover have "set ?ks = dom (gm_get d)" proof -
    have "k \<in> set ?ks \<longleftrightarrow> k \<in> dom (gm_get d)" for k
      using gm_get_None_iff [of d k] by (simp add: domIff)
    then show ?thesis by blast
  qed
  moreover have "distinct ?ks" by simp
  ultimately show "\<exists>ks. db_rows demo_db (d, w) = Inr (map (\<lambda>k. let r = the (gm_get d k) in Inr
       \<lparr>ListedIdentity = RowIdentity r, ListedProvider = snd k, ListedExpires = RowExpires r,
        ListedUpdated = RowUpdated r\<rparr>) ks, None) \<and>
     distinct ks \<and> set ks = dom (gm_get d) \<and>
     sorted_wrt (\<lambda>j k. RowUpdated (the (gm_get d k)) \<le> RowUpdated (the (gm_get d j))) ks"
    by (intro exI [of _ ?ks]) (simp add: demo_db_def)
qed

lemma demo_sqlite_simps:
  "sq_db demo_sqlite = demo_db" "sq_env demo_sqlite = demo_store_env"
  "sq_marshal demo_sqlite i = Inr json \<Longrightarrow> sq_unmarshal demo_sqlite json = Inr i"
  by (auto simp: demo_sqlite_def split: if_splits)

lemma demo_sqlite_run:
  "case run_writes (sqlite_put demo_sqlite) (sqlite_delete demo_sqlite) demo_writes ([], 0) of
     (ws, (d, w)) \<Rightarrow> ws = demo_writes \<and> w = 3"
  by code_simp

theorem stores_agree_witness:
  "\<exists>d st. run_writes (sqlite_put demo_sqlite) (sqlite_delete demo_sqlite) demo_writes ([], 0) = (demo_writes, (d, 3)) \<and>
     run_writes (memory_put demo_store_env) (memory_delete demo_store_env) demo_writes ([], 0) = (demo_writes, (st, 3)) \<and>
     (sqlite_get demo_sqlite (demo_identity ''okta:1'') ''okta'' (d, 3) = Inr (demo_token ''t3'') \<longleftrightarrow>
      memory_get demo_store_env (demo_identity ''okta:1'') ''okta'' (st, 3) = Inr (demo_token ''t3''))"
proof -
  obtain d where run: "run_writes (sqlite_put demo_sqlite) (sqlite_delete demo_sqlite) demo_writes ([], 0) = (demo_writes, (d, 3))"
    using demo_sqlite_run by (auto split: prod.splits)
  obtain st where mem: "run_writes (memory_put demo_store_env) (memory_delete demo_store_env) demo_writes ([], 0) = (demo_writes, (st, 3))"
    using demo_writes_run by (auto split: prod.splits)
  have c: "se_cipher (sq_env demo_sqlite) = AESGCMCipher demo_aead demo_rand"
    by (simp add: demo_sqlite_simps demo_cipher)
  have db: "token_db_ok (sq_db demo_sqlite) gm_get (\<lambda>w. w \<noteq> 7)" by (simp add: demo_sqlite_simps demo_db_ok)
  have empty: "gm_get [] = (\<lambda>_. None)" by (simp add: fun_eq_iff)
  have alive: "se_ctx_err (sq_env demo_sqlite) 3 = None" by (simp add: demo_sqlite_simps demo_store_env_def)
  from stores_agree [OF demo_aead_ok c db empty run _ mem [folded demo_sqlite_simps(2)] alive, of 3] run mem
  show ?thesis by (auto simp: demo_sqlite_simps)
qed

theorem sqlite_list_complete_witness:
  "\<exists>d refs. run_writes (sqlite_put demo_sqlite) (sqlite_delete demo_sqlite) demo_writes ([], 0) = (demo_writes, (d, 3)) \<and>
     sqlite_list demo_sqlite (d, 3) = (refs, None) \<and>
     set (map (\<lambda>r. (Canonical (RefIdentity r), RefProvider r)) refs) = {(''okta:1'', ''okta'')}"
proof -
  obtain d where run: "run_writes (sqlite_put demo_sqlite) (sqlite_delete demo_sqlite) demo_writes ([], 0) = (demo_writes, (d, 3))"
    using demo_sqlite_run by (auto split: prod.splits)
  have c: "se_cipher (sq_env demo_sqlite) = AESGCMCipher demo_aead demo_rand"
    by (simp add: demo_sqlite_simps demo_cipher)
  have db: "token_db_ok (sq_db demo_sqlite) gm_get (\<lambda>w. w \<noteq> 7)" "token_rows_ok (sq_db demo_sqlite) gm_get (\<lambda>w. w \<noteq> 7)"
    by (simp_all add: demo_sqlite_simps demo_db_ok demo_rows_ok)
  have empty: "gm_get [] = (\<lambda>_. None)" by (simp add: fun_eq_iff)
  have dom: "dom (fold write_effect demo_writes (\<lambda>_. None)) = {(''okta:1'', ''okta'')}"
    by (auto simp: demo_writes_def demo_identity_def)
  from sqlite_list_complete [OF demo_aead_ok c db empty demo_sqlite_simps(3) run, of 3, unfolded dom] run
  show ?thesis by auto
qed

end
