(* ===== verification/Sqlite_Cache.thy ===== *)
theory Sqlite_Cache
  imports Completion
begin

text \<open>
  Package agent, file \<^verbatim>\<open>cache_sqlite.go\<close>: the completion cache over a table of a SQLite database.

  The database is a parameter that acts on the world \<open>'s\<close>: one operation for each statement the cache
  executes, and the clock. What the cache relies on is \<open>cache_db_ok\<close>: a statement that succeeds does to
  the table what SQL says, one that fails does nothing. The cache ignores failures, so it is shown to
  keep the contract of \<open>WithCache\<close> also when statements fail. Times are nanoseconds.
\<close>

section \<open>The table\<close>

record cache_row =
  RowValue :: string
  RowExpiresAt :: int

record 's cache_db =
  cd_now :: "'s \<Rightarrow> int"
  cd_select :: "string \<Rightarrow> 's \<Rightarrow> (string + cache_row option) \<times> 's"
  cd_replace :: "string \<Rightarrow> cache_row \<Rightarrow> 's \<Rightarrow> string option \<times> 's"
  cd_delete :: "string \<Rightarrow> 's \<Rightarrow> string option \<times> 's"
  cd_count :: "'s \<Rightarrow> string + int"
  cd_sweep :: "int \<Rightarrow> 's \<Rightarrow> string option \<times> 's"
  cd_close :: "'s \<Rightarrow> string option \<times> 's"

definition unix_time :: "int \<Rightarrow> int" where
  "unix_time t = t div 1000000000"

section \<open>Opening\<close>

definition cache_pragmas :: "string list" where
  "cache_pragmas = [''PRAGMA journal_mode = WAL'', ''PRAGMA synchronous = NORMAL'', ''PRAGMA busy_timeout = 5000'']"

definition cache_schema :: string where
  "cache_schema = ''CREATE TABLE IF NOT EXISTS entries''"

text \<open>The pragmas run in order; the first that fails ends the loop.\<close>

fun exec_pragmas :: "(string \<Rightarrow> 's \<Rightarrow> string option \<times> 's) \<Rightarrow> string list \<Rightarrow> 's \<Rightarrow> (string \<times> string) option \<times> 's" where
  "exec_pragmas exec [] s = (None, s)"
| "exec_pragmas exec (p # ps) s =
     (case exec p s of (Some e, s1) \<Rightarrow> (Some (p, e), s1) | (None, s1) \<Rightarrow> exec_pragmas exec ps s1)"

text \<open>
  \<open>open_db\<close> is \<^verbatim>\<open>sql.Open\<close>, \<open>exec\<close> runs a statement, \<open>quote\<close> is the verb \<^verbatim>\<open>%q\<close>; the schema statement is named by
  its first line. The handle is closed when a statement fails.
\<close>

definition NewSQLiteCache :: "(string \<Rightarrow> 's \<Rightarrow> string option \<times> 's) \<Rightarrow> (string \<Rightarrow> 's \<Rightarrow> string option \<times> 's) \<Rightarrow>
    (string \<Rightarrow> string) \<Rightarrow> 's cache_db \<Rightarrow> string \<Rightarrow> 's \<Rightarrow> string option \<times> 's" where
  "NewSQLiteCache open_db exec quote D path s =
     (if path = [] then (Some ''SQLiteCache: path is required'', s)
      else (case open_db path s of
              (Some e, s1) \<Rightarrow> (Some (''sqlite open: '' @ e), s1)
            | (None, s1) \<Rightarrow>
                (case exec_pragmas exec cache_pragmas s1 of
                   (Some (p, e), s2) \<Rightarrow> (Some (''sqlite pragma '' @ quote p @ '': '' @ e), snd (cd_close D s2))
                 | (None, s2) \<Rightarrow>
                     (case exec cache_schema s2 of
                        (Some e, s3) \<Rightarrow> (Some (''sqlite schema: '' @ e), snd (cd_close D s3))
                      | (None, s3) \<Rightarrow> (None, s3)))))"

section \<open>The methods\<close>

definition sqlite_cache_get :: "'s cache_db \<Rightarrow> string \<Rightarrow> 's \<Rightarrow> string option \<times> 's" where
  "sqlite_cache_get D key s =
     (case cd_select D key s of
        (Inl e, s1) \<Rightarrow> (None, s1)
      | (Inr None, s1) \<Rightarrow> (None, s1)
      | (Inr (Some row), s1) \<Rightarrow>
          if RowExpiresAt row \<noteq> 0 \<and> unix_time (cd_now D s1) > RowExpiresAt row then (None, snd (cd_delete D key s1))
          else (Some (RowValue row), s1))"

definition sqlite_cache_set :: "'s cache_db \<Rightarrow> int \<Rightarrow> string \<Rightarrow> string \<Rightarrow> 's \<Rightarrow> 's" where
  "sqlite_cache_set D ttl key value s =
     (let expiresAt = (if ttl > 0 then unix_time (cd_now D s + ttl) else 0)
      in snd (cd_replace D key \<lparr>RowValue = value, RowExpiresAt = expiresAt\<rparr> s))"

definition sqlite_cache_len :: "'s cache_db \<Rightarrow> 's \<Rightarrow> int" where
  "sqlite_cache_len D s = (case cd_count D s of Inl e \<Rightarrow> 0 | Inr n \<Rightarrow> n)"

definition Vacuum :: "'s cache_db \<Rightarrow> int \<Rightarrow> 's \<Rightarrow> string option \<times> 's" where
  "Vacuum D ttl s = (if ttl \<le> 0 then (None, s) else cd_sweep D (unix_time (cd_now D s)) s)"

definition sqlite_cache_close :: "'s cache_db \<Rightarrow> 's \<Rightarrow> string option \<times> 's" where
  "sqlite_cache_close D s = cd_close D s"

section \<open>What the cache relies on\<close>

text \<open>\<open>rows s\<close> is the content of the table in the world \<open>s\<close>.\<close>

definition cache_db_ok :: "'s cache_db \<Rightarrow> ('s \<Rightarrow> string \<Rightarrow> cache_row option) \<Rightarrow> bool" where
  "cache_db_ok D rows \<longleftrightarrow>
     (\<forall>k s r s'. cd_select D k s = (r, s') \<longrightarrow> rows s' = rows s \<and> (\<forall>x. r = Inr x \<longrightarrow> x = rows s k)) \<and>
     (\<forall>k row s e s'. cd_replace D k row s = (e, s') \<longrightarrow> rows s' = (if e = None then (rows s)(k \<mapsto> row) else rows s)) \<and>
     (\<forall>k s e s'. cd_delete D k s = (e, s') \<longrightarrow> rows s' = (if e = None then (rows s)(k := None) else rows s)) \<and>
     (\<forall>t s e s'. cd_sweep D t s = (e, s') \<longrightarrow> rows s' = (if e = None
        then (\<lambda>k. case rows s k of None \<Rightarrow> None
                 | Some r \<Rightarrow> if RowExpiresAt r \<noteq> 0 \<and> RowExpiresAt r < t then None else Some r) else rows s))"

lemma cache_db_select:
  "cache_db_ok D rows \<Longrightarrow> cd_select D k s = (r, s') \<Longrightarrow> rows s' = rows s \<and> (\<forall>x. r = Inr x \<longrightarrow> x = rows s k)"
  unfolding cache_db_ok_def by blast

lemma cache_db_replace:
  assumes "cache_db_ok D rows"
  shows "rows (snd (cd_replace D k row s)) = (if fst (cd_replace D k row s) = None then (rows s)(k \<mapsto> row) else rows s)"
  using assms unfolding cache_db_ok_def by (metis prod.collapse)

lemma cache_db_delete:
  assumes "cache_db_ok D rows"
  shows "rows (snd (cd_delete D k s)) = (if fst (cd_delete D k s) = None then (rows s)(k := None) else rows s)"
  using assms unfolding cache_db_ok_def by (metis prod.collapse)

lemma cache_db_sweep:
  assumes "cache_db_ok D rows" "cd_sweep D t s = (None, s')"
  shows "rows s' k = (case rows s k of None \<Rightarrow> None
    | Some r \<Rightarrow> if RowExpiresAt r \<noteq> 0 \<and> RowExpiresAt r < t then None else Some r)"
  using assms unfolding cache_db_ok_def by (metis (no_types, lifting))

section \<open>The cache keeps the contract of the caching middleware\<close>

definition row_values :: "('s \<Rightarrow> string \<Rightarrow> cache_row option) \<Rightarrow> 's \<Rightarrow> string \<Rightarrow> string option" where
  "row_values rows s k = map_option RowValue (rows s k)"

text \<open>What \<open>Get\<close> does to the table, and when it hits.\<close>

lemma sqlite_cache_get_rows:
  assumes "cache_db_ok D rows" "sqlite_cache_get D k s = (r, s')"
  shows "rows s' k' = rows s k' \<or> k' = k \<and> r = None \<and> rows s' k' = None"
proof -
  obtain x s1 where sel: "cd_select D k s = (x, s1)" by fastforce
  note table = cache_db_select [OF assms(1) sel]
  show ?thesis
    using assms(2) table cache_db_delete [OF assms(1), of k s1]
    by (auto simp: sqlite_cache_get_def sel split: sum.splits option.splits if_splits)
qed

lemma sqlite_cache_get_hit:
  assumes "cache_db_ok D rows" "sqlite_cache_get D k s = (Some v, s')"
  shows "\<exists>row. rows s k = Some row \<and> RowValue row = v \<and>
    (RowExpiresAt row = 0 \<or> unix_time (cd_now D s') \<le> RowExpiresAt row)"
proof -
  obtain x s1 where sel: "cd_select D k s = (x, s1)" by fastforce
  show ?thesis
    using assms(2) cache_db_select [OF assms(1) sel]
    by (auto simp: sqlite_cache_get_def sel split: sum.splits option.splits if_splits)
qed

lemma sqlite_cache_contract:
  assumes "cache_db_ok D rows"
  shows "cache (sqlite_cache_get D) (sqlite_cache_set D ttl) (row_values rows)"
proof
  show "row_values rows s k = Some v" if "sqlite_cache_get D k s = (Some v, s')" for k s v s'
    using sqlite_cache_get_hit [OF assms that] by (auto simp: row_values_def)
  show "row_values rows s k' = Some v" if "sqlite_cache_get D k s = (r, s')" "row_values rows s' k' = Some v" for k s r s' k' v
    using sqlite_cache_get_rows [OF assms that(1), of k'] that(2) by (auto simp: row_values_def)
  show "k' = k \<and> v' = v \<or> row_values rows s k' = Some v'" if "row_values rows (sqlite_cache_set D ttl k v s) k' = Some v'" for k v s k' v'
    using that cache_db_replace [OF assms, of k _ s]
    by (auto simp: row_values_def sqlite_cache_set_def Let_def split: if_splits)
qed


section \<open>Expiry\<close>

text \<open>A database none of whose reads and writes fail.\<close>

definition cache_db_up :: "'s cache_db \<Rightarrow> bool" where
  "cache_db_up D \<longleftrightarrow> (\<forall>k row s. fst (cd_replace D k row s) = None) \<and> (\<forall>k s. \<exists>x. fst (cd_select D k s) = Inr x)"

lemma sqlite_cache_set_row:
  assumes "cache_db_ok D rows" "cache_db_up D"
  shows "rows (sqlite_cache_set D ttl k v s) k =
    Some \<lparr>RowValue = v, RowExpiresAt = (if ttl > 0 then unix_time (cd_now D s + ttl) else 0)\<rparr>"
  using assms(2) cache_db_replace [OF assms(1), of k _ s]
  by (simp add: sqlite_cache_set_def Let_def cache_db_up_def)

lemma sqlite_cache_get_row:
  assumes "cache_db_ok D rows" "cache_db_up D" "rows s k = Some row"
  shows "fst (sqlite_cache_get D k s) =
    (if RowExpiresAt row \<noteq> 0 \<and> unix_time (cd_now D (snd (cd_select D k s))) > RowExpiresAt row then None else Some (RowValue row))"
proof -
  obtain x s1 where sel: "cd_select D k s = (Inr x, s1)"
    using assms(2) by (metis cache_db_up_def prod.collapse)
  with cache_db_select [OF assms(1) sel] assms(3) show ?thesis by (simp add: sqlite_cache_get_def)
qed

text \<open>
  The time to live of the process that reads plays no part: an entry that an earlier process wrote with
  one expires although expiration is switched off now, and \<open>Vacuum\<close> then leaves it.
\<close>

lemma expiry_outlives_ttl:
  assumes "cache_db_ok D rows" "cache_db_up D" "rows s k = Some row" "RowExpiresAt row \<noteq> 0"
    and "unix_time (cd_now D (snd (cd_select D k s))) > RowExpiresAt row" "ttl \<le> 0"
  shows "fst (sqlite_cache_get D k s) = None \<and> Vacuum D ttl s = (None, s)"
  using sqlite_cache_get_row [OF assms(1-3)] assms(4-6) by (simp add: Vacuum_def)

text \<open>A sweep removes exactly the entries that \<open>Get\<close> would no longer serve at that time.\<close>

lemma Vacuum_sweeps:
  assumes "cache_db_ok D rows" "ttl > 0" "Vacuum D ttl s = (None, s')"
  shows "rows s' k = (case rows s k of None \<Rightarrow> None
    | Some r \<Rightarrow> if RowExpiresAt r \<noteq> 0 \<and> unix_time (cd_now D s) > RowExpiresAt r then None else Some r)"
  using cache_db_sweep [OF assms(1), of "unix_time (cd_now D s)" s s' k] assms(2,3)
  by (simp add: Vacuum_def)

section \<open>Properties\<close>

text \<open>
  Caching in SQLite changes no answer, also over restarts and with a failing database: if what the
  table holds for the prompts of a conversation are the answers the inner function gives to them, then
  every success of the conversation is such an answer, whichever statements fail, with any time to
  live. It needs that the hash does not collide on the prompts and that no system prompt holds a zero byte.
\<close>

theorem sqlite_cache_transparent:
  assumes "cache_db_ok D rows" "answers (row_values rows) f nxt" "coherent (row_values rows) sha (set reqs) f s"
    and "\<forall>(sys, user)\<in>set reqs. CHR 0x00 \<notin> set sys"
    and "inj_on sha ((\<lambda>(sys, user). sys @ [CHR 0x00] @ user) ` set reqs)"
    and "run_calls (WithCache sha (sqlite_cache_get D) (sqlite_cache_set D ttl) nxt) reqs s = (rs, s')"
  shows "list_all2 (reply_agrees f) reqs rs"
  by (rule cache.WithCache_run [OF sqlite_cache_contract [OF assms(1)] assms(3,2)
        keys_distinct_prompts [OF assms(4,5)] order_refl assms(6)])

text \<open>
  C32: a cached value is served until its time to live has passed, and less than a second longer: expiry is
  kept in whole seconds, rounded down, and an entry is dropped only in a later second than that. Without
  a time to live it is served forever.
\<close>

theorem sqlite_cache_expiry:
  assumes "cache_db_ok D rows" "cache_db_up D" "1000000000 \<le> cd_now D s"
    and "rows s' k = rows (sqlite_cache_set D ttl k v s) k"
  shows "let t = cd_now D (snd (cd_select D k s')); r = fst (sqlite_cache_get D k s') in
    (ttl \<le> 0 \<or> t \<le> cd_now D s + ttl \<longrightarrow> r = Some v) \<and>
    (ttl > 0 \<and> t \<ge> cd_now D s + ttl + 1000000000 \<longrightarrow> r = None)"
proof -
  define row where "row = \<lparr>RowValue = v, RowExpiresAt = (if ttl > 0 then unix_time (cd_now D s + ttl) else 0)\<rparr>"
  have "rows s' k = Some row"
    unfolding assms(4) row_def by (rule sqlite_cache_set_row [OF assms(1,2)])
  note get = sqlite_cache_get_row [OF assms(1,2) this]
  let ?t = "cd_now D (snd (cd_select D k s'))"
  have pos: "unix_time (cd_now D s + ttl) \<noteq> 0" if "ttl > 0"
  proof -
    have "1000000000 div 1000000000 \<le> (cd_now D s + ttl) div 1000000000"
      using that assms(3) by (intro zdiv_mono1) auto
    then show ?thesis by (simp add: unix_time_def)
  qed
  have early: "unix_time ?t \<le> unix_time (cd_now D s + ttl)" if "?t \<le> cd_now D s + ttl"
    using that by (simp add: unix_time_def zdiv_mono1)
  have late: "unix_time ?t > unix_time (cd_now D s + ttl)" if "?t \<ge> cd_now D s + ttl + 1000000000"
  proof -
    have "(cd_now D s + ttl + 1000000000) div 1000000000 \<le> ?t div 1000000000"
      using that by (intro zdiv_mono1) auto
    then show ?thesis by (simp add: unix_time_def)
  qed
  show ?thesis
    using get pos early late by (auto simp: Let_def row_def)
qed

text \<open>A table in a record with a clock; every second write fails in the failing database.\<close>

record cache_world =
  cw_clock :: int
  cw_rows :: "(string, cache_row) gomap"
  cw_faulty :: bool

definition demo_cache_db :: "cache_world cache_db" where
  "demo_cache_db = \<lparr>cd_now = cw_clock, cd_select = (\<lambda>k s. (Inr (gm_get (cw_rows s) k), s\<lparr>cw_clock := cw_clock s + 1\<rparr>)),
     cd_replace = (\<lambda>k row s. if cw_faulty s then (Some ''disk full'', s) else (None, s\<lparr>cw_rows := gm_set k row (cw_rows s)\<rparr>)),
     cd_delete = (\<lambda>k s. (None, s\<lparr>cw_rows := gm_del k (cw_rows s)\<rparr>)), cd_count = (\<lambda>s. Inr (int (length (cw_rows s)))),
     cd_sweep = (\<lambda>t s. (Some ''not needed'', s)), cd_close = (\<lambda>s. (None, s))\<rparr>"

definition demo_cache_rows :: "cache_world \<Rightarrow> string \<Rightarrow> cache_row option" where
  "demo_cache_rows s = gm_get (cw_rows s)"

lemma demo_cache_db_ok: "cache_db_ok demo_cache_db demo_cache_rows"
  unfolding cache_db_ok_def demo_cache_db_def demo_cache_rows_def by auto

definition demo_bang :: "cache_world CompleteFunc" where
  "demo_bang sys user w = (Returned (user @ ''!'') None, w\<lparr>cw_clock := cw_clock w + 7, cw_faulty := \<not> cw_faulty w\<rparr>)"

definition demo_cache_world :: cache_world where
  "demo_cache_world = \<lparr>cw_clock = 1000000000, cw_rows = [], cw_faulty = False\<rparr>"

theorem sqlite_cache_transparent_witness:
  "list_all2 (reply_agrees (\<lambda>sys user. user @ ''!'')) [(''s'', ''a''), (''s'', ''b''), (''s'', ''a'')]
     (fst (run_calls (WithCache (\<lambda>x. x) (sqlite_cache_get demo_cache_db) (sqlite_cache_set demo_cache_db 10) demo_bang)
        [(''s'', ''a''), (''s'', ''b''), (''s'', ''a'')] demo_cache_world))"
proof -
  have "answers (row_values demo_cache_rows) (\<lambda>sys user. user @ ''!'') demo_bang"
    by (auto simp: answers_def demo_bang_def row_values_def demo_cache_rows_def)
  moreover have "coherent (row_values demo_cache_rows) (\<lambda>x. x) (set [(''s'', ''a''), (''s'', ''b''), (''s'', ''a'')])
      (\<lambda>sys user. user @ ''!'') demo_cache_world"
    by (simp add: coherent_def row_values_def demo_cache_rows_def demo_cache_world_def)
  ultimately show ?thesis
    by (rule sqlite_cache_transparent [OF demo_cache_db_ok _ _ _ _ prod.collapse [symmetric]]) (simp_all add: inj_on_def)
qed

definition demo_steady_db :: "cache_world cache_db" where
  "demo_steady_db = demo_cache_db\<lparr>cd_replace := (\<lambda>k row s. (None, s\<lparr>cw_rows := gm_set k row (cw_rows s)\<rparr>))\<rparr>"

lemma demo_steady_db_ok: "cache_db_ok demo_steady_db demo_cache_rows" "cache_db_up demo_steady_db"
  unfolding cache_db_ok_def cache_db_up_def demo_steady_db_def demo_cache_db_def demo_cache_rows_def by auto

theorem sqlite_cache_expiry_witness:
  "fst (sqlite_cache_get demo_steady_db ''k'' ((sqlite_cache_set demo_steady_db 5000000000 ''k'' ''v'' demo_cache_world)
      \<lparr>cw_clock := 5900000000\<rparr>)) = Some ''v'' \<and>
   fst (sqlite_cache_get demo_steady_db ''k'' ((sqlite_cache_set demo_steady_db 5000000000 ''k'' ''v'' demo_cache_world)
      \<lparr>cw_clock := 7000000000\<rparr>)) = None"
proof -
  let ?w = "sqlite_cache_set demo_steady_db 5000000000 ''k'' ''v'' demo_cache_world"
  have now: "cd_now demo_steady_db demo_cache_world = 1000000000"
    "cd_now demo_steady_db (snd (cd_select demo_steady_db ''k'' (?w\<lparr>cw_clock := c\<rparr>))) = c + 1" for c
    by (simp_all add: demo_steady_db_def demo_cache_db_def demo_cache_world_def)
  have rows: "demo_cache_rows (?w\<lparr>cw_clock := c\<rparr>) ''k'' = demo_cache_rows ?w ''k''" for c
    by (simp add: demo_cache_rows_def)
  have start: "1000000000 \<le> cd_now demo_steady_db demo_cache_world" by (simp add: now)
  note expiry = sqlite_cache_expiry [OF demo_steady_db_ok start rows, unfolded Let_def now]
  from expiry [of 5900000000] expiry [of 7000000000] show ?thesis by simp
qed

end
