(* ===== verification/Anthropic.thy ===== *)
theory Anthropic
  imports Review Go_Url
begin

text \<open>
  Package agent, files \<^verbatim>\<open>anthropic.go\<close>, \<^verbatim>\<open>anthropic_stream.go\<close> and \<^verbatim>\<open>claudecode.go\<close>: the clients of the two
  language-model backends, as completion functions and as a stream.

  The HTTP client, the JSON encoder and decoders and the process of the command line tool are
  parameters. The body of an answer is its bytes and the error its reading ends with, if any.
\<close>

section \<open>The client\<close>

record AnthropicConfig =
  APIKey :: string
  AnthropicModel :: string
  MaxTokens :: int
  BaseURL :: string
  ApiVersion :: string

definition anthropic_defaults :: "AnthropicConfig \<Rightarrow> AnthropicConfig" where
  "anthropic_defaults cfg =
     (let cfg1 = (if AnthropicModel cfg = [] then cfg\<lparr>AnthropicModel := ''claude-sonnet-4-5''\<rparr> else cfg);
          cfg2 = (if MaxTokens cfg1 \<le> 0 then cfg1\<lparr>MaxTokens := 1024\<rparr> else cfg1);
          cfg3 = (if BaseURL cfg2 = [] then cfg2\<lparr>BaseURL := ''https://api.anthropic.com''\<rparr> else cfg2)
      in if ApiVersion cfg3 = [] then cfg3\<lparr>ApiVersion := ''2023-06-01''\<rparr> else cfg3)"

text \<open>\<open>getenv\<close> is the value of \<^verbatim>\<open>ANTHROPIC_API_KEY\<close>.\<close>

definition NewAnthropicClient :: "string \<Rightarrow> AnthropicConfig \<Rightarrow> string + AnthropicConfig" where
  "NewAnthropicClient getenv cfg =
     (let cfg1 = (if APIKey cfg = [] then cfg\<lparr>APIKey := getenv\<rparr> else cfg) in
      if APIKey cfg1 = [] then Inl ''AnthropicClient: APIKey not set (and ANTHROPIC_API_KEY env var is empty)''
      else Inr (anthropic_defaults cfg1))"

record anthropicMessage =
  MsgRole :: string
  MsgContent :: string

record anthropicRequest =
  ReqModel :: string
  ReqMaxTokens :: int
  ReqSystem :: string
  ReqMessages :: "anthropicMessage list"
  ReqStream :: bool

record anthropicContentBlock =
  BlockType :: string
  BlockText :: string

record anthropicResponse =
  ResContent :: "anthropicContentBlock list"
  ResStopReason :: string

record anthropicError =
  ErrType :: string
  ErrMessage :: string

record anthropicStreamEventDelta =
  DeltaType :: string
  DeltaText :: string

record anthropicStreamEvent =
  EventType :: string
  EventDelta :: "anthropicStreamEventDelta option"
  EventMessage :: string

text \<open>
  \<open>ae_read\<close> is the error that reading the body of an answer ends with; the decoders give \<open>Inl\<close> or
  \<open>None\<close> for a text that is not the JSON they expect; \<open>ae_quote\<close> is the verb \<^verbatim>\<open>%q\<close>.
\<close>

record 'w anthropic_env =
  ae_marshal :: "anthropicRequest \<Rightarrow> string + string"
  ae_build :: "string \<Rightarrow> string option"
  ae_do :: "client_request \<Rightarrow> 'w \<Rightarrow> (string + client_response) \<times> 'w"
  ae_read :: "client_response \<Rightarrow> string option"
  ae_error :: "string \<Rightarrow> anthropicError option"
  ae_response :: "string \<Rightarrow> string + anthropicResponse"
  ae_event :: "string \<Rightarrow> anthropicStreamEvent option"
  ae_quote :: "string \<Rightarrow> string"

definition anthropic_request :: "AnthropicConfig \<Rightarrow> string \<Rightarrow> string \<Rightarrow> bool \<Rightarrow> anthropicRequest" where
  "anthropic_request cfg sys user streaming =
     \<lparr>ReqModel = AnthropicModel cfg, ReqMaxTokens = MaxTokens cfg, ReqSystem = sys,
      ReqMessages = [\<lparr>MsgRole = ''user'', MsgContent = user\<rparr>], ReqStream = streaming\<rparr>"

definition messages_post :: "AnthropicConfig \<Rightarrow> (string \<times> string) list \<Rightarrow> string \<Rightarrow> client_request" where
  "messages_post cfg accept body =
     \<lparr>HttpMethod = ''POST'', HttpURL = BaseURL cfg @ ''/v1/messages'',
      HttpHeader = (''Content-Type'', ''application/json'') # accept @
        [(''x-api-key'', APIKey cfg), (''anthropic-version'', ApiVersion cfg)],
      HttpBody = body\<rparr>"

definition status_error :: "'w anthropic_env \<Rightarrow> string \<Rightarrow> client_response \<Rightarrow> llm_error" where
  "status_error env what resp =
     (case ae_error env (ResponseBody resp) of
        Some e \<Rightarrow>
          if ErrMessage e \<noteq> []
          then ProviderError (what @ '': '' @ ErrType e @ '' (status '' @ Itoa (StatusCode resp) @ ''): '' @ ErrMessage e)
          else ProviderError (what @ '': status '' @ Itoa (StatusCode resp) @ '': '' @ ResponseBody resp)
      | None \<Rightarrow> ProviderError (what @ '': status '' @ Itoa (StatusCode resp) @ '': '' @ ResponseBody resp))"

section \<open>A completion\<close>

definition text_blocks :: "anthropicResponse \<Rightarrow> string" where
  "text_blocks out = concat (map BlockText (filter (\<lambda>b. BlockType b = ''text'') (ResContent out)))"

definition failed_call :: "string \<Rightarrow> reply" where
  "failed_call msg = Returned [] (Some (ProviderError msg))"

definition anthropic_reply :: "'w anthropic_env \<Rightarrow> client_response \<Rightarrow> reply" where
  "anthropic_reply env resp =
     (case ae_read env resp of
        Some e \<Rightarrow> failed_call (''anthropic: read response: '' @ e)
      | None \<Rightarrow>
          if StatusCode resp < 200 \<or> StatusCode resp \<ge> 300 then Returned [] (Some (status_error env ''anthropic'' resp))
          else (case ae_response env (ResponseBody resp) of
                  Inl e \<Rightarrow> failed_call (''anthropic: parse response: '' @ e @ ''; body: '' @ ResponseBody resp)
                | Inr out \<Rightarrow>
                    if text_blocks out = []
                    then failed_call (''anthropic: empty content in response (stop_reason='' @ ae_quote env (ResStopReason out) @ '')'')
                    else Returned (text_blocks out) None))"

definition anthropic_Complete :: "'w anthropic_env \<Rightarrow> AnthropicConfig \<Rightarrow> 'w CompleteFunc" where
  "anthropic_Complete env cfg sys user w =
     (case ae_marshal env (anthropic_request cfg sys user False) of
        Inl e \<Rightarrow> (failed_call (''anthropic: marshal request: '' @ e), w)
      | Inr body \<Rightarrow>
          (case ae_build env (BaseURL cfg @ ''/v1/messages'') of
             Some e \<Rightarrow> (failed_call (''anthropic: build request: '' @ e), w)
           | None \<Rightarrow>
               (case ae_do env (messages_post cfg [] body) w of
                  (Inl e, w1) \<Rightarrow> (failed_call (''anthropic: http call: '' @ e), w1)
                | (Inr resp, w1) \<Rightarrow> (anthropic_reply env resp, w1))))"

section \<open>A stream\<close>

text \<open>
  \<^verbatim>\<open>bufio.Scanner\<close> over lines, with a buffer of \<open>limit\<close> bytes: a line that fills it ends the scan with an
  error. The last line need not be terminated; \<open>err\<close> is the error the body ends with.
\<close>

definition scan_limit :: nat where
  "scan_limit = 1024 * 1024"

definition drop_cr :: "string \<Rightarrow> string" where
  "drop_cr line = TrimSuffix line [CHR 0x0D]"

definition scan_lines :: "nat \<Rightarrow> string option \<Rightarrow> string \<Rightarrow> string list \<times> string option" where
  "scan_lines limit err body =
     (let parts = split_byte (CHR 0x0A) body; short = takeWhile (\<lambda>p. length p < limit) parts in
      if length short < length parts then (map drop_cr short, Some ''bufio.Scanner: token too long'')
      else (map drop_cr (if last parts = [] then butlast parts else parts), err))"

definition text_chunk :: "nat \<Rightarrow> string \<Rightarrow> TokenChunk" where
  "text_chunk index t = \<lparr>ChunkText = t, ChunkIndex = int index, ChunkFinal = False, ChunkErr = None\<rparr>"

definition final_chunk :: "nat \<Rightarrow> llm_error option \<Rightarrow> TokenChunk" where
  "final_chunk index err = \<lparr>ChunkText = [], ChunkIndex = int index, ChunkFinal = True, ChunkErr = err\<rparr>"

text \<open>
  The goroutine that reads the body. \<open>cancelled n\<close> tells that the select of the send with index \<open>n\<close>
  takes the end of the context, after which the goroutine returns.
\<close>

fun read_events :: "(string \<Rightarrow> anthropicStreamEvent option) \<Rightarrow> (nat \<Rightarrow> bool) \<Rightarrow> string option \<Rightarrow> nat \<Rightarrow> string list \<Rightarrow> TokenChunk list" where
  "read_events decode cancelled err n [] =
     (case err of
        None \<Rightarrow> []
      | Some e \<Rightarrow> if cancelled n then [] else [final_chunk n (Some (ProviderError (''anthropic stream: read: '' @ e)))])"
| "read_events decode cancelled err n (line # lines) =
     (if \<not> HasPrefix line ''data:'' then read_events decode cancelled err n lines
      else (let payload = TrimSpace (TrimPrefix line ''data:'') in
        if payload = [] \<or> payload = ''[DONE]'' then read_events decode cancelled err n lines
        else (case decode payload of
                None \<Rightarrow> read_events decode cancelled err n lines
              | Some ev \<Rightarrow>
                  if EventType ev = ''content_block_delta'' then
                    (case EventDelta ev of
                       None \<Rightarrow> read_events decode cancelled err n lines
                     | Some d \<Rightarrow>
                         if DeltaType d = ''text_delta'' \<and> DeltaText d \<noteq> [] then
                           (if cancelled n then []
                            else text_chunk n (DeltaText d) # read_events decode cancelled err (n + 1) lines)
                         else read_events decode cancelled err n lines)
                  else if EventType ev = ''message_stop'' then (if cancelled n then [] else [final_chunk n None])
                  else if EventType ev = ''error'' then
                    (let msg = (if EventMessage ev \<noteq> [] then EventMessage ev else ''unknown stream error'')
                     in if cancelled n then [] else [final_chunk n (Some (ProviderError (''anthropic stream: '' @ msg)))])
                  else read_events decode cancelled err n lines)))"

definition stream_chunks :: "'w anthropic_env \<Rightarrow> (nat \<Rightarrow> bool) \<Rightarrow> client_response \<Rightarrow> TokenChunk list" where
  "stream_chunks env cancelled resp =
     (case scan_lines scan_limit (ae_read env resp) (ResponseBody resp) of
        (lines, err) \<Rightarrow> read_events (ae_event env) cancelled err 0 lines)"

definition CompleteStream :: "'w anthropic_env \<Rightarrow> ('w \<Rightarrow> nat \<Rightarrow> bool) \<Rightarrow> AnthropicConfig \<Rightarrow> 'w CompleteStreamFunc" where
  "CompleteStream env cancelled cfg sys user w =
     (case ae_marshal env (anthropic_request cfg sys user True) of
        Inl e \<Rightarrow> (StreamError (ProviderError (''anthropic stream: marshal request: '' @ e)), w)
      | Inr body \<Rightarrow>
          (case ae_build env (BaseURL cfg @ ''/v1/messages'') of
             Some e \<Rightarrow> (StreamError (ProviderError (''anthropic stream: build request: '' @ e)), w)
           | None \<Rightarrow>
               (case ae_do env (messages_post cfg [(''Accept'', ''text/event-stream'')] body) w of
                  (Inl e, w1) \<Rightarrow> (StreamError (ProviderError (''anthropic stream: http call: '' @ e)), w1)
                | (Inr resp, w1) \<Rightarrow>
                    if StatusCode resp < 200 \<or> StatusCode resp \<ge> 300
                    then (StreamError (status_error env ''anthropic stream'' resp), w1)
                    else (Stream (Some (stream_chunks env (cancelled w1) resp)), w1))))"

section \<open>The command line client\<close>

record ClaudeCodeConfig =
  CCBinary :: string
  CCModel :: string
  CCPermissionMode :: string
  CCMaxTurns :: int
  CCExtraArgs :: "string list"

definition NewClaudeCodeClient :: "ClaudeCodeConfig \<Rightarrow> ClaudeCodeConfig" where
  "NewClaudeCodeClient cfg =
     (let cfg1 = (if CCBinary cfg = [] then cfg\<lparr>CCBinary := ''claude''\<rparr> else cfg);
          cfg2 = (if CCPermissionMode cfg1 = [] then cfg1\<lparr>CCPermissionMode := ''bypassPermissions''\<rparr> else cfg1)
      in if CCMaxTurns cfg2 = 0 then cfg2\<lparr>CCMaxTurns := 1\<rparr> else cfg2)"

record claudeCodePrintResponse =
  PrintIsError :: bool
  PrintResult :: string

text \<open>\<open>ce_run\<close> runs a binary with arguments: the error of the process, its output and its error output.\<close>

record 'w claude_env =
  ce_run :: "string \<Rightarrow> string list \<Rightarrow> 'w \<Rightarrow> (string option \<times> string \<times> string) \<times> 'w"
  ce_decode :: "string \<Rightarrow> string + claudeCodePrintResponse"

definition claude_args :: "ClaudeCodeConfig \<Rightarrow> string \<Rightarrow> string \<Rightarrow> string list" where
  "claude_args cfg sys user =
     [''-p'', user, ''--output-format'', ''json'', ''--permission-mode'', CCPermissionMode cfg,
      ''--max-turns'', Itoa (CCMaxTurns cfg)] @
     (if sys \<noteq> [] then [''--append-system-prompt'', sys] else []) @
     (if CCModel cfg \<noteq> [] then [''--model'', CCModel cfg] else []) @ CCExtraArgs cfg"

definition claude_reply :: "'w claude_env \<Rightarrow> string \<Rightarrow> string \<Rightarrow> reply" where
  "claude_reply env out stderr =
     (if out = [] then failed_call (''claude-code: empty output; stderr: '' @ stderr)
      else (case ce_decode env out of
              Inl e \<Rightarrow> failed_call (''claude-code: parse JSON: '' @ e @ ''; raw: '' @ out)
            | Inr parsed \<Rightarrow>
                if PrintIsError parsed then failed_call (''claude-code: CLI reported error: '' @ PrintResult parsed)
                else if PrintResult parsed = [] then failed_call (''claude-code: empty result field; raw: '' @ out)
                else Returned (PrintResult parsed) None))"

definition claude_Complete :: "'w claude_env \<Rightarrow> ClaudeCodeConfig \<Rightarrow> 'w CompleteFunc" where
  "claude_Complete env cfg sys user w =
     (if user = [] then (failed_call ''claude-code: empty user message'', w)
      else (case ce_run env (CCBinary cfg) (claude_args cfg sys user) w of
              ((Some e, out, stderr), w1) \<Rightarrow>
                (failed_call (''claude-code: '' @ CCBinary cfg @ '' failed: '' @ e @ ''; stderr: '' @ stderr), w1)
            | ((None, out, stderr), w1) \<Rightarrow> (claude_reply env out stderr, w1)))"


section \<open>What a stream is read as\<close>

definition delta_text :: "anthropicStreamEvent \<Rightarrow> string" where
  "delta_text ev =
     (case EventDelta ev of
        Some d \<Rightarrow> if EventType ev = ''content_block_delta'' \<and> DeltaType d = ''text_delta'' then DeltaText d else []
      | None \<Rightarrow> [])"

definition ends_stream :: "anthropicStreamEvent \<Rightarrow> bool" where
  "ends_stream ev \<longleftrightarrow> EventType ev = ''message_stop'' \<or> EventType ev = ''error''"

text \<open>The error of a stream: that of its first closing event, or else that of reading the body.\<close>

definition end_error :: "anthropicStreamEvent list \<Rightarrow> string option \<Rightarrow> llm_error option" where
  "end_error evs err =
     (case dropWhile (\<lambda>ev. \<not> ends_stream ev) evs of
        [] \<Rightarrow> map_option (\<lambda>e. ProviderError (''anthropic stream: read: '' @ e)) err
      | ev # _ \<Rightarrow>
          if EventType ev = ''message_stop'' then None
          else Some (ProviderError (''anthropic stream: '' @ (if EventMessage ev \<noteq> [] then EventMessage ev else ''unknown stream error''))))"

text \<open>How the API frames an event, with \<open>enc\<close> the JSON of its payload, and the lines of the frame.\<close>

definition sse_lines :: "(anthropicStreamEvent \<Rightarrow> string) \<Rightarrow> anthropicStreamEvent \<Rightarrow> string list" where
  "sse_lines enc ev = [''event: '' @ EventType ev, ''data: '' @ enc ev, []]"

definition sse_body :: "(anthropicStreamEvent \<Rightarrow> string) \<Rightarrow> anthropicStreamEvent list \<Rightarrow> string" where
  "sse_body enc evs = concat (map (\<lambda>l. l @ [CHR 0x0A]) (concat (map (sse_lines enc) evs)))"

text \<open>A payload that fits a line: JSON on one line without blanks around it, which decodes to its event.\<close>

definition frame_ok :: "nat \<Rightarrow> (string \<Rightarrow> anthropicStreamEvent option) \<Rightarrow> (anthropicStreamEvent \<Rightarrow> string) \<Rightarrow>
    anthropicStreamEvent \<Rightarrow> bool" where
  "frame_ok limit decode enc ev \<longleftrightarrow>
     CHR 0x0A \<notin> set (EventType ev) \<and> CHR 0x0A \<notin> set (enc ev) \<and> trimmed (enc ev) \<and>
     enc ev \<noteq> [] \<and> enc ev \<noteq> ''[DONE]'' \<and> length (EventType ev) + 7 < limit \<and> length (enc ev) + 6 < limit \<and>
     decode (enc ev) = Some ev"

lemma split_byte_lines:
  assumes "list_all (\<lambda>l. c \<notin> set l) ls"
  shows "split_byte c (concat (map (\<lambda>l. l @ [c]) ls)) = ls @ [[]]"
  using assms
proof (induction ls)
  case (Cons l ls)
  have "split_byte c (l @ c # concat (map (\<lambda>l. l @ [c]) ls)) = split_byte c l @ split_byte c (concat (map (\<lambda>l. l @ [c]) ls))"
    by (rule split_byte_append)
  with Cons show ?case by (simp add: split_byte_none)
qed simp

lemma scan_lines_terminated:
  assumes "list_all (\<lambda>l. CHR 0x0A \<notin> set l \<and> length l < limit) ls" "0 < limit"
  shows "scan_lines limit err (concat (map (\<lambda>l. l @ [CHR 0x0A]) ls)) = (map drop_cr ls, err)"
proof -
  have "split_byte (CHR 0x0A) (concat (map (\<lambda>l. l @ [CHR 0x0A]) ls)) = ls @ [[]]"
    using assms(1) by (intro split_byte_lines) (simp add: list_all_iff)
  moreover have "takeWhile (\<lambda>p. length p < limit) (ls @ [[]]) = ls @ [[]]"
    using assms by (simp add: takeWhile_eq_all_conv list_all_iff)
  ultimately show ?thesis by (simp add: scan_lines_def)
qed

lemma drop_cr_data:
  assumes "trimmed s" "s \<noteq> []"
  shows "drop_cr (''data: '' @ s) = ''data: '' @ s"
proof -
  have "\<not> HasSuffix (''data: '' @ s) [CHR 0x0D]"
  proof
    assume "HasSuffix (''data: '' @ s) [CHR 0x0D]"
    then obtain r where "''data: '' @ s = r @ [CHR 0x0D]" unfolding HasSuffix_iff by blast
    then have "last (''data: '' @ s) = CHR 0x0D" by simp
    then have l: "last s = CHR 0x0D" using assms(2) by simp
    then obtain q where "s = q @ [CHR 0x0D]" using assms(2) by (metis append_butlast_last_id)
    then have "rev s = [CHR 0x0D] @ rev q" by simp
    then show False using assms(1) by (simp add: trimmed_def front_free_def space_encodings_def HasPrefix_iff)
  qed
  then show ?thesis by (simp add: drop_cr_def TrimSuffix_none)
qed

lemma drop_cr_event: "\<exists>y. drop_cr (''event: '' @ x) = ''event: '' @ y"
proof (cases "HasSuffix x [CHR 0x0D]")
  case True
  then obtain y where "x = y @ [CHR 0x0D]" unfolding HasSuffix_iff by blast
  then have "drop_cr (''event: '' @ x) = ''event: '' @ y"
    using TrimSuffix_append [of "''event: '' @ y" "[CHR 0x0D]"] by (simp add: drop_cr_def)
  then show ?thesis by blast
next
  case False
  have "\<not> HasSuffix (''event: '' @ x) [CHR 0x0D]"
    using False by (cases x rule: rev_cases) (auto simp: HasSuffix_iff)
  then have "drop_cr (''event: '' @ x) = ''event: '' @ x" by (simp add: drop_cr_def TrimSuffix_none)
  then show ?thesis by blast
qed

lemma TrimSpace_payload:
  assumes "trimmed s"
  shows "TrimSpace (TrimPrefix (''data: '' @ s) ''data:'') = s"
proof -
  have "TrimPrefix (''data: '' @ s) ''data:'' = CHR 0x20 # s"
    using TrimPrefix_append [of "''data:''" "CHR 0x20 # s"] by simp
  then show ?thesis using assms by (simp add: TrimSpace_blank)
qed

lemma read_events_frames:
  assumes "list_all (frame_ok limit decode enc) evs"
  shows "stream_text (read_events decode (\<lambda>_. False) err n (concat (map (sse_lines enc) evs))) =
      concat (map delta_text (takeWhile (\<lambda>ev. \<not> ends_stream ev) evs)) \<and>
    stream_error (read_events decode (\<lambda>_. False) err n (concat (map (sse_lines enc) evs))) = end_error evs err"
  using assms
proof (induction evs arbitrary: n)
  case Nil
  then show ?case by (simp add: end_error_def final_chunk_def split: option.split)
next
  case (Cons ev evs)
  have ok: "frame_ok limit decode enc ev" and rest: "list_all (frame_ok limit decode enc) evs" using Cons.prems by simp_all
  have nodata: "\<not> HasPrefix (''event: '' @ EventType ev) ''data:''" "\<not> HasPrefix [] ''data:''"
    by (simp_all add: HasPrefix_iff)
  have data: "HasPrefix (''data: '' @ enc ev) ''data:''" using HasPrefix_append [of "''data:''" "'' '' @ enc ev"] by simp
  have payload: "TrimSpace (TrimPrefix (''data: '' @ enc ev) ''data:'') = enc ev"
    using ok by (intro TrimSpace_payload) (simp add: frame_ok_def)
  have step: "read_events decode (\<lambda>_. False) err n (concat (map (sse_lines enc) (ev # evs))) =
    (let go = (\<lambda>m. read_events decode (\<lambda>_. False) err m (concat (map (sse_lines enc) evs))) in
     if delta_text ev \<noteq> [] then text_chunk n (delta_text ev) # go (n + 1)
     else if EventType ev = ''message_stop'' then [final_chunk n None]
     else if EventType ev = ''error'' then [final_chunk n (end_error (ev # evs) err)]
     else go n)"
    using ok nodata data payload
    by (auto simp: sse_lines_def frame_ok_def delta_text_def end_error_def ends_stream_def Let_def split: option.split)
  show ?case
    unfolding step
    using Cons.IH [OF rest]
    by (auto simp: Let_def text_chunk_def final_chunk_def ends_stream_def end_error_def delta_text_def split: option.splits if_splits)
qed



lemma read_events_frame:
  "read_events decode cancelled err n ((''event: '' @ x) # d # [] # lines) = read_events decode cancelled err n (d # lines)"
  by (simp add: HasPrefix_iff Let_def split: option.split)

lemma read_events_cong:
  assumes "\<And>m. read_events decode cancelled err m l1 = read_events decode cancelled err m l2"
  shows "read_events decode cancelled err n (d # l1) = read_events decode cancelled err n (d # l2)"
  by (simp add: assms Let_def split: option.split)

lemma stream_chunks_frames:
  assumes "list_all (frame_ok scan_limit (ae_event env) enc) evs" "ResponseBody resp = sse_body enc evs"
  shows "stream_text (stream_chunks env (\<lambda>_. False) resp) = concat (map delta_text (takeWhile (\<lambda>ev. \<not> ends_stream ev) evs)) \<and>
    stream_error (stream_chunks env (\<lambda>_. False) resp) = end_error evs (ae_read env resp)"
proof -
  let ?ls = "concat (map (sse_lines enc) evs)"
  have short: "list_all (\<lambda>l. CHR 0x0A \<notin> set l \<and> length l < scan_limit) ?ls"
    using assms(1) by (auto simp: list_all_iff frame_ok_def sse_lines_def scan_limit_def)
  have "scan_lines scan_limit (ae_read env resp) (ResponseBody resp) = (map drop_cr ?ls, ae_read env resp)"
    unfolding assms(2) sse_body_def by (rule scan_lines_terminated [OF short]) (simp add: scan_limit_def)
  moreover have "read_events (ae_event env) (\<lambda>_. False) err n (map drop_cr ?ls) =
      read_events (ae_event env) (\<lambda>_. False) err n ?ls" for err n
    using assms(1)
  proof (induction evs arbitrary: n)
    case (Cons ev evs)
    have data: "drop_cr (''data: '' @ enc ev) = ''data: '' @ enc ev"
      using Cons.prems by (intro drop_cr_data) (simp_all add: frame_ok_def)
    obtain x where x: "drop_cr (''event: '' @ EventType ev) = ''event: '' @ x" using drop_cr_event by blast
    have blank: "drop_cr [] = []" by (simp add: drop_cr_def TrimSuffix_none HasSuffix_iff)
    have IH: "read_events (ae_event env) (\<lambda>_. False) err m (map drop_cr (concat (map (sse_lines enc) evs))) =
        read_events (ae_event env) (\<lambda>_. False) err m (concat (map (sse_lines enc) evs))" for m
      using Cons.IH Cons.prems by simp
    have lines: "map drop_cr (concat (map (sse_lines enc) (ev # evs))) =
        (''event: '' @ x) # (''data: '' @ enc ev) # [] # map drop_cr (concat (map (sse_lines enc) evs))"
      by (simp add: sse_lines_def x data blank del: append_Cons append_Nil)
    have lines': "concat (map (sse_lines enc) (ev # evs)) =
        (''event: '' @ EventType ev) # (''data: '' @ enc ev) # [] # concat (map (sse_lines enc) evs)"
      by (simp add: sse_lines_def)
    show ?case
      unfolding lines unfolding lines' read_events_frame by (rule read_events_cong) (rule IH)
  qed simp
  ultimately show ?thesis
    using read_events_frames [OF assms(1), of "ae_read env resp" 0] by (simp add: stream_chunks_def)
qed

section \<open>Properties\<close>

text \<open>
  C33: what the API streams is what an activity gets: when the body of a successful answer is a sequence of
  events in the framing of the API, one JSON text a line, then an activity that calls the streaming
  client returns the concatenation of the text deltas before the first closing event, with the error
  of that event, or of reading the body when there is none; every delta was published.
\<close>

theorem anthropic_stream_roundtrip:
  assumes "broker_ok b" "ae_marshal env (anthropic_request cfg sys user True) = Inr body" "ae_build env (BaseURL cfg @ ''/v1/messages'') = None"
    and "ae_do env (messages_post cfg [(''Accept'', ''text/event-stream'')] body) w = (Inr resp, w1)"
    and "200 \<le> StatusCode resp" "StatusCode resp < 300"
    and "ResponseBody resp = sse_body enc evs" "list_all (frame_ok scan_limit (ae_event env) enc) evs"
  shows "\<exists>b' chunks. CompleteWithStreaming ctx (Some (CompleteStream env (\<lambda>_ _. False) cfg)) fallback sys user callID (b, w) =
      (Returned (concat (map delta_text (takeWhile (\<lambda>ev. \<not> ends_stream ev) evs))) (end_error evs (ae_read env resp)), b', w1) \<and>
    publish_all (sent (context_emitter ctx) (stream_events callID chunks)) b = (None, b') \<and>
    stream_text chunks = concat (map delta_text (takeWhile (\<lambda>ev. \<not> ends_stream ev) evs))"
proof -
  let ?chunks = "stream_chunks env (\<lambda>_. False) resp"
  have stream: "CompleteStream env (\<lambda>_ _. False) cfg sys user w = (Stream (Some ?chunks), w1)"
    using assms(2-6) by (simp add: CompleteStream_def)
  obtain b' where b': "publish_all (sent (context_emitter ctx) (stream_events callID ?chunks)) b = (None, b')"
    using publish_all_ok [OF assms(1)] by blast
  have "CollectStream (Some ?chunks) (Some (context_emitter ctx)) callID b = (Returned (stream_text ?chunks) (stream_error ?chunks), b')"
    by (simp add: CollectStream_def collect_chunks_eq b')
  then have "CompleteWithStreaming ctx (Some (CompleteStream env (\<lambda>_ _. False) cfg)) fallback sys user callID (b, w) =
      (Returned (stream_text ?chunks) (stream_error ?chunks), b', w1)"
    by (simp add: CompleteWithStreaming_def stream)
  with stream_chunks_frames [OF assms(8,7)] b' show ?thesis by auto
qed

text \<open>
  So a body that just ends, as when the connection is closed before the closing event, gives the text so
  far as a complete reply.
\<close>

lemma cut_stream_is_complete:
  assumes "\<forall>ev\<in>set evs. \<not> ends_stream ev" "ResponseBody resp = sse_body enc evs" "ae_read env resp = None"
    and "list_all (frame_ok scan_limit (ae_event env) enc) evs"
  shows "stream_error (stream_chunks env (\<lambda>_. False) resp) = None \<and>
    stream_text (stream_chunks env (\<lambda>_. False) resp) = concat (map delta_text evs)"
proof -
  have "takeWhile (\<lambda>ev. \<not> ends_stream ev) evs = evs" "dropWhile (\<lambda>ev. \<not> ends_stream ev) evs = []"
    using assms(1) by (simp_all add: takeWhile_eq_all_conv dropWhile_eq_Nil_conv)
  with stream_chunks_frames [OF assms(4,2)] assms(3) show ?thesis by (simp add: end_error_def)
qed

text \<open>A reply without error is the non-empty text of a successful answer to the one request that was made.\<close>

lemma anthropic_Complete_Returned:
  assumes "anthropic_Complete env cfg sys user w = (Returned out None, w')"
  shows "\<exists>body resp res. ae_marshal env (anthropic_request cfg sys user False) = Inr body \<and>
    ae_do env (messages_post cfg [] body) w = (Inr resp, w') \<and> 200 \<le> StatusCode resp \<and> StatusCode resp < 300 \<and>
    ae_response env (ResponseBody resp) = Inr res \<and> out = text_blocks res \<and> out \<noteq> []"
  using assms
  by (auto simp: anthropic_Complete_def anthropic_reply_def failed_call_def split: sum.splits option.splits prod.splits if_splits)

text \<open>The configuration of a client is complete: a key, a positive number of tokens and no other default left open.\<close>

lemma NewAnthropicClient_Inr:
  assumes "NewAnthropicClient getenv cfg = Inr c"
  shows "APIKey c = (if APIKey cfg = [] then getenv else APIKey cfg) \<and> APIKey c \<noteq> []"
    "AnthropicModel c \<noteq> [] \<and> MaxTokens c > 0 \<and> BaseURL c \<noteq> [] \<and> ApiVersion c \<noteq> []"
proof -
  have defaults: "APIKey (anthropic_defaults d) = APIKey d" "AnthropicModel (anthropic_defaults d) \<noteq> []"
    "MaxTokens (anthropic_defaults d) > 0" "BaseURL (anthropic_defaults d) \<noteq> []" "ApiVersion (anthropic_defaults d) \<noteq> []" for d
    by (simp_all add: anthropic_defaults_def Let_def)
  obtain d where d: "c = anthropic_defaults d" "APIKey d = (if APIKey cfg = [] then getenv else APIKey cfg)" "APIKey d \<noteq> []"
    using assms by (auto simp: NewAnthropicClient_def Let_def split: if_split_asm)
  show "APIKey c = (if APIKey cfg = [] then getenv else APIKey cfg) \<and> APIKey c \<noteq> []"
    using d defaults(1) [of d] by simp
  show "AnthropicModel c \<noteq> [] \<and> MaxTokens c > 0 \<and> BaseURL c \<noteq> [] \<and> ApiVersion c \<noteq> []"
    unfolding d(1) using defaults(2-5) [of d] by blast
qed

lemma claude_Complete_Returned:
  assumes "claude_Complete env cfg sys user w = (Returned out None, w')"
  shows "user \<noteq> [] \<and> out \<noteq> [] \<and> (\<exists>text stderr. ce_run env (CCBinary cfg) (claude_args cfg sys user) w = ((None, text, stderr), w') \<and>
    ce_decode env text = Inr \<lparr>PrintIsError = False, PrintResult = out\<rparr>)"
  using assms
  by (auto simp: claude_Complete_def claude_reply_def failed_call_def split: sum.splits option.splits prod.splits if_splits)

text \<open>A model that streams two deltas with other events between, encoded by their text.\<close>

definition demo_delta :: "string \<Rightarrow> anthropicStreamEvent" where
  "demo_delta t = \<lparr>EventType = ''content_block_delta'', EventDelta = Some \<lparr>DeltaType = ''text_delta'', DeltaText = t\<rparr>, EventMessage = []\<rparr>"

definition demo_event :: "string \<Rightarrow> anthropicStreamEvent" where
  "demo_event k = \<lparr>EventType = k, EventDelta = None, EventMessage = []\<rparr>"

definition demo_enc :: "anthropicStreamEvent \<Rightarrow> string" where
  "demo_enc ev = (if EventDelta ev = None then ''{'' @ EventType ev @ ''}'' else ''['' @ delta_text ev @ '']'')"

definition demo_decode :: "string \<Rightarrow> anthropicStreamEvent option" where
  "demo_decode s = (case s of [] \<Rightarrow> None | c # cs \<Rightarrow>
     if c = CHR ''['' then Some (demo_delta (butlast cs)) else Some (demo_event (butlast cs)))"

definition demo_stream :: "anthropicStreamEvent list" where
  "demo_stream = [demo_event ''message_start'', demo_delta ''Hel'', demo_event ''ping'', demo_delta ''lo'', demo_event ''message_stop'', demo_delta ''!'']"

definition demo_anthropic :: "nat anthropic_env" where
  "demo_anthropic = \<lparr>ae_marshal = (\<lambda>r. Inr (ReqSystem r)), ae_build = (\<lambda>u. None),
     ae_do = (\<lambda>q w. (Inr \<lparr>StatusCode = 200, ResponseBody = sse_body demo_enc demo_stream\<rparr>, w + 1)), ae_read = (\<lambda>r. None),
     ae_error = (\<lambda>b. None), ae_response = (\<lambda>b. Inl ''no JSON''), ae_event = demo_decode, ae_quote = (\<lambda>s. s)\<rparr>"

definition demo_key :: AnthropicConfig where
  "demo_key = \<lparr>APIKey = ''k'', AnthropicModel = ''m'', MaxTokens = 9, BaseURL = ''http://a'', ApiVersion = ''v''\<rparr>"

theorem anthropic_stream_roundtrip_witness:
  "\<exists>b'. CompleteWithStreaming demo_listening (Some (CompleteStream demo_anthropic (\<lambda>_ _. False) demo_key)) None ''s'' ''u'' ''c''
      (broker demo_listener, 0) = (Returned ''Hello'' None, b', 1)"
proof -
  have ok: "broker_ok (broker demo_listener)"
    by (rule session_broker_ok [OF demo_listener_simps(1,3)])
  have frames: "list_all (frame_ok scan_limit (ae_event demo_anthropic) demo_enc) demo_stream"
    by (simp add: demo_stream_def frame_ok_def demo_enc_def demo_event_def demo_delta_def delta_text_def demo_anthropic_def
        demo_decode_def scan_limit_def trimmed_ends space_encodings_def)
  have run: "ae_marshal demo_anthropic (anthropic_request demo_key ''s'' ''u'' True) = Inr ''s''"
      "ae_build demo_anthropic (BaseURL demo_key @ ''/v1/messages'') = None"
      "ae_do demo_anthropic (messages_post demo_key [(''Accept'', ''text/event-stream'')] ''s'') 0 =
        (Inr \<lparr>StatusCode = 200, ResponseBody = sse_body demo_enc demo_stream\<rparr>, 1)"
    by (simp_all add: demo_anthropic_def anthropic_request_def)
  have hello: "concat (map delta_text (takeWhile (\<lambda>ev. \<not> ends_stream ev) demo_stream)) = ''Hello''"
      "end_error demo_stream None = None"
    by (simp_all add: demo_stream_def ends_stream_def demo_event_def demo_delta_def delta_text_def end_error_def)
  have no_error: "ae_read demo_anthropic r = None" for r by (simp add: demo_anthropic_def)
  from anthropic_stream_roundtrip [OF ok run _ _ _ frames, where ctx = demo_listening and fallback = None and callID = "''c''"]
  show ?thesis by (auto simp: hello no_error)
qed

end
