(* ===== verification/Metrics.thy ===== *)
theory Metrics
  imports Completion
begin

text \<open>
  Package agent, file \<^verbatim>\<open>metrics.go\<close>: the Prometheus collectors, the helpers that observe them and the
  metering middleware.

  The Prometheus library is outside: what it is told is a sequence of observations, and its documented
  rules are that the label values of an observation match the labels of the collector in number, that a
  counter is only added to, and that no name is registered twice; it panics otherwise. A counter's
  value and a histogram's number of samples are those of the observations made.
\<close>

section \<open>Collectors\<close>

datatype collector =
    llmCalls | llmDuration | llmTokens | toolCalls | toolDuration | cacheOps
  | workflowRuns | workflowDur | brokerEvents | brokerSubs

text \<open>The buckets of a histogram are exponential: the first bound in milliseconds, the factor, the number.\<close>

datatype collector_kind = CounterVec | HistogramVec int int nat | Gauge

record collector_opts =
  OptName :: string
  OptKind :: collector_kind
  OptLabels :: "string list"

fun opts_of :: "collector \<Rightarrow> collector_opts" where
  "opts_of llmCalls = \<lparr>OptName = ''sibyl_llm_calls_total'', OptKind = CounterVec, OptLabels = [''backend'', ''status'']\<rparr>"
| "opts_of llmDuration = \<lparr>OptName = ''sibyl_llm_duration_seconds'', OptKind = HistogramVec 100 2 10, OptLabels = [''backend'', ''status'']\<rparr>"
| "opts_of llmTokens = \<lparr>OptName = ''sibyl_llm_tokens_total'', OptKind = CounterVec, OptLabels = [''direction'']\<rparr>"
| "opts_of toolCalls = \<lparr>OptName = ''sibyl_tool_invocations_total'', OptKind = CounterVec, OptLabels = [''tool_name'', ''status'']\<rparr>"
| "opts_of toolDuration = \<lparr>OptName = ''sibyl_tool_duration_seconds'', OptKind = HistogramVec 10 2 12, OptLabels = [''tool_name'', ''status'']\<rparr>"
| "opts_of cacheOps = \<lparr>OptName = ''sibyl_cache_operations_total'', OptKind = CounterVec, OptLabels = [''result'']\<rparr>"
| "opts_of workflowRuns = \<lparr>OptName = ''sibyl_workflow_executions_total'', OptKind = CounterVec, OptLabels = [''workflow_type'', ''status'']\<rparr>"
| "opts_of workflowDur = \<lparr>OptName = ''sibyl_workflow_duration_seconds'', OptKind = HistogramVec 500 2 12, OptLabels = [''workflow_type'', ''status'']\<rparr>"
| "opts_of brokerEvents = \<lparr>OptName = ''sibyl_broker_events_total'', OptKind = CounterVec, OptLabels = [''result'']\<rparr>"
| "opts_of brokerSubs = \<lparr>OptName = ''sibyl_broker_subscribers'', OptKind = Gauge, OptLabels = []\<rparr>"

text \<open>The registry: the names registered. \<open>None\<close> is the panic of \<^verbatim>\<open>MustRegister\<close> on a duplicate.\<close>

fun MustRegister_all :: "string list \<Rightarrow> string list \<Rightarrow> string list option" where
  "MustRegister_all [] names = Some names"
| "MustRegister_all (n # ns) names = (if n \<in> set names then None else MustRegister_all ns (names @ [n]))"

definition metrics_collectors :: "collector list" where
  "metrics_collectors = [llmCalls, llmDuration, llmTokens, toolCalls, toolDuration, cacheOps, workflowRuns, workflowDur,
     brokerEvents, brokerSubs]"

text \<open>\<open>runtime_names\<close> are the names of the Go and process collectors of the library.\<close>

definition NewMetrics :: "string list \<Rightarrow> string list option" where
  "NewMetrics runtime_names =
     (case MustRegister_all (map (OptName \<circ> opts_of) metrics_collectors) [] of
        None \<Rightarrow> None | Some names \<Rightarrow> MustRegister_all runtime_names names)"

section \<open>Observations\<close>

datatype observation =
    ObsInc collector "string list"
  | ObsAdd collector "string list" int
  | ObsObserve collector "string list" int
  | ObsSet collector int

text \<open>\<open>emit\<close> tells the library; a nil \<^verbatim>\<open>*Metrics\<close> is \<open>None\<close>. Durations are nanoseconds.\<close>

type_synonym 's meter = "(observation \<Rightarrow> 's \<Rightarrow> 's) option"

definition observe_call :: "'s meter \<Rightarrow> collector \<Rightarrow> collector \<Rightarrow> string \<Rightarrow> string \<Rightarrow> int \<Rightarrow> 's \<Rightarrow> 's" where
  "observe_call m counter histogram what status duration s =
     (case m of
        None \<Rightarrow> s
      | Some emit \<Rightarrow> emit (ObsObserve histogram [what, status] duration) (emit (ObsInc counter [what, status]) s))"

definition ObserveLLMCall :: "'s meter \<Rightarrow> string \<Rightarrow> string \<Rightarrow> int \<Rightarrow> 's \<Rightarrow> 's" where
  "ObserveLLMCall m backend status duration = observe_call m llmCalls llmDuration backend status duration"

definition ObserveLLMTokens :: "'s meter \<Rightarrow> int \<Rightarrow> int \<Rightarrow> 's \<Rightarrow> 's" where
  "ObserveLLMTokens m inp out s =
     (case m of
        None \<Rightarrow> s
      | Some emit \<Rightarrow>
          (let s1 = (if inp > 0 then emit (ObsAdd llmTokens [''input''] inp) s else s)
           in if out > 0 then emit (ObsAdd llmTokens [''output''] out) s1 else s1))"

definition ObserveToolCall :: "'s meter \<Rightarrow> string \<Rightarrow> string \<Rightarrow> int \<Rightarrow> 's \<Rightarrow> 's" where
  "ObserveToolCall m toolName status duration = observe_call m toolCalls toolDuration toolName status duration"

definition ObserveCacheOperation :: "'s meter \<Rightarrow> string \<Rightarrow> 's \<Rightarrow> 's" where
  "ObserveCacheOperation m result s = (case m of None \<Rightarrow> s | Some emit \<Rightarrow> emit (ObsInc cacheOps [result]) s)"

definition ObserveWorkflow :: "'s meter \<Rightarrow> string \<Rightarrow> string \<Rightarrow> int \<Rightarrow> 's \<Rightarrow> 's" where
  "ObserveWorkflow m workflowType status duration = observe_call m workflowRuns workflowDur workflowType status duration"

definition ObserveBrokerEvent :: "'s meter \<Rightarrow> string \<Rightarrow> 's \<Rightarrow> 's" where
  "ObserveBrokerEvent m result s = (case m of None \<Rightarrow> s | Some emit \<Rightarrow> emit (ObsInc brokerEvents [result]) s)"

definition SetBrokerSubscribers :: "'s meter \<Rightarrow> int \<Rightarrow> 's \<Rightarrow> 's" where
  "SetBrokerSubscribers m n s = (case m of None \<Rightarrow> s | Some emit \<Rightarrow> emit (ObsSet brokerSubs n) s)"

definition WithMetrics :: "'s meter \<Rightarrow> ('s \<Rightarrow> int) \<Rightarrow> string \<Rightarrow> 's Middleware" where
  "WithMetrics m now backend nxt sys user s =
     (let start = now s in
      case nxt sys user s of
        (Panicked p, s1) \<Rightarrow> (Panicked p, s1)
      | (Returned out err, s1) \<Rightarrow>
          (let dur = now s1 - start; status = (if err \<noteq> None then ''error'' else ''success'') in
           (Returned out err,
            ObserveLLMTokens m (approxTokens sys + approxTokens user) (approxTokens out)
              (ObserveLLMCall m backend status dur s1))))"

section \<open>What the library makes of observations\<close>

text \<open>Observations that do not panic.\<close>

fun observation_ok :: "observation \<Rightarrow> bool" where
  "observation_ok (ObsInc c ls) \<longleftrightarrow> OptKind (opts_of c) = CounterVec \<and> length ls = length (OptLabels (opts_of c))"
| "observation_ok (ObsAdd c ls n) \<longleftrightarrow>
     OptKind (opts_of c) = CounterVec \<and> length ls = length (OptLabels (opts_of c)) \<and> n \<ge> 0"
| "observation_ok (ObsObserve c ls d) \<longleftrightarrow>
     (case OptKind (opts_of c) of HistogramVec a b n \<Rightarrow> length ls = length (OptLabels (opts_of c)) | _ \<Rightarrow> False)"
| "observation_ok (ObsSet c n) \<longleftrightarrow> OptKind (opts_of c) = Gauge"

fun added :: "collector \<Rightarrow> string list \<Rightarrow> observation \<Rightarrow> int" where
  "added c ls (ObsInc c' ls') = (if c' = c \<and> ls' = ls then 1 else 0)"
| "added c ls (ObsAdd c' ls' n) = (if c' = c \<and> ls' = ls then n else 0)"
| "added c ls (ObsObserve c' ls' d) = (if c' = c \<and> ls' = ls then 1 else 0)"
| "added c ls (ObsSet c' n) = 0"

text \<open>The value of a counter, or the number of samples of a histogram, after some observations.\<close>

definition total_of :: "observation list \<Rightarrow> collector \<Rightarrow> string list \<Rightarrow> int" where
  "total_of obs c ls = sum_list (map (added c ls) obs)"

lemma total_of_simps [simp]:
  "total_of [] c ls = 0" "total_of (xs @ ys) c ls = total_of xs c ls + total_of ys c ls"
  "total_of (x # xs) c ls = added c ls x + total_of xs c ls"
  by (simp_all add: total_of_def)

text \<open>The registration succeeds: no name occurs twice and none is one of the runtime's.\<close>

lemma MustRegister_all_Some:
  "distinct (names @ ns) \<Longrightarrow> MustRegister_all ns names = Some (names @ ns)"
  by (induction ns arbitrary: names) auto

lemma NewMetrics_registers:
  assumes "distinct runtime" "\<forall>n\<in>set runtime. \<not> HasPrefix n ''sibyl_''"
  shows "NewMetrics runtime = Some (map (OptName \<circ> opts_of) metrics_collectors @ runtime)"
proof -
  let ?own = "map (OptName \<circ> opts_of) metrics_collectors"
  have own: "distinct ?own" "\<forall>n\<in>set ?own. HasPrefix n ''sibyl_''"
    by (simp_all add: metrics_collectors_def HasPrefix_iff)
  then have "distinct (?own @ runtime)" using assms by auto
  with MustRegister_all_Some [of ?own runtime] MustRegister_all_Some [of "[]" ?own] own(1) show ?thesis
    by (simp add: NewMetrics_def)
qed

text \<open>A state in which the observations are kept beside the rest.\<close>

definition keep_obs :: "observation \<Rightarrow> observation list \<times> 'r \<Rightarrow> observation list \<times> 'r" where
  "keep_obs ob s = (fst s @ [ob], snd s)"

definition status_of :: "reply \<Rightarrow> string option" where
  "status_of r = (case r of Returned out None \<Rightarrow> Some ''success'' | Returned out (Some e) \<Rightarrow> Some ''error'' | Panicked p \<Rightarrow> None)"

definition call_obs :: "string \<Rightarrow> string \<times> string \<Rightarrow> reply \<Rightarrow> int \<Rightarrow> observation list" where
  "call_obs backend req r dur =
     (case r of
        Panicked p \<Rightarrow> []
      | Returned out err \<Rightarrow>
          [ObsInc llmCalls [backend, the (status_of r)], ObsObserve llmDuration [backend, the (status_of r)] dur] @
          (if approxTokens (fst req) + approxTokens (snd req) > 0
           then [ObsAdd llmTokens [''input''] (approxTokens (fst req) + approxTokens (snd req))] else []) @
          (if approxTokens out > 0 then [ObsAdd llmTokens [''output''] (approxTokens out)] else []))"

lemma WithMetrics_step:
  assumes "nxt sys user s = (r, s1)"
  shows "\<exists>dur. WithMetrics (Some keep_obs) now backend nxt sys user s = (r, (fst s1 @ call_obs backend (sys, user) r dur, snd s1))"
proof (cases r)
  case (Returned out err)
  then show ?thesis
    using assms
    by (cases s1) (auto simp: WithMetrics_def call_obs_def status_of_def ObserveLLMCall_def observe_call_def
        ObserveLLMTokens_def keep_obs_def Let_def split: option.splits)
qed (use assms in \<open>simp add: WithMetrics_def call_obs_def\<close>)

lemma WithMetrics_nil: "WithMetrics None now backend nxt = nxt"
  by (auto simp: fun_eq_iff WithMetrics_def ObserveLLMCall_def observe_call_def ObserveLLMTokens_def Let_def
      split: prod.split reply.split)

lemma approxTokens_nonneg: "0 \<le> approxTokens s"
  by (auto simp: approxTokens_def Let_def)

lemma call_obs_ok: "list_all observation_ok (call_obs backend req r dur)"
  using approxTokens_nonneg by (auto simp: call_obs_def split: reply.split)

lemma call_obs_total:
  "total_of (call_obs backend (sys, user) r dur) llmCalls [b, st] = (if b = backend \<and> status_of r = Some st then 1 else 0)"
  "total_of (call_obs backend (sys, user) r dur) llmDuration [b, st] = (if b = backend \<and> status_of r = Some st then 1 else 0)"
  "total_of (call_obs backend (sys, user) r dur) llmTokens [''input''] =
     (case r of Panicked p \<Rightarrow> 0 | Returned out err \<Rightarrow> approxTokens sys + approxTokens user)"
  "total_of (call_obs backend (sys, user) r dur) llmTokens [''output''] =
     (case r of Panicked p \<Rightarrow> 0 | Returned out err \<Rightarrow> approxTokens out)"
  using approxTokens_nonneg [of sys] approxTokens_nonneg [of user]
  by (auto simp: call_obs_def status_of_def not_less approxTokens_nonneg antisym split: reply.split option.split)


section \<open>Properties\<close>

text \<open>A completion function of the rest of the state, which does not see the observations.\<close>

definition beside :: "'r CompleteFunc \<Rightarrow> (observation list \<times> 'r) CompleteFunc" where
  "beside g sys user s = (case g sys user (snd s) of (r, w) \<Rightarrow> (r, (fst s, w)))"

definition status_count :: "string \<Rightarrow> reply list \<Rightarrow> int" where
  "status_count st rs = int (length (filter (\<lambda>r. status_of r = Some st) rs))"

lemma status_count_Cons [simp]:
  "status_count st (r # rs) = (if status_of r = Some st then 1 else 0) + status_count st rs"
  by (simp add: status_count_def)

lemma metered_run:
  assumes "run_calls (WithMetrics (Some keep_obs) now backend (beside g)) reqs (obs, w) = (rs, (obs', w'))"
  shows "run_calls g reqs w = (rs, w') \<and> (list_all observation_ok obs \<longrightarrow> list_all observation_ok obs') \<and>
    (\<forall>st. total_of obs' llmCalls [backend, st] = total_of obs llmCalls [backend, st] + status_count st rs) \<and>
    (\<forall>st. total_of obs' llmDuration [backend, st] = total_of obs llmDuration [backend, st] + status_count st rs) \<and>
    total_of obs' llmTokens [''input''] = total_of obs llmTokens [''input''] + fst (sum_usage reqs rs) \<and>
    total_of obs' llmTokens [''output''] = total_of obs llmTokens [''output''] + fst (snd (sum_usage reqs rs))"
  using assms
proof (induction reqs arbitrary: obs w rs)
  case Nil
  then show ?case by (simp add: status_count_def)
next
  case (Cons req reqs)
  obtain sys user where req: "req = (sys, user)" by (cases req)
  obtain r w1 where g: "g sys user w = (r, w1)" by fastforce
  obtain dur where one: "WithMetrics (Some keep_obs) now backend (beside g) sys user (obs, w) =
      (r, (obs @ call_obs backend (sys, user) r dur, w1))"
    using WithMetrics_step [of "beside g" sys user "(obs, w)" r "(obs, w1)" now backend] g by (auto simp: beside_def)
  obtain rs1 where rest: "run_calls (WithMetrics (Some keep_obs) now backend (beside g)) reqs (obs @ call_obs backend (sys, user) r dur, w1) =
      (rs1, (obs', w'))" "rs = r # rs1"
    using Cons.prems one req by (auto split: prod.splits)
  note IH = Cons.IH [OF rest(1)]
  have first: "run_calls g (req # reqs) w = (rs, w')" using IH g req rest(2) by simp
  show ?case
    using IH first call_obs_ok [of backend "(sys, user)" r dur] call_obs_total [of backend sys user r dur]
    by (cases "sum_usage reqs rs1"; cases r) (auto simp: req rest(2))
qed

text \<open>
  Metering changes no reply and no state of its own accord, and counts every call: over any conversation
  the counter and the histogram of calls of a backend grow, for each status, by the number of replies
  with it, calls that panic left out; the token counters grow by the sums of the estimates; and no
  observation breaks a rule of the library.
\<close>

theorem WithMetrics_counts:
  assumes "run_calls (WithMetrics (Some keep_obs) now backend (beside g)) reqs ([], w) = (rs, (obs, w'))"
  shows "run_calls g reqs w = (rs, w') \<and> list_all observation_ok obs \<and>
    total_of obs llmCalls [backend, st] = status_count st rs \<and> total_of obs llmDuration [backend, st] = status_count st rs \<and>
    total_of obs llmTokens [''input''] = fst (sum_usage reqs rs) \<and>
    total_of obs llmTokens [''output''] = fst (snd (sum_usage reqs rs))"
  using metered_run [OF assms] by simp

theorem WithMetrics_counts_witness:
  "total_of (fst (snd (run_calls (WithMetrics (Some keep_obs) (\<lambda>s. int (snd s)) ''anthropic'' (beside flaky))
     [(''s'', ''u''), (''s'', ''u''), (''s'', ''u'')] ([], 0)))) llmCalls [''anthropic'', ''error''] = 2"
proof -
  let ?run = "run_calls (WithMetrics (Some keep_obs) (\<lambda>s. int (snd s)) ''anthropic'' (beside flaky))
     [(''s'', ''u''), (''s'', ''u''), (''s'', ''u'')] ([], 0)"
  obtain rs obs w' where run: "?run = (rs, (obs, w'))" by (metis prod.exhaust)
  have "run_calls flaky [(''s'', ''u''), (''s'', ''u''), (''s'', ''u'')] 0 = (rs, w')"
    using WithMetrics_counts [OF run] by blast
  then have "rs = [Returned [] (Some (ProviderError ''busy'')), Returned [] (Some (ProviderError ''busy'')), Returned ''ok'' None]"
    by (simp add: flaky_def)
  with WithMetrics_counts [OF run, of "''error''"] run show ?thesis
    by (simp add: status_count_def status_of_def)
qed

section \<open>The chain of the commands\<close>

text \<open>
  Both commands that run a worker wrap the backend like this (\<^verbatim>\<open>cmd/worker/main.go\<close>,
  \<^verbatim>\<open>cmd/api-server/main.go\<close>); a cache, when there is one, is put in front.
\<close>

definition worker_middleware :: "(log_record \<Rightarrow> 's \<Rightarrow> 's) \<Rightarrow> ('s \<Rightarrow> int) \<Rightarrow> (TokenUsage \<Rightarrow> 's \<Rightarrow> 's) \<Rightarrow> ('s \<Rightarrow> int \<Rightarrow> int) \<Rightarrow>
    ('s \<Rightarrow> int \<Rightarrow> llm_error option) \<Rightarrow> 's meter \<Rightarrow> string \<Rightarrow> 's Middleware option \<Rightarrow> 's Middleware list" where
  "worker_middleware logger now report rand63 wait metrics backend cache_mw =
     (let mws = [WithLogging logger now, WithTokenAccounting (Some report), WithRetry rand63 wait 3 (200 * 1000000),
        WithMetrics metrics now backend]
      in case cache_mw of None \<Rightarrow> mws | Some c \<Rightarrow> c # mws)"


definition calls_total :: "string \<Rightarrow> observation list \<Rightarrow> int" where
  "calls_total backend obs = total_of obs llmCalls [backend, ''success''] + total_of obs llmCalls [backend, ''error'']"

definition never_panics :: "'s CompleteFunc \<Rightarrow> bool" where
  "never_panics g \<longleftrightarrow> (\<forall>sys user w p. fst (g sys user w) \<noteq> Panicked p)"

lemma never_panicsD: "never_panics g \<Longrightarrow> g sys user w = (r, w') \<Longrightarrow> \<exists>out err. r = Returned out err"
  unfolding never_panics_def by (cases r) (simp, metis fst_conv)

lemma metered_call:
  assumes "never_panics g" "WithMetrics (Some keep_obs) now backend (beside g) sys user (obs, w) = (r, (obs', w'))"
  shows "g sys user w = (r, w') \<and> calls_total backend obs' = calls_total backend obs + 1"
proof -
  obtain r1 w1 where g: "g sys user w = (r1, w1)" by fastforce
  obtain dur where "WithMetrics (Some keep_obs) now backend (beside g) sys user (obs, w) =
      (r1, (obs @ call_obs backend (sys, user) r1 dur, w1))"
    using WithMetrics_step [of "beside g" sys user "(obs, w)" r1 "(obs, w1)" now backend] g by (auto simp: beside_def)
  moreover have "\<exists>out err. r1 = Returned out err"
    by (rule never_panicsD [OF assms(1) g])
  ultimately show ?thesis
    using assms(2) g call_obs_total(1) [of backend sys user r1 dur]
    by (auto simp: calls_total_def status_of_def split: option.splits)
qed

text \<open>Retrying around a meter: as many calls are counted as attempts are made, up to the first success.\<close>

lemma metered_retries:
  assumes "never_panics g" "\<And>w. Q w \<Longrightarrow> Q (snd (g sys user w))" "Q w"
    and "retry_spec attempts (WithMetrics (Some keep_obs) now backend (beside g)) sys user (Suc m) (obs, w) = (r, (obs', w'))"
  shows "\<exists>k\<in>{1..Suc m}. calls_total backend obs' = calls_total backend obs + int k \<and> Q w' \<and>
    (\<exists>out err. r = Returned out err \<and> (k < Suc m \<longrightarrow> err = None))"
  using assms(3,4)
proof (induction m arbitrary: obs w)
  case 0
  obtain r1 obs1 w1 where one: "WithMetrics (Some keep_obs) now backend (beside g) sys user (obs, w) = (r1, (obs1, w1))"
    by (metis prod.exhaust)
  note c = metered_call [OF assms(1) one]
  obtain out err where "r1 = Returned out err"
    using never_panicsD [OF assms(1)] c by blast
  with c one 0 assms(2) [of w] show ?case by (auto split: option.splits)
next
  case (Suc m)
  obtain r1 obs1 w1 where one: "WithMetrics (Some keep_obs) now backend (beside g) sys user (obs, w) = (r1, (obs1, w1))"
    by (metis prod.exhaust)
  note c = metered_call [OF assms(1) one]
  obtain out err where r1: "r1 = Returned out err"
    using never_panicsD [OF assms(1)] c by blast
  have Q1: "Q w1" using c assms(2) [OF Suc.prems(1)] by simp
  show ?case
  proof (cases err)
    case None
    with Suc.prems(2) one r1 c Q1 show ?thesis by (intro bexI [of _ 1]) auto
  next
    case (Some e)
    with Suc.prems(2) one r1 have "retry_spec attempts (WithMetrics (Some keep_obs) now backend (beside g)) sys user (Suc m) (obs1, w1) =
        (r, (obs', w'))" by simp
    from Suc.IH [OF Q1 this] obtain k where k: "k \<in> {1..Suc m}" "calls_total backend obs' = calls_total backend obs1 + int k" "Q w'"
      "\<exists>out err. r = Returned out err \<and> (k < Suc m \<longrightarrow> err = None)" by blast
    with c show ?thesis by (intro bexI [of _ "Suc k"]) auto
  qed
qed

text \<open>A state of the process: the observations, the token sink, and the rest, with the log and the cache.\<close>

type_synonym 'r process = "observation list \<times> AtomicTokenSink \<times> 'r"

definition process_log :: "(log_record \<Rightarrow> 'r \<Rightarrow> 'r) \<Rightarrow> log_record \<Rightarrow> 'r process \<Rightarrow> 'r process" where
  "process_log logger rec s = (fst s, fst (snd s), logger rec (snd (snd s)))"

definition process_report :: "TokenUsage \<Rightarrow> 'r process \<Rightarrow> 'r process" where
  "process_report u s = (fst s, RecordCall u (fst (snd s)), snd (snd s))"

definition process_get :: "(string \<Rightarrow> 'r \<Rightarrow> string option \<times> 'r) \<Rightarrow> string \<Rightarrow> 'r process \<Rightarrow> string option \<times> 'r process" where
  "process_get cget k s = (case cget k (snd (snd s)) of (hit, w) \<Rightarrow> (hit, fst s, fst (snd s), w))"

definition process_set :: "(string \<Rightarrow> string \<Rightarrow> 'r \<Rightarrow> 'r) \<Rightarrow> string \<Rightarrow> string \<Rightarrow> 'r process \<Rightarrow> 'r process" where
  "process_set cset k v s = (fst s, fst (snd s), cset k v (snd (snd s)))"

definition process_backend :: "'r CompleteFunc \<Rightarrow> 'r process CompleteFunc" where
  "process_backend g = beside (\<lambda>sys user t. case g sys user (snd t) of (r, w) \<Rightarrow> (r, (fst t, w)))"

text \<open>The completion function of a command with a cache.\<close>

definition worker_complete :: "(log_record \<Rightarrow> 'r \<Rightarrow> 'r) \<Rightarrow> ('r process \<Rightarrow> int) \<Rightarrow> ('r process \<Rightarrow> int \<Rightarrow> int) \<Rightarrow>
    ('r process \<Rightarrow> int \<Rightarrow> llm_error option) \<Rightarrow> string \<Rightarrow> (string \<Rightarrow> string) \<Rightarrow> (string \<Rightarrow> 'r \<Rightarrow> string option \<times> 'r) \<Rightarrow>
    (string \<Rightarrow> string \<Rightarrow> 'r \<Rightarrow> 'r) \<Rightarrow> 'r CompleteFunc \<Rightarrow> 'r process CompleteFunc" where
  "worker_complete logger now rand63 wait backend sha cget cset g =
     Chain (process_backend g) (worker_middleware (process_log logger) now process_report rand63 wait (Some keep_obs) backend
       (Some (WithCache sha (process_get cget) (process_set cset))))"

lemma accounting_returns:
  assumes "WithTokenAccounting (Some process_report) nxt sys user s = (r, (obs', sink', w'))" "nxt sys user s = (Returned out err, (obs1, sink1, w1))"
  shows "r = Returned out err \<and> obs' = obs1 \<and> sink_calls sink' = wrap64 (sink_calls sink1 + 1)"
  using assms by (auto simp: WithTokenAccounting_def process_report_def RecordCall_def)

lemma logging_keeps:
  assumes "WithLogging (process_log logger) now nxt sys user (obs, sink, w) = (r, (obs', sink', w'))"
  shows "\<exists>v v'. nxt sys user (obs, sink, v) = (r, (obs', sink', v'))"
proof -
  let ?s1 = "process_log logger (CallStart (length sys) (length user)) (obs, sink, w)"
  obtain r1 obs1 sink1 w1 where nxt: "nxt sys user ?s1 = (r1, (obs1, sink1, w1))" by (metis prod.exhaust)
  with assms have "r1 = r \<and> obs1 = obs' \<and> sink1 = sink'"
    by (cases r1) (auto simp: WithLogging_def process_log_def Let_def split: option.splits)
  with nxt show ?thesis by (auto simp: process_log_def)
qed

lemma logged_chain_counted:
  assumes "never_panics g" "\<And>s d. wait s d = None"
    and logged: "WithLogging (process_log logger) now (WithTokenAccounting (Some process_report) (WithRetry rand63 wait 3 (200 * 1000000)
      (WithMetrics (Some keep_obs) now backend (process_backend g)))) sys user (obs, sink, w) = (r, (obs', sink', w'))"
  shows "\<exists>k\<in>{1..3}. calls_total backend obs' = calls_total backend obs + int k \<and>
    sink_calls sink' = wrap64 (sink_calls sink + 1) \<and> (\<exists>out err. r = Returned out err \<and> (k < 3 \<longrightarrow> err = None))"
proof -
  let ?metered = "WithMetrics (Some keep_obs) now backend (process_backend g)"
  let ?retried = "WithRetry rand63 wait 3 (200 * 1000000) ?metered"
  let ?counted = "WithTokenAccounting (Some process_report) ?retried"
  obtain v v' where counted: "?counted sys user (obs, sink, v) = (r, (obs', sink', v'))"
    using logging_keeps [OF logged] by blast
  obtain r2 obs2 sink2 v2 where retried: "?retried sys user (obs, sink, v) = (r2, (obs2, sink2, v2))" by (metis prod.exhaust)
  let ?g = "\<lambda>sys user t. case g sys user (snd t) of (r, w) \<Rightarrow> (r, (fst t, w))"
  have quiet: "never_panics ?g"
    unfolding never_panics_def
  proof (intro allI notI)
    fix sys user t p
    assume "fst (?g sys user t) = Panicked p"
    then have "fst (g sys user (snd t)) = Panicked p" by (simp split: prod.splits)
    with assms(1) show False by (simp add: never_panics_def)
  qed
  have "delays_ok 3 (200 * 1000000)" by (simp add: delays_ok_def)
  then have "retry_spec 3 (WithMetrics (Some keep_obs) now backend (beside ?g)) sys user (Suc 2) (obs, sink, v) = (r2, (obs2, sink2, v2))"
    using WithRetry_spec [of 3 "200 * 1000000" wait rand63 ?metered sys user "(obs, sink, v)"] assms(2) retried
    by (simp add: process_backend_def numeral_3_eq_3 numeral_2_eq_2)
  from metered_retries [where Q = "\<lambda>t. fst t = sink", OF quiet _ _ this] obtain k out err where k: "k \<in> {1..3}"
    "calls_total backend obs2 = calls_total backend obs + int k" "sink2 = sink" "r2 = Returned out err" "k < 3 \<longrightarrow> err = None"
    by (auto simp: numeral_3_eq_3 numeral_2_eq_2 split: prod.splits)
  have "r = r2 \<and> obs' = obs2 \<and> sink_calls sink' = wrap64 (sink_calls sink2 + 1)"
    using accounting_returns [OF counted] retried k(4) by simp
  with k show ?thesis by auto
qed

text \<open>A cache in front: a hit leaves the observations and the sink, a miss passes them to the chain.\<close>

lemma cached_chain:
  assumes "WithCache sha (process_get cget) (process_set cset) nxt sys user (obs, sink, w) = (r, (obs', sink', w'))"
  shows "case cget (cacheKey sha sys user) w of
      (Some hit, w1) \<Rightarrow> r = Returned hit None \<and> obs' = obs \<and> sink' = sink
    | (None, w1) \<Rightarrow> \<exists>w2. nxt sys user (obs, sink, w1) = (r, (obs', sink', w2))"
proof -
  obtain hit w1 where get: "cget (cacheKey sha sys user) w = (hit, w1)" by fastforce
  obtain r1 obs1 sink1 w2 where nxt: "nxt sys user (obs, sink, w1) = (r1, (obs1, sink1, w2))" by (metis prod.exhaust)
  show ?thesis
    using assms get nxt
    by (cases hit; cases r1) (auto simp: WithCache_def process_get_def process_set_def Let_def split: option.splits)
qed

lemma worker_complete_counted:
  assumes "never_panics g" "\<And>s d. wait s d = None"
    and "worker_complete logger now rand63 wait backend sha cget cset g sys user (obs, sink, w) = (r, (obs', sink', w'))"
  shows "case fst (cget (cacheKey sha sys user) w) of
      Some hit \<Rightarrow> r = Returned hit None \<and> obs' = obs \<and> sink' = sink
    | None \<Rightarrow> \<exists>k\<in>{1..3}. calls_total backend obs' = calls_total backend obs + int k \<and>
        sink_calls sink' = wrap64 (sink_calls sink + 1) \<and> (\<exists>out err. r = Returned out err \<and> (k < 3 \<longrightarrow> err = None))"
proof -
  have "worker_complete logger now rand63 wait backend sha cget cset g =
      WithCache sha (process_get cget) (process_set cset) (WithLogging (process_log logger) now
        (WithTokenAccounting (Some process_report) (WithRetry rand63 wait 3 (200 * 1000000)
          (WithMetrics (Some keep_obs) now backend (process_backend g)))))"
    by (simp add: worker_complete_def worker_middleware_def Let_def)
  with assms(3) have chain: "WithCache sha (process_get cget) (process_set cset) (WithLogging (process_log logger) now
        (WithTokenAccounting (Some process_report) (WithRetry rand63 wait 3 (200 * 1000000)
          (WithMetrics (Some keep_obs) now backend (process_backend g))))) sys user (obs, sink, w) = (r, (obs', sink', w'))" by simp
  obtain hit w1 where get: "cget (cacheKey sha sys user) w = (hit, w1)" by fastforce
  show ?thesis
  proof (cases hit)
    case None
    with cached_chain [OF chain] get obtain w2 where "WithLogging (process_log logger) now
        (WithTokenAccounting (Some process_report) (WithRetry rand63 wait 3 (200 * 1000000)
          (WithMetrics (Some keep_obs) now backend (process_backend g)))) sys user (obs, sink, w1) = (r, (obs', sink', w2))" by auto
    from logged_chain_counted [OF assms(1,2) this] show ?thesis using get None by simp
  qed (use cached_chain [OF chain] get in simp)
qed

text \<open>
  C34: how a command accounts for one call through its chain: an answer from the cache is no call at all,
  neither in the token sink nor in the metrics; otherwise the token sink counts one call, however many
  attempts it took, and the metrics count every attempt, at most three, where fewer than three end in a
  success. It needs that the backend does not panic and no context ends during a delay.
\<close>

theorem worker_complete_accounting:
  assumes "never_panics g" "\<And>s d. wait s d = None"
    and "worker_complete logger now rand63 wait backend sha cget cset g sys user (obs, sink, w) = (r, (obs', sink', w'))"
  shows "case fst (cget (cacheKey sha sys user) w) of
      Some hit \<Rightarrow> r = Returned hit None \<and> obs' = obs \<and> sink' = sink
    | None \<Rightarrow> \<exists>k\<in>{1..3}. calls_total backend obs' = calls_total backend obs + int k \<and>
        sink_calls sink' = wrap64 (sink_calls sink + 1) \<and> (\<exists>out err. r = Returned out err \<and> (k < 3 \<longrightarrow> err = None))"
  by (rule worker_complete_counted [OF assms])

theorem worker_complete_accounting_witness:
  "\<exists>r obs sink w k. worker_complete (\<lambda>l w. w) (\<lambda>s. 0) (\<lambda>s n. 0) (\<lambda>s d. None) ''scripted'' (\<lambda>x. x) (\<lambda>k w. (None, w)) (\<lambda>k v w. w)
       flaky ''s'' ''u'' ([], \<lparr>sink_input = 0, sink_output = 0, sink_calls = 0\<rparr>, 0) = (r, (obs, sink, w)) \<and>
     sink_calls sink = 1 \<and> calls_total ''scripted'' obs = int k \<and> k \<in> {1..3}"
proof -
  let ?s = "([], \<lparr>sink_input = 0, sink_output = 0, sink_calls = 0\<rparr>, 0) :: nat process"
  obtain r obs sink w where run: "worker_complete (\<lambda>l w. w) (\<lambda>s. 0) (\<lambda>s n. 0) (\<lambda>s d. None) ''scripted'' (\<lambda>x. x)
      (\<lambda>k w. (None, w)) (\<lambda>k v w. w) flaky ''s'' ''u'' ?s = (r, (obs, sink, w))" by (metis prod.exhaust)
  have "never_panics flaky" by (simp add: never_panics_def flaky_def)
  from worker_complete_accounting [OF this _ run] obtain k where
    "k \<in> {1..3}" "calls_total ''scripted'' obs = int k" "sink_calls sink = wrap64 (0 + 1)"
    by (auto simp: calls_total_def)
  then show ?thesis using run by (auto simp: wrap64_def)
qed

end
