(* ===== verification/Api_Server.thy ===== *)
theory Api_Server
  imports Anthropic Sqlite_Cache Metrics
begin

text \<open>
  The commands \<^verbatim>\<open>cmd/api-server/main.go\<close> and \<^verbatim>\<open>cmd/worker/main.go\<close>: the choice of a backend, a stream and a
  cache, and the HTTP handlers that start a review and forward its events as server-sent events.

  Temporal's client, the JSON encoding, the random identifiers and the clock are parameters. What the
  flags, the logger and the life cycle of the servers do is not modelled.
\<close>

section \<open>Backends, streams and caches\<close>

datatype backend =
    ScriptedBackend ScriptedLLM
  | AnthropicBackend AnthropicConfig
  | ClaudeCodeBackend ClaudeCodeConfig

definition model_config :: "string \<Rightarrow> AnthropicConfig" where
  "model_config model = \<lparr>APIKey = [], AnthropicModel = model, MaxTokens = 0, BaseURL = [], ApiVersion = []\<rparr>"

definition model_cli :: "string \<Rightarrow> ClaudeCodeConfig" where
  "model_cli model = \<lparr>CCBinary = [], CCModel = model, CCPermissionMode = [], CCMaxTurns = 0, CCExtraArgs = []\<rparr>"

definition scripted_backend :: "string list \<Rightarrow> backend" where
  "scripted_backend rs = ScriptedBackend \<lparr>Responses = rs, Cycle = True, calls = [], idx = 0\<rparr>"

text \<open>The choice of both commands; they differ in the scripted replies and in the error text.\<close>

definition choose_backend :: "string list \<Rightarrow> (string \<Rightarrow> string) \<Rightarrow> string \<Rightarrow> string \<Rightarrow> string \<Rightarrow> string + backend" where
  "choose_backend replies unknown getenv name model =
     (if name = ''scripted'' then Inr (scripted_backend replies)
      else if name = ''anthropic'' then
        (case NewAnthropicClient getenv (model_config model) of Inl e \<Rightarrow> Inl e | Inr c \<Rightarrow> Inr (AnthropicBackend c))
      else if name = ''claude-code'' then Inr (ClaudeCodeBackend (NewClaudeCodeClient (model_cli model)))
      else Inl (unknown name))"

definition api_pickBackend :: "string \<Rightarrow> string \<Rightarrow> string \<Rightarrow> string + backend" where
  "api_pickBackend = choose_backend [''Static demo response from scripted backend.''] (\<lambda>name. ''unknown backend: '' @ name)"

definition worker_replies :: "string list" where
  \<open>worker_replies =
     [''Paris is the capital of France.'',
      ''{"approved": false, "confidence": 0.4, "feedback": "Answer is correct but too terse. Add a sentence about why Paris is significant."}'',
      ''Paris is the capital of France. It has been the political, cultural, and economic center of the country for over a thousand years.'',
      ''{"approved": true, "confidence": 0.92, "feedback": ""}'']\<close>

abbreviation backendError_text :: "string \<Rightarrow> string" where
  "backendError_text name \<equiv> ''unknown backend: '' @ name @ '' (choices: scripted, anthropic, claude-code)''"

definition worker_pickBackend :: "string \<Rightarrow> string \<Rightarrow> string \<Rightarrow> string + backend" where
  "worker_pickBackend = choose_backend worker_replies (\<lambda>name. backendError_text name)"

text \<open>The streaming client of a backend, if it has one.\<close>

definition pickStream :: "string \<Rightarrow> string \<Rightarrow> string \<Rightarrow> string + AnthropicConfig option" where
  "pickStream getenv name model =
     (if name = ''anthropic'' then
        (case NewAnthropicClient getenv (model_config model) of Inl e \<Rightarrow> Inl e | Inr c \<Rightarrow> Inr (Some c))
      else Inr None)"

datatype picked_cache = InMemory MemoryCache | InSqlite int

text \<open>\<open>new_sqlite\<close> is \<open>NewSQLiteCache\<close> on the database of the process.\<close>

definition choose_cache :: "(string \<Rightarrow> string) \<Rightarrow> (string \<Rightarrow> 's \<Rightarrow> string option \<times> 's) \<Rightarrow> string \<Rightarrow> string \<Rightarrow> int \<Rightarrow> 's \<Rightarrow>
    (string + picked_cache option) \<times> 's" where
  "choose_cache unknown new_sqlite kind path ttl s =
     (if kind = ''none'' then (Inr None, s)
      else if kind = ''memory'' \<or> kind = [] then (Inr (Some (InMemory (NewMemoryCache ttl))), s)
      else if kind = ''sqlite'' then
        (case new_sqlite path s of (Some e, s1) \<Rightarrow> (Inl e, s1) | (None, s1) \<Rightarrow> (Inr (Some (InSqlite ttl)), s1))
      else (Inl (unknown kind), s))"

definition api_buildCache :: "(string \<Rightarrow> 's \<Rightarrow> string option \<times> 's) \<Rightarrow> string \<Rightarrow> string \<Rightarrow> int \<Rightarrow> 's \<Rightarrow>
    (string + picked_cache option) \<times> 's" where
  "api_buildCache = choose_cache (\<lambda>kind. ''unknown cache: '' @ kind)"

abbreviation cacheError_text :: "string \<Rightarrow> string" where
  "cacheError_text kind \<equiv> ''unknown -cache value: '' @ kind @ '' (choices: memory, sqlite, none)''"

definition worker_buildCache :: "(string \<Rightarrow> 's \<Rightarrow> string option \<times> 's) \<Rightarrow> string \<Rightarrow> string \<Rightarrow> int \<Rightarrow> 's \<Rightarrow>
    (string + picked_cache option) \<times> 's" where
  "worker_buildCache = choose_cache (\<lambda>kind. cacheError_text kind)"

section \<open>Starting a review\<close>

record server_reply =
  ReplyStatus :: int
  ReplyType :: string
  ReplyBody :: string

definition http_error :: "string \<Rightarrow> int \<Rightarrow> server_reply" where
  "http_error msg code = \<lparr>ReplyStatus = code, ReplyType = ''text/plain; charset=utf-8'', ReplyBody = msg @ newline\<rparr>"

text \<open>
  \<open>sv_decode\<close> reads the diff from the body of a request, \<open>sv_execute\<close> starts a workflow with an ID, a type
  and an input, \<open>sv_payload\<close> is the request as the payload of an event, \<open>sv_encode\<close> the JSON of the reply.
\<close>

record ('p, 'w) server_env =
  sv_decode :: "string \<Rightarrow> string + string"
  sv_uuid :: "'w \<Rightarrow> string \<times> 'w"
  sv_execute :: "string \<Rightarrow> string \<Rightarrow> PRReviewInput \<Rightarrow> 'w \<Rightarrow> string option \<times> 'w"
  sv_now :: "'w \<Rightarrow> int"
  sv_payload :: "string \<Rightarrow> 'p"
  sv_encode :: "string \<Rightarrow> string"

text \<open>\<open>None\<close> is a panic of the handler, from which the server recovers.\<close>

definition handleRun :: "('p, 'w) server_env \<Rightarrow> string \<Rightarrow> string \<Rightarrow> 'p MemoryBroker \<times> 'w \<Rightarrow>
    server_reply option \<times> 'p MemoryBroker \<times> 'w" where
  "handleRun env verb body s =
     (if verb \<noteq> ''POST'' then (Some (http_error ''POST only'' 405), s)
      else (case sv_decode env body of
              Inl e \<Rightarrow> (Some (http_error (''bad json: '' @ e) 400), s)
            | Inr sent_diff \<Rightarrow>
                (let diff = (if sent_diff = [] then ''Refactor PR #4218: switches our cache from in-memory to SQLite.'' else sent_diff) in
                 case sv_uuid env (snd s) of (uuid, w1) \<Rightarrow>
                   (let wfID = ''sibyl-pr-review-'' @ take 8 uuid in
                    case sv_execute env wfID ReviewWorkflowName \<lparr>Diff = diff, StreamingBackend = True\<rparr> w1 of
                      (Some e, w2) \<Rightarrow> (Some (http_error (''start workflow: '' @ e) 500), (fst s, w2))
                    | (None, w2) \<Rightarrow>
                        (case Publish (NewWorkflowStarted (sv_now env w2) wfID ReviewWorkflowName (sv_payload env diff)) (fst s) of
                           (Some p, b1) \<Rightarrow> (None, (b1, w2))
                         | (None, b1) \<Rightarrow>
                             (Some \<lparr>ReplyStatus = 200, ReplyType = ''application/json'', ReplyBody = sv_encode env wfID\<rparr>, (b1, w2)))))))"

section \<open>Forwarding events\<close>

text \<open>What the select of the loop takes, one after the other.\<close>

datatype 'p selected = ClientGone | HeartbeatTick | ReceivedEvent "'p event" | ChannelClosed

definition connected_comment :: "string \<Rightarrow> string" where
  "connected_comment workflowID = '': connected to '' @ workflowID @ newlines"

definition heartbeat_comment :: string where
  "heartbeat_comment = '': heartbeat'' @ newlines"

definition event_frame :: "'p event \<Rightarrow> string \<Rightarrow> string" where
  "event_frame ev payload = ''event: '' @ event_kind ev @ newline @ ''data: '' @ payload @ newlines"

fun terminal_event :: "'p event \<Rightarrow> bool" where
  "terminal_event (WorkflowCompleted b p d) = True"
| "terminal_event (WorkflowFailed b e d) = True"
| "terminal_event _ = False"

text \<open>
  The loop: what it writes, and whether it has returned. \<open>marshal\<close> gives \<open>None\<close> for an event that has no
  JSON. The flag that a terminal event sets is read right after it is set.
\<close>

fun events_loop :: "('p event \<Rightarrow> string option) \<Rightarrow> 'p selected list \<Rightarrow> string \<times> bool" where
  "events_loop marshal [] = ([], False)"
| "events_loop marshal (ClientGone # rest) = ([], True)"
| "events_loop marshal (HeartbeatTick # rest) =
     (case events_loop marshal rest of (out, ended) \<Rightarrow> (heartbeat_comment @ out, ended))"
| "events_loop marshal (ChannelClosed # rest) = ([], True)"
| "events_loop marshal (ReceivedEvent ev # rest) =
     (case marshal ev of
        None \<Rightarrow> events_loop marshal rest
      | Some payload \<Rightarrow>
          if terminal_event ev then (event_frame ev payload, True)
          else (case events_loop marshal rest of (out, ended) \<Rightarrow> (event_frame ev payload @ out, ended)))"

text \<open>
  The handler. \<open>during\<close> is what happens from the subscription on until the handler returns: what the selects
  take, and the broker then. The subscription is cancelled when the loop returns.
\<close>

definition handleEvents :: "('p event \<Rightarrow> string option) \<Rightarrow> (nat \<Rightarrow> 'p MemoryBroker \<Rightarrow> 'p selected list \<times> 'p MemoryBroker) \<Rightarrow>
    bool \<Rightarrow> string \<Rightarrow> 'p MemoryBroker \<Rightarrow> (server_reply \<times> bool) option \<times> 'p MemoryBroker" where
  "handleEvents marshal during flushes workflowID b =
     (if workflowID = [] then (Some (http_error ''workflow_id required'' 400, True), b)
      else if \<not> flushes then (Some (http_error ''streaming unsupported'' 500, True), b)
      else (case Subscribe workflowID 256 b of
              (sub, b1) \<Rightarrow>
                (case during sub b1 of
                   (selects, b2) \<Rightarrow>
                     (case events_loop marshal selects of
                        (out, ended) \<Rightarrow>
                          (let reply = \<lparr>ReplyStatus = 200, ReplyType = ''text/event-stream'', ReplyBody = connected_comment workflowID @ out\<rparr> in
                           if \<not> ended then (Some (reply, False), b2)
                           else (case cancel_workflow workflowID sub b2 of
                                   (Some p, b3) \<Rightarrow> (None, b3)
                                 | (None, b3) \<Rightarrow> (Some (reply, True), b3)))))))"


section \<open>Choices\<close>

text \<open>The second client never fails to be made where the first was made, and only one backend streams.\<close>

lemma pickStream_follows:
  assumes "api_pickBackend getenv name model = Inr b"
  shows "\<exists>s. pickStream getenv name model = Inr s \<and> (\<forall>cfg. s = Some cfg \<longleftrightarrow> b = AnthropicBackend cfg)"
  using assms
  by (auto simp: api_pickBackend_def choose_backend_def pickStream_def scripted_backend_def split: sum.splits if_splits)

lemma choose_cache_closed:
  assumes "choose_cache unknown new_sqlite kind path ttl s = (Inr (Some (InSqlite t)), s')"
  shows "kind = ''sqlite'' \<and> t = ttl \<and> new_sqlite path s = (None, s')"
  using assms by (auto simp: choose_cache_def split: if_splits prod.splits option.splits)

section \<open>How a browser reads the events\<close>

text \<open>
  The parser of the specification of server-sent events: lines end in a line feed, a carriage return or both;
  a line that starts with a colon is a comment; a field's value loses one leading blank; a blank line
  dispatches the event if it has data. An unfinished event is dropped.
\<close>

fun sse_newlines :: "string \<Rightarrow> string" where
  "sse_newlines [] = []"
| "sse_newlines (c # cs) =
     (if c = CHR 0x0D then
        (case cs of [] \<Rightarrow> [CHR 0x0A] | d # ds \<Rightarrow> if d = CHR 0x0A then CHR 0x0A # sse_newlines ds else CHR 0x0A # sse_newlines cs)
      else c # sse_newlines cs)"

definition drop_blank :: "string \<Rightarrow> string" where
  "drop_blank v = (case v of [] \<Rightarrow> [] | c # cs \<Rightarrow> if c = CHR 0x20 then cs else v)"

fun sse_dispatch :: "string \<Rightarrow> string \<Rightarrow> string list \<Rightarrow> (string \<times> string) list" where
  "sse_dispatch kind data [] = []"
| "sse_dispatch kind data (l # ls) =
     (if l = [] then
        (if data = [] then sse_dispatch [] [] ls
         else (if kind = [] then ''message'' else kind, butlast data) # sse_dispatch [] [] ls)
      else if hd l = CHR '':'' then sse_dispatch kind data ls
      else (case cut_byte (CHR '':'') l of (field, v) \<Rightarrow>
        if field = ''event'' then sse_dispatch (drop_blank v) data ls
        else if field = ''data'' then sse_dispatch kind (data @ drop_blank v @ [CHR 0x0A]) ls
        else sse_dispatch kind data ls))"

definition sse_events :: "string \<Rightarrow> (string \<times> string) list" where
  "sse_events body = sse_dispatch [] [] (butlast (split_byte (CHR 0x0A) (sse_newlines body)))"

text \<open>Text on one line.\<close>

definition one_line :: "string \<Rightarrow> bool" where
  "one_line s \<longleftrightarrow> CHR 0x0A \<notin> set s \<and> CHR 0x0D \<notin> set s"

lemma sse_newlines_id: "CHR 0x0D \<notin> set s \<Longrightarrow> sse_newlines s = s"
  by (induction s rule: sse_newlines.induct) auto

lemma sse_events_lines:
  assumes "list_all one_line ls"
  shows "sse_events (concat (map (\<lambda>l. l @ [CHR 0x0A]) ls)) = sse_dispatch [] [] ls"
proof -
  have "CHR 0x0D \<notin> set (concat (map (\<lambda>l. l @ [CHR 0x0A]) ls))"
    using assms by (auto simp: one_line_def list_all_iff)
  moreover have "split_byte (CHR 0x0A) (concat (map (\<lambda>l. l @ [CHR 0x0A]) ls)) = ls @ [[]]"
    using assms by (intro split_byte_lines) (simp add: one_line_def list_all_iff)
  ultimately show ?thesis by (simp add: sse_events_def sse_newlines_id)
qed

text \<open>The lines that the handler writes.\<close>

definition frame_lines :: "string \<Rightarrow> string \<Rightarrow> string list" where
  "frame_lines kind payload = [''event: '' @ kind, ''data: '' @ payload, []]"

fun loop_lines :: "('p event \<Rightarrow> string option) \<Rightarrow> 'p selected list \<Rightarrow> string list" where
  "loop_lines marshal [] = []"
| "loop_lines marshal (ClientGone # rest) = []"
| "loop_lines marshal (HeartbeatTick # rest) = '': heartbeat'' # [] # loop_lines marshal rest"
| "loop_lines marshal (ChannelClosed # rest) = []"
| "loop_lines marshal (ReceivedEvent ev # rest) =
     (case marshal ev of
        None \<Rightarrow> loop_lines marshal rest
      | Some payload \<Rightarrow> frame_lines (event_kind ev) payload @ (if terminal_event ev then [] else loop_lines marshal rest))"

text \<open>The events that are forwarded: those that have JSON, up to the end of the loop.\<close>

fun forwarded :: "('p event \<Rightarrow> string option) \<Rightarrow> 'p selected list \<Rightarrow> (string \<times> string) list" where
  "forwarded marshal [] = []"
| "forwarded marshal (ClientGone # rest) = []"
| "forwarded marshal (HeartbeatTick # rest) = forwarded marshal rest"
| "forwarded marshal (ChannelClosed # rest) = []"
| "forwarded marshal (ReceivedEvent ev # rest) =
     (case marshal ev of
        None \<Rightarrow> forwarded marshal rest
      | Some payload \<Rightarrow> (event_kind ev, payload) # (if terminal_event ev then [] else forwarded marshal rest))"

fun plain_select :: "('p event \<Rightarrow> string option) \<Rightarrow> 'p selected \<Rightarrow> bool" where
  "plain_select marshal (ReceivedEvent ev) \<longleftrightarrow>
     (case marshal ev of None \<Rightarrow> True | Some payload \<Rightarrow> event_kind ev \<noteq> [] \<and> one_line (event_kind ev) \<and> one_line payload)"
| "plain_select marshal _ \<longleftrightarrow> True"

lemma events_loop_lines:
  "fst (events_loop marshal selects) = concat (map (\<lambda>l. l @ [CHR 0x0A]) (loop_lines marshal selects))"
  by (induction marshal selects rule: events_loop.induct)
    (auto simp: heartbeat_comment_def event_frame_def frame_lines_def newlines_def newline_def split: option.split prod.split)

lemma loop_lines_plain:
  "list_all (plain_select marshal) selects \<Longrightarrow> list_all one_line (loop_lines marshal selects)"
  by (induction marshal selects rule: loop_lines.induct) (auto simp: frame_lines_def one_line_def split: option.splits)

lemma sse_dispatch_frame:
  "kind \<noteq> [] \<Longrightarrow> sse_dispatch [] [] (frame_lines kind payload @ ls) = (kind, payload) # sse_dispatch [] [] ls"
  by (simp add: frame_lines_def drop_blank_def)

lemma sse_dispatch_loop:
  "list_all (plain_select marshal) selects \<Longrightarrow> sse_dispatch [] [] (loop_lines marshal selects) = forwarded marshal selects"
proof (induction marshal selects rule: loop_lines.induct)
  case (5 marshal ev rest)
  show ?case
  proof (cases "marshal ev")
    case None
    then show ?thesis using 5 by simp
  next
    case (Some payload)
    then have "event_kind ev \<noteq> []" using 5 by simp
    note frame = sse_dispatch_frame [OF this, of payload]
    show ?thesis
      using 5 Some frame [of "[]"] frame [of "loop_lines marshal rest"] by (cases "terminal_event ev") simp_all
  qed
qed simp_all

text \<open>When the loop returns.\<close>

fun ends_loop :: "('p event \<Rightarrow> string option) \<Rightarrow> 'p selected \<Rightarrow> bool" where
  "ends_loop marshal ClientGone = True"
| "ends_loop marshal HeartbeatTick = False"
| "ends_loop marshal ChannelClosed = True"
| "ends_loop marshal (ReceivedEvent ev) = (terminal_event ev \<and> marshal ev \<noteq> None)"

lemma events_loop_ended: "snd (events_loop marshal selects) \<longleftrightarrow> (\<exists>x\<in>set selects. ends_loop marshal x)"
  by (induction marshal selects rule: events_loop.induct) (simp_all add: prod.case_eq_if split: option.split)

section \<open>Properties\<close>

text \<open>
  C35: a browser that reads the event stream of a workflow gets exactly the events that the handler took from
  its subscription and could encode, in order, each with its kind and its JSON, up to the end of the
  stream; heartbeats and the greeting are invisible. It needs that the ID, the kinds and the JSON texts
  are on one line.
\<close>

theorem events_reach_browser:
  assumes "workflowID \<noteq> []" "one_line workflowID"
    and "during (fst (Subscribe workflowID 256 b)) (snd (Subscribe workflowID 256 b)) = (selects, b2)"
    and "list_all (plain_select marshal) selects"
    and "handleEvents marshal during True workflowID b = (Some (reply, ended), b')"
  shows "sse_events (ReplyBody reply) = forwarded marshal selects \<and> ReplyType reply = ''text/event-stream'' \<and>
    ended = snd (events_loop marshal selects)"
proof -
  obtain out e where loop: "events_loop marshal selects = (out, e)" by fastforce
  have reply: "ReplyBody reply = connected_comment workflowID @ out" "ReplyType reply = ''text/event-stream''" "ended = e"
    using assms(1,3,5) loop
    by (auto simp: handleEvents_def Let_def split: prod.splits option.splits if_splits)
  let ?ls = "('': connected to '' @ workflowID) # [] # loop_lines marshal selects"
  have "ReplyBody reply = concat (map (\<lambda>l. l @ [CHR 0x0A]) ?ls)"
    using reply(1) events_loop_lines [of marshal selects] loop by (simp add: connected_comment_def newlines_def newline_def)
  moreover have "list_all one_line ?ls"
    using loop_lines_plain [OF assms(4)] assms(2) by (simp add: one_line_def)
  ultimately have "sse_events (ReplyBody reply) = sse_dispatch [] [] ?ls" by (metis sse_events_lines)
  also have "\<dots> = forwarded marshal selects" using sse_dispatch_loop [OF assms(4)] by simp
  finally show ?thesis using reply(2,3) loop by simp
qed

text \<open>An ID with line feeds, which a query can carry, writes events of its own into the stream.\<close>

lemma workflow_id_injects:
  assumes "one_line kind" "one_line payload" "kind \<noteq> []"
  shows "sse_events (connected_comment (''x'' @ newlines @ ''event: '' @ kind @ newline @ ''data: '' @ payload)) = [(kind, payload)]"
proof -
  let ?ls = "['': connected to x'', []] @ frame_lines kind payload"
  have "connected_comment (''x'' @ newlines @ ''event: '' @ kind @ newline @ ''data: '' @ payload) =
      concat (map (\<lambda>l. l @ [CHR 0x0A]) ?ls)"
    by (simp add: connected_comment_def newlines_def newline_def frame_lines_def)
  moreover have "list_all one_line ?ls" using assms by (simp add: one_line_def frame_lines_def)
  ultimately have "sse_events (connected_comment (''x'' @ newlines @ ''event: '' @ kind @ newline @ ''data: '' @ payload)) =
      sse_dispatch [] [] ?ls" by (metis sse_events_lines)
  also have "\<dots> = [(kind, payload)]" using sse_dispatch_frame [OF assms(3), of payload "[]"] by simp
  finally show ?thesis .
qed


text \<open>Events as Temporal's activities publish them: kinds and JSON by their kind.\<close>

definition demo_marshal :: "nat event \<Rightarrow> string option" where
  "demo_marshal ev = (case ev of ForeignEvent k w t \<Rightarrow> None | _ \<Rightarrow> Some (''{'' @ event_workflow ev @ ''}''))"

definition demo_during :: "nat \<Rightarrow> nat MemoryBroker \<Rightarrow> nat selected list \<times> nat MemoryBroker" where
  "demo_during sub b = ([ReceivedEvent (started_event 3 ''wf'' ''StyleCheck'' ''n''), HeartbeatTick,
     ReceivedEvent (ForeignEvent ''other'' ''wf'' None), ReceivedEvent (NewWorkflowCompleted 9 ''wf'' 7 6), HeartbeatTick], b)"

theorem events_reach_browser_witness:
  "\<exists>reply b'. handleEvents demo_marshal demo_during True ''wf'' NewMemoryBroker = (Some (reply, True), b') \<and>
     sse_events (ReplyBody reply) = [(''activity.started'', ''{wf}''), (''workflow.completed'', ''{wf}'')]"
proof -
  let ?b = "snd (Subscribe ''wf'' 256 (NewMemoryBroker :: nat MemoryBroker))"
  have sub: "fst (Subscribe ''wf'' 256 (NewMemoryBroker :: nat MemoryBroker)) = 0" "chans ?b = [make_chan 64 256]" "onces ?b = []"
    by (simp_all add: Subscribe_def NewMemoryBroker_def)
  obtain reply b' where handled: "handleEvents demo_marshal demo_during True ''wf'' NewMemoryBroker = (Some (reply, True), b')"
    by (auto simp: handleEvents_def Subscribe_def NewMemoryBroker_def demo_during_def demo_marshal_def NewWorkflowCompleted_def
        started_event_def cancel_workflow_def unregister_def close_chan_def subs_of_def make_chan_def Let_def)
  have during: "demo_during (fst (Subscribe ''wf'' 256 NewMemoryBroker)) ?b = (fst (demo_during 0 ?b), ?b)"
    by (simp add: sub demo_during_def)
  have plain: "list_all (plain_select demo_marshal) (fst (demo_during 0 ?b))"
    by (simp add: demo_during_def demo_marshal_def started_event_def NewWorkflowCompleted_def one_line_def event_workflow_def stamp_def)
  have "one_line ''wf''" "''wf'' \<noteq> []" by (simp_all add: one_line_def)
  from events_reach_browser [OF this(2,1) during plain handled] handled show ?thesis
    by (auto simp: demo_during_def demo_marshal_def started_event_def NewWorkflowCompleted_def event_workflow_def stamp_def)
qed

lemma fresh_subscription_empty: "chan_buf (chans (snd (Subscribe wfID n b)) ! fst (Subscribe wfID n b)) = []"
  by (simp add: Subscribe_def make_chan_def Let_def nth_append)

text \<open>
  The event that announces a started review reaches no event stream. It is published before the reply
  tells the client the ID of the workflow: when nobody has subscribed to an ID that is drawn in the
  handler itself, the buffer of every subscription to a workflow stays as it is, and a subscription to the
  ID made after the reply starts empty.
\<close>

theorem started_event_unseen:
  assumes "session_inv s" "\<not> broker_closed (broker s)"
    and "handleRun env verb body (broker s, w) = (Some reply, (b', w'))" "ReplyStatus reply = 200"
    and "\<And>uuid. Some (''sibyl-pr-review-'' @ take 8 uuid) \<notin> set (kinds s)"
  shows "\<exists>wfID ev. ReplyBody reply = sv_encode env wfID \<and> event_kind ev = ''workflow.started'' \<and> event_workflow ev = wfID \<and>
    Publish ev (broker s) = (None, b') \<and>
    (\<forall>i<length (kinds s). \<not> chan_closed (chans (broker s) ! i) \<longrightarrow> kinds s ! i \<noteq> None \<longrightarrow> chans b' ! i = chans (broker s) ! i) \<and>
    chan_buf (chans (snd (Subscribe wfID 256 b')) ! fst (Subscribe wfID 256 b')) = []"
proof -
  obtain diff uuid w1 w2 where run: "sv_uuid env w = (uuid, w1)"
      "Publish (NewWorkflowStarted (sv_now env w2) (''sibyl-pr-review-'' @ take 8 uuid) ReviewWorkflowName (sv_payload env diff)) (broker s) = (None, b')"
      "ReplyBody reply = sv_encode env (''sibyl-pr-review-'' @ take 8 uuid)"
    using assms(3,4)
    by (auto simp: handleRun_def http_error_def Let_def split: if_splits sum.splits prod.splits option.splits)
  let ?wf = "''sibyl-pr-review-'' @ take 8 uuid"
  let ?ev = "NewWorkflowStarted (sv_now env w2) ?wf ReviewWorkflowName (sv_payload env diff)"
  have ev: "event_kind ?ev = ''workflow.started''" "event_workflow ?ev = ?wf"
    by (simp_all add: NewWorkflowStarted_def event_workflow_def stamp_def)
  have "chans b' ! i = chans (broker s) ! i" if "i < length (kinds s)" "\<not> chan_closed (chans (broker s) ! i)" "kinds s ! i \<noteq> None" for i
  proof -
    note i = that
    obtain v where v: "kinds s ! i = Some v" using i(3) by blast
    with i(1) assms(5) [of uuid] have "v \<noteq> ?wf" using nth_mem [of i "kinds s"] by auto
    then have "\<not> wants (kinds s ! i) ?ev" using v ev(2) by simp
    moreover have "publish_all [?ev] (broker s) = (None, b')" using run(2) by simp
    ultimately show ?thesis using publish_all_session [OF assms(1,2) _ i(1,2), of "[?ev]" b'] by simp
  qed
  moreover have "chan_buf (chans (snd (Subscribe ?wf 256 b')) ! fst (Subscribe ?wf 256 b')) = []"
    by (rule fresh_subscription_empty)
  ultimately show ?thesis using run(2,3) ev by (intro exI [of _ ?wf] exI [of _ ?ev]) simp
qed


text \<open>A server whose identifiers are numbered by its state.\<close>

definition demo_server :: "(string, nat) server_env" where
  "demo_server = \<lparr>sv_decode = (\<lambda>body. if body = [] then Inl ''EOF'' else Inr body), sv_uuid = (\<lambda>w. (''0123456789'', w + 1)),
     sv_execute = (\<lambda>wid kind input w. (None, w + 1)), sv_now = int, sv_payload = (\<lambda>diff. diff), sv_encode = (\<lambda>wid. wid)\<rparr>"

theorem started_event_unseen_witness:
  "\<exists>reply b'. handleRun demo_server ''POST'' ''diff'' (NewMemoryBroker, 0) = (Some reply, (b', 2)) \<and> ReplyStatus reply = 200 \<and>
     chan_buf (chans (snd (Subscribe (ReplyBody reply) 256 b')) ! fst (Subscribe (ReplyBody reply) 256 b')) = []"
proof -
  obtain reply b' where run: "handleRun demo_server ''POST'' ''diff'' (broker new_session, 0) = (Some reply, (b', 2))" "ReplyStatus reply = 200"
    by (simp add: handleRun_def demo_server_def new_session_def NewMemoryBroker_def Publish_def Let_def subs_of_def)
  have start: "session_inv (new_session :: string session)" "\<not> broker_closed (broker (new_session :: string session))"
      "\<And>uuid. Some (''sibyl-pr-review-'' @ take 8 uuid) \<notin> set (kinds (new_session :: string session))"
    by (simp_all add: session_inv_new) (simp_all add: new_session_def NewMemoryBroker_def)
  have encode: "sv_encode demo_server = (\<lambda>wid. wid)" by (simp add: demo_server_def)
  from started_event_unseen [OF start(1,2) run start(3)] encode run show ?thesis by (auto simp: new_session_def)
qed

section \<open>What closes a stream\<close>

text \<open>Only the two events of a finished workflow do, and nothing that the code publishes is one of them.\<close>

lemma terminal_event_kinds: "terminal_event ev \<Longrightarrow> event_kind ev \<in> {''workflow.completed'', ''workflow.failed''}"
  by (cases ev) simp_all

lemma stamped_terminal [simp]: "terminal_event (stamped em ev) \<longleftrightarrow> terminal_event ev"
  by (cases ev) (simp_all add: stamped_def)

lemma sent_not_terminal: "list_all (\<lambda>ev. \<not> terminal_event ev) evs \<Longrightarrow> list_all (\<lambda>ev. \<not> terminal_event ev) (sent em evs)"
  by (auto simp: sent_def list_all_iff)

lemma chunks_not_terminal: "list_all (\<lambda>ev. \<not> terminal_event ev) (map (chunk_event nodeID) cs)"
  by (simp add: list_all_iff chunk_event_def)

text \<open>
  The event stream of a review never ends by itself. Everything that an activity of the review publishes
  leaves the loop of the handler open, whatever heartbeats come between: neither it nor the handler that
  starts the workflow publishes one of the two events that close a stream.
\<close>

theorem review_keeps_stream_open:
  assumes "observed_call env ctx a name nodeID sys user streaming (b, w) = (r, b', w')"
    and "act_complete a \<noteq> None" "\<forall>p. r \<noteq> Inl (Crash p)"
  shows "\<exists>evs. publish_all evs b = (None, b') \<and>
    (\<forall>marshal selects. set selects \<subseteq> insert HeartbeatTick (ReceivedEvent ` set evs) \<longrightarrow> \<not> snd (events_loop marshal selects)) \<and>
    \<not> terminal_event (NewWorkflowStarted t wid ReviewWorkflowName p)"
proof -
  obtain t1 cs t2 err d where pub: "publish_all (sent (EmitterForActivity ctx) [NewActivityStarted t1 [] name nodeID] @
      sent (context_emitter ctx) (map (chunk_event nodeID) cs) @
      sent (EmitterForActivity ctx) [NewActivityCompleted t2 [] name nodeID err d]) b = (None, b')"
    using observed_call_events [OF assms] by blast
  let ?evs = "sent (EmitterForActivity ctx) [NewActivityStarted t1 [] name nodeID] @
      sent (context_emitter ctx) (map (chunk_event nodeID) cs) @
      sent (EmitterForActivity ctx) [NewActivityCompleted t2 [] name nodeID err d]"
  have open_evs: "list_all (\<lambda>ev. \<not> terminal_event ev) ?evs"
    unfolding list_all_append
    by (intro conjI sent_not_terminal chunks_not_terminal) (simp_all add: NewActivityStarted_def NewActivityCompleted_def)
  have "\<not> snd (events_loop marshal selects)" if "set selects \<subseteq> insert HeartbeatTick (ReceivedEvent ` set ?evs)" for marshal selects
  proof -
    note i = that
    have "\<not> ends_loop marshal x" if "x \<in> set selects" for x
    proof -
      from that i have "x = HeartbeatTick \<or> (\<exists>ev\<in>set ?evs. x = ReceivedEvent ev)" by blast
      then show ?thesis using open_evs by (auto simp only: list_all_iff ends_loop.simps)
    qed
    then show ?thesis by (auto simp: events_loop_ended)
  qed
  with pub show ?thesis by (intro exI [of _ ?evs] conjI) (auto simp: NewWorkflowStarted_def)
qed


theorem review_keeps_stream_open_witness:
  "\<exists>b' evs. observed_call demo_review_env demo_listening demo_review_activities ''StyleCheck'' ''style_check''
       style_system ''p'' True (broker demo_listener, 0) = (Inr ''fine'', b', 1) \<and>
     publish_all evs (broker demo_listener) = (None, b') \<and>
     \<not> snd (events_loop (\<lambda>ev. Some (event_kind ev)) (map ReceivedEvent evs @ [HeartbeatTick]))"
proof -
  have ok: "broker_ok (broker demo_listener)"
    by (rule session_broker_ok [OF demo_listener_simps(1,3)])
  have "demo_model style_system ''p'' 0 = (Returned ''fine'' None, 1)"
    by (simp add: demo_model_def systems_differ)
  from observed_call_returns [where c = demo_model and a = demo_review_activities and env = demo_review_env and ctx = demo_listening
      and name = "''StyleCheck''" and nodeID = "''style_check''" and streaming = True, OF _ _ this ok]
  obtain b' where run: "observed_call demo_review_env demo_listening demo_review_activities ''StyleCheck'' ''style_check''
       style_system ''p'' True (broker demo_listener, 0) = (Inr ''fine'', b', 1)"
    by (auto simp: demo_review_activities_def)
  have "act_complete demo_review_activities \<noteq> None" "\<forall>p. (Inr ''fine'' :: review_error + string) \<noteq> Inl (Crash p)"
    by (simp_all add: demo_review_activities_def)
  from review_keeps_stream_open [OF run this, where t = 0 and wid = "''wf''" and p = "()"] obtain evs
    where evs: "publish_all evs (broker demo_listener) = (None, b')"
      "\<forall>marshal selects. set selects \<subseteq> insert HeartbeatTick (ReceivedEvent ` set evs) \<longrightarrow> \<not> snd (events_loop marshal selects)"
    by (elim exE conjE) (rule that; assumption)
  have "set (map ReceivedEvent evs @ [HeartbeatTick]) \<subseteq> insert HeartbeatTick (ReceivedEvent ` set evs)" by auto
  with evs(2) have "\<not> snd (events_loop (\<lambda>ev. Some (event_kind ev)) (map ReceivedEvent evs @ [HeartbeatTick]))" by blast
  with run evs(1) show ?thesis by blast
qed

end
