(* ===== verification/Slack_Client.thy ===== *)
theory Slack_Client
  imports Slack
begin

text \<open>
  Package channels/slack, file \<^verbatim>\<open>slack_go_client.go\<close>: the client of the adapter that is made of the
  slack-go library. The library is a parameter: the blocks are what it is told to build, and its calls
  give the text of an error or a result.
\<close>

section \<open>Blocks of the library\<close>

record text_object =
  TextType :: string
  TextValue :: string
  TextEmoji :: bool

record button_element =
  ElementActionID :: string
  ElementValue :: string
  ElementText :: text_object
  ElementURL :: string
  ElementStyle :: string

datatype go_block =
    HeaderBlock text_object
  | SectionBlock text_object
  | ContextBlock "text_object list"
  | ActionBlock "button_element list"

definition plain_text :: "string \<Rightarrow> text_object" where
  "plain_text s = \<lparr>TextType = ''plain_text'', TextValue = s, TextEmoji = True\<rparr>"

definition mrkdwn :: "string \<Rightarrow> text_object" where
  "mrkdwn s = \<lparr>TextType = ''mrkdwn'', TextValue = s, TextEmoji = False\<rparr>"

definition translate_button :: "Button \<Rightarrow> button_element" where
  "translate_button b =
     (if ButtonURL b \<noteq> []
      then \<lparr>ElementActionID = ButtonActionID b, ElementValue = [], ElementText = plain_text (ButtonLabel b),
        ElementURL = ButtonURL b, ElementStyle = ButtonStyle b\<rparr>
      else \<lparr>ElementActionID = ButtonActionID b, ElementValue = ButtonActionID b, ElementText = plain_text (ButtonLabel b),
        ElementURL = [], ElementStyle = ButtonStyle b\<rparr>)"

fun translateBlocks :: "Block list \<Rightarrow> go_block list" where
  "translateBlocks [] = []"
| "translateBlocks (b # bs) =
     (case BlockKindOf b of
        BlockHeader \<Rightarrow> HeaderBlock (plain_text (BlockText b)) # translateBlocks bs
      | BlockSection \<Rightarrow> SectionBlock (mrkdwn (BlockText b)) # translateBlocks bs
      | BlockContext \<Rightarrow>
          (let els = map mrkdwn (BlockElements b)
           in if els \<noteq> [] then ContextBlock els # translateBlocks bs else translateBlocks bs)
      | BlockActions \<Rightarrow>
          (let els = map translate_button (BlockButtons b)
           in if els \<noteq> [] then ActionBlock els # translateBlocks bs else translateBlocks bs))"

section \<open>The client\<close>

text \<open>
  \<open>api_post\<close> gets the channel, the text and the blocks, if any are given, and returns the time stamp of the
  message; a reaction of the library has a name, users and a count.
\<close>

record 'w slack_api =
  api_post :: "string \<Rightarrow> string \<Rightarrow> go_block list option \<Rightarrow> 'w \<Rightarrow> (string + string) \<times> 'w"
  api_reactions :: "string \<Rightarrow> string \<Rightarrow> 'w \<Rightarrow> (string + (string \<times> string list \<times> int) list) \<times> 'w"
  api_user :: "string \<Rightarrow> 'w \<Rightarrow> (string + UserInfo) \<times> 'w"

definition slack_go_Post :: "'w slack_api \<Rightarrow> string \<Rightarrow> PostOptions \<Rightarrow> 'w \<Rightarrow> (chan_error + string) \<times> 'w" where
  "slack_go_Post api channel opts w =
     (case api_post api channel (PostText opts)
             (if length (PostBlocks opts) > 0 then Some (translateBlocks (PostBlocks opts)) else None) w of
        (Inl e, w1) \<Rightarrow> (Inl (ChanWrapped ''slack post'' (ChanFailure e)), w1)
      | (Inr ts, w1) \<Rightarrow> (Inr ts, w1))"

definition slack_go_GetReactions :: "'w slack_api \<Rightarrow> string \<Rightarrow> string \<Rightarrow> 'w \<Rightarrow> (chan_error + Reaction list) \<times> 'w" where
  "slack_go_GetReactions api channel ts w =
     (case api_reactions api channel ts w of
        (Inl e, w1) \<Rightarrow> (Inl (ChanWrapped ''slack reactions.get'' (ChanFailure e)), w1)
      | (Inr rs, w1) \<Rightarrow> (Inr (map (\<lambda>(n, us, k). \<lparr>ReactionName = n, ReactionUsers = us, ReactionCount = k\<rparr>) rs), w1))"

definition slack_go_GetUserInfo :: "'w slack_api \<Rightarrow> string \<Rightarrow> 'w \<Rightarrow> (chan_error + UserInfo) \<times> 'w" where
  "slack_go_GetUserInfo api userID w =
     (case api_user api userID w of
        (Inl e, w1) \<Rightarrow> (Inl (ChanWrapped ''slack users.info'' (ChanFailure e)), w1)
      | (Inr u, w1) \<Rightarrow> (Inr u, w1))"

definition NewSlackGoClient :: "'w slack_api \<Rightarrow> 'w Client" where
  "NewSlackGoClient api =
     \<lparr>client_post = slack_go_Post api, client_reactions = slack_go_GetReactions api, client_user = slack_go_GetUserInfo api\<rparr>"

section \<open>The default rendering in Slack\<close>

text \<open>Blocks that the translation keeps, and what it makes of one.\<close>

definition kept_block :: "Block \<Rightarrow> bool" where
  "kept_block b = (case BlockKindOf b of BlockContext \<Rightarrow> BlockElements b \<noteq> [] | BlockActions \<Rightarrow> BlockButtons b \<noteq> [] | _ \<Rightarrow> True)"

lemma translateBlocks_append: "translateBlocks (xs @ ys) = translateBlocks xs @ translateBlocks ys"
  by (induction xs) (auto simp: Let_def split: BlockKind.split)

lemma length_translateBlocks: "length (translateBlocks bs) = length (filter kept_block bs)"
  by (induction bs) (auto simp: kept_block_def Let_def split: BlockKind.split)

lemma actionReactionHint_empty: "actionReactionHint as = [] \<longleftrightarrow> as = []"
  by (simp add: actionReactionHint_def)

text \<open>
  What Slack shows of a message that is rendered by default: its title with its severity, its body, one line
  for each evidence, the reactions that stand for its actions, a button for each link, and the workflow,
  each of them only if the message has it, and in this order. No block of the rendering is dropped.
\<close>

lemma default_rendering_in_Slack:
  "translateBlocks (PostBlocks (DefaultRender m)) =
     (if MessageTitle m \<noteq> [] then [HeaderBlock (plain_text (if MessageSeverity m \<noteq> []
        then ''['' @ MessageSeverity m @ ''] '' @ MessageTitle m else MessageTitle m))] else []) @
     (if MessageBody m \<noteq> [] then [SectionBlock (mrkdwn (MessageBody m))] else []) @
     (if MessageEvidence m \<noteq> [] then [ContextBlock (map (mrkdwn \<circ> evidence_label) (MessageEvidence m))] else []) @
     (if MessageActions m \<noteq> [] then [ContextBlock [mrkdwn (actionReactionHint (MessageActions m))]] else []) @
     (if MessageLinks m \<noteq> [] then [ActionBlock (map (\<lambda>l. translate_button \<lparr>ButtonActionID = [], ButtonLabel = LinkLabel l,
        ButtonStyle = [], ButtonURL = LinkURL l\<rparr>) (MessageLinks m))] else []) @
     (if RefWorkflowID (MessageRef m) \<noteq> [] then [ContextBlock [mrkdwn (workflow_line (MessageRef m))]] else [])"
  by (simp add: DefaultRender_def Let_def translateBlocks_append block_def actionReactionHint_empty comp_def)

lemma default_rendering_kept: "list_all kept_block (PostBlocks (DefaultRender m))"
  by (simp add: DefaultRender_def Let_def kept_block_def block_def)


text \<open>The blocks that the library is given for a rendering: none at all for one without blocks.\<close>

definition sent_blocks :: "PostOptions \<Rightarrow> go_block list option" where
  "sent_blocks opts = (if PostBlocks opts \<noteq> [] then Some (translateBlocks (PostBlocks opts)) else None)"

text \<open>
  Posting to Slack is one call of the library with the text and the blocks of the rendering, none of which
  is dropped for the default rendering. The receipt holds the channel, the target and the time stamp by
  which the reactions on this very message are asked for later; an error is reported and nothing else is sent.
\<close>

theorem slack_post_call:
  assumes "New_slack env name (Some (NewSlackGoClient api)) cfg = Inr ch" "Render cfg = None" "ChannelNotify ch = Some post"
  shows "(case api_post api target (PostText (DefaultRender msg)) (sent_blocks (DefaultRender msg)) w of
       (Inl e, w1) \<Rightarrow> post target msg w = (Inl (ChanWrapped ''slack.Post'' (ChanWrapped ''slack post'' (ChanFailure e))), w1)
     | (Inr ts, w1) \<Rightarrow> \<exists>rc. post target msg w = (Inr rc, w1) \<and> ReceiptChannel rc = name \<and>
         (\<forall>w2. client_reactions (NewSlackGoClient api) (ReceiptTarget rc) (ReceiptNative rc) w2 = slack_go_GetReactions api target ts w2)) \<and>
     length (translateBlocks (PostBlocks (DefaultRender msg))) = length (PostBlocks (DefaultRender msg))"
proof -
  have post: "post = slack_notify (NewSlackGoClient api) (applyDefaults cfg) name"
    using assms(1,3) by (auto simp: New_slack_def Let_def split: if_splits)
  have "filter kept_block (PostBlocks (DefaultRender msg)) = PostBlocks (DefaultRender msg)"
    using default_rendering_kept [of msg] by (simp add: list_all_iff filter_id_conv)
  moreover have "applyDefaults cfg = (applyDefaults cfg)\<lparr>Render := Some DefaultRender\<rparr>"
    using assms(2) by (simp add: applyDefaults_def)
  then have "Render (applyDefaults cfg) = Some DefaultRender" by (metis Config.select_convs(3) Config.surjective Config.update_convs(3))
  ultimately show ?thesis
    by (auto simp: post slack_notify_def NewSlackGoClient_def slack_go_Post_def sent_blocks_def length_translateBlocks
        split: prod.split sum.split)
qed

text \<open>An interface that answers with a count of its posts.\<close>

definition demo_api :: "nat slack_api" where
  "demo_api = \<lparr>api_post = (\<lambda>c t bs w. (if t = [] then Inl ''no_text'' else Inr (replicate w (CHR ''1'')), w + 1)),
     api_reactions = (\<lambda>c ts w. (Inr [(''x'', [''U1''], 1)], w)), api_user = (\<lambda>u w. (Inl ''down'', w))\<rparr>"

theorem slack_post_call_witness:
  "\<exists>post rc. New_slack demo_slack_env ''slack'' (Some (NewSlackGoClient demo_api)) demo_config = Inr \<lparr>ChannelName = ''slack'',
      ChannelNotify = Some post, ChannelAwait = Some (\<lambda>rs opts w. returned (slack_await demo_slack_env (NewSlackGoClient demo_api)
        (applyDefaults demo_config) ''slack'' rs opts w) w)\<rparr> \<and> post ''C1'' demo_message 2 = (Inr rc, 3) \<and>
    client_reactions (NewSlackGoClient demo_api) (ReceiptTarget rc) (ReceiptNative rc) 5 = slack_go_GetReactions demo_api ''C1'' ''11'' 5"
proof -
  let ?post = "slack_notify (NewSlackGoClient demo_api) (applyDefaults demo_config) ''slack''"
  have new: "New_slack demo_slack_env ''slack'' (Some (NewSlackGoClient demo_api)) demo_config = Inr \<lparr>ChannelName = ''slack'',
      ChannelNotify = Some ?post, ChannelAwait = Some (\<lambda>rs opts w. returned (slack_await demo_slack_env (NewSlackGoClient demo_api)
        (applyDefaults demo_config) ''slack'' rs opts w) w)\<rparr>"
    by (simp add: New_slack_def Let_def)
  have call: "api_post demo_api ''C1'' (PostText (DefaultRender demo_message)) (sent_blocks (DefaultRender demo_message)) 2 = (Inr ''11'', 3)"
    by (simp add: demo_api_def DefaultRender_def demo_message_def Let_def numeral_2_eq_2)
  have "Render demo_config = None" by (simp add: demo_config_def)
  from slack_post_call [OF new this Channel.select_convs(2), of "''C1''" demo_message 2] new show ?thesis
    unfolding call by auto
qed

end
