(* ===== verification/Channel_Activities.thy ===== *)
theory Channel_Activities
  imports Slack Plan_Workflow
begin

text \<open>
  Package channeltemporal (\<^verbatim>\<open>channels/temporal/temporal.go\<close>): the dispatcher as activities of a workflow, and
  the helpers by which a workflow posts a message and awaits its verdict.

  Temporal runs the activities. It is a parameter: \<open>exec options name input s\<close> is the outcome of an activity
  that is started with some options, after its attempts, of which any may time out after it has done a part of its
  work or all of it. The heartbeats that \<open>AwaitVerdict\<close> records while it waits touch nothing that the wait reads.
\<close>

section \<open>The activities\<close>

definition ActivityPost :: string where "ActivityPost = ''channels.Post''"
definition ActivityAwaitVerdict :: string where "ActivityAwaitVerdict = ''channels.AwaitVerdict''"
definition ActivityAwaitReplies :: string where "ActivityAwaitReplies = ''channels.AwaitReplies''"

definition New_channel_activities :: "'w Dispatcher option \<Rightarrow> chan_error + 'w Dispatcher" where
  "New_channel_activities d =
     (case d of None \<Rightarrow> Inl (ChanFailure ''channels/temporal.NewActivities: dispatcher is required'') | Some d \<Rightarrow> Inr d)"

record ActivityPostResult =
  PostedReceipts :: "Receipt list"
  PostedErrors :: "string list"

definition Post :: "(string list \<Rightarrow> string list) \<Rightarrow> 'w Dispatcher \<Rightarrow> Message \<Rightarrow> 'w \<Rightarrow> (chan_error + ActivityPostResult) \<times> 'w" where
  "Post \<rho> d msg w =
     (case Notify \<rho> d msg w of
        (Inl e, w1) \<Rightarrow> (Inl e, w1)
      | (Inr r, w1) \<Rightarrow> (Inr \<lparr>PostedReceipts = PostReceipts r, PostedErrors = PostErrors r\<rparr>, w1))"

definition AwaitVerdict :: "'w race \<Rightarrow> (string list \<Rightarrow> string list) \<Rightarrow> 'w Dispatcher \<Rightarrow> Receipt list \<Rightarrow> AwaitOpts \<Rightarrow>
    'w \<Rightarrow> await_outcome \<times> 'w" where
  "AwaitVerdict race \<rho> d receipts opts w = Await race \<rho> d receipts opts w"

definition heartbeat_interval :: int where "heartbeat_interval = 15 * second"

section \<open>The helpers of a workflow\<close>

text \<open>
  The options that the post is started with. Setting options on a workflow's context keeps its task queue
  when none is given.
\<close>

definition post_options :: "ActivityOptions \<Rightarrow> ActivityOptions" where
  "post_options current =
     (if StartToCloseTimeout current = 0
      then \<lparr>ActivityTaskQueue = ActivityTaskQueue current, StartToCloseTimeout = 30 * second, HeartbeatTimeout = 0,
        ActivityRetryPolicy = \<lparr>InitialInterval = second, BackoffCoefficient = 2, MaximumAttempts = 3, NonRetryableErrorTypes = []\<rparr>\<rparr>
      else current)"

definition PostFromWorkflow :: "(ActivityOptions \<Rightarrow> string \<Rightarrow> Message \<Rightarrow> 's \<Rightarrow> ('e + ActivityPostResult) \<times> 's) \<Rightarrow> ActivityOptions \<Rightarrow>
    Message \<Rightarrow> 's \<Rightarrow> ('e + ActivityPostResult) \<times> 's" where
  "PostFromWorkflow exec current msg s = exec (post_options current) ActivityPost msg s"

definition await_options :: "ActivityOptions \<Rightarrow> AwaitOpts \<Rightarrow> ActivityOptions" where
  "await_options current opts =
     (let wait = (if AwaitTimeout opts \<le> 0 then 30 * 60 * second else AwaitTimeout opts)
      in \<lparr>ActivityTaskQueue = ActivityTaskQueue current, StartToCloseTimeout = wrap64 (wait + 5 * 60 * second),
          HeartbeatTimeout = 30 * second,
          ActivityRetryPolicy = \<lparr>InitialInterval = 0, BackoffCoefficient = 0, MaximumAttempts = 1, NonRetryableErrorTypes = []\<rparr>\<rparr>)"

definition AwaitVerdictFromWorkflow :: "(ActivityOptions \<Rightarrow> string \<Rightarrow> Receipt list \<times> AwaitOpts \<Rightarrow> 's \<Rightarrow> ('e + HumanVerdict) \<times> 's) \<Rightarrow>
    ActivityOptions \<Rightarrow> Receipt list \<Rightarrow> AwaitOpts \<Rightarrow> 's \<Rightarrow> ('e + HumanVerdict) \<times> 's" where
  "AwaitVerdictFromWorkflow exec current receipts opts s = exec (await_options current opts) ActivityAwaitVerdict (receipts, opts) s"

section \<open>What Temporal does with an activity\<close>

text \<open>
  An attempt ends with the result that its worker reports, or Temporal gives it up: its time is over, or its worker
  is lost. The activity then fails, unless it is attempted again, with an error of Temporal's own.
\<close>

datatype ('e, 'a) attempt_end = Reported "'e + 'a" | GivenUp

datatype 'e activity_error = ActivityFailed 'e | ActivityTimedOut

fun activity_result :: "('e, 'a) attempt_end \<Rightarrow> 'e activity_error + 'a" where
  "activity_result (Reported (Inl e)) = Inl (ActivityFailed e)"
| "activity_result (Reported (Inr a)) = Inr a"
| "activity_result GivenUp = Inl ActivityTimedOut"

text \<open>
  \<open>body\<close> is what a whole run of the activity does; \<open>part\<close> is what a run may have done when Temporal gives it up:
  nothing, a part or everything.
\<close>

fun attempt_runs :: "('s \<Rightarrow> 'e + 'a \<Rightarrow> 's \<Rightarrow> bool) \<Rightarrow> ('s \<Rightarrow> 's \<Rightarrow> bool) \<Rightarrow> 's \<Rightarrow> ('e, 'a) attempt_end \<Rightarrow> 's \<Rightarrow> bool" where
  "attempt_runs body part s (Reported r) s' \<longleftrightarrow> body s r s'"
| "attempt_runs body part s GivenUp s' \<longleftrightarrow> part s s'"

text \<open>
  The attempts of an activity: the state before each, how it ended, and the state after it. All but the
  last failed or were given up; other work, and what an attempt that was given up still does, may change the
  state between two attempts.
\<close>

type_synonym ('e, 'a, 's) attempt = "'s \<times> ('e, 'a) attempt_end \<times> 's"

inductive attempts :: "('s \<Rightarrow> 'e + 'a \<Rightarrow> 's \<Rightarrow> bool) \<Rightarrow> ('s \<Rightarrow> 's \<Rightarrow> bool) \<Rightarrow> ('e, 'a, 's) attempt list \<Rightarrow> 's \<Rightarrow>
    'e activity_error + 'a \<Rightarrow> 's \<Rightarrow> bool" for body part where
  attempt_last: "attempt_runs body part s x s' \<Longrightarrow> attempts body part [(s, x, s')] s (activity_result x) s'"
| attempt_again: "attempt_runs body part s x s1 \<Longrightarrow> activity_result x = Inl e \<Longrightarrow> attempts body part log s2 r s' \<Longrightarrow>
    attempts body part ((s, x, s1) # log) s r s'"

text \<open>
  Temporal's documented retries: an activity is attempted until it succeeds, at most as often as its policy
  says (zero stands for no limit), an attempt that was given up counts like one that failed, and the outcome of
  the activity is that of its last attempt.
\<close>

definition attempts_allowed :: "ActivityOptions \<Rightarrow> nat \<Rightarrow> bool" where
  "attempts_allowed opts n \<longleftrightarrow>
     MaximumAttempts (ActivityRetryPolicy opts) \<le> 0 \<or> int n \<le> MaximumAttempts (ActivityRetryPolicy opts)"

definition executes_activity :: "('i \<Rightarrow> 's \<Rightarrow> 'e + 'a \<Rightarrow> 's \<Rightarrow> bool) \<Rightarrow> ('i \<Rightarrow> 's \<Rightarrow> 's \<Rightarrow> bool) \<Rightarrow> string \<Rightarrow>
    (ActivityOptions \<Rightarrow> string \<Rightarrow> 'i \<Rightarrow> 's \<Rightarrow> ('e activity_error + 'a) \<times> 's) \<Rightarrow> bool" where
  "executes_activity body part name exec \<longleftrightarrow> (\<forall>opts inp s r s'. exec opts name inp s = (r, s') \<longrightarrow>
     (\<exists>log. attempts (body inp) (part inp) log s r s' \<and> attempts_allowed opts (length log)))"

text \<open>
  The post on a worker; every run may range over a map in another order. A run that is given up has posted to some
  of the targets of the router, the first ones.
\<close>

definition post_body :: "'w Dispatcher \<Rightarrow> Message \<Rightarrow> 'w \<Rightarrow> chan_error + ActivityPostResult \<Rightarrow> 'w \<Rightarrow> bool" where
  "post_body d msg w r w' \<longleftrightarrow> (\<exists>\<rho>. range_order \<rho> \<and> Post \<rho> d msg w = (r, w'))"

definition posts_to_first :: "'w Dispatcher \<Rightarrow> Message \<Rightarrow> 'w \<Rightarrow> 'w \<Rightarrow> bool" where
  "posts_to_first d msg w w' \<longleftrightarrow> w' = w \<or> (\<exists>\<rho> router targets n os. range_order \<rho> \<and> DispatcherRouter d = Some router \<and>
     router (channelNames \<rho> d) msg = Inr targets \<and> post_all (DispatcherChannels d) msg (take n targets) w = (os, w'))"

lemma attempts_nonempty: "attempts body part log s r s' \<Longrightarrow> log \<noteq> []"
  by (induction rule: attempts.induct) simp_all

lemma attempts_last:
  "attempts body part log s r s' \<Longrightarrow> \<exists>s0 x. last log = (s0, x, s') \<and> attempt_runs body part s0 x s' \<and> r = activity_result x"
  by (induction rule: attempts.induct) (auto dest: attempts_nonempty)

lemma attempts_all: "attempts body part log s r s' \<Longrightarrow> (s0, x, s1) \<in> set log \<Longrightarrow> attempt_runs body part s0 x s1"
  by (induction rule: attempts.induct) auto

lemma attempts_failed: "attempts body part log s r s' \<Longrightarrow> y \<in> set (butlast log) \<Longrightarrow> isl (activity_result (fst (snd y)))"
  by (induction rule: attempts.induct) (auto dest: attempts_nonempty split: if_splits)

section \<open>Posting\<close>

lemma Post_failed: "Post \<rho> d msg w = (Inl e, w') \<Longrightarrow> w' = w"
  by (auto simp: Post_def Notify_def split: option.splits sum.splits if_splits prod.splits)

lemma Post_posted:
  assumes "Post \<rho> d msg w = (Inr res, w')"
  shows "Notify \<rho> d msg w = (Inr \<lparr>PostReceipts = PostedReceipts res, PostErrors = PostedErrors res\<rparr>, w')"
  using assms by (auto simp: Post_def split: prod.splits sum.splits)

lemma Post_posts_all:
  assumes "Post \<rho> d msg w = (Inr res, w')"
  shows "\<exists>router targets os. DispatcherRouter d = Some router \<and> router (channelNames \<rho> d) msg = Inr targets \<and>
    targets \<noteq> [] \<and> post_all (DispatcherChannels d) msg targets w = (os, w') \<and> length os = length targets \<and>
    PostedReceipts res = rights os \<and> PostedErrors res = lefts os"
  using Notify_posts_from [OF Post_posted [OF assms], unfolded PostResult.select_convs] by blast

lemma post_attempt:
  assumes "attempt_runs (post_body d msg) (posts_to_first d msg) s x s'"
  shows "posts_to_first d msg s s'"
proof (cases x)
  case (Reported r)
  then obtain \<rho> where run: "range_order \<rho>" "Post \<rho> d msg s = (r, s')" using assms by (auto simp: post_body_def)
  show ?thesis
  proof (cases r)
    case (Inl e)
    with run Post_failed show ?thesis by (auto simp: posts_to_first_def)
  next
    case (Inr res)
    from Post_posts_all [OF run(2) [unfolded Inr]] obtain router targets os where "DispatcherRouter d = Some router"
      "router (channelNames \<rho> d) msg = Inr targets" "post_all (DispatcherChannels d) msg (take (length targets) targets) s = (os, s')"
      by auto
    with run(1) show ?thesis unfolding posts_to_first_def by blast
  qed
qed (use assms in simp)

lemma post_attempt_failed:
  assumes "attempt_runs (post_body d msg) (posts_to_first d msg) s x s'" "activity_result x = Inl e" "x \<noteq> GivenUp"
  shows "s' = s"
  using assms Post_failed by (cases x rule: activity_result.cases) (auto simp: post_body_def)


section \<open>Waiting\<close>

lemma await_options_wait:
  assumes "AwaitTimeout opts \<le> 2 ^ 63 - 1 - 5 * 60 * second"
  shows "StartToCloseTimeout (await_options current opts) = slack_timeout opts + 5 * 60 * second"
  using assms by (auto simp: await_options_def slack_timeout_def second_def Let_def intro!: wrap64_id simp: int64_def)

text \<open>A longer timeout wraps around and gives an activity whose time is over before it starts.\<close>

lemma await_options_overflow:
  assumes "2 ^ 63 - 1 - 5 * 60 * second < AwaitTimeout opts" "AwaitTimeout opts < 2 ^ 63"
  shows "StartToCloseTimeout (await_options current opts) < 0"
proof -
  have "AwaitTimeout opts + 5 * 60 * second + 2 ^ 63 = (AwaitTimeout opts + 5 * 60 * second - 2 ^ 63) + 2 ^ 64" by simp
  then have "(AwaitTimeout opts + 5 * 60 * second + 2 ^ 63) mod 2 ^ 64 = (AwaitTimeout opts + 5 * 60 * second - 2 ^ 63) mod 2 ^ 64"
    by (simp only: mod_add_self2)
  also have "\<dots> = AwaitTimeout opts + 5 * 60 * second - 2 ^ 63"
    using assms by (intro mod_pos_pos_trivial) (simp_all add: second_def)
  finally show ?thesis using assms by (simp add: await_options_def wrap64_def Let_def second_def)
qed

text \<open>Receipts of one channel: the dispatcher waits on that channel, and an actor who has a name is not looked up.\<close>

lemma await_groups_one:
  assumes "range_order \<rho>" "receipts \<noteq> []" "\<forall>rc\<in>set receipts. ReceiptChannel rc = name"
  shows "await_groups \<rho> receipts = [(name, receipts)]"
proof -
  have "set (\<rho> (dedup (map ReceiptChannel receipts))) = {name}"
    using assms(2,3) by (auto simp: range_order_set [OF assms(1)] neq_Nil_conv)
  moreover have "distinct (\<rho> (dedup (map ReceiptChannel receipts)))" using mset_eq_imp_distinct_iff [OF range_order_mset [OF assms(1)]] by simp
  ultimately have "\<rho> (dedup (map ReceiptChannel receipts)) = [name]"
    by (cases "\<rho> (dedup (map ReceiptChannel receipts))"; cases "tl (\<rho> (dedup (map ReceiptChannel receipts)))") auto
  moreover have "receipts_of name receipts = receipts" using assms(3) by (simp add: receipts_of_def)
  ultimately show ?thesis by (simp add: await_groups_def)
qed

lemma Await_slack:
  assumes "New_slack env name (Some client) cfg = Inr ch" "gm_get (DispatcherChannels d) name = Some ch" "range_order \<rho>"
    and "receipts \<noteq> []" "\<forall>rc\<in>set receipts. ReceiptChannel rc = name"
    and "slack_await env client (applyDefaults cfg) name receipts opts w = Some (r, w')"
  shows "Await race \<rho> d receipts opts w = (case r of Inl e \<Rightarrow> AwaitFailed e | Inr v \<Rightarrow> Answered v, w')"
proof -
  have wait: "ChannelAwait ch = Some (\<lambda>rs opts w. returned (slack_await env client (applyDefaults cfg) name rs opts w) w)"
    using New_slack_channel [OF assms(1)] by simp
  have "ActorCanonical (VerdictActor v) \<noteq> []" if "r = Inr v" for v
    using slack_await_outcome [OF assms(6)] that by auto
  then show ?thesis
    unfolding Await_def await_groups_eq [OF assms(3)] await_groups_one [OF assms(3-5)]
    using assms(4) by (cases r) (simp_all add: assms(2) wait returned_def assms(6) normalize_def)
qed

text \<open>
  C38: a wait for a Slack verdict that a workflow makes through its activity is over before Temporal ends the
  activity, with a verdict, with the end of the context or with the channel's own time-out. The time that
  the wait takes is at most its timeout, one poll interval and one round of requests to Slack; it fits in the
  five minutes that the helper adds when the configured poll interval and such a round do, for every timeout
  that leaves five minutes of the range of a duration. The activity is attempted once, and its heartbeats come
  twice as often as they must. Assumed of the ticker and of Slack: the ticker ticks at the configured interval, no
  earlier and no later, and a request is answered or fails within some latency.
\<close>

theorem await_fits_activity:
  assumes "New_slack env name (Some client) cfg = Inr ch" "gm_get (DispatcherChannels d) name = Some ch" "range_order \<rho>"
    and "receipts \<noteq> []" "\<forall>rc\<in>set receipts. ReceiptChannel rc = name"
    and "ticker_ok env client (PollInterval (applyDefaults cfg)) start N"
    and "wait_timing T env client (PollInterval (applyDefaults cfg)) latency"
    and "clock env w = (t0, w1)" "t0 \<le> start" "N w1 = 0"
    and "AwaitTimeout opts \<le> 2 ^ 63 - 1 - 5 * 60 * second"
    and "AwaitVerdict race \<rho> d receipts opts w = (out, w')"
  shows "((\<exists>v. out = Answered v) \<or> out = AwaitFailed ErrTimeout \<or> (\<exists>c. out = AwaitFailed (ChanContext c))) \<and>
    T w' - T w \<le> slack_timeout opts + PollInterval (applyDefaults cfg) + (int (length receipts) + 1) * latency \<and>
    (PollInterval (applyDefaults cfg) + (int (length receipts) + 1) * latency \<le> 5 * 60 * second \<longrightarrow>
       T w' - T w \<le> StartToCloseTimeout (await_options current opts)) \<and>
    2 * heartbeat_interval \<le> HeartbeatTimeout (await_options current opts) \<and>
    (\<forall>n. attempts_allowed (await_options current opts) n \<longleftrightarrow> n \<le> 1)"
proof -
  have pos: "0 < PollInterval (applyDefaults cfg)" by (simp add: applyDefaults_def)
  from slack_await_ticks [OF assms(6) pos assms(8-10), of "applyDefaults cfg" name receipts opts] obtain r w2 where
    run: "slack_await env client (applyDefaults cfg) name receipts opts w = Some (r, w2)" by blast
  have out: "out = (case r of Inl e \<Rightarrow> AwaitFailed e | Inr v \<Rightarrow> Answered v)" "w2 = w'"
    using Await_slack [OF assms(1-5) run, of race] assms(12) by (simp_all add: AwaitVerdict_def)
  have ends: "(\<exists>v. out = Answered v) \<or> out = AwaitFailed ErrTimeout \<or> (\<exists>c. out = AwaitFailed (ChanContext c))"
    using slack_await_outcome [OF run] by (cases r) (auto simp: out(1))
  have time: "T w' - T w \<le> slack_timeout opts + PollInterval (applyDefaults cfg) + (int (length receipts) + 1) * latency"
    using slack_await_time [OF assms(7) run [unfolded out(2)]] by linarith
  have beats: "2 * heartbeat_interval \<le> HeartbeatTimeout (await_options current opts)"
    by (simp add: heartbeat_interval_def await_options_def Let_def)
  have "attempts_allowed (await_options current opts) n \<longleftrightarrow> n \<le> 1" for n
    by (auto simp: attempts_allowed_def await_options_def Let_def)
  moreover have "T w' - T w \<le> slack_timeout opts + 5 * 60 * second"
    if "PollInterval (applyDefaults cfg) + (int (length receipts) + 1) * latency \<le> 5 * 60 * second"
    using that time by linarith
  ultimately show ?thesis using ends time beats unfolding await_options_wait [OF assms(11)] by simp
qed


section \<open>Concrete helpers\<close>

definition demo_context_options :: ActivityOptions where
  "demo_context_options = \<lparr>ActivityTaskQueue = ''q'', StartToCloseTimeout = 0, HeartbeatTimeout = 0,
     ActivityRetryPolicy = \<lparr>InitialInterval = 0, BackoffCoefficient = 0, MaximumAttempts = 0, NonRetryableErrorTypes = []\<rparr>\<rparr>"

text \<open>
  A channel that counts its posts, and a Temporal that gives up the first attempt after it has posted: the message is
  posted twice.
\<close>

definition demo_counter :: "nat Channel" where
  "demo_counter = \<lparr>ChannelName = ''slack'', ChannelNotify = Some (\<lambda>target msg w. (Inr demo_slack_receipt, w + 1)),
     ChannelAwait = None\<rparr>"

definition demo_counting :: "nat Dispatcher" where
  "demo_counting = \<lparr>DispatcherChannels = [(''slack'', demo_counter)],
     DispatcherRouter = Some (FixedRouter ''slack'' ''C1''), DispatcherResolver = Some PassthroughResolver\<rparr>"

definition demo_execute :: "ActivityOptions \<Rightarrow> string \<Rightarrow> Message \<Rightarrow> nat \<Rightarrow> (chan_error activity_error + ActivityPostResult) \<times> nat" where
  "demo_execute opts name msg w = (Inr \<lparr>PostedReceipts = [demo_slack_receipt], PostedErrors = []\<rparr>,
     if attempts_allowed opts 2 then w + 2 else w + 1)"

lemma demo_counting_post:
  "Post (\<lambda>xs. xs) demo_counting msg w = (Inr \<lparr>PostedReceipts = [demo_slack_receipt], PostedErrors = []\<rparr>, w + 1)"
  by (simp add: Post_def Notify_def demo_counting_def FixedRouter_def gm_get_def demo_counter_def)

lemma demo_counting_body:
  "post_body demo_counting msg w (Inr \<lparr>PostedReceipts = [demo_slack_receipt], PostedErrors = []\<rparr>) (w + 1)"
  unfolding post_body_def using demo_counting_post range_order_id by blast

lemma timed_out_post_repeated:
  "attempts (post_body demo_counting msg) (posts_to_first demo_counting msg)
     [(w, GivenUp, w + 1), (w + 1, Reported (Inr \<lparr>PostedReceipts = [demo_slack_receipt], PostedErrors = []\<rparr>), w + 2)]
     w (Inr \<lparr>PostedReceipts = [demo_slack_receipt], PostedErrors = []\<rparr>) (w + 2)"
proof (rule attempt_again)
  let ?r = "Inr \<lparr>PostedReceipts = [demo_slack_receipt], PostedErrors = []\<rparr>"
  have "posts_to_first demo_counting msg w (w + 1)"
    by (rule post_attempt [where x = "Reported ?r"]) (simp only: attempt_runs.simps demo_counting_body)
  then show "attempt_runs (post_body demo_counting msg) (posts_to_first demo_counting msg) w GivenUp (w + 1)" by simp
  have "attempt_runs (post_body demo_counting msg) (posts_to_first demo_counting msg) (w + 1) (Reported ?r) (w + 2)"
    using demo_counting_body [of msg "w + 1"] by simp
  from attempt_last [OF this] show "attempts (post_body demo_counting msg) (posts_to_first demo_counting msg)
      [(w + 1, Reported ?r, w + 2)] (w + 1) ?r (w + 2)" by simp
qed simp

lemma demo_execute_ok: "executes_activity (post_body demo_counting) (posts_to_first demo_counting) ActivityPost demo_execute"
  unfolding executes_activity_def
proof (intro allI impI)
  let ?a = "Inr \<lparr>PostedReceipts = [demo_slack_receipt], PostedErrors = []\<rparr>"
  fix opts msg s r s' assume run: "demo_execute opts ActivityPost msg s = (r, s')"
  show "\<exists>log. attempts (post_body demo_counting msg) (posts_to_first demo_counting msg) log s r s' \<and>
      attempts_allowed opts (length log)"
  proof (cases "attempts_allowed opts 2")
    case True
    with run have "r = ?a" "s' = s + 2" by (simp_all add: demo_execute_def)
    with timed_out_post_repeated [of msg s] True [unfolded numeral_2_eq_2] show ?thesis
      by (intro exI [of _ "[(s, GivenUp, s + 1), (s + 1, Reported ?a, s + 2)]"]) simp
  next
    case False
    with run have "r = ?a" "s' = s + 1" by (simp_all add: demo_execute_def)
    moreover have "attempts_allowed opts 1" using False by (auto simp: attempts_allowed_def)
    moreover have "attempts (post_body demo_counting msg) (posts_to_first demo_counting msg) [(s, Reported ?a, s + 1)] s ?a (s + 1)"
      using attempt_last [of "post_body demo_counting msg" _ s "Reported ?a" "s + 1"] demo_counting_body by simp
    ultimately show ?thesis by (intro exI [of _ "[(s, Reported ?a, s + 1)]"]) simp
  qed
qed


lemma demo_slack_timing:
  "ticker_ok demo_slack_env demo_client 1 0 (\<lambda>w. w)" "wait_timing int demo_slack_env demo_client 1 0"
  by (simp_all add: ticker_ok_def wait_timing_def demo_slack_env_def demo_client_def)

theorem await_fits_activity_witness:
  "\<exists>out w'. AwaitVerdict (\<lambda>ws opts w. ([], w)) (\<lambda>xs. xs) demo_slack_dispatcher [demo_slack_receipt]
     (demo_opts\<lparr>AwaitTimeout := 5\<rparr>) 0 = (out, w') \<and> out \<noteq> AwaitBlocked \<and> int w' \<le> 6 \<and>
     int w' \<le> StartToCloseTimeout (await_options demo_context_options (demo_opts\<lparr>AwaitTimeout := 5\<rparr>))"
proof -
  let ?opts = "demo_opts\<lparr>AwaitTimeout := 5\<rparr>"
  have poll: "PollInterval (applyDefaults demo_config) = 1" by (simp add: applyDefaults_def demo_config_def)
  have ch: "gm_get (DispatcherChannels demo_slack_dispatcher) ''slack'' = Some demo_slack"
    by (simp add: demo_slack_dispatcher_def gm_get_def)
  have rc: "[demo_slack_receipt] \<noteq> []" "\<forall>rc\<in>set [demo_slack_receipt]. ReceiptChannel rc = ''slack''"
    by (simp_all add: demo_slack_receipt_def)
  have t0: "clock demo_slack_env 0 = (0, 0)" by (simp add: demo_slack_env_def)
  obtain out w' where run: "AwaitVerdict (\<lambda>ws opts w. ([], w)) (\<lambda>xs. xs) demo_slack_dispatcher [demo_slack_receipt] ?opts 0 = (out, w')"
    by (metis prod.exhaust)
  have time: "AwaitTimeout ?opts \<le> 2 ^ 63 - 1 - 5 * 60 * second" by (simp add: second_def)
  from await_fits_activity [where current = demo_context_options, OF demo_slack_new ch range_order_id rc
      demo_slack_timing [folded poll] t0 _ _ time run]
  show ?thesis using run by (auto simp: poll slack_timeout_def second_def)
qed

end
