(* ===== verification/Workers.thy ===== *)
theory Workers
  imports Review Supervisor OAuth_Workflow Channel_Activities
begin

text \<open>
  Registering workflows and activities on a Temporal worker: package worker (\<^verbatim>\<open>worker/worker.go\<close>), package
  worker of oauth (\<^verbatim>\<open>auth/oauth/worker/worker.go\<close>), \<open>Register\<close> of package plan and of the channel activities;
  and the submission of a plan by the agent package (\<^verbatim>\<open>agent/plan.go\<close>).

  The worker is Temporal's and a parameter. A registered Go function is a constructor, with the receiver of
  a method; \<open>Inl\<close> and \<open>None\<close> are panics.
\<close>

section \<open>Names\<close>

definition ConvergeWorkflowName :: string where "ConvergeWorkflowName = ''ConvergeWorkflow''"
definition SupervisorWorkflowName :: string where "SupervisorWorkflowName = ''SupervisorWorkflow''"
definition PlanWorkflowName :: string where "PlanWorkflowName = ''PlanWorkflow''"
definition OAuthFlowWorkflowName :: string where "OAuthFlowWorkflowName = ''OAuthFlowWorkflow''"

definition ResearchActivityName :: string where "ResearchActivityName = ''Research''"
definition CritiqueActivityName :: string where "CritiqueActivityName = ''Critique''"
definition DecomposeActivityName :: string where "DecomposeActivityName = ''Decompose''"
definition SynthesizeActivityName :: string where "SynthesizeActivityName = ''Synthesize''"
definition EchoName :: string where "EchoName = ''Echo''"
definition ExchangeActivityName :: string where "ExchangeActivityName = ''OAuthExchange''"
definition WhoamiActivityName :: string where "WhoamiActivityName = ''OAuthWhoami''"
definition StoreTokensActivityName :: string where "StoreTokensActivityName = ''OAuthStoreTokens''"

definition agent_TaskQueue :: string where "agent_TaskQueue = ''sibyl-agents''"

lemmas agent_activity_names = ResearchActivityName_def CritiqueActivityName_def DecomposeActivityName_def SynthesizeActivityName_def
  ParseDiffActivityName_def SecurityAuditActivityName_def TestCoverageActivityName_def StyleCheckActivityName_def
  SynthesizeReviewActivity_def EchoName_def

lemmas activity_names = agent_activity_names ExchangeActivityName_def WhoamiActivityName_def StoreTokensActivityName_def
  ActivityPost_def ActivityAwaitVerdict_def

lemmas workflow_names = ConvergeWorkflowName_def SupervisorWorkflowName_def ReviewWorkflowName_def PlanWorkflowName_def
  OAuthFlowWorkflowName_def

section \<open>Functions and workers\<close>

datatype workflow_fn = ConvergeFn | SupervisorFn | PRReviewFn | PlanFn | OAuthFlowFn

datatype agent_method =
    ResearchM | CritiqueM | DecomposeM | SynthesizeM
  | ParseDiffM | SecurityAuditM | TestCoverageM | StyleCheckM | SynthesizeReviewM

datatype oauth_method = ExchangeM | WhoamiM | StoreTokensM

datatype channel_method = PostM | AwaitVerdictM

record 'w agent_activities =
  ActivitiesComplete :: "'w CompleteFunc option"
  ActivitiesSynthesizer :: "(SubAnswer list, string, 'w) arrow option"
  ActivitiesStream :: "'w CompleteStreamFunc option"

datatype ('st, 'w) activity_fn =
    AgentFn "'w agent_activities" agent_method
  | EchoFn
  | OAuthFn "('st, 'w) Activities" oauth_method
  | ChannelFn "'w Dispatcher" channel_method

record ('wf, 'act, 's) worker_api =
  register_workflow :: "string \<Rightarrow> 'wf \<Rightarrow> 's \<Rightarrow> 's option"
  register_activity :: "string \<Rightarrow> 'act \<Rightarrow> 's \<Rightarrow> 's option"

fun register_each :: "(string \<Rightarrow> 'f \<Rightarrow> 's \<Rightarrow> 's option) \<Rightarrow> (string \<times> 'f) list \<Rightarrow> 's \<Rightarrow> 's option" where
  "register_each reg [] s = Some s"
| "register_each reg ((n, f) # fs) s = (case reg n f s of None \<Rightarrow> None | Some s1 \<Rightarrow> register_each reg fs s1)"

abbreviation "register_workflows api \<equiv> register_each (register_workflow api)"
abbreviation "register_activities api \<equiv> register_each (register_activity api)"

section \<open>Registration\<close>

definition plan_Register :: "(workflow_fn, ('st, 'w) activity_fn, 's) worker_api \<Rightarrow> 's \<Rightarrow> 's option" where
  "plan_Register api s =
     (case register_workflows api [(PlanWorkflowName, PlanFn)] s of
        None \<Rightarrow> None | Some s1 \<Rightarrow> register_activities api [(EchoName, EchoFn)] s1)"

record 'w worker_options =
  OptSynthesizer :: "(SubAnswer list, string, 'w) arrow option"
  OptStream :: "'w CompleteStreamFunc option"

definition agent_workflows :: "(string \<times> workflow_fn) list" where
  "agent_workflows = [(ConvergeWorkflowName, ConvergeFn), (SupervisorWorkflowName, SupervisorFn), (ReviewWorkflowName, PRReviewFn)]"

definition agent_methods :: "(string \<times> agent_method) list" where
  "agent_methods = [(ResearchActivityName, ResearchM), (CritiqueActivityName, CritiqueM), (DecomposeActivityName, DecomposeM),
     (SynthesizeActivityName, SynthesizeM), (ParseDiffActivityName, ParseDiffM), (SecurityAuditActivityName, SecurityAuditM),
     (TestCoverageActivityName, TestCoverageM), (StyleCheckActivityName, StyleCheckM),
     (SynthesizeReviewActivity, SynthesizeReviewM)]"

definition options_receiver :: "'w CompleteFunc option \<Rightarrow> 'w worker_options \<Rightarrow> 'w agent_activities" where
  "options_receiver llm opts =
     \<lparr>ActivitiesComplete = llm, ActivitiesSynthesizer = OptSynthesizer opts, ActivitiesStream = OptStream opts\<rparr>"

definition RegisterWithOptions :: "(workflow_fn, ('st, 'w) activity_fn, 's) worker_api \<Rightarrow> 'w CompleteFunc option \<Rightarrow>
    'w worker_options \<Rightarrow> 's \<Rightarrow> 's option" where
  "RegisterWithOptions api llm opts s =
     (case register_workflows api agent_workflows s of
        None \<Rightarrow> None
      | Some s1 \<Rightarrow>
          (case register_activities api (map (\<lambda>(n, m). (n, AgentFn (options_receiver llm opts) m)) agent_methods) s1 of
             None \<Rightarrow> None
           | Some s2 \<Rightarrow> plan_Register api s2))"

definition RegisterWorker :: "(workflow_fn, ('st, 'w) activity_fn, 's) worker_api \<Rightarrow> 'w CompleteFunc option \<Rightarrow> 's \<Rightarrow> 's option" where
  "RegisterWorker api llm s = RegisterWithOptions api llm \<lparr>OptSynthesizer = None, OptStream = None\<rparr> s"

record ('st, 'w) oauth_worker_config =
  WorkerProviders :: "'w Registry option"
  WorkerStores :: "(string, ('st, 'w) TokenStore) gomap option"
  WorkerMapper :: "MemoryStateMapper option"

definition oauth_methods :: "(string \<times> oauth_method) list" where
  "oauth_methods = [(ExchangeActivityName, ExchangeM), (WhoamiActivityName, WhoamiM), (StoreTokensActivityName, StoreTokensM)]"

definition oauth_Register :: "(workflow_fn, ('st, 'w) activity_fn, 's) worker_api \<Rightarrow> ('st, 'w) oauth_worker_config \<Rightarrow> 's \<Rightarrow>
    string + 's" where
  "oauth_Register api cfg s =
     (if WorkerProviders cfg = None then Inl ''oauth/worker: Register: Providers is required''
      else if WorkerStores cfg = None then Inl ''oauth/worker: Register: Stores is required''
      else if WorkerMapper cfg = None then Inl ''oauth/worker: Register: Mapper is required''
      else (let acts = NewActivities (WorkerProviders cfg) (WorkerStores cfg) in
        case register_workflows api [(OAuthFlowWorkflowName, OAuthFlowFn)] s of
          None \<Rightarrow> Inl ''workflow already registered''
        | Some s1 \<Rightarrow>
            (case register_activities api (map (\<lambda>(n, m). (n, OAuthFn acts m)) oauth_methods) s1 of
               None \<Rightarrow> Inl ''activity already registered'' | Some s2 \<Rightarrow> Inr s2)))"

definition channel_Register :: "(workflow_fn, ('st, 'w) activity_fn, 's) worker_api \<Rightarrow> 'w Dispatcher \<Rightarrow> 's \<Rightarrow> 's option" where
  "channel_Register api d s =
     register_activities api [(ActivityPost, ChannelFn d PostM), (ActivityAwaitVerdict, ChannelFn d AwaitVerdictM)] s"

section \<open>What workflows execute\<close>

text \<open>The names a workflow hands to Temporal. Those of a plan come from its nodes.\<close>

fun executed_activities :: "workflow_fn \<Rightarrow> string list" where
  "executed_activities ConvergeFn = [ResearchActivityName, CritiqueActivityName]"
| "executed_activities SupervisorFn = [DecomposeActivityName, SynthesizeActivityName]"
| "executed_activities PRReviewFn = [ParseDiffActivityName, SecurityAuditActivityName, TestCoverageActivityName,
     StyleCheckActivityName, SynthesizeReviewActivity]"
| "executed_activities PlanFn = []"
| "executed_activities OAuthFlowFn = [ExchangeActivityName, WhoamiActivityName, StoreTokensActivityName]"

fun executed_children :: "workflow_fn \<Rightarrow> string list" where
  "executed_children SupervisorFn = [''ConvergeWorkflow'']"
| "executed_children _ = []"

text \<open>
  What an activity of the review workflow is started with. A payload of another type than the method's is an
  error of the decoder.
\<close>

datatype review_payload = DiffPayload PRReviewInput | AnalyzerPayload AnalyzerInput | ReviewsPayload SynthesizeInput

fun call_name :: "review_call \<Rightarrow> string" where
  "call_name (CallParseDiff inp) = ParseDiffActivityName"
| "call_name (CallSecurityAudit inp) = SecurityAuditActivityName"
| "call_name (CallTestCoverage inp) = TestCoverageActivityName"
| "call_name (CallStyleCheck inp) = StyleCheckActivityName"
| "call_name (CallSynthesizeReview inp) = SynthesizeReviewActivity"

fun call_payload :: "review_call \<Rightarrow> review_payload" where
  "call_payload (CallParseDiff inp) = DiffPayload inp"
| "call_payload (CallSecurityAudit inp) = AnalyzerPayload inp"
| "call_payload (CallTestCoverage inp) = AnalyzerPayload inp"
| "call_payload (CallStyleCheck inp) = AnalyzerPayload inp"
| "call_payload (CallSynthesizeReview inp) = ReviewsPayload inp"

definition review_receiver :: "'w agent_activities \<Rightarrow> 'w review_activities" where
  "review_receiver a = \<lparr>act_complete = ActivitiesComplete a, act_stream = ActivitiesStream a\<rparr>"

fun run_review_method :: "'w review_env \<Rightarrow> ('w \<Rightarrow> 'w) \<Rightarrow> call_context \<Rightarrow> 'w agent_activities \<Rightarrow> agent_method \<Rightarrow> review_payload \<Rightarrow>
    'p MemoryBroker \<times> 'w \<Rightarrow> ((review_error + string) \<times> 'p MemoryBroker \<times> 'w) option" where
  "run_review_method env pause ctx a ParseDiffM (DiffPayload inp) s = Some (ParseDiff env pause ctx inp s)"
| "run_review_method env pause ctx a SecurityAuditM (AnalyzerPayload inp) s = Some (SecurityAudit env ctx (review_receiver a) inp s)"
| "run_review_method env pause ctx a TestCoverageM (AnalyzerPayload inp) s = Some (TestCoverage env ctx (review_receiver a) inp s)"
| "run_review_method env pause ctx a StyleCheckM (AnalyzerPayload inp) s = Some (StyleCheck env ctx (review_receiver a) inp s)"
| "run_review_method env pause ctx a SynthesizeReviewM (ReviewsPayload inp) s =
     Some (SynthesizeReview env ctx (review_receiver a) inp s)"
| "run_review_method env pause ctx a _ _ s = None"

text \<open>A worker runs what is registered under the name of the call, and nothing when there is no such activity.\<close>

definition run_registered :: "(string \<Rightarrow> ('st, 'w) activity_fn option) \<Rightarrow> 'w review_env \<Rightarrow> ('w \<Rightarrow> 'w) \<Rightarrow> call_context \<Rightarrow> review_call \<Rightarrow>
    'p MemoryBroker \<times> 'w \<Rightarrow> ((review_error + string) \<times> 'p MemoryBroker \<times> 'w) option" where
  "run_registered acts env pause ctx call s =
     (case acts (call_name call) of
        Some (AgentFn a m) \<Rightarrow> run_review_method env pause ctx a m (call_payload call) s
      | _ \<Rightarrow> None)"

section \<open>What a worker keeps\<close>

text \<open>
  The documented behaviour of a worker: it keeps the function registered under a name, and panics when the
  name is taken. Workflows and activities have names of their own. \<open>wfs\<close> and \<open>acts\<close> are what it
  looks up.
\<close>

definition keeps_names :: "(string \<Rightarrow> 'f \<Rightarrow> 's \<Rightarrow> 's option) \<Rightarrow> ('s \<Rightarrow> string \<Rightarrow> 'f option) \<Rightarrow> ('s \<Rightarrow> string \<Rightarrow> 'g option) \<Rightarrow> bool" where
  "keeps_names reg own other \<longleftrightarrow>
     (\<forall>n f s. own s n = None \<longrightarrow> (\<exists>s1. reg n f s = Some s1 \<and> own s1 = (own s)(n \<mapsto> f) \<and> other s1 = other s)) \<and>
     (\<forall>n f s. own s n \<noteq> None \<longrightarrow> reg n f s = None)"

definition keeps_registered :: "('wf, 'act, 's) worker_api \<Rightarrow> ('s \<Rightarrow> string \<Rightarrow> 'wf option) \<Rightarrow> ('s \<Rightarrow> string \<Rightarrow> 'act option) \<Rightarrow> bool" where
  "keeps_registered api wfs acts \<longleftrightarrow> keeps_names (register_workflow api) wfs acts \<and> keeps_names (register_activity api) acts wfs"

lemma register_each_kept:
  assumes "keeps_names reg own other" "distinct (map fst fs)" "\<forall>n\<in>set (map fst fs). own s n = None"
  shows "\<exists>s1. register_each reg fs s = Some s1 \<and> own s1 = own s ++ map_of fs \<and> other s1 = other s"
  using assms(2,3)
proof (induction fs arbitrary: s)
  case (Cons nf fs)
  obtain n f where nf: "nf = (n, f)" by (cases nf)
  have "own s n = None" using Cons.prems(2) nf by simp
  with assms(1) obtain s1 where s1: "reg n f s = Some s1" "own s1 = (own s)(n \<mapsto> f)" "other s1 = other s"
    unfolding keeps_names_def by blast
  have fs: "distinct (map fst fs)" "\<forall>m\<in>set (map fst fs). own s1 m = None" using Cons.prems nf s1(2) by auto
  from Cons.IH [OF this] obtain s2 where s2: "register_each reg fs s1 = Some s2" "own s2 = own s1 ++ map_of fs" "other s2 = other s1" by blast
  have "n \<notin> dom (map_of fs)" using Cons.prems(1) nf by (simp add: dom_map_of_conv_image_fst)
  then have "(own s)(n \<mapsto> f) ++ map_of fs = own s ++ map_of ((n, f) # fs)"
    by (auto simp: fun_eq_iff map_add_def split: option.split)
  then have "own s2 = own s ++ map_of (nf # fs)" unfolding s2(2) s1(2) nf .
  with s1 s2 show ?case by (intro exI [of _ s2]) (simp add: nf del: map_of.simps)
qed simp

text \<open>A registration that does not panic found every name free.\<close>

lemma register_each_Some:
  assumes "keeps_names reg own other"
  shows "register_each reg fs s = Some s1 \<Longrightarrow>
    distinct (map fst fs) \<and> (\<forall>n\<in>set (map fst fs). own s n = None) \<and> own s1 = own s ++ map_of fs \<and> other s1 = other s"
proof (induction fs arbitrary: s)
  case (Cons nf fs)
  obtain n f where nf: "nf = (n, f)" by (cases nf)
  from Cons.prems nf obtain s2 where s2: "reg n f s = Some s2" "register_each reg fs s2 = Some s1" by (auto split: option.splits)
  then have free: "own s n = None" using assms unfolding keeps_names_def by (metis option.distinct(1))
  with assms s2(1) have own: "own s2 = (own s)(n \<mapsto> f)" "other s2 = other s"
    unfolding keeps_names_def by (metis option.inject)+
  note IH = Cons.IH [OF s2(2)]
  have "n \<notin> set (map fst fs)" "\<forall>m\<in>set (map fst fs). own s m = None" using IH own(1) by (auto split: if_splits)
  with IH free nf have "distinct (map fst (nf # fs))" "\<forall>m\<in>set (map fst (nf # fs)). own s m = None" by auto
  with register_each_kept [OF assms this] Cons.prems show ?case by (metis option.inject)
qed simp

section \<open>A worker with everything registered\<close>

lemma agent_names_distinct:
  "distinct (map fst agent_workflows)" "distinct (map fst agent_methods)" "distinct (map fst oauth_methods)"
  by (simp_all add: agent_workflows_def agent_methods_def oauth_methods_def workflow_names activity_names)

lemma map_of_method: "map_of (map (\<lambda>(n, m). (n, F m)) ms) = (\<lambda>n. map_option F (map_of ms n))"
  by (induction ms) auto

lemma map_fst_method: "map fst (map (\<lambda>(n, m). (n, F m)) ms) = map fst ms"
  by (induction ms) auto

lemma map_of_snoc: "k \<notin> set (map fst fs) \<Longrightarrow> (M ++ map_of fs)(k \<mapsto> x) = M ++ map_of (fs @ [(k, x)])"
  using map_of_eq_None_iff [of fs k]
  by (auto simp: fun_eq_iff map_add_def map_of_append split: option.split)

lemma RegisterWithOptions_kept:
  assumes "keeps_registered api wfs acts"
    and "\<forall>n\<in>set (map fst agent_workflows) \<union> {PlanWorkflowName}. wfs s n = None"
    and "\<forall>n\<in>set (map fst agent_methods) \<union> {EchoName}. acts s n = None"
  shows "\<exists>s1. RegisterWithOptions api llm opts s = Some s1 \<and>
    wfs s1 = wfs s ++ map_of (agent_workflows @ [(PlanWorkflowName, PlanFn)]) \<and>
    acts s1 = acts s ++ map_of (map (\<lambda>(n, m). (n, AgentFn (options_receiver llm opts) m)) agent_methods @ [(EchoName, EchoFn)])"
proof -
  have api: "keeps_names (register_workflow api) wfs acts" "keeps_names (register_activity api) acts wfs"
    using assms(1) by (simp_all add: keeps_registered_def)
  from register_each_kept [OF api(1) agent_names_distinct(1), of s] assms(2)
  obtain s1 where s1: "register_workflows api agent_workflows s = Some s1" "wfs s1 = wfs s ++ map_of agent_workflows" "acts s1 = acts s"
    by auto
  let ?acts = "map (\<lambda>(n, m). (n, AgentFn (options_receiver llm opts) m)) agent_methods"
  have "distinct (map fst ?acts)" "\<forall>n\<in>set (map fst ?acts). acts s1 n = None"
    unfolding map_fst_method using agent_names_distinct(2) assms(3) s1(3) by auto
  from register_each_kept [OF api(2) this] obtain s2 where s2: "register_activities api ?acts s1 = Some s2"
    "acts s2 = acts s ++ map_of ?acts" "wfs s2 = wfs s1" using s1(3) by auto
  have fresh: "PlanWorkflowName \<notin> set (map fst agent_workflows)" "EchoName \<notin> set (map fst agent_methods)"
    by (simp_all add: agent_workflows_def agent_methods_def workflow_names activity_names)
  have free: "wfs s2 PlanWorkflowName = None" "acts s2 EchoName = None"
    using fresh assms(2,3) s1(2) s2(2,3)
    by (auto simp: map_add_def map_of_method map_of_eq_None_iff split: option.split)
  from register_each_kept [OF api(1), of "[(PlanWorkflowName, PlanFn)]" s2] free(1)
  obtain s3 where s3: "register_workflows api [(PlanWorkflowName, PlanFn)] s2 = Some s3" "wfs s3 = (wfs s2)(PlanWorkflowName \<mapsto> PlanFn)"
    "acts s3 = acts s2" by auto
  from register_each_kept [OF api(2), of "[(EchoName, EchoFn)]" s3] free(2) s3(3)
  obtain s4 where s4: "register_activities api [(EchoName, EchoFn)] s3 = Some s4" "acts s4 = (acts s2)(EchoName \<mapsto> EchoFn)"
    "wfs s4 = wfs s3" by auto
  have "RegisterWithOptions api llm opts s = Some s4"
    using s1(1) s2(1) s3(1) s4(1) by (simp add: RegisterWithOptions_def plan_Register_def Let_def)
  moreover have "wfs s4 = wfs s ++ map_of (agent_workflows @ [(PlanWorkflowName, PlanFn)])"
    unfolding s4(3) s3(2) s2(3) s1(2) by (rule map_of_snoc [OF fresh(1)])
  moreover have "acts s4 = acts s ++ map_of (?acts @ [(EchoName, EchoFn)])"
    unfolding s4(2) s2(2) by (rule map_of_snoc) (unfold map_fst_method, rule fresh(2))
  ultimately show ?thesis by blast
qed


lemma oauth_Register_kept:
  assumes "keeps_registered api wfs acts" "WorkerProviders cfg = Some reg" "WorkerStores cfg = Some stores" "WorkerMapper cfg \<noteq> None"
    and "wfs s OAuthFlowWorkflowName = None" "\<forall>n\<in>set (map fst oauth_methods). acts s n = None"
  shows "\<exists>s1. oauth_Register api cfg s = Inr s1 \<and> wfs s1 = (wfs s)(OAuthFlowWorkflowName \<mapsto> OAuthFlowFn) \<and>
    acts s1 = acts s ++ map_of (map (\<lambda>(n, m). (n, OAuthFn (NewActivities (Some reg) (Some stores)) m)) oauth_methods)"
proof -
  have api: "keeps_names (register_workflow api) wfs acts" "keeps_names (register_activity api) acts wfs"
    using assms(1) by (simp_all add: keeps_registered_def)
  from register_each_kept [OF api(1), of "[(OAuthFlowWorkflowName, OAuthFlowFn)]" s] assms(5)
  obtain s1 where s1: "register_workflows api [(OAuthFlowWorkflowName, OAuthFlowFn)] s = Some s1"
    "wfs s1 = (wfs s)(OAuthFlowWorkflowName \<mapsto> OAuthFlowFn)" "acts s1 = acts s" by auto
  let ?acts = "map (\<lambda>(n, m). (n, OAuthFn (NewActivities (Some reg) (Some stores)) m)) oauth_methods"
  have "distinct (map fst ?acts)" "\<forall>n\<in>set (map fst ?acts). acts s1 n = None"
    unfolding map_fst_method using agent_names_distinct(3) assms(6) s1(3) by auto
  from register_each_kept [OF api(2) this] obtain s2 where s2: "register_activities api ?acts s1 = Some s2"
    "acts s2 = acts s1 ++ map_of ?acts" "wfs s2 = wfs s1" by blast
  with s1 assms(2-4) show ?thesis by (intro exI [of _ s2]) (simp add: oauth_Register_def)
qed

lemma channel_Register_kept:
  assumes "keeps_registered api wfs acts" "acts s ActivityPost = None" "acts s ActivityAwaitVerdict = None"
  shows "\<exists>s1. channel_Register api d s = Some s1 \<and> wfs s1 = wfs s \<and>
    acts s1 = acts s ++ map_of [(ActivityPost, ChannelFn d PostM), (ActivityAwaitVerdict, ChannelFn d AwaitVerdictM)]"
proof -
  have "keeps_names (register_activity api) acts wfs" using assms(1) by (simp add: keeps_registered_def)
  from register_each_kept [OF this, of "[(ActivityPost, ChannelFn d PostM), (ActivityAwaitVerdict, ChannelFn d AwaitVerdictM)]" s] assms(2,3)
  show ?thesis by (auto simp: channel_Register_def activity_names)
qed

lemmas registered_maps = agent_workflows_def agent_methods_def oauth_methods_def workflow_names activity_names

text \<open>What a worker with everything looks up.\<close>

definition all_workflows :: "(string \<times> workflow_fn) list" where
  "all_workflows = agent_workflows @ [(PlanWorkflowName, PlanFn), (OAuthFlowWorkflowName, OAuthFlowFn)]"

definition all_activities :: "'w agent_activities \<Rightarrow> ('st, 'w) Activities \<Rightarrow> 'w Dispatcher \<Rightarrow> (string \<times> ('st, 'w) activity_fn) list" where
  "all_activities a oa d = map (\<lambda>(n, m). (n, AgentFn a m)) agent_methods @ [(EchoName, EchoFn)] @
     map (\<lambda>(n, m). (n, OAuthFn oa m)) oauth_methods @ [(ActivityPost, ChannelFn d PostM), (ActivityAwaitVerdict, ChannelFn d AwaitVerdictM)]"

lemma all_names_distinct: "distinct (map fst all_workflows)" "distinct (map fst (all_activities a oa d))"
  by (simp_all add: all_workflows_def all_activities_def registered_maps)

lemma registered_everything:
  assumes "keeps_registered api wfs acts" "wfs s = Map.empty" "acts s = Map.empty"
    and "WorkerProviders cfg = Some reg" "WorkerStores cfg = Some stores" "WorkerMapper cfg \<noteq> None"
  shows "\<exists>s1 s2 s3. RegisterWithOptions api llm opts s = Some s1 \<and> oauth_Register api cfg s1 = Inr s2 \<and> channel_Register api d s2 = Some s3 \<and>
    wfs s3 = map_of all_workflows \<and>
    acts s3 = map_of (all_activities (options_receiver llm opts) (NewActivities (Some reg) (Some stores)) d)"
proof -
  let ?a = "options_receiver llm opts" and ?oa = "NewActivities (Some reg) (Some stores)"
  from RegisterWithOptions_kept [OF assms(1), of s llm opts] assms(2,3)
  obtain s1 where s1: "RegisterWithOptions api llm opts s = Some s1" "wfs s1 = map_of (agent_workflows @ [(PlanWorkflowName, PlanFn)])"
    "acts s1 = map_of (map (\<lambda>(n, m). (n, AgentFn ?a m)) agent_methods @ [(EchoName, EchoFn)])" by auto
  have "wfs s1 OAuthFlowWorkflowName = None" "\<forall>n\<in>set (map fst oauth_methods). acts s1 n = None"
    by (simp_all add: s1 registered_maps)
  from oauth_Register_kept [OF assms(1,4,5,6) this] obtain s2 where s2: "oauth_Register api cfg s1 = Inr s2"
    "wfs s2 = (wfs s1)(OAuthFlowWorkflowName \<mapsto> OAuthFlowFn)"
    "acts s2 = acts s1 ++ map_of (map (\<lambda>(n, m). (n, OAuthFn ?oa m)) oauth_methods)" by blast
  have "acts s2 ActivityPost = None" "acts s2 ActivityAwaitVerdict = None"
    by (simp_all add: s1 s2 registered_maps)
  from channel_Register_kept [OF assms(1) this] obtain s3 where s3: "channel_Register api d s2 = Some s3" "wfs s3 = wfs s2"
    "acts s3 = acts s2 ++ map_of [(ActivityPost, ChannelFn d PostM), (ActivityAwaitVerdict, ChannelFn d AwaitVerdictM)]" by blast
  have "wfs s3 = map_of all_workflows"
    unfolding s3(2) s2(2) s1(2) by (simp add: all_workflows_def registered_maps fun_eq_iff)
  moreover have "acts s3 = map_of (all_activities ?a ?oa d)"
    unfolding s3(3) s2(3) s1(3) by (simp add: all_activities_def registered_maps fun_eq_iff)
  ultimately show ?thesis using s1(1) s2(1) s3(1) by blast
qed


lemma RegisterWithOptions_Some:
  fixes acts :: "'s \<Rightarrow> string \<Rightarrow> ('st, 'w) activity_fn option"
  assumes "keeps_registered api wfs acts" "RegisterWithOptions api llm opts s = Some s1"
  shows "(\<forall>n\<in>set (map fst agent_methods) \<union> {EchoName}. acts s n = None) \<and>
    acts s1 = acts s ++ map_of (map (\<lambda>(n, m). (n, AgentFn (options_receiver llm opts) m)) agent_methods @ [(EchoName, EchoFn)])"
proof -
  have api: "keeps_names (register_workflow api) wfs acts" "keeps_names (register_activity api) acts wfs"
    using assms(1) by (simp_all add: keeps_registered_def)
  let ?acts = "map (\<lambda>(n, m). (n, AgentFn (options_receiver llm opts) m)) agent_methods :: (string \<times> ('st, 'w) activity_fn) list"
  from assms(2) obtain t1 t2 t3 where steps: "register_workflows api agent_workflows s = Some t1"
      "register_activities api ?acts t1 = Some t2" "register_workflows api [(PlanWorkflowName, PlanFn)] t2 = Some t3"
      "register_activities api [(EchoName, EchoFn)] t3 = Some s1"
    by (auto simp: RegisterWithOptions_def plan_Register_def split: option.splits)
  note t1 = register_each_Some [OF api(1) steps(1)] and t2 = register_each_Some [OF api(2) steps(2)]
    and t3 = register_each_Some [OF api(1) steps(3)] and t4 = register_each_Some [OF api(2) steps(4)]
  have fresh: "EchoName \<notin> set (map fst agent_methods)" by (simp add: agent_methods_def activity_names)
  have "acts s1 = (acts s ++ map_of ?acts)(EchoName \<mapsto> EchoFn)" using t1 t2 t3 t4 by simp
  also have "\<dots> = acts s ++ map_of (?acts @ [(EchoName, EchoFn)])"
    by (rule map_of_snoc) (unfold map_fst_method, rule fresh)
  moreover have "acts s EchoName = None"
  proof -
    have "map_of ?acts EchoName = None" unfolding map_of_eq_None_iff set_map [symmetric] map_fst_method by (rule fresh)
    then have "acts t3 EchoName = acts s EchoName" using t1 t2 t3 by (simp add: map_add_def)
    with t4 show ?thesis by simp
  qed
  ultimately show ?thesis using t1 t2 by (auto simp: map_fst_method)
qed

section \<open>Properties\<close>


lemma run_registered_body:
  assumes "keeps_registered api wfs acts" "RegisterWithOptions api llm opts s = Some s1"
  shows "run_registered (acts s1) env pause ctx call st =
    Some (review_body env pause ctx \<lparr>act_complete = llm, act_stream = OptStream opts\<rparr> call st)"
proof -
  let ?a = "options_receiver llm opts"
  have acts: "acts s1 = acts s ++ map_of (map (\<lambda>(n, m). (n, AgentFn ?a m)) agent_methods @ [(EchoName, EchoFn)])"
    using RegisterWithOptions_Some [OF assms] by blast
  have receiver: "review_receiver ?a = \<lparr>act_complete = llm, act_stream = OptStream opts\<rparr>"
    by (simp add: review_receiver_def options_receiver_def)
  show ?thesis
    by (cases call) (simp_all add: run_registered_def acts map_add_def agent_methods_def agent_activity_names receiver [symmetric])
qed

text \<open>
  A review on a worker is a review by the functions it was registered with: whatever call the review
  workflow makes, the activity that is registered under its name gets a payload it can decode and does
  what the specification of the review says, with the model and the stream given to the registration.
\<close>

theorem worker_review_body:
  assumes "keeps_registered api wfs acts" "RegisterWithOptions api llm opts s = Some s1"
  shows "run_registered (acts s1) env pause ctx call st =
    Some (review_body env pause ctx \<lparr>act_complete = llm, act_stream = OptStream opts\<rparr> call st)"
  by (rule run_registered_body [OF assms])

section \<open>A concrete worker\<close>

type_synonym ('st, 'w) demo_worker = "(string \<Rightarrow> workflow_fn option) \<times> (string \<Rightarrow> ('st, 'w) activity_fn option)"

definition demo_worker_api :: "(workflow_fn, ('st, 'w) activity_fn, ('st, 'w) demo_worker) worker_api" where
  "demo_worker_api =
     \<lparr>register_workflow = (\<lambda>n f s. if fst s n = None then Some ((fst s)(n \<mapsto> f), snd s) else None),
      register_activity = (\<lambda>n f s. if snd s n = None then Some (fst s, (snd s)(n \<mapsto> f)) else None)\<rparr>"

lemma demo_worker_keeps: "keeps_registered demo_worker_api fst snd"
  by (simp add: keeps_registered_def keeps_names_def demo_worker_api_def)

definition demo_oauth_config :: "(unit, nat) oauth_worker_config" where
  "demo_oauth_config = \<lparr>WorkerProviders = Some NewRegistry, WorkerStores = Some [], WorkerMapper = Some []\<rparr>"

definition demo_worker_options :: "nat worker_options" where
  "demo_worker_options = \<lparr>OptSynthesizer = None, OptStream = None\<rparr>"


theorem worker_review_body_witness:
  "\<exists>s1 :: (unit, nat) demo_worker. RegisterWithOptions demo_worker_api (Some demo_model) demo_worker_options (Map.empty, Map.empty) = Some s1 \<and>
     run_registered (snd s1) demo_review_env Suc demo_quiet (CallParseDiff demo_review_input) (NewMemoryBroker :: unit MemoryBroker, 0) =
       Some (ParseDiff demo_review_env Suc demo_quiet demo_review_input (NewMemoryBroker, 0))"
proof -
  obtain s1 :: "(unit, nat) demo_worker" where s1:
    "RegisterWithOptions demo_worker_api (Some demo_model) demo_worker_options (Map.empty, Map.empty) = Some s1"
    using RegisterWithOptions_kept [OF demo_worker_keeps, of "(Map.empty, Map.empty)" "Some demo_model" demo_worker_options] by auto
  from worker_review_body [OF demo_worker_keeps s1, of demo_review_env Suc demo_quiet "CallParseDiff demo_review_input"
      "(NewMemoryBroker :: unit MemoryBroker, 0)"] s1
  show ?thesis by auto
qed

section \<open>Submitting a plan\<close>

datatype submit_plan_error = SubmitPlanFailed submit_error

text \<open>
  \<open>client\<close> is \<open>None\<close> for a nil client, else \<open>ExecuteWorkflow\<close> with an ID and a task queue. The ID that is
  generated is the time in nanoseconds.
\<close>

definition SubmitPlan :: "(nat \<Rightarrow> NodeID list \<Rightarrow> NodeID list) \<Rightarrow> (string \<Rightarrow> string \<Rightarrow> Plan \<Rightarrow> string + 'run) option \<Rightarrow> int \<Rightarrow> Plan \<Rightarrow>
    string \<Rightarrow> string \<Rightarrow> submit_plan_error + 'run" where
  "SubmitPlan rng client now p workflowID taskQueue =
     (let queue = (if taskQueue = [] then agent_TaskQueue else taskQueue);
          wid = (if workflowID = [] then ''plan-'' @ Itoa now else workflowID)
      in case Submit rng (map_option (\<lambda>start. start wid queue) client) p queue of
           Inl e \<Rightarrow> Inl (SubmitPlanFailed e) | Inr run \<Rightarrow> Inr run)"

text \<open>A submission starts a valid plan, once, under an ID and on a queue that are never empty; else it starts nothing.\<close>

lemma SubmitPlan_starts:
  "SubmitPlan rng client now p workflowID taskQueue = Inr run \<longleftrightarrow>
     (\<exists>start. client = Some start \<and> Validate rng p = None \<and>
        start (if workflowID = [] then ''plan-'' @ Itoa now else workflowID) (if taskQueue = [] then ''sibyl-agents'' else taskQueue) p = Inr run)"
  by (cases client) (auto simp: SubmitPlan_def Submit_def agent_TaskQueue_def Let_def split: option.splits sum.splits)

lemma SubmitPlan_refused:
  "SubmitPlan rng client now p workflowID taskQueue = Inl (SubmitPlanFailed e) \<longleftrightarrow>
     (case client of
        None \<Rightarrow> e = ClientNil
      | Some start \<Rightarrow> (case Validate rng p of
          Some v \<Rightarrow> e = SubmitInvalid v
        | None \<Rightarrow> \<exists>t. start (if workflowID = [] then ''plan-'' @ Itoa now else workflowID) (if taskQueue = [] then ''sibyl-agents'' else taskQueue) p
            = Inl t \<and> e = StartFailed t))"
  by (cases client) (auto simp: SubmitPlan_def Submit_def agent_TaskQueue_def Let_def split: option.splits sum.splits)

end
