(* ===== verification/Test_Channel.thy ===== *)
theory Test_Channel
  imports Slack
begin

text \<open>
  Package channelstest (\<^verbatim>\<open>channels/test/channelstest.go\<close>): a channel in memory that records its posts and
  answers with queued verdicts.

  The state of the channel is the first part of the world, the rest belongs to the caller: others may queue
  verdicts while a wait sleeps. Clock and ticker are parameters, as for the Slack adapter. The mutex makes
  every operation one step.
\<close>

section \<open>The channel\<close>

record test_post =
  TestTarget :: string
  TestMessage :: Message
  TestReceipt :: Receipt

record test_channel =
  TestName :: string
  TestPosts :: "test_post list"
  TestVerdicts :: "HumanVerdict list"

definition New_test :: "string \<Rightarrow> test_channel" where
  "New_test name = \<lparr>TestName = name, TestPosts = [], TestVerdicts = []\<rparr>"

text \<open>The conversion writes into ten bytes from the right; \<open>None\<close> is the panic when they are used up.\<close>

fun itoa_loop :: "nat \<Rightarrow> nat \<Rightarrow> string \<Rightarrow> string option" where
  "itoa_loop i 0 buf = Some buf"
| "itoa_loop 0 (Suc n) buf = None"
| "itoa_loop (Suc i) (Suc n) buf = itoa_loop i (Suc n div 10) (''0123456789'' ! (Suc n mod 10) # buf)"

definition test_itoa :: "nat \<Rightarrow> string option" where
  "test_itoa n = (if n = 0 then Some ''0'' else itoa_loop 10 n [])"

definition generateNative :: "nat \<Rightarrow> string option" where
  "generateNative sq = (case test_itoa sq of None \<Rightarrow> None | Some s \<Rightarrow> Some (''T-'' @ s))"

definition test_notify :: "string \<Rightarrow> Message \<Rightarrow> test_channel \<times> 'r \<Rightarrow> (chan_error + Receipt) \<times> test_channel \<times> 'r" where
  "test_notify target msg w =
     (case generateNative (length (TestPosts (fst w))) of
        None \<Rightarrow> (Inl (ChanFailure ''panic: index out of range''), w)
      | Some native \<Rightarrow>
          (let receipt = \<lparr>ReceiptChannel = TestName (fst w), ReceiptTarget = target, ReceiptNative = native, ReceiptMeta = None\<rparr> in
           (Inr receipt, (fst w)\<lparr>TestPosts := TestPosts (fst w) @
              [\<lparr>TestTarget = target, TestMessage = msg, TestReceipt = receipt\<rparr>]\<rparr>, snd w)))"

partial_function (option) test_await_loop :: "(test_channel \<times> 'r) slack_env \<Rightarrow> int \<Rightarrow> test_channel \<times> 'r \<Rightarrow>
    ((chan_error + HumanVerdict) \<times> test_channel \<times> 'r) option" where
  "test_await_loop env deadline w =
     (case TestVerdicts (fst w) of
        v # vs \<Rightarrow> Some (Inr v, (fst w)\<lparr>TestVerdicts := vs\<rparr>, snd w)
      | [] \<Rightarrow>
          (case clock env w of
             (now, w1) \<Rightarrow>
               if now > deadline then Some (Inl ErrTimeout, w1)
               else (case await_tick env w1 of
                       (Some e, w2) \<Rightarrow> Some (Inl (ChanContext e), w2)
                     | (None, w2) \<Rightarrow> test_await_loop env deadline w2)))"

definition test_await :: "(test_channel \<times> 'r) slack_env \<Rightarrow> Receipt list \<Rightarrow> AwaitOpts \<Rightarrow> test_channel \<times> 'r \<Rightarrow>
    ((chan_error + HumanVerdict) \<times> test_channel \<times> 'r) option" where
  "test_await env receipts opts w =
     (case clock env w of
        (now, w1) \<Rightarrow>
          if AwaitTimeout opts = 0
          then (case clock env w1 of (now', w2) \<Rightarrow> test_await_loop env (now' + 1000000000) w2)
          else test_await_loop env (now + AwaitTimeout opts) w1)"

text \<open>The channel that is registered; its name is fixed when it is made.\<close>

definition test_Channel :: "(test_channel \<times> 'r) slack_env \<Rightarrow> string \<Rightarrow> (test_channel \<times> 'r) Channel" where
  "test_Channel env name =
     \<lparr>ChannelName = name, ChannelNotify = Some test_notify,
      ChannelAwait = Some (\<lambda>rs opts w. returned (test_await env rs opts w) w)\<rparr>"

definition Posts :: "test_channel \<Rightarrow> test_post list" where
  "Posts c = TestPosts c"

text \<open>\<open>now\<close> is the clock at the call; the zero time is zero.\<close>

definition stamp_verdict :: "string \<Rightarrow> int \<Rightarrow> HumanVerdict \<Rightarrow> HumanVerdict" where
  "stamp_verdict name now v =
     v\<lparr>VerdictChannel := (if VerdictChannel v = [] then name else VerdictChannel v),
       VerdictAt := (if VerdictAt v = 0 then now else VerdictAt v)\<rparr>"

definition EnqueueVerdict :: "int \<Rightarrow> HumanVerdict \<Rightarrow> test_channel \<Rightarrow> test_channel" where
  "EnqueueVerdict now v c = c\<lparr>TestVerdicts := TestVerdicts c @ [stamp_verdict (TestName c) now v]\<rparr>"

definition Reset :: "test_channel \<Rightarrow> test_channel" where
  "Reset c = c\<lparr>TestPosts := [], TestVerdicts := []\<rparr>"

section \<open>Numbers\<close>

lemma digit_char: "d < 10 \<Longrightarrow> ''0123456789'' ! d = (char_of (48 + d) :: char)"
proof -
  have "\<forall>d\<in>set [0..<10::nat]. ''0123456789'' ! d = (char_of (48 + d) :: char)" by code_simp
  then show "d < 10 \<Longrightarrow> ''0123456789'' ! d = (char_of (48 + d) :: char)" by simp
qed

lemma nat_digits_step: "nat_digits n = (if n < 10 then [] else nat_digits (n div 10)) @ [''0123456789'' ! (n mod 10)]"
  by (subst nat_digits.simps) (simp add: digit_char del: nth_Cons_numeral nth_Cons_0)

lemma itoa_loop_step: "0 < n \<Longrightarrow> itoa_loop (Suc i) n buf = itoa_loop i (n div 10) (''0123456789'' ! (n mod 10) # buf)"
  by (cases n) simp_all

lemma itoa_loop_digits:
  "0 < n \<Longrightarrow> itoa_loop i n buf = (if n < 10 ^ i then Some (nat_digits n @ buf) else None)"
proof (induction i arbitrary: n buf)
  case 0
  then show ?case by (cases n) simp_all
next
  case (Suc i)
  show ?case
  proof (cases "n < 10")
    case True
    have "10 \<le> (10::nat) ^ Suc i" by simp
    with True have "n < 10 ^ Suc i" by (rule less_le_trans)
    with True show ?thesis unfolding itoa_loop_step [OF Suc.prems] nat_digits_step [of n] by simp
  next
    case False
    then have pos: "0 < n div 10" and less: "n div 10 < 10 ^ i \<longleftrightarrow> n < 10 ^ Suc i" by (simp_all add: div_less_iff_less_mult mult.commute)
    show ?thesis
      using False less unfolding itoa_loop_step [OF Suc.prems] Suc.IH [OF pos] nat_digits_step [of n] by (simp del: power_Suc)
  qed
qed

lemma test_itoa_Itoa: "test_itoa n = (if n < 10 ^ 10 then Some (Itoa (int n)) else None)"
proof (cases "n = 0")
  case True
  then show ?thesis by (simp add: test_itoa_def Itoa_nonneg nat_digits_step [of 0])
next
  case False
  then show ?thesis by (simp add: test_itoa_def itoa_loop_digits Itoa_nonneg)
qed

section \<open>Posts and verdicts\<close>

lemma test_notify_posts:
  assumes "length (TestPosts c) < 10 ^ 10"
  shows "\<exists>rc. test_notify target msg (c, w) = (Inr rc, c\<lparr>TestPosts := TestPosts c @ [\<lparr>TestTarget = target, TestMessage = msg, TestReceipt = rc\<rparr>]\<rparr>, w) \<and>
    rc = \<lparr>ReceiptChannel = TestName c, ReceiptTarget = target, ReceiptNative = ''T-'' @ Itoa (int (length (TestPosts c))), ReceiptMeta = None\<rparr>"
  using assms by (simp add: test_notify_def generateNative_def test_itoa_Itoa Let_def)

text \<open>The receipts of a channel are distinct.\<close>

definition numbered :: "test_channel \<Rightarrow> bool" where
  "numbered c \<longleftrightarrow> map (ReceiptNative \<circ> TestReceipt) (TestPosts c) = map (\<lambda>i. ''T-'' @ Itoa (int i)) [0..<length (TestPosts c)]"

lemma numbered_New: "numbered (New_test name)"
  by (simp add: numbered_def New_test_def)

lemma numbered_Reset: "numbered (Reset c)"
  by (simp add: numbered_def Reset_def)

lemma numbered_EnqueueVerdict: "numbered (EnqueueVerdict now v c) \<longleftrightarrow> numbered c"
  by (simp add: numbered_def EnqueueVerdict_def)

lemma numbered_notify:
  assumes "numbered c" "test_notify target msg (c, w) = (r, c', w')"
  shows "numbered c'"
proof (cases "length (TestPosts c) < 10 ^ 10")
  case True
  from test_notify_posts [OF this, of target msg w] assms show ?thesis by (auto simp: numbered_def)
next
  case False
  with assms show ?thesis by (simp add: test_notify_def generateNative_def test_itoa_Itoa)
qed

lemma numbered_distinct: "numbered c \<Longrightarrow> distinct (map (ReceiptNative \<circ> TestReceipt) (TestPosts c))"
  by (simp add: numbered_def distinct_map inj_on_def Itoa_inj)

lemma test_await_loop_head:
  "TestVerdicts (fst w) = v # vs \<Longrightarrow> test_await_loop env deadline w = Some (Inr v, (fst w)\<lparr>TestVerdicts := vs\<rparr>, snd w)"
  by (subst test_await_loop.simps) simp

lemma test_await_head:
  assumes "TestVerdicts (fst w) = v # vs" "\<And>w. snd (clock env w) = w"
  shows "test_await env receipts opts w = Some (Inr v, (fst w)\<lparr>TestVerdicts := vs\<rparr>, snd w)"
proof -
  obtain now where now: "clock env w = (now, w)" by (metis assms(2) prod.collapse)
  with test_await_loop_head [OF assms(1)] show ?thesis by (simp add: test_await_def)
qed

text \<open>
  Neither the receipts nor the allowed choices matter to a wait: any queued verdict answers it. A wait that
  times out or whose context ends leaves the verdicts to others.
\<close>

lemma test_await_blind:
  assumes "AwaitTimeout opts = AwaitTimeout opts'"
  shows "test_await env receipts opts w = test_await env receipts' opts' w"
  unfolding test_await_def assms ..

section \<open>Behind a dispatcher\<close>

lemma range_order_single: "range_order \<rho> \<Longrightarrow> \<rho> [x] = [x]"
  using range_order_mset [of \<rho> "[x]"] by (metis mset_single_iff_right mset.simps(2) mset.simps(1) add_mset_eq_single)

lemma single_await:
  assumes "range_order \<rho>" "gm_get (DispatcherChannels d) (ReceiptChannel rc) = Some ch" "ChannelAwait ch = Some wait"
    and "wait [rc] opts w = (Inr v, w')" "ActorCanonical (VerdictActor v) \<noteq> []"
  shows "Await race \<rho> d [rc] opts w = (Answered v, w')"
proof -
  have "dedup [ReceiptChannel rc] = [ReceiptChannel rc]" by (simp add: dedup_def)
  then have groups: "await_groups \<rho> [rc] = [(ReceiptChannel rc, [rc])]"
    by (simp add: await_groups_def range_order_single [OF assms(1)] receipts_of_def)
  show ?thesis
    unfolding Await_def await_groups_eq [OF assms(1)] groups using assms(2-5) by (simp add: normalize_def)
qed

text \<open>
  Code under test meets what the test set up. A message that is posted through a dispatcher of the test
  channel is recorded once, with its target and with the receipt that the poster gets, whose number no
  earlier post has; and a verdict of an identified human that is queued then answers the wait on this
  receipt, with the name of the channel and the time filled in where they were missing.
\<close>

theorem test_channel_answers:
  assumes "New_dispatcher (map option_of [SetChannel (test_Channel env name), SetRouter (Some (FixedRouter name target))]) = Inr d"
    and "range_order \<rho>" "\<And>w. snd (clock env w) = w"
    and "TestName c = name" "numbered c" "TestVerdicts c = []" "length (TestPosts c) < 10 ^ 10"
    and "Notify \<rho> d msg (c, w) = (r, (c1, w1))" "ActorCanonical (VerdictActor v) \<noteq> []"
  shows "\<exists>rc. r = Inr \<lparr>PostReceipts = [rc], PostErrors = []\<rparr> \<and> w1 = w \<and>
    Posts c1 = Posts c @ [\<lparr>TestTarget = target, TestMessage = msg, TestReceipt = rc\<rparr>] \<and>
    ReceiptNative rc \<notin> (ReceiptNative \<circ> TestReceipt) ` set (Posts c) \<and>
    Await race \<rho> d [rc] opts (EnqueueVerdict now v c1, w1) = (Answered (stamp_verdict name now v), (c1, w1))"
proof -
  let ?ch = "test_Channel env name"
  have name: "ChannelName ?ch = name" "ChannelNotify ?ch = Some test_notify"
    "ChannelAwait ?ch = Some (\<lambda>rs opts w. returned (test_await env rs opts w) w)" by (simp_all add: test_Channel_def)
  from assms(1) [unfolded New_dispatcher_iff]
  have d: "gm_get (DispatcherChannels d) name = Some ?ch" "DispatcherRouter d = Some (FixedRouter name target)"
    by (simp_all add: name gm_get_def)
  from test_notify_posts [OF assms(7), of target msg w] obtain rc where post: "test_notify target msg (c, w) =
      (Inr rc, c\<lparr>TestPosts := TestPosts c @ [\<lparr>TestTarget = target, TestMessage = msg, TestReceipt = rc\<rparr>]\<rparr>, w)"
    and rc: "rc = \<lparr>ReceiptChannel = TestName c, ReceiptTarget = target, ReceiptNative = ''T-'' @ Itoa (int (length (TestPosts c))), ReceiptMeta = None\<rparr>"
    by (elim exE conjE) (rule that)
  have notify: "r = Inr \<lparr>PostReceipts = [rc], PostErrors = []\<rparr>" "w1 = w"
      "c1 = c\<lparr>TestPosts := TestPosts c @ [\<lparr>TestTarget = target, TestMessage = msg, TestReceipt = rc\<rparr>]\<rparr>"
    using assms(8) by (simp_all add: Notify_def d FixedRouter_def name post)
  have "numbered c1"
    using numbered_notify [OF assms(5) post] notify(3) by simp
  from numbered_distinct [OF this] have fresh: "ReceiptNative rc \<notin> (ReceiptNative \<circ> TestReceipt) ` set (Posts c)"
    by (simp add: notify(3) Posts_def image_comp)
  let ?v = "stamp_verdict name now v" and ?w = "(EnqueueVerdict now v c1, w1)"
  have "TestVerdicts (fst ?w) = ?v # []" "(fst ?w)\<lparr>TestVerdicts := []\<rparr> = c1"
    using assms(4,6) by (simp_all add: EnqueueVerdict_def notify(3))
  with test_await_head [OF this(1) assms(3), of "[rc]" opts]
  have wait: "(\<lambda>rs opts w. returned (test_await env rs opts w) w) [rc] opts ?w = (Inr ?v, (c1, w1))"
    by (simp add: returned_def)
  have chan: "gm_get (DispatcherChannels d) (ReceiptChannel rc) = Some ?ch" using d(1) assms(4) rc by simp
  have "ActorCanonical (VerdictActor ?v) \<noteq> []" using assms(9) by (simp add: stamp_verdict_def)
  from single_await [OF assms(2) chan name(3) wait this] notify fresh show ?thesis by (simp add: Posts_def)
qed


definition demo_test_env :: "(test_channel \<times> nat) slack_env" where
  "demo_test_env = \<lparr>clock = (\<lambda>w. (int (snd w), w)), await_tick = (\<lambda>w. (None, (fst w, snd w + 1)))\<rparr>"

definition demo_human :: HumanVerdict where
  "demo_human = \<lparr>Choice = ''accept'', VerdictActor = no_actor\<lparr>ActorCanonical := ''u''\<rparr>, VerdictChannel = [], VerdictAt = 0, VerdictRaw = None\<rparr>"

theorem test_channel_answers_witness:
  "\<exists>d rc c1. New_dispatcher (map option_of [SetChannel (test_Channel demo_test_env ''mem''), SetRouter (Some (FixedRouter ''mem'' ''C1''))]) = Inr d \<and>
     Notify (\<lambda>xs. xs) d demo_message (New_test ''mem'', 3) = (Inr \<lparr>PostReceipts = [rc], PostErrors = []\<rparr>, (c1, 3)) \<and>
     Posts c1 = [\<lparr>TestTarget = ''C1'', TestMessage = demo_message, TestReceipt = rc\<rparr>] \<and>
     Await (\<lambda>ws opts w. ([], w)) (\<lambda>xs. xs) d [rc] demo_opts (EnqueueVerdict 7 demo_human c1, 3) =
       (Answered (demo_human\<lparr>VerdictChannel := ''mem'', VerdictAt := 7\<rparr>), (c1, 3))"
proof -
  obtain d where d: "New_dispatcher (map option_of [SetChannel (test_Channel demo_test_env ''mem''), SetRouter (Some (FixedRouter ''mem'' ''C1''))]) = Inr d"
    unfolding New_dispatcher_iff by (simp add: test_Channel_def)
  obtain r c1 w1 where run: "Notify (\<lambda>xs. xs) d demo_message (New_test ''mem'', 3) = (r, (c1, w1))" by (metis prod.exhaust)
  have hyps: "\<And>w. snd (clock demo_test_env w) = w" "TestName (New_test ''mem'') = ''mem''" "TestVerdicts (New_test ''mem'') = []"
      "length (TestPosts (New_test ''mem'')) < 10 ^ 10" "ActorCanonical (VerdictActor demo_human) \<noteq> []"
    by (simp_all add: demo_test_env_def New_test_def demo_human_def)
  from test_channel_answers [OF d range_order_id hyps(1,2) numbered_New hyps(3,4) run hyps(5),
      where race = "\<lambda>ws opts w. ([], w)" and opts = demo_opts and now = 7]
  obtain rc where rc: "r = Inr \<lparr>PostReceipts = [rc], PostErrors = []\<rparr>" "w1 = 3"
    "Posts c1 = Posts (New_test ''mem'') @ [\<lparr>TestTarget = ''C1'', TestMessage = demo_message, TestReceipt = rc\<rparr>]"
    "Await (\<lambda>ws opts w. ([], w)) (\<lambda>xs. xs) d [rc] demo_opts (EnqueueVerdict 7 demo_human c1, w1) =
       (Answered (stamp_verdict ''mem'' 7 demo_human), (c1, w1))" by (elim exE conjE) (rule that; assumption)
  have "stamp_verdict ''mem'' 7 demo_human = demo_human\<lparr>VerdictChannel := ''mem'', VerdictAt := 7\<rparr>"
    by (simp add: stamp_verdict_def demo_human_def)
  moreover have "Posts (New_test ''mem'') = []" by (simp add: Posts_def New_test_def)
  ultimately show ?thesis using d run rc by (intro exI [of _ d] exI [of _ rc] exI [of _ c1]) simp
qed

end
