(* ===== verification/Tracing.thy ===== *)
theory Tracing
  imports Go_Strings Prelude
begin

text \<open>
  Package agent, file \<^verbatim>\<open>tracing.go\<close>: the set-up of OpenTelemetry and the helpers that start and annotate spans.

  The library is outside: the set-up calls it as a parameter, and a span is what the library is told
  about it. \<open>tell\<close> passes one instruction on, \<open>new_span\<close> gives the number of the next span. The parent of
  a span, which the context carries, is not looked at by this code.
\<close>

section \<open>Setting up\<close>

record TracingConfig =
  ServiceName :: string
  ServiceVersion :: string
  TraceEndpoint :: string
  Insecure :: bool
  TraceHeaders :: "(string, string) gomap option"

datatype exporter_option = ExporterEndpoint string | ExporterInsecure | ExporterHeaders "(string, string) gomap"

definition exporter_options :: "TracingConfig \<Rightarrow> exporter_option list" where
  "exporter_options cfg =
     [ExporterEndpoint (TraceEndpoint cfg)] @
     (if Insecure cfg then [ExporterInsecure] else []) @
     (case TraceHeaders cfg of None \<Rightarrow> [] | Some h \<Rightarrow> if length h > 0 then [ExporterHeaders h] else [])"

text \<open>The globals of the library: an exporter or a resource may fail to be made; a provider is installed for all.\<close>

record 'g otel =
  new_exporter :: "exporter_option list \<Rightarrow> 'g \<Rightarrow> (string + nat) \<times> 'g"
  new_resource :: "(string \<times> string) list \<Rightarrow> 'g \<Rightarrow> (string + nat) \<times> 'g"
  set_provider :: "nat \<Rightarrow> nat \<Rightarrow> 'g \<Rightarrow> 'g"
  set_propagators :: "string list \<Rightarrow> 'g \<Rightarrow> 'g"

datatype trace_shutdown = NoShutdown | ShutdownOf nat

definition SetupTracing :: "'g otel \<Rightarrow> TracingConfig \<Rightarrow> 'g \<Rightarrow> (string + trace_shutdown) \<times> 'g" where
  "SetupTracing ot cfg g =
     (if TraceEndpoint cfg = [] then (Inr NoShutdown, g)
      else (let service = (if ServiceName cfg = [] then ''sibyl-worker'' else ServiceName cfg) in
        case new_exporter ot (exporter_options cfg) g of
          (Inl e, g1) \<Rightarrow> (Inl (''otel: create OTLP exporter: '' @ e), g1)
        | (Inr exporter, g1) \<Rightarrow>
            (case new_resource ot [(''service.name'', service), (''service.version'', ServiceVersion cfg)] g1 of
               (Inl e, g2) \<Rightarrow> (Inl (''otel: create resource: '' @ e), g2)
             | (Inr res, g2) \<Rightarrow>
                 (Inr (ShutdownOf exporter), set_propagators ot [''tracecontext'', ''baggage''] (set_provider ot exporter res g2)))))"

text \<open>
  Without an endpoint nothing is called: a provider that was installed before stays installed, whatever
  else the configuration and the environment say.
\<close>

lemma SetupTracing_without_endpoint: "TraceEndpoint cfg = [] \<Longrightarrow> SetupTracing ot cfg g = (Inr NoShutdown, g)"
  by (simp add: SetupTracing_def)

lemma SetupTracing_installs:
  assumes "SetupTracing ot cfg g = (Inr (ShutdownOf ex), g')"
  shows "\<exists>g1 g2 res. new_exporter ot (exporter_options cfg) g = (Inr ex, g1) \<and>
    new_resource ot [(''service.name'', if ServiceName cfg = [] then ''sibyl-worker'' else ServiceName cfg), (''service.version'', ServiceVersion cfg)] g1
      = (Inr res, g2) \<and> g' = set_propagators ot [''tracecontext'', ''baggage''] (set_provider ot ex res g2)"
  using assms by (auto simp: SetupTracing_def Let_def split: if_splits prod.splits sum.splits)

section \<open>Spans\<close>

datatype attribute = AttrString string string | AttrInt string int

datatype span_op =
    SpanStart nat string "attribute list"
  | SpanError nat string
  | SpanStatus nat string
  | SpanAttributes nat "attribute list"
  | SpanEnd nat

record 's tracer =
  new_span :: "'s \<Rightarrow> nat \<times> 's"
  tell :: "span_op \<Rightarrow> 's \<Rightarrow> 's"

definition start_span :: "'s tracer \<Rightarrow> string \<Rightarrow> attribute list \<Rightarrow> 's \<Rightarrow> nat \<times> 's" where
  "start_span tr name attrs s = (case new_span tr s of (sp, s1) \<Rightarrow> (sp, tell tr (SpanStart sp name attrs) s1))"

definition StartWorkflowSpan :: "'s tracer \<Rightarrow> string \<Rightarrow> string \<Rightarrow> 's \<Rightarrow> nat \<times> 's" where
  "StartWorkflowSpan tr workflowType workflowID =
     start_span tr (''sibyl.workflow.'' @ workflowType) [AttrString ''workflow.type'' workflowType, AttrString ''workflow.id'' workflowID]"

definition StartActivitySpan :: "'s tracer \<Rightarrow> string \<Rightarrow> 's \<Rightarrow> nat \<times> 's" where
  "StartActivitySpan tr activityName = start_span tr (''sibyl.activity.'' @ activityName) [AttrString ''activity.name'' activityName]"

definition StartNodeSpan :: "'s tracer \<Rightarrow> string \<Rightarrow> 's \<Rightarrow> nat \<times> 's" where
  "StartNodeSpan tr nodeID = start_span tr (''sibyl.dag.node.'' @ nodeID) [AttrString ''node.id'' nodeID]"

definition StartToolSpan :: "'s tracer \<Rightarrow> string \<Rightarrow> int \<Rightarrow> 's \<Rightarrow> nat \<times> 's" where
  "StartToolSpan tr toolName step =
     start_span tr (''sibyl.tool.'' @ toolName) [AttrString ''tool.name'' toolName, AttrInt ''tool.step'' step]"

definition StartLLMSpan :: "'s tracer \<Rightarrow> string \<Rightarrow> string \<Rightarrow> 's \<Rightarrow> nat \<times> 's" where
  "StartLLMSpan tr backend callKind =
     start_span tr (''sibyl.llm.'' @ callKind) [AttrString ''llm.backend'' backend, AttrString ''llm.call_kind'' callKind]"

definition RecordError :: "'s tracer \<Rightarrow> nat \<Rightarrow> string option \<Rightarrow> 's \<Rightarrow> 's" where
  "RecordError tr sp err s = (case err of None \<Rightarrow> s | Some e \<Rightarrow> tell tr (SpanStatus sp e) (tell tr (SpanError sp e) s))"

definition SetTokens :: "'s tracer \<Rightarrow> nat \<Rightarrow> int \<Rightarrow> int \<Rightarrow> 's \<Rightarrow> 's" where
  "SetTokens tr sp inp out =
     tell tr (SpanAttributes sp [AttrInt ''llm.tokens.input'' inp, AttrInt ''llm.tokens.output'' out, AttrInt ''llm.tokens.total'' (wrap64 (inp + out))])"

section \<open>An instrumented activity\<close>

text \<open>
  The shape that the activities share: the span is started before the work and ended by a deferred call, also
  when the work panics; an error is recorded before. \<open>Inl None\<close> is a panic of the work.
\<close>

definition traced_activity :: "'s tracer \<Rightarrow> string \<Rightarrow> ('s \<Rightarrow> (string option + 'a) \<times> 's) \<Rightarrow> 's \<Rightarrow> (string option + 'a) \<times> 's" where
  "traced_activity tr name work s =
     (case StartActivitySpan tr name s of
        (sp, s1) \<Rightarrow>
          (case work s1 of
             (Inl (Some e), s2) \<Rightarrow> (Inl (Some e), tell tr (SpanEnd sp) (RecordError tr sp (Some e) s2))
           | (r, s2) \<Rightarrow> (r, tell tr (SpanEnd sp) s2)))"

text \<open>A library that keeps the instructions beside the rest.\<close>

definition kept_tracer :: "(span_op list \<times> 'r) tracer" where
  "kept_tracer = \<lparr>new_span = (\<lambda>s. (length (filter (\<lambda>x. case x of SpanStart n m as \<Rightarrow> True | _ \<Rightarrow> False) (fst s)), s)),
     tell = (\<lambda>x s. (fst s @ [x], snd s))\<rparr>"

fun span_of :: "span_op \<Rightarrow> nat" where
  "span_of (SpanStart n m as) = n" | "span_of (SpanError n e) = n" | "span_of (SpanStatus n e) = n"
| "span_of (SpanAttributes n as) = n" | "span_of (SpanEnd n) = n"

definition started :: "span_op list \<Rightarrow> nat" where
  "started xs = length (filter (\<lambda>x. case x of SpanStart n m as \<Rightarrow> True | _ \<Rightarrow> False) xs)"

text \<open>Every instruction is about a span that was started before.\<close>

definition spans_known :: "span_op list \<Rightarrow> bool" where
  "spans_known xs \<longleftrightarrow> (\<forall>x\<in>set xs. span_of x < started xs)"

text \<open>
  The trace of an activity is that of its outcome. Whatever spans its work opens, the span of the activity
  is started once, under its name, before everything the work does, gets the error with which the
  activity fails and no other, and is ended once, after everything else, panics included. It needs that
  the work only adds instructions, for spans of its own.
\<close>

theorem activity_span_lifecycle:
  assumes "spans_known xs"
    and "\<And>ys w r zs w'. work (ys, w) = (r, (zs, w')) \<Longrightarrow> \<exists>us. zs = ys @ us \<and> (\<forall>u\<in>set us. started ys \<le> span_of u)"
    and "traced_activity kept_tracer name work (xs, w) = (r, (zs, w'))"
  shows "\<exists>us sp. zs = xs @ us \<and> filter (\<lambda>u. span_of u = sp) xs = [] \<and>
    filter (\<lambda>u. span_of u = sp) us = [SpanStart sp (''sibyl.activity.'' @ name) [AttrString ''activity.name'' name]] @
      (case r of Inl (Some e) \<Rightarrow> [SpanError sp e, SpanStatus sp e] | _ \<Rightarrow> []) @ [SpanEnd sp] \<and>
    hd us = SpanStart sp (''sibyl.activity.'' @ name) [AttrString ''activity.name'' name] \<and> last us = SpanEnd sp"
proof -
  let ?sp = "started xs" and ?start = "SpanStart (started xs) (''sibyl.activity.'' @ name) [AttrString ''activity.name'' name]"
  have start: "StartActivitySpan kept_tracer name (xs, w) = (?sp, (xs @ [?start], w))"
    by (simp add: StartActivitySpan_def start_span_def kept_tracer_def started_def)
  obtain r' ys w1 where work: "work (xs @ [?start], w) = (r', (ys, w1))" by (metis prod.exhaust)
  from assms(2) [OF work] obtain vs where vs: "ys = (xs @ [?start]) @ vs" "\<forall>v\<in>set vs. started (xs @ [?start]) \<le> span_of v" by blast
  have "started (xs @ [?start]) = Suc ?sp" by (simp add: started_def)
  then have vs': "filter (\<lambda>u. span_of u = ?sp) vs = []" using vs(2) by (auto simp: filter_empty_conv)
  have old: "filter (\<lambda>u. span_of u = ?sp) xs = []" using assms(1) by (auto simp: spans_known_def filter_empty_conv)
  let ?err = "case r of Inl (Some e) \<Rightarrow> [SpanError ?sp e, SpanStatus ?sp e] | _ \<Rightarrow> []"
  have "r' = r \<and> zs = xs @ ([?start] @ vs @ ?err @ [SpanEnd ?sp])"
    using assms(3) start work vs(1)
    by (auto simp: traced_activity_def RecordError_def kept_tracer_def split: sum.splits option.splits)
  then show ?thesis
    using old vs' by (intro exI [of _ "[?start] @ vs @ ?err @ [SpanEnd ?sp]"] exI [of _ ?sp]) (auto split: sum.split option.split)
qed

theorem activity_span_lifecycle_witness:
  "\<exists>us sp. traced_activity kept_tracer ''Research'' (\<lambda>s. (Inl (Some ''down'') :: string option + unit, s)) ([], 3 :: nat) =
       (Inl (Some ''down''), (us, 3)) \<and>
     filter (\<lambda>u. span_of u = sp) us = [SpanStart sp ''sibyl.activity.Research'' [AttrString ''activity.name'' ''Research''],
       SpanError sp ''down'', SpanStatus sp ''down'', SpanEnd sp]"
proof -
  let ?work = "\<lambda>s. (Inl (Some ''down'') :: string option + unit, s :: span_op list \<times> nat)"
  obtain r zs w' where run: "traced_activity kept_tracer ''Research'' ?work ([], 3) = (r, (zs, w'))" by (metis prod.exhaust)
  then have r: "r = Inl (Some ''down'') \<and> w' = 3"
    by (auto simp: traced_activity_def RecordError_def kept_tracer_def StartActivitySpan_def start_span_def)
  have "spans_known []" by (simp add: spans_known_def)
  from activity_span_lifecycle [OF this _ run] obtain us sp where "zs = [] @ us"
    "filter (\<lambda>u. span_of u = sp) us = [SpanStart sp (''sibyl.activity.'' @ ''Research'') [AttrString ''activity.name'' ''Research'']] @
      (case r of Inl (Some e) \<Rightarrow> [SpanError sp e, SpanStatus sp e] | _ \<Rightarrow> []) @ [SpanEnd sp]" by auto
  with run r show ?thesis by (intro exI [of _ us] exI [of _ sp]) simp
qed

text \<open>The names of spans tell the kind and the label: no two helpers give the same name.\<close>

definition span_prefixes :: "string list" where
  "span_prefixes = [''sibyl.workflow.'', ''sibyl.activity.'', ''sibyl.dag.node.'', ''sibyl.tool.'', ''sibyl.llm.'']"

lemma span_names_injective:
  assumes "p \<in> set span_prefixes" "q \<in> set span_prefixes" "p @ x = q @ y"
  shows "p = q \<and> x = y"
  using assms by (auto simp: span_prefixes_def)

end
