(* ===== verification/Commands.thy ===== *)
theory Commands
  imports Api_Server Workers
begin

text \<open>
  The set-up of the worker command (\<^verbatim>\<open>cmd/worker/main.go\<close>) and of the api server
  (\<^verbatim>\<open>cmd/api-server/main.go\<close>): from the values of the flags to a worker on which everything is registered,
  with the backend, the cache, the chain of middleware, the synthesizer and the stream that the flags choose,
  and to the first state of the process; then what a review call on such a worker leaves behind, and the
  requests that the api server serves.

  The state of the process is what the metrics observed, the token sink, and \<open>('d) process_world\<close>: the
  scripted model, the cache in memory, and the rest, which the backends, the database and the clock are
  parameters over. Parsing the flags, tracing, what is logged about the set-up, the listeners and the end of
  the process are not modelled.
\<close>

section \<open>The world of the process\<close>

record 'd process_world =
  pw_scripted :: ScriptedLLM
  pw_cache :: MemoryCache
  pw_rest :: 'd

definition on_scripted :: "ScriptedLLM CompleteFunc \<Rightarrow> 'd process_world CompleteFunc" where
  "on_scripted f sys user w = (case f sys user (pw_scripted w) of (r, m) \<Rightarrow> (r, w\<lparr>pw_scripted := m\<rparr>))"

definition on_rest :: "'d CompleteFunc \<Rightarrow> 'd process_world CompleteFunc" where
  "on_rest f sys user w = (case f sys user (pw_rest w) of (r, d) \<Rightarrow> (r, w\<lparr>pw_rest := d\<rparr>))"

text \<open>The method that a backend provides.\<close>

definition backend_complete :: "'d anthropic_env \<Rightarrow> 'd claude_env \<Rightarrow> backend \<Rightarrow> 'd process_world CompleteFunc" where
  "backend_complete aenv cenv b =
     (case b of
        ScriptedBackend m \<Rightarrow> on_scripted scripted_complete
      | AnthropicBackend cfg \<Rightarrow> on_rest (anthropic_Complete aenv cfg)
      | ClaudeCodeBackend cfg \<Rightarrow> on_rest (claude_Complete cenv cfg))"

definition cache_get :: "('d \<Rightarrow> int) \<Rightarrow> 'd cache_db \<Rightarrow> picked_cache \<Rightarrow> string \<Rightarrow> 'd process_world \<Rightarrow> string option \<times> 'd process_world" where
  "cache_get clk D c key w =
     (case c of
        InMemory m \<Rightarrow> (case MemoryCache_Get (clk (pw_rest w)) key (pw_cache w) of (hit, m') \<Rightarrow> (hit, w\<lparr>pw_cache := m'\<rparr>))
      | InSqlite ttl \<Rightarrow> (case sqlite_cache_get D key (pw_rest w) of (hit, d) \<Rightarrow> (hit, w\<lparr>pw_rest := d\<rparr>)))"

definition cache_set :: "('d \<Rightarrow> int) \<Rightarrow> 'd cache_db \<Rightarrow> picked_cache \<Rightarrow> string \<Rightarrow> string \<Rightarrow> 'd process_world \<Rightarrow> 'd process_world" where
  "cache_set clk D c key value w =
     (case c of
        InMemory m \<Rightarrow> w\<lparr>pw_cache := MemoryCache_Set (clk (pw_rest w)) key value (pw_cache w)\<rparr>
      | InSqlite ttl \<Rightarrow> w\<lparr>pw_rest := sqlite_cache_set D ttl key value (pw_rest w)\<rparr>)"

section \<open>Set-up\<close>

text \<open>What the process is given: the clients, the clock, the random source, the waits, the logger, the hash.\<close>

record 'd command_env =
  cmd_anthropic :: "'d anthropic_env"
  cmd_claude :: "'d claude_env"
  cmd_cancelled :: "'d \<Rightarrow> nat \<Rightarrow> bool"
  cmd_clock :: "'d \<Rightarrow> int"
  cmd_db :: "'d cache_db"
  cmd_new_sqlite :: "string \<Rightarrow> 'd \<Rightarrow> string option \<times> 'd"
  cmd_dial :: "'d \<Rightarrow> string option \<times> 'd"
  cmd_log :: "log_record \<Rightarrow> 'd process_world \<Rightarrow> 'd process_world"
  cmd_now :: "'d process_world process \<Rightarrow> int"
  cmd_rand :: "'d process_world process \<Rightarrow> int \<Rightarrow> int"
  cmd_wait :: "'d process_world process \<Rightarrow> int \<Rightarrow> llm_error option"
  cmd_sha :: "string \<Rightarrow> string"
  cmd_quote :: "string \<Rightarrow> string"
  cmd_getenv :: string
  cmd_start :: "'d \<Rightarrow> string option \<times> 'd"

definition command_complete :: "'d command_env \<Rightarrow> string \<Rightarrow> backend \<Rightarrow> picked_cache option \<Rightarrow> 'd process_world process CompleteFunc" where
  "command_complete env name b picked =
     Chain (process_backend (backend_complete (cmd_anthropic env) (cmd_claude env) b))
       (worker_middleware (process_log (cmd_log env)) (cmd_now env) process_report (cmd_rand env) (cmd_wait env) (Some keep_obs) name
         (map_option (\<lambda>c. WithCache (cmd_sha env) (process_get (cache_get (cmd_clock env) (cmd_db env) c))
            (process_set (cache_set (cmd_clock env) (cmd_db env) c))) picked))"

text \<open>The stream of a client bypasses the chain: it acts on the rest of the world only.\<close>

definition process_stream :: "'d CompleteStreamFunc \<Rightarrow> 'd process_world process CompleteStreamFunc" where
  "process_stream f sys user s =
     (case f sys user (pw_rest (snd (snd s))) of (r, d) \<Rightarrow> (r, (fst s, fst (snd s), (snd (snd s))\<lparr>pw_rest := d\<rparr>)))"

record command_flags =
  FlagLLM :: string
  FlagModel :: string
  FlagSynthesize :: string
  FlagCache :: string
  FlagCachePath :: string
  FlagCacheTTL :: int

text \<open>What a process starts with.\<close>

definition initial_process :: "backend \<Rightarrow> picked_cache option \<Rightarrow> 'd \<Rightarrow> 'd process_world process" where
  "initial_process b picked d =
     ([], \<lparr>sink_input = 0, sink_output = 0, sink_calls = 0\<rparr>,
      \<lparr>pw_scripted = (case b of ScriptedBackend m \<Rightarrow> m | _ \<Rightarrow> \<lparr>Responses = [], Cycle = False, calls = [], idx = 0\<rparr>),
       pw_cache = (case picked of Some (InMemory m) \<Rightarrow> m | _ \<Rightarrow> NewMemoryCache 0), pw_rest = d\<rparr>)"

definition command_stream :: "'d command_env \<Rightarrow> AnthropicConfig option \<Rightarrow> 'd process_world process CompleteStreamFunc option" where
  "command_stream env st =
     map_option (\<lambda>cfg. process_stream (CompleteStream (cmd_anthropic env) (cmd_cancelled env) cfg)) st"

definition choose_synthesizer :: "(string \<Rightarrow> string) \<Rightarrow> (SubAnswer list, string, 's) pipe \<Rightarrow>
    ((string \<Rightarrow> string) \<Rightarrow> (string, string, 's) arrow) \<Rightarrow> 's CompleteFunc \<Rightarrow> string \<Rightarrow>
    string + (SubAnswer list, string, 's) arrow option" where
  "choose_synthesizer quote Pipe3 Pure llm kind =
     (if kind = ''heuristic'' \<or> kind = [] then Inr None
      else if kind = ''llm'' then Inr (Some (LLMSynthesizer Pipe3 Pure (Some llm)))
      else Inl (''unknown -synthesize value: '' @ quote kind @ '' (choices: heuristic, llm)''))"

text \<open>
  \<open>Inl\<close> is the message with which the command ends; the world keeps what was done before. Otherwise the result
  is the worker and the first state of the process.
\<close>

definition worker_setup :: "'d command_env \<Rightarrow> (SubAnswer list, string, 'd process_world process) pipe \<Rightarrow>
    ((string \<Rightarrow> string) \<Rightarrow> (string, string, 'd process_world process) arrow) \<Rightarrow>
    (workflow_fn, ('st, 'd process_world process) activity_fn, 's) worker_api \<Rightarrow> command_flags \<Rightarrow> 's \<Rightarrow> 'd \<Rightarrow>
    (string + 's \<times> 'd process_world process) \<times> 'd" where
  "worker_setup env Pipe3 Pure api flags s d =
     (case worker_pickBackend (cmd_getenv env) (FlagLLM flags) (FlagModel flags) of
        Inl e \<Rightarrow> (Inl (''backend setup failed: '' @ e), d)
      | Inr b \<Rightarrow>
          (case worker_buildCache (cmd_new_sqlite env) (FlagCache flags) (FlagCachePath flags) (FlagCacheTTL flags) d of
             (Inl e, d1) \<Rightarrow> (Inl (''cache setup failed: '' @ e), d1)
           | (Inr picked, d1) \<Rightarrow>
               (let llm = command_complete env (FlagLLM flags) b picked in
                case cmd_dial env d1 of
                  (Some e, d2) \<Rightarrow> (Inl (''unable to create Temporal client: '' @ e), d2)
                | (None, d2) \<Rightarrow>
                    (case choose_synthesizer (cmd_quote env) Pipe3 Pure llm (FlagSynthesize flags) of
                       Inl e \<Rightarrow> (Inl e, d2)
                     | Inr syn \<Rightarrow>
                         (case pickStream (cmd_getenv env) (FlagLLM flags) (FlagModel flags) of
                            Inl e \<Rightarrow> (Inl (''stream setup failed: '' @ e), d2)
                          | Inr st \<Rightarrow>
                              (case RegisterWithOptions api (Some llm) \<lparr>OptSynthesizer = syn, OptStream = command_stream env st\<rparr> s of
                                 None \<Rightarrow> (Inl ''panic: already registered'', d2)
                               | Some s1 \<Rightarrow> (Inr (s1, initial_process b picked d2), d2)))))))"

text \<open>The api server: another order, no synthesizer, and a worker that is started in the same process.\<close>

definition api_setup :: "'d command_env \<Rightarrow> (workflow_fn, ('st, 'd process_world process) activity_fn, 's) worker_api \<Rightarrow>
    command_flags \<Rightarrow> 's \<Rightarrow> 'd \<Rightarrow> (string + 's \<times> 'p MemoryBroker \<times> 'd process_world process) \<times> 'd" where
  "api_setup env api flags s d =
     (case api_pickBackend (cmd_getenv env) (FlagLLM flags) (FlagModel flags) of
        Inl e \<Rightarrow> (Inl (''backend setup failed: '' @ e), d)
      | Inr b \<Rightarrow>
          (case pickStream (cmd_getenv env) (FlagLLM flags) (FlagModel flags) of
             Inl e \<Rightarrow> (Inl (''stream setup failed: '' @ e), d)
           | Inr st \<Rightarrow>
               (case api_buildCache (cmd_new_sqlite env) (FlagCache flags) (FlagCachePath flags) (FlagCacheTTL flags) d of
                  (Inl e, d1) \<Rightarrow> (Inl (''cache setup failed: '' @ e), d1)
                | (Inr picked, d1) \<Rightarrow>
                    (case cmd_dial env d1 of
                       (Some e, d2) \<Rightarrow> (Inl (''Temporal client dial failed: '' @ e), d2)
                     | (None, d2) \<Rightarrow>
                         (case RegisterWithOptions api (Some (command_complete env (FlagLLM flags) b picked))
                             \<lparr>OptSynthesizer = None, OptStream = command_stream env st\<rparr> s of
                            None \<Rightarrow> (Inl ''panic: already registered'', d2)
                          | Some s1 \<Rightarrow>
                              (case cmd_start env d2 of
                                 (Some e, d3) \<Rightarrow> (Inl (''worker start failed: '' @ e), d3)
                               | (None, d3) \<Rightarrow> (Inr (s1, NewMemoryBroker, initial_process b picked d3), d3)))))))"

text \<open>The summary at the end of a run.\<close>

definition usage_summary :: "AtomicTokenSink \<Rightarrow> string" where
  "usage_summary t =
     (case Snapshot t of (inp, out, n) \<Rightarrow>
        ''calls='' @ Itoa n @ '' input=~'' @ Itoa inp @ '' output=~'' @ Itoa out @ '' total=~'' @ Itoa (wrap64 (inp + out)))"

section \<open>Backends and the chain\<close>

lemma claude_reply_returns: "claude_reply cenv out stderr \<noteq> Panicked p"
  by (auto simp: claude_reply_def failed_call_def split: sum.splits)

lemma anthropic_reply_returns: "anthropic_reply aenv resp \<noteq> Panicked p"
  by (auto simp: anthropic_reply_def failed_call_def split: sum.splits option.splits)

lemma backend_never_panics: "never_panics (backend_complete aenv cenv b)"
  by (cases b) (auto simp: never_panics_def backend_complete_def on_scripted_def on_rest_def scripted_complete_def Let_def
      anthropic_Complete_def claude_Complete_def failed_call_def claude_reply_returns anthropic_reply_returns
      split: prod.splits sum.splits option.splits)

text \<open>What the cache of the process has for a call.\<close>

definition cached_answer :: "'d command_env \<Rightarrow> picked_cache option \<Rightarrow> string \<Rightarrow> string \<Rightarrow> 'd process_world \<Rightarrow> string option" where
  "cached_answer env picked sys user w =
     (case picked of
        None \<Rightarrow> None
      | Some c \<Rightarrow> fst (cache_get (cmd_clock env) (cmd_db env) c (cacheKey (cmd_sha env) sys user) w))"

definition counted_once :: "string \<Rightarrow> observation list \<times> AtomicTokenSink \<Rightarrow> observation list \<times> AtomicTokenSink \<Rightarrow> bool" where
  "counted_once name before after \<longleftrightarrow>
     (\<exists>k\<in>{1..3}. calls_total name (fst after) = calls_total name (fst before) + int k \<and>
        sink_calls (snd after) = wrap64 (sink_calls (snd before) + 1))"

lemma command_complete_counted:
  assumes "\<And>s d. cmd_wait env s d = None"
    and run: "command_complete env name b picked sys user (obs, sink, w) = (r, (obs', sink', w'))"
  shows "case cached_answer env picked sys user w of
      Some hit \<Rightarrow> r = Returned hit None \<and> obs' = obs \<and> sink' = sink
    | None \<Rightarrow> counted_once name (obs, sink) (obs', sink') \<and> (\<exists>out err. r = Returned out err)"
proof (cases picked)
  case None
  with run have "WithLogging (process_log (cmd_log env)) (cmd_now env) (WithTokenAccounting (Some process_report)
      (WithRetry (cmd_rand env) (cmd_wait env) 3 (200 * 1000000) (WithMetrics (Some keep_obs) (cmd_now env) name
        (process_backend (backend_complete (cmd_anthropic env) (cmd_claude env) b))))) sys user (obs, sink, w) = (r, (obs', sink', w'))"
    by (simp add: command_complete_def worker_middleware_def Let_def)
  from logged_chain_counted [OF backend_never_panics assms(1) this] None show ?thesis
    by (auto simp: cached_answer_def counted_once_def)
next
  case (Some c)
  with run have "worker_complete (cmd_log env) (cmd_now env) (cmd_rand env) (cmd_wait env) name (cmd_sha env)
      (cache_get (cmd_clock env) (cmd_db env) c) (cache_set (cmd_clock env) (cmd_db env) c)
      (backend_complete (cmd_anthropic env) (cmd_claude env) b) sys user (obs, sink, w) = (r, (obs', sink', w'))"
    by (simp add: command_complete_def worker_complete_def)
  from worker_complete_counted [OF backend_never_panics assms(1) this] Some show ?thesis
    by (auto simp: cached_answer_def counted_once_def split: option.splits)
qed

lemma command_stream_keeps:
  assumes "command_stream env st = Some f"
  shows "\<exists>d. snd (f sys user (obs, sink, w)) = (obs, sink, w\<lparr>pw_rest := d\<rparr>)"
  using assms by (auto simp: command_stream_def process_stream_def split: prod.splits)

section \<open>A review call on a worker\<close>

lemma finish_call_world:
  assumes "finish_call env emitter name nodeID start (reply, b, w) = (r, b', w')"
  shows "w' = w \<and> (\<forall>out. reply = Returned out None \<longrightarrow> r = Inr out \<or> r = Inl (Crash ''send on closed channel'')) \<and>
    (reply = broker_panicked \<longrightarrow> r = Inl (Crash ''send on closed channel''))"
  using assms by (auto simp: finish_call_def broker_panicked_def split: reply.splits prod.splits option.splits)

text \<open>What a model call leaves of the world, unless the broker panicked under it.\<close>

lemma streaming_world:
  assumes "callLLMWithStreaming ctx a sys user callID streaming (b, w) = (reply, b', w')"
    and "act_complete a = Some c"
  shows "case (if streaming then act_stream a else None) of
      Some f \<Rightarrow> w' = snd (f sys user w)
    | None \<Rightarrow> w' = snd (c sys user w) \<and> (reply = fst (c sys user w) \<or> reply = broker_panicked)"
proof (cases "if streaming then act_stream a else None")
  case (Some f)
  then have "streaming" "act_stream a = Some f" by (simp_all split: if_splits)
  with assms Some show ?thesis
    by (auto simp: callLLMWithStreaming_def CompleteWithStreaming_def Let_def split: prod.splits stream_reply.splits)
next
  case None
  then have off: "\<not> (streaming \<and> act_stream a \<noteq> None)" by (simp split: if_splits)
  have "CompleteWithStreaming ctx None (Some c) sys user callID (b, w) = (reply, b', w')"
    using assms unfolding callLLMWithStreaming_def if_not_P [OF off] by simp
  then show ?thesis unfolding None
    by (auto simp: CompleteWithStreaming_def Let_def broker_panicked_def split: prod.splits reply.splits option.splits)
qed

definition under_closed :: "review_error + string \<Rightarrow> bool" where
  "under_closed r \<longleftrightarrow> r = Inl (Crash ''send on closed channel'')"

lemma observed_call_world:
  assumes "observed_call env ctx a name nodeID sys user streaming (b, w) = (r, b', w')"
    and "act_complete a = Some c"
  shows "(w' = w \<and> under_closed r) \<or>
    (case (if streaming then act_stream a else None) of
      Some f \<Rightarrow> w' = snd (f sys user w)
    | None \<Rightarrow> w' = snd (c sys user w) \<and> (under_closed r \<or> (\<forall>out. fst (c sys user w) = Returned out None \<longrightarrow> r = Inr out)))"
proof (cases "w' = w \<and> under_closed r")
  case False
  let ?e = "EmitterForActivity ctx"
  obtain b1 where b1: "Emit (Some ?e) (NewActivityStarted (re_now env w) [] name nodeID) b = (None, b1)"
    "finish_call env ?e name nodeID (re_now env w) (callLLMWithStreaming ctx a sys user nodeID streaming (b1, w)) = (r, b', w')"
    using assms False by (auto simp: observed_call_def under_closed_def Let_def split: prod.splits option.splits)
  obtain reply b2 w2 where call: "callLLMWithStreaming ctx a sys user nodeID streaming (b1, w) = (reply, b2, w2)"
    by (metis prod.exhaust)
  note fin = finish_call_world [OF b1(2) [unfolded call]]
  note world = streaming_world [OF call assms(2)]
  show ?thesis
    using fin world by (cases "if streaming then act_stream a else None") (auto simp: under_closed_def)
qed simp

text \<open>What a call of the review asks the model, if it does: system, prompt, and whether it wants a stream.\<close>

fun call_request :: "review_call \<Rightarrow> (string \<times> string \<times> bool) option" where
  "call_request (CallParseDiff inp) = None"
| "call_request (CallSecurityAudit inp) = Some (security_system, security_prompt (ParseText inp), AnalyzerStreaming inp)"
| "call_request (CallTestCoverage inp) = Some (tests_system, tests_prompt (ParseText inp), AnalyzerStreaming inp)"
| "call_request (CallStyleCheck inp) = Some (style_system, style_prompt (ParseText inp), AnalyzerStreaming inp)"
| "call_request (CallSynthesizeReview inp) =
     Some (Review.synthesis_system, synthesis_prompt (SynthSecurity inp) (SynthTests inp) (SynthStyle inp), SynthStreaming inp)"

lemma review_body_observed:
  assumes "call_request call = Some (sys, user, streaming)"
  shows "\<exists>name nodeID. review_body env pause ctx a call s = observed_call env ctx a name nodeID sys user streaming s"
  using assms
  by (cases call) (auto simp: SecurityAudit_def TestCoverage_def StyleCheck_def SynthesizeReview_def runAnalyzer_def)

text \<open>The books of a model call: \<open>streamed\<close> calls bypass the chain.\<close>

definition call_books :: "'d command_env \<Rightarrow> string \<Rightarrow> picked_cache option \<Rightarrow> bool \<Rightarrow> string \<Rightarrow> string \<Rightarrow>
    'd process_world process \<Rightarrow> review_error + string \<Rightarrow> 'd process_world process \<Rightarrow> bool" where
  "call_books env name picked streamed sys user p r p' =
     (case (p, p') of ((obs, sink, w), (obs', sink', w')) \<Rightarrow>
       if streamed then obs' = obs \<and> sink' = sink \<and> pw_cache w' = pw_cache w
       else (case cached_answer env picked sys user w of
          Some hit \<Rightarrow> (r = Inr hit \<or> under_closed r) \<and> obs' = obs \<and> sink' = sink
        | None \<Rightarrow> counted_once name (obs, sink) (obs', sink')))"

lemma chained_call:
  assumes "\<And>s d. cmd_wait env s d = None" "call_request call = Some (sys, user, streaming)"
    and run: "review_body renv pause ctx \<lparr>act_complete = Some (command_complete env name b picked), act_stream = command_stream env st\<rparr>
      call (br, p) = (r, br', p')"
  shows "(p' = p \<and> under_closed r) \<or> call_books env name picked (streaming \<and> st \<noteq> None) sys user p r p'"
proof (cases "p' = p \<and> under_closed r")
  case False
  let ?c = "command_complete env name b picked"
  let ?a = "\<lparr>act_complete = Some ?c, act_stream = command_stream env st\<rparr>"
  obtain obs sink w where p: "p = (obs, sink, w)" by (metis prod.exhaust)
  obtain obs' sink' w' where p': "p' = (obs', sink', w')" by (metis prod.exhaust)
  obtain n nodeID where "observed_call renv ctx ?a n nodeID sys user streaming (br, p) = (r, br', p')"
    using review_body_observed [OF assms(2), of renv pause ctx ?a "(br, p)"] run by auto
  note world = observed_call_world [OF this, of ?c]
  show ?thesis
  proof (cases "streaming \<and> st \<noteq> None")
    case True
    then obtain f where f: "command_stream env st = Some f" by (cases st) (simp_all add: command_stream_def)
    with world True False have "p' = snd (f sys user p)" by simp
    with command_stream_keeps [OF f, of sys user obs sink w] True show ?thesis by (auto simp: call_books_def p p')
  next
    case stream: False
    then have "(if streaming then act_stream ?a else None) = None" by (auto simp: command_stream_def)
    with world False have w: "p' = snd (?c sys user p)"
      "under_closed r \<or> (\<forall>out. fst (?c sys user p) = Returned out None \<longrightarrow> r = Inr out)" by auto
    then have "?c sys user (obs, sink, w) = (fst (?c sys user p), (obs', sink', w'))" by (simp add: prod_eq_iff p p')
    from command_complete_counted [OF assms(1) this] w(2) show ?thesis
      unfolding call_books_def p p' prod.case if_not_P [OF stream] by (auto split: option.splits)
  qed
qed simp

section \<open>Set-ups that end well\<close>

lemma api_setup_Inr:
  assumes "api_setup env api flags s d = (Inr (s1, br, p), d')"
  shows "\<exists>b st picked d1. api_pickBackend (cmd_getenv env) (FlagLLM flags) (FlagModel flags) = Inr b \<and>
    pickStream (cmd_getenv env) (FlagLLM flags) (FlagModel flags) = Inr st \<and>
    api_buildCache (cmd_new_sqlite env) (FlagCache flags) (FlagCachePath flags) (FlagCacheTTL flags) d = (Inr picked, d1) \<and>
    RegisterWithOptions api (Some (command_complete env (FlagLLM flags) b picked))
      \<lparr>OptSynthesizer = None, OptStream = command_stream env st\<rparr> s = Some s1 \<and>
    br = NewMemoryBroker \<and> p = initial_process b picked d'"
  using assms by (auto simp: api_setup_def Let_def split: sum.splits prod.splits option.splits)

lemma worker_setup_Inr:
  assumes "worker_setup env Pipe3 Pure api flags s d = (Inr (s1, p), d')"
  shows "\<exists>b st picked d1 syn. worker_pickBackend (cmd_getenv env) (FlagLLM flags) (FlagModel flags) = Inr b \<and>
    pickStream (cmd_getenv env) (FlagLLM flags) (FlagModel flags) = Inr st \<and>
    worker_buildCache (cmd_new_sqlite env) (FlagCache flags) (FlagCachePath flags) (FlagCacheTTL flags) d = (Inr picked, d1) \<and>
    RegisterWithOptions api (Some (command_complete env (FlagLLM flags) b picked))
      \<lparr>OptSynthesizer = syn, OptStream = command_stream env st\<rparr> s = Some s1 \<and> p = initial_process b picked d'"
  using assms by (auto simp: worker_setup_def Let_def split: sum.splits prod.splits option.splits)

lemma pickStream_Some: "pickStream getenv name model = Inr st \<Longrightarrow> st \<noteq> None \<longleftrightarrow> name = ''anthropic''"
  by (auto simp: pickStream_def split: if_splits sum.splits)

text \<open>
  C39: what a review call costs on the api server, from its flags to its books. With a backend that streams, a
  call that wants a stream leaves the metrics, the token sink and the cache in memory as they are: it is
  neither metered, nor counted, nor answered from the cache or kept in it. Every other call of the model is
  answered from the cache that the flags chose, and then costs nothing, or is counted once, with one to three
  attempts metered under the name of the backend. The exception is a broker that panics before the call.
  It needs that no context ends during a delay of the retries.
\<close>

theorem api_review_call_accounting:
  assumes "keeps_registered api wfs acts" "\<And>s d. cmd_wait env s d = None"
    and up: "api_setup env api flags s d = (Inr (s1, br0, p0), d')"
    and "call_request call = Some (sys, user, streaming)"
    and run: "run_registered (acts s1) renv pause ctx call (br, p) = Some (r, br', p')"
  shows "(p' = p \<and> under_closed r) \<or>
    (\<exists>picked. fst (api_buildCache (cmd_new_sqlite env) (FlagCache flags) (FlagCachePath flags) (FlagCacheTTL flags) d) = Inr picked \<and>
       call_books env (FlagLLM flags) picked (streaming \<and> FlagLLM flags = ''anthropic'') sys user p r p')"
proof -
  obtain b st picked d1 where st: "pickStream (cmd_getenv env) (FlagLLM flags) (FlagModel flags) = Inr st"
    "api_buildCache (cmd_new_sqlite env) (FlagCache flags) (FlagCachePath flags) (FlagCacheTTL flags) d = (Inr picked, d1)"
    "RegisterWithOptions api (Some (command_complete env (FlagLLM flags) b picked))
      \<lparr>OptSynthesizer = None, OptStream = command_stream env st\<rparr> s = Some s1"
    using api_setup_Inr [OF up] by (elim exE conjE) (rule that; assumption)
  from run run_registered_body [OF assms(1) st(3), of renv pause ctx call "(br, p)"]
  have "review_body renv pause ctx \<lparr>act_complete = Some (command_complete env (FlagLLM flags) b picked),
      act_stream = command_stream env st\<rparr> call (br, p) = (r, br', p')" by simp
  from chained_call [OF assms(2,4) this] st(2) pickStream_Some [OF st(1)] show ?thesis by auto
qed

section \<open>Requests of the api server\<close>

text \<open>\<open>ui\<close> is the embedded page: an error of the directory, an error of the file, or its text.\<close>

definition handleIndex :: "string + string option \<Rightarrow> string \<Rightarrow> server_reply" where
  "handleIndex ui path =
     (if path \<noteq> ''/'' then http_error ''404 page not found'' 404
      else (case ui of
              Inl e \<Rightarrow> http_error e 500
            | Inr None \<Rightarrow> http_error ''ui missing'' 500
            | Inr (Some page) \<Rightarrow> \<lparr>ReplyStatus = 200, ReplyType = ''text/html; charset=utf-8'', ReplyBody = page\<rparr>))"

datatype api_handler = IndexHandler | RunHandler | EventsHandler | HealthHandler

text \<open>The patterns of the mux: three paths, and the rest.\<close>

definition api_route :: "string \<Rightarrow> api_handler" where
  "api_route path =
     (if path = ''/run'' then RunHandler else if path = ''/events'' then EventsHandler
      else if path = ''/healthz'' then HealthHandler else IndexHandler)"

record api_request =
  RequestPath :: string
  RequestVerb :: string
  RequestBody :: string
  RequestWorkflow :: string

text \<open>The reply, and whether the handler has returned; \<open>None\<close> is a panic of the handler.\<close>

definition api_serve :: "('p, 'w) server_env \<Rightarrow> ('p event \<Rightarrow> string option) \<Rightarrow>
    (nat \<Rightarrow> 'p MemoryBroker \<Rightarrow> 'p selected list \<times> 'p MemoryBroker) \<Rightarrow> bool \<Rightarrow> string + string option \<Rightarrow>
    api_request \<Rightarrow> 'p MemoryBroker \<times> 'w \<Rightarrow> (server_reply \<times> bool) option \<times> 'p MemoryBroker \<times> 'w" where
  "api_serve env marshal during flushes ui req s =
     (case api_route (RequestPath req) of
        IndexHandler \<Rightarrow> (Some (handleIndex ui (RequestPath req), True), s)
      | HealthHandler \<Rightarrow> (Some (\<lparr>ReplyStatus = 200, ReplyType = ''text/plain; charset=utf-8'', ReplyBody = ''ok''\<rparr>, True), s)
      | RunHandler \<Rightarrow> (case handleRun env (RequestVerb req) (RequestBody req) s of (reply, s1) \<Rightarrow> (map_option (\<lambda>x. (x, True)) reply, s1))
      | EventsHandler \<Rightarrow> (case handleEvents marshal during flushes (RequestWorkflow req) (fst s) of (reply, b) \<Rightarrow> (reply, b, snd s)))"

text \<open>Only two paths reach the broker and Temporal; a path without a handler is not found.\<close>

lemma api_serve_effects:
  assumes "api_serve env marshal during flushes ui req (b, w) = (reply, b', w')"
  shows "RequestPath req \<noteq> ''/run'' \<Longrightarrow> w' = w" "RequestPath req \<notin> {''/run'', ''/events''} \<Longrightarrow> b' = b \<and> reply \<noteq> None"
    "RequestPath req \<notin> {''/'', ''/run'', ''/events'', ''/healthz''} \<Longrightarrow> reply = Some (http_error ''404 page not found'' 404, True)"
  using assms by (auto simp: api_serve_def api_route_def handleIndex_def split: if_splits prod.splits)

section \<open>A concrete api server\<close>

definition demo_command :: "nat command_env" where
  "demo_command =
     \<lparr>cmd_anthropic = demo_anthropic, cmd_claude = \<lparr>ce_run = (\<lambda>b args w. ((None, [], []), w)), ce_decode = (\<lambda>out. Inl out)\<rparr>,
      cmd_cancelled = (\<lambda>w n. False), cmd_clock = int,
      cmd_db = \<lparr>cd_now = int, cd_select = (\<lambda>k w. (Inr None, w)), cd_replace = (\<lambda>k row w. (None, w)), cd_delete = (\<lambda>k w. (None, w)),
        cd_count = (\<lambda>w. Inr 0), cd_sweep = (\<lambda>t w. (None, w)), cd_close = (\<lambda>w. (None, w))\<rparr>,
      cmd_new_sqlite = (\<lambda>path w. (None, w)), cmd_dial = (\<lambda>w. (None, w)), cmd_log = (\<lambda>rec w. w), cmd_now = (\<lambda>s. 0),
      cmd_rand = (\<lambda>s n. 0), cmd_wait = (\<lambda>s d. None), cmd_sha = (\<lambda>x. x), cmd_quote = quoted, cmd_getenv = [],
      cmd_start = (\<lambda>w. (None, w))\<rparr>"

definition demo_flags :: command_flags where
  "demo_flags = \<lparr>FlagLLM = ''scripted'', FlagModel = [], FlagSynthesize = [], FlagCache = ''none'', FlagCachePath = [], FlagCacheTTL = 0\<rparr>"

definition demo_process_env :: "nat process_world process review_env" where
  "demo_process_env = \<lparr>re_now = (\<lambda>s. int (pw_rest (snd (snd s)))), re_show = (\<lambda>e. ''failed'')\<rparr>"

definition demo_style_call :: review_call where
  "demo_style_call = CallStyleCheck \<lparr>AnalyzerNodeID = ''style_check'', ParseText = ''p'', AnalyzerStreaming = True\<rparr>"

lemma demo_api_setup:
  fixes s :: "(unit, nat process_world process) demo_worker"
  assumes "RegisterWithOptions demo_worker_api (Some (command_complete demo_command ''scripted''
      (scripted_backend [''Static demo response from scripted backend.'']) None)) \<lparr>OptSynthesizer = None, OptStream = None\<rparr> s = Some s1"
  shows "api_setup demo_command demo_worker_api demo_flags s d =
    (Inr (s1, NewMemoryBroker, initial_process (scripted_backend [''Static demo response from scripted backend.'']) None d), d)"
  using assms
  by (simp add: api_setup_def api_pickBackend_def choose_backend_def pickStream_def api_buildCache_def choose_cache_def
      demo_command_def demo_flags_def command_stream_def)

lemma broker_ok_fresh: "Review.broker_ok NewMemoryBroker"
  by (simp add: Review.broker_ok_def NewMemoryBroker_def matching_def subs_of_def int64_def)

theorem api_review_call_accounting_witness:
  "\<exists>(s1 :: (unit, nat process_world process) demo_worker) (br :: unit MemoryBroker) p r br' obs sink w.
     api_setup demo_command demo_worker_api demo_flags (Map.empty, Map.empty) 0 = (Inr (s1, br, p), 0) \<and>
     run_registered (snd s1) demo_process_env id demo_quiet demo_style_call (br, p) = Some (r, br', obs, sink, w) \<and>
     sink_calls sink = 1 \<and> calls_total ''scripted'' obs \<in> {1, 2, 3}"
proof -
  let ?b = "scripted_backend [''Static demo response from scripted backend.'']"
  let ?c = "command_complete demo_command ''scripted'' ?b None"
  let ?p = "initial_process ?b None (0 :: nat)"
  let ?sink = "\<lparr>sink_input = 0, sink_output = 0, sink_calls = 0\<rparr>"
  let ?opts = "\<lparr>OptSynthesizer = None, OptStream = None\<rparr> :: nat process_world process worker_options"
  obtain s1 :: "(unit, nat process_world process) demo_worker" where s1:
    "RegisterWithOptions demo_worker_api (Some ?c) ?opts (Map.empty, Map.empty) = Some s1"
    using RegisterWithOptions_kept [OF demo_worker_keeps, of "(Map.empty, Map.empty)" "Some ?c" ?opts] by auto
  note up = demo_api_setup [OF s1, of 0]
  obtain w0 where p: "?p = ([], ?sink, w0)" by (simp add: initial_process_def)
  have request: "call_request demo_style_call = Some (style_system, style_prompt ''p'', True)" by (simp add: demo_style_call_def)
  have wait: "cmd_wait demo_command s d = None" for s d by (simp add: demo_command_def)
  have body: "run_registered (snd s1) demo_process_env id demo_quiet demo_style_call (NewMemoryBroker :: unit MemoryBroker, [], ?sink, w0) =
      Some (observed_call demo_process_env demo_quiet \<lparr>act_complete = Some ?c, act_stream = None\<rparr> StyleCheckActivityName ''style_check''
        style_system (style_prompt ''p'') True (NewMemoryBroker, [], ?sink, w0))"
    using run_registered_body [OF demo_worker_keeps s1, of demo_process_env id demo_quiet demo_style_call]
    by (simp add: demo_style_call_def StyleCheck_def runAnalyzer_def)
  obtain r0 obs sink w where c: "?c style_system (style_prompt ''p'') ([], ?sink, w0) = (r0, obs, sink, w)" by (metis prod.exhaust)
  from command_complete_counted [OF wait this] obtain out err where r0: "r0 = Returned out err" by (auto simp: cached_answer_def)
  from observed_call_returns [where c = ?c and a = "\<lparr>act_complete = Some ?c, act_stream = None\<rparr>" and env = demo_process_env
      and ctx = demo_quiet and name = StyleCheckActivityName and nodeID = "''style_check''" and streaming = True,
      OF _ _ c [unfolded r0] broker_ok_fresh]
  obtain r br' where ran: "run_registered (snd s1) demo_process_env id demo_quiet demo_style_call
      (NewMemoryBroker :: unit MemoryBroker, [], ?sink, w0) = Some (r, br', obs, sink, w)" "\<not> under_closed r"
    using body by (cases err) (auto simp: under_closed_def)
  have "counted_once ''scripted'' ([], ?sink) (obs, sink)"
    using api_review_call_accounting [OF demo_worker_keeps wait up request ran(1)] ran(2)
    by (simp add: demo_flags_def api_buildCache_def choose_cache_def cached_answer_def call_books_def)
  then have "sink_calls sink = 1 \<and> calls_total ''scripted'' obs \<in> {1, 2, 3}"
    by (auto simp: counted_once_def calls_total_def wrap64_def)
  with up ran(1) p show ?thesis by (metis)
qed

end
