(* ===== verification/Review_Books.thy ===== *)
theory Review_Books
  imports Commands
begin

text \<open>
  What a whole review costs on the api server: the executor of Temporal with the retry policy of the review
  workflow, on the activities that the command registered, and the books of the process, the metrics and
  the token sink, before and after.
\<close>

section \<open>Books\<close>

text \<open>\<open>n\<close> calls counted by the token sink, which wraps around, and \<open>k\<close> attempts metered.\<close>

definition booked :: "string \<Rightarrow> nat \<Rightarrow> nat \<Rightarrow> observation list \<times> AtomicTokenSink \<Rightarrow> observation list \<times> AtomicTokenSink \<Rightarrow> bool" where
  "booked name n k before after \<longleftrightarrow> n \<le> k \<and> k \<le> 3 * n \<and>
     calls_total name (fst after) = calls_total name (fst before) + int k \<and>
     wrap64 (sink_calls (snd after)) = wrap64 (sink_calls (snd before) + int n)"

lemma booked_none: "booked name 0 0 t t"
  by (simp add: booked_def)

lemma booked_once: "counted_once name t t' \<Longrightarrow> \<exists>k. booked name 1 k t t'"
  using wrap64_add_left [of _ 0] by (auto simp: counted_once_def booked_def)

lemma booked_trans:
  assumes "booked name n k t t1" "booked name m j t1 t2"
  shows "booked name (n + m) (k + j) t t2"
proof -
  have "wrap64 (sink_calls (snd t1) + int m) = wrap64 (wrap64 (sink_calls (snd t1)) + int m)" by (rule wrap64_add_left [symmetric])
  also have "\<dots> = wrap64 (wrap64 (sink_calls (snd t) + int n) + int m)" using assms(1) by (simp add: booked_def)
  also have "\<dots> = wrap64 (sink_calls (snd t) + int n + int m)" by (rule wrap64_add_left)
  finally show ?thesis using assms by (simp add: booked_def add.assoc)
qed

section \<open>One attempt\<close>

text \<open>What an activity that is not registered fails with is Temporal's.\<close>

definition worker_body :: "(string \<Rightarrow> ('st, 'w) activity_fn option) \<Rightarrow> 'w review_env \<Rightarrow> ('w \<Rightarrow> 'w) \<Rightarrow> call_context \<Rightarrow> review_call \<Rightarrow>
    'p MemoryBroker \<times> 'w \<Rightarrow> (review_error + string) \<times> 'p MemoryBroker \<times> 'w" where
  "worker_body acts env pause ctx call s =
     (case run_registered acts env pause ctx call s of Some res \<Rightarrow> res | None \<Rightarrow> (Inl (Crash ''activity not registered''), s))"

text \<open>The books of a state.\<close>

definition books :: "'p MemoryBroker \<times> 'w process \<Rightarrow> observation list \<times> AtomicTokenSink" where
  "books s = (fst (snd s), fst (snd (snd s)))"

lemma books_simp: "books (b, obs, sink, w) = (obs, sink)"
  by (simp add: books_def)

definition keeps_books :: "('w process \<Rightarrow> 'w process) \<Rightarrow> bool" where
  "keeps_books pause \<longleftrightarrow> (\<forall>p. fst (pause p) = fst p \<and> fst (snd (pause p)) = fst (snd p))"

lemma ParseDiff_books:
  assumes "keeps_books pause" "ParseDiff env pause ctx inp s = (r, s')"
  shows "books s' = books s"
proof -
  have "fst (pause (snd s)) = fst (snd s)" "fst (snd (pause (snd s))) = fst (snd (snd s))"
    using assms(1) unfolding keeps_books_def by blast+
  with assms(2) show ?thesis
    by (auto simp: ParseDiff_def finish_call_def books_def Let_def split: prod.splits option.splits)
qed

text \<open>
  One attempt of a call: without a stream it is booked at most once, and a model call that succeeds without a
  cache is booked; with a stream nothing is booked.
\<close>

definition attempt_books :: "string \<Rightarrow> bool \<Rightarrow> bool \<Rightarrow> review_call \<Rightarrow> 'p MemoryBroker \<times> 'w process \<Rightarrow>
    review_error + string \<Rightarrow> 'p MemoryBroker \<times> 'w process \<Rightarrow> bool" where
  "attempt_books name streams cached call s r s' \<longleftrightarrow>
     (books s' = books s \<and> (call_request call \<noteq> None \<and> \<not> isl r \<longrightarrow> streams \<or> cached)) \<or>
     (\<not> streams \<and> call_request call \<noteq> None \<and> (\<exists>k. booked name 1 k (books s) (books s')))"

fun wants_stream :: "review_call \<Rightarrow> bool" where
  "wants_stream call = (case call_request call of None \<Rightarrow> False | Some (sys, user, streaming) \<Rightarrow> streaming)"

lemma chained_attempt:
  assumes "\<And>s d. cmd_wait env s d = None" "keeps_books pause"
    and run: "review_body renv pause ctx \<lparr>act_complete = Some (command_complete env name b picked), act_stream = command_stream env st\<rparr>
      call s = (r, s')"
  shows "attempt_books name (wants_stream call \<and> st \<noteq> None) (picked \<noteq> None) call s r s'"
proof (cases "call_request call")
  case None
  then obtain inp where "call = CallParseDiff inp" by (cases call) simp_all
  with run ParseDiff_books [OF assms(2)] None show ?thesis by (simp add: attempt_books_def)
next
  case (Some q)
  then obtain sys user streaming where q: "call_request call = Some (sys, user, streaming)" by (cases q) auto
  obtain br obs sink w where s: "s = (br, obs, sink, w)" by (metis prod.exhaust)
  obtain br' obs' sink' w' where s': "s' = (br', obs', sink', w')" by (metis prod.exhaust)
  from chained_call [OF assms(1) q run [unfolded s s']] show ?thesis
  proof (elim disjE)
    assume "call_books env name picked (streaming \<and> st \<noteq> None) sys user (obs, sink, w) r (obs', sink', w')"
    then show ?thesis
      using q booked_once [of name "(obs, sink)" "(obs', sink')"]
      by (auto simp: attempt_books_def call_books_def cached_answer_def s s' books_simp split: if_splits option.splits)
  qed (auto simp: attempt_books_def s s' books_simp under_closed_def)
qed

section \<open>Temporal's retries\<close>

text \<open>
  The documented behaviour of Temporal under the retry policy of the workflow: the calls that are started
  together are attempted in some order, each at least once and at most \<open>m\<close> times, and the result of a call is
  that of its last attempt. An attempt is one step of the process. An attempt that Temporal gives up, after its three
  minutes or when it cannot reach the worker, fails with an error of Temporal's own, and the process has run it unseen
  or not at all; it may also run on while the call is attempted again, and end after an attempt whose result counts.
\<close>

inductive attempts :: "(review_call \<Rightarrow> 's \<Rightarrow> ('e + string) \<times> 's) \<Rightarrow> review_call list \<Rightarrow> 's \<Rightarrow>
    (review_call \<Rightarrow> 'e + string) \<Rightarrow> 's \<Rightarrow> bool" for body where
  attempts_Nil: "attempts body [] s f s"
| attempts_snoc: "attempts body cs s f s1 \<Longrightarrow> body c s1 = (r, s2) \<Longrightarrow> attempts body (cs @ [c]) s (f(c := r)) s2"
| attempts_given_up: "attempts body cs s f s1 \<Longrightarrow> s2 = s1 \<or> s2 = snd (body c s1) \<Longrightarrow>
    attempts body (cs @ [c]) s (f(c := Inl e)) s2"
| attempts_ends_late: "attempts body cs s f s1 \<Longrightarrow> c \<in> set cs \<Longrightarrow> body c s1 = (r, s2) \<Longrightarrow> attempts body (cs @ [c]) s f s2"

definition review_attempts :: nat where
  "review_attempts = 3"

definition retries :: "(review_call \<Rightarrow> 's \<Rightarrow> ('e + string) \<times> 's) \<Rightarrow> ('e, 's) executor \<Rightarrow> bool" where
  "retries body exec \<longleftrightarrow> (\<forall>started s f s'. exec started s = (f, s') \<longrightarrow>
     (\<exists>cs. set cs = set started \<and> (\<forall>c. count_list cs c \<le> review_attempts) \<and> attempts body cs s f s'))"

lemma attempts_within:
  assumes "set cs = set started" "\<forall>c. count_list cs c \<le> m"
  shows "length cs \<le> m * length started"
proof -
  have "length cs = (\<Sum>c\<in>set cs. count_list cs c)" by (simp add: sum_count_set)
  also have "\<dots> \<le> card (set cs) * m" using sum_bounded_above [of "set cs" "count_list cs" m] assms(2) by simp
  also have "\<dots> \<le> m * length started" using assms(1) card_length [of started] by simp
  finally show ?thesis .
qed

text \<open>What the calls that succeeded ask the model.\<close>

definition answered_calls :: "review_call list \<Rightarrow> (review_call \<Rightarrow> 'e + string) \<Rightarrow> review_call set" where
  "answered_calls cs f = {c \<in> set cs. call_request c \<noteq> None \<and> \<not> isl (f c)}"

lemma answered_calls_snoc:
  "answered_calls (cs @ [c]) (f(c := r)) \<subseteq> (if call_request c \<noteq> None \<and> \<not> isl r then insert c (answered_calls cs f) else answered_calls cs f)"
  by (auto simp: answered_calls_def)

lemma card_insert_le1:
  assumes "finite A" "B \<subseteq> insert c A" "card A \<le> n"
  shows "card B \<le> Suc n"
proof -
  have "card B \<le> card (insert c A)" using assms(1,2) by (intro card_mono) simp_all
  also have "\<dots> \<le> Suc (card A)" using assms(1) by (simp add: card_insert_if)
  finally show ?thesis using assms(3) by simp
qed

definition asking :: "review_call list \<Rightarrow> nat" where
  "asking cs = length (filter (\<lambda>c. call_request c \<noteq> None) cs)"

text \<open>What one more attempt adds to the books.\<close>

lemma attempt_books_unseen:
  "attempt_books name streams cached c s r s' \<Longrightarrow> attempt_books name streams cached c s (Inl e) s'"
  "attempt_books name streams cached c s (Inl e) s"
  by (auto simp: attempt_books_def)

lemma attempt_added:
  assumes "booked name n k (books s) (books s1)" "n \<le> asking cs" "streams \<longrightarrow> books s1 = books s"
    and least: "\<not> streams \<and> \<not> cached \<longrightarrow> card (answered_calls cs f) \<le> n"
    and one: "attempt_books name streams cached c s1 r s2"
    and g: "g = f(c := r) \<or> g = f \<and> c \<in> set cs"
  shows "\<exists>n k. booked name n k (books s) (books s2) \<and> n \<le> asking (cs @ [c]) \<and> (streams \<longrightarrow> books s2 = books s) \<and>
    (\<not> streams \<and> \<not> cached \<longrightarrow> card (answered_calls (cs @ [c]) g) \<le> n)"
proof -
  have finite: "finite (answered_calls cs f)" by (simp add: answered_calls_def)
  have sub: "answered_calls (cs @ [c]) g \<subseteq> (if call_request c \<noteq> None \<and> \<not> isl r then insert c (answered_calls cs f) else answered_calls cs f)"
    using g answered_calls_snoc [of cs c f r] by (auto simp: answered_calls_def)
  from one show ?thesis unfolding attempt_books_def
  proof (elim disjE conjE exE)
    fix j assume j: "\<not> streams" "call_request c \<noteq> None" "booked name 1 j (books s1) (books s2)"
    have "answered_calls (cs @ [c]) g \<subseteq> insert c (answered_calls cs f)" using sub by (auto split: if_splits)
    from card_insert_le1 [OF finite this] least
    have "\<not> streams \<and> \<not> cached \<longrightarrow> card (answered_calls (cs @ [c]) g) \<le> n + 1" by simp
    with booked_trans [OF assms(1) j(3)] assms(2) j(1,2) show ?thesis
      by - (rule exI [of _ "n + 1"], rule exI [of _ "k + j"], auto simp: asking_def)
  next
    assume same: "books s2 = books s1" "call_request c \<noteq> None \<and> \<not> isl r \<longrightarrow> streams \<or> cached"
    have "answered_calls (cs @ [c]) g \<subseteq> answered_calls cs f" if "\<not> streams \<and> \<not> cached"
      using sub same(2) that by (auto split: if_splits)
    then have "\<not> streams \<and> \<not> cached \<longrightarrow> card (answered_calls (cs @ [c]) g) \<le> n"
      using least card_mono [OF finite] by (meson le_trans)
    with assms(1-3) same(1) show ?thesis by - (rule exI [of _ n], rule exI [of _ k], auto simp: asking_def)
  qed
qed

lemma attempts_booked:
  assumes "attempts body cs s f s'"
    and "\<And>c s r s'. body c s = (r, s') \<Longrightarrow> c \<in> set cs \<Longrightarrow> attempt_books name streams cached c s r s'"
  shows "\<exists>n k. booked name n k (books s) (books s') \<and> n \<le> asking cs \<and> (streams \<longrightarrow> books s' = books s) \<and>
    (\<not> streams \<and> \<not> cached \<longrightarrow> card (answered_calls cs f) \<le> n)"
  using assms
proof (induction rule: attempts.induct)
  case (attempts_Nil s f)
  then show ?case using booked_none [of name "books s"] by (intro exI [of _ 0]) (simp add: answered_calls_def)
next
  case (attempts_snoc cs s f s1 c r s2)
  from attempts_snoc.IH attempts_snoc.prems obtain n k where nk: "booked name n k (books s) (books s1)" "n \<le> asking cs"
    "streams \<longrightarrow> books s1 = books s" "\<not> streams \<and> \<not> cached \<longrightarrow> card (answered_calls cs f) \<le> n" by fastforce
  have "attempt_books name streams cached c s1 r s2" using attempts_snoc.prems attempts_snoc.hyps(2) by simp
  from attempt_added [OF nk this] show ?case by blast
next
  case (attempts_given_up cs s f s1 s2 c e)
  from attempts_given_up.IH attempts_given_up.prems obtain n k where nk: "booked name n k (books s) (books s1)" "n \<le> asking cs"
    "streams \<longrightarrow> books s1 = books s" "\<not> streams \<and> \<not> cached \<longrightarrow> card (answered_calls cs f) \<le> n" by fastforce
  have "attempt_books name streams cached c s1 (fst (body c s1)) (snd (body c s1))" using attempts_given_up.prems by simp
  with attempts_given_up.hyps(2) attempt_books_unseen have "attempt_books name streams cached c s1 (Inl e) s2" by metis
  from attempt_added [OF nk this] show ?case by blast
next
  case (attempts_ends_late cs s f s1 c r s2)
  from attempts_ends_late.IH attempts_ends_late.prems obtain n k where nk: "booked name n k (books s) (books s1)" "n \<le> asking cs"
    "streams \<longrightarrow> books s1 = books s" "\<not> streams \<and> \<not> cached \<longrightarrow> card (answered_calls cs f) \<le> n" by fastforce
  have "attempt_books name streams cached c s1 r s2" using attempts_ends_late.prems attempts_ends_late.hyps(3) by simp
  from attempt_added [OF nk this] attempts_ends_late.hyps(2) show ?case by blast
qed

section \<open>The workflow\<close>

text \<open>What the three stages of a review start.\<close>

definition synthesis_call :: "string \<Rightarrow> string \<Rightarrow> string \<Rightarrow> PRReviewInput \<Rightarrow> review_call" where
  "synthesis_call sec tests style inp = CallSynthesizeReview (synthesize_input sec tests style inp)"

lemma review_calls_ask:
  "c \<in> set (analyzer_calls parse inp) \<Longrightarrow> wants_stream c = StreamingBackend inp \<and> call_request c \<noteq> None"
  "wants_stream (synthesis_call sec tests style inp) = StreamingBackend inp \<and> call_request (synthesis_call sec tests style inp) \<noteq> None"
  "card (set (analyzer_calls parse inp)) = 3" "length (analyzer_calls parse inp) = 3"
  by (auto simp: analyzer_calls_def analyzer_input_def synthesis_call_def synthesize_input_def)

text \<open>A review ends early, in an error, or has gone through its three stages.\<close>

lemma PRReview_path:
  assumes "PRReviewWorkflow now exec inp s = (x, s')"
  obtains (rejected) "isl x" "s' = s"
  | (parse) f where "isl x" "exec [CallParseDiff inp] s = (f, s')"
  | (analysis) f s1 parse g where "isl x" "exec [CallParseDiff inp] s = (f, s1)" "exec (analyzer_calls parse inp) s1 = (g, s')"
  | (synthesis) f s1 parse g s2 sec tests style h where "exec [CallParseDiff inp] s = (f, s1)"
      "exec (analyzer_calls parse inp) s1 = (g, s2)" "\<forall>c\<in>set (analyzer_calls parse inp). \<not> isl (g c)"
      "exec [synthesis_call sec tests style inp] s2 = (h, s')" "isl x \<longleftrightarrow> isl (h (synthesis_call sec tests style inp))"
proof (cases "Diff inp = []")
  case True
  then show ?thesis using rejected assms by (auto simp: PRReviewWorkflow_def)
next
  case False
  obtain f s1 where f: "exec [CallParseDiff inp] s = (f, s1)" by fastforce
  show ?thesis
  proof (cases "f (CallParseDiff inp)")
    case (Inl e)
    then show ?thesis using parse [of f] assms f False by (auto simp: PRReviewWorkflow_def Let_def)
  next
    case p: (Inr parse)
    obtain g s2 where g: "exec (analyzer_calls parse inp) s1 = (g, s2)" by fastforce
    have layer: "analyzer_calls parse inp = [analyzer_calls parse inp ! 0, analyzer_calls parse inp ! 1, analyzer_calls parse inp ! 2]"
      by (simp add: analyzer_calls_def)
    show ?thesis
    proof (cases "\<exists>c\<in>set (analyzer_calls parse inp). isl (g c)")
      case True
      then have "isl (g (analyzer_calls parse inp ! 0)) \<or> isl (g (analyzer_calls parse inp ! 1)) \<or> isl (g (analyzer_calls parse inp ! 2))"
        by (subst (asm) layer) auto
      then have "isl x \<and> s' = s2" using assms f p g False
        by (auto simp: PRReviewWorkflow_def Let_def isl_def split: sum.splits)
      then show ?thesis using analysis [OF _ f, of parse g] g by simp
    next
      case none: False
      obtain sec tests style where "g (analyzer_calls parse inp ! 0) = Inr sec" "g (analyzer_calls parse inp ! 1) = Inr tests"
        "g (analyzer_calls parse inp ! 2) = Inr style"
      proof (rule that)
        have "g c = Inr (projr (g c))" if "c \<in> set (analyzer_calls parse inp)" for c
          using none that by (cases "g c") auto
        then show "g (analyzer_calls parse inp ! 0) = Inr (projr (g (analyzer_calls parse inp ! 0)))"
          "g (analyzer_calls parse inp ! 1) = Inr (projr (g (analyzer_calls parse inp ! 1)))"
          "g (analyzer_calls parse inp ! 2) = Inr (projr (g (analyzer_calls parse inp ! 2)))"
          by (simp_all add: review_calls_ask(4))
      qed
      moreover obtain h s3 where h: "exec [synthesis_call sec tests style inp] s2 = (h, s3)" by fastforce
      ultimately have "s' = s3 \<and> (isl x \<longleftrightarrow> isl (h (synthesis_call sec tests style inp)))"
        using assms f p g False
        by (auto simp: PRReviewWorkflow_def Let_def synthesis_call_def split: sum.splits)
      then show ?thesis using synthesis [OF f g] none h by blast
    qed
  qed
qed

section \<open>The books of a review\<close>

definition stage_books :: "string \<Rightarrow> bool \<Rightarrow> bool \<Rightarrow> nat \<Rightarrow> nat \<Rightarrow> 'p MemoryBroker \<times> 'w process \<Rightarrow> bool \<Rightarrow> 'p MemoryBroker \<times> 'w process \<Rightarrow> bool" where
  "stage_books name streams cached least most s succeeded s' \<longleftrightarrow>
     (\<exists>n k. booked name n k (books s) (books s') \<and> n \<le> most \<and> (streams \<longrightarrow> books s' = books s) \<and>
       (\<not> streams \<and> \<not> cached \<and> succeeded \<longrightarrow> least \<le> n))"

lemma stage_books_none: "stage_books name streams cached least most s False s"
  using booked_none [of name "books s"] unfolding stage_books_def by (intro exI [of _ 0]) simp

lemma stage_books_trans:
  assumes "stage_books name streams cached l1 m1 s a s1" "stage_books name streams cached l2 m2 s1 b s2"
  shows "stage_books name streams cached (l1 + l2) (m1 + m2) s (a \<and> b) s2"
proof -
  obtain n1 k1 where one: "booked name n1 k1 (books s) (books s1)" "n1 \<le> m1" "streams \<longrightarrow> books s1 = books s"
    "\<not> streams \<and> \<not> cached \<and> a \<longrightarrow> l1 \<le> n1" using assms(1) unfolding stage_books_def by (elim exE conjE) (rule that)
  obtain n2 k2 where two: "booked name n2 k2 (books s1) (books s2)" "n2 \<le> m2" "streams \<longrightarrow> books s2 = books s1"
    "\<not> streams \<and> \<not> cached \<and> b \<longrightarrow> l2 \<le> n2" using assms(2) unfolding stage_books_def by (elim exE conjE) (rule that)
  show ?thesis unfolding stage_books_def
    by (rule exI [of _ "n1 + n2"], rule exI [of _ "k1 + k2"])
      (use booked_trans [OF one(1) two(1)] one two in auto)
qed

lemma stage_books_weaken:
  "stage_books name streams cached l m s a s' \<Longrightarrow> m \<le> m' \<Longrightarrow> stage_books name streams cached l' m' s False s'"
  "stage_books name streams cached l m s a s' \<Longrightarrow> m \<le> m' \<Longrightarrow> l' \<le> l \<Longrightarrow> (b \<Longrightarrow> a) \<Longrightarrow> stage_books name streams cached l' m' s b s'"
  unfolding stage_books_def by fastforce+

lemma stage_booked:
  assumes "retries body exec" "exec started s = (f, s')"
    and "\<And>c s r s'. c \<in> set started \<Longrightarrow> body c s = (r, s') \<Longrightarrow> attempt_books name streams cached c s r s'"
    and "\<And>c. c \<in> set started \<Longrightarrow> call_request c \<noteq> None"
  shows "stage_books name streams cached (card (set started)) (3 * length started) s (\<forall>c\<in>set started. \<not> isl (f c)) s'"
proof -
  obtain cs where cs: "set cs = set started" "\<forall>c. count_list cs c \<le> review_attempts" "attempts body cs s f s'"
    using assms(1,2) unfolding retries_def by blast
  from attempts_booked [OF cs(3), of name streams cached] assms(3) cs(1) obtain n k where
    nk: "booked name n k (books s) (books s')" "n \<le> asking cs" "streams \<longrightarrow> books s' = books s"
      "\<not> streams \<and> \<not> cached \<longrightarrow> card (answered_calls cs f) \<le> n" by blast
  have "asking cs \<le> length cs" by (simp add: asking_def)
  then have most: "n \<le> 3 * length started"
    using nk(2) attempts_within [OF cs(1,2)] by (simp add: review_attempts_def)
  have "answered_calls cs f = set started" if "\<forall>c\<in>set started. \<not> isl (f c)"
    using that assms(4) cs(1) by (auto simp: answered_calls_def)
  with nk most show ?thesis unfolding stage_books_def by - (rule exI [of _ n], rule exI [of _ k], auto)
qed

lemma parse_booked:
  assumes "retries body exec" "exec [CallParseDiff inp] s = (f, s')"
    and "\<And>c s r s'. body c s = (r, s') \<Longrightarrow> attempt_books name (wants_stream c \<and> live) cached c s r s'"
  shows "stage_books name streams cached 0 0 s True s'"
proof -
  obtain cs where cs: "set cs = {CallParseDiff inp}" "attempts body cs s f s'"
    using assms(1,2) unfolding retries_def by (metis list.set(1) list.set(2))
  have "attempt_books name streams cached c s r s'" if "body c s = (r, s')" "c \<in> set cs" for c s r s'
    using assms(3) [OF that(1)] that(2) cs(1) by (simp add: attempt_books_def)
  from attempts_booked [OF cs(2) this] obtain n k where nk: "booked name n k (books s) (books s')" "n \<le> asking cs"
    "streams \<longrightarrow> books s' = books s" by blast
  have "asking cs = 0" using cs(1) by (simp add: asking_def filter_empty_conv)
  with nk show ?thesis unfolding stage_books_def by - (rule exI [of _ n], rule exI [of _ k], auto)
qed

lemma review_booked:
  assumes "retries body exec" "PRReviewWorkflow now exec inp s = (x, s')"
    and body: "\<And>c s r s'. body c s = (r, s') \<Longrightarrow> attempt_books name (wants_stream c \<and> live) cached c s r s'"
  shows "stage_books name (StreamingBackend inp \<and> live) cached 4 12 s (\<not> isl x) s'"
proof -
  let ?streams = "StreamingBackend inp \<and> live"
  note parsed = parse_booked [OF assms(1) _ body]
  have layer: "stage_books name ?streams cached 3 9 s1 (\<forall>c\<in>set (analyzer_calls parse inp). \<not> isl (g c)) s2"
    if "exec (analyzer_calls parse inp) s1 = (g, s2)" for s1 parse g s2
  proof -
    have "attempt_books name ?streams cached c s r s'" if "c \<in> set (analyzer_calls parse inp)" "body c s = (r, s')" for c s r s'
      using body [OF that(2)] review_calls_ask(1) [OF that(1)] by simp
    from stage_booked [OF assms(1) that this] show ?thesis
      using review_calls_ask(1) by (simp add: review_calls_ask(3,4))
  qed
  have synth: "stage_books name ?streams cached 1 3 s1 (\<not> isl (h (synthesis_call sec tests style inp))) s2"
    if "exec [synthesis_call sec tests style inp] s1 = (h, s2)" for s1 sec tests style h s2
  proof -
    let ?c = "synthesis_call sec tests style inp"
    have asks: "wants_stream ?c = StreamingBackend inp" "call_request ?c \<noteq> None" using review_calls_ask(2) by simp_all
    have "attempt_books name ?streams cached c s r s'" if "c \<in> set [?c]" "body c s = (r, s')" for c s r s'
      using body [OF that(2)] that(1) asks(1) by simp
    from stage_booked [OF assms(1) that this] asks(2) show ?thesis by simp
  qed
  from assms(2) show ?thesis
  proof (cases rule: PRReview_path)
    case rejected
    then show ?thesis using stage_books_none by simp
  next
    case (parse f)
    then show ?thesis using stage_books_weaken(1) [OF parsed] by fastforce
  next
    case (analysis f s1 parse g)
    from stage_books_weaken(1) [OF stage_books_trans [OF parsed [OF analysis(2)] layer [OF analysis(3)]], of 12] analysis(1)
    show ?thesis by simp
  next
    case (synthesis f s1 parse g s2 sec tests style h)
    note whole = stage_books_trans [OF stage_books_trans [OF parsed [OF synthesis(1)] layer [OF synthesis(2)]] synth [OF synthesis(4)]]
    from stage_books_weaken(2) [OF whole, of 12 4 "\<not> isl x"] synthesis(3,5) show ?thesis by simp
  qed
qed

text \<open>
  C40: what a whole review costs on the api server. With a backend that streams, the review that the server
  starts leaves the metrics and the token sink as they are: its four calls of the model are in no account.
  With another backend the token sink counts at most twelve calls and the metrics at most thirty-six
  attempts, whether the review succeeds or fails: three attempts of Temporal around three of the
  middleware for each of the four calls. A review that succeeds without a cache is counted with at least
  four. It needs that no context ends during a delay of the retries.
\<close>

theorem api_review_books:
  fixes exec :: "(review_error, 'p MemoryBroker \<times> 'd process_world process) executor"
  assumes "keeps_registered api wfs acts" "\<And>s d. cmd_wait env s d = None" "keeps_books pause"
    and up: "api_setup env api flags s d = (Inr (s1, br0, p0), d')"
    and "retries (worker_body (acts s1) renv pause ctx) exec"
    and run: "PRReviewWorkflow now exec inp t = (x, t')"
  shows "if StreamingBackend inp \<and> FlagLLM flags = ''anthropic'' then books t' = books t
    else \<exists>n k. booked (FlagLLM flags) n k (books t) (books t') \<and> n \<le> 12 \<and> k \<le> 36 \<and>
      (FlagCache flags = ''none'' \<and> \<not> isl x \<longrightarrow> 4 \<le> n)"
proof -
  obtain b st picked d1 where st: "pickStream (cmd_getenv env) (FlagLLM flags) (FlagModel flags) = Inr st"
    "api_buildCache (cmd_new_sqlite env) (FlagCache flags) (FlagCachePath flags) (FlagCacheTTL flags) d = (Inr picked, d1)"
    "RegisterWithOptions api (Some (command_complete env (FlagLLM flags) b picked))
      \<lparr>OptSynthesizer = None, OptStream = command_stream env st\<rparr> s = Some s1"
    using api_setup_Inr [OF up] by (elim exE conjE) (rule that; assumption)
  have body: "worker_body (acts s1) renv pause ctx call t = review_body renv pause ctx
      \<lparr>act_complete = Some (command_complete env (FlagLLM flags) b picked), act_stream = command_stream env st\<rparr> call t" for call and t :: "'p MemoryBroker \<times> 'd process_world process"
    using run_registered_body [OF assms(1) st(3), of renv pause ctx call t] by (simp add: worker_body_def)
  have attempt: "attempt_books (FlagLLM flags) (wants_stream c \<and> st \<noteq> None) (picked \<noteq> None) c t r t'"
    if "worker_body (acts s1) renv pause ctx c t = (r, t')" for c r and t t' :: "'p MemoryBroker \<times> 'd process_world process"
    by (rule chained_attempt [OF assms(2,3)]) (use that body in simp)
  have "stage_books (FlagLLM flags) (StreamingBackend inp \<and> st \<noteq> None) (picked \<noteq> None) 4 12 t (\<not> isl x) t'"
    by (rule review_booked [OF assms(5) run]) (rule attempt)
  note all = this [unfolded stage_books_def pickStream_Some [OF st(1)]]
  have "FlagCache flags = ''none'' \<Longrightarrow> picked = None" using st(2) by (simp add: api_buildCache_def choose_cache_def)
  moreover obtain n k where nk: "booked (FlagLLM flags) n k (books t) (books t')" "n \<le> 12"
    "StreamingBackend inp \<and> FlagLLM flags = ''anthropic'' \<longrightarrow> books t' = books t"
    "\<not> (StreamingBackend inp \<and> FlagLLM flags = ''anthropic'') \<and> \<not> picked \<noteq> None \<and> \<not> isl x \<longrightarrow> 4 \<le> n"
    using all by (elim exE conjE) (rule that)
  moreover have "k \<le> 36" using nk(1,2) by (simp add: booked_def)
  ultimately show ?thesis by auto
qed

section \<open>A concrete review\<close>

abbreviation "demo_reply \<equiv> ''Static demo response from scripted backend.''"

definition demo_ready :: "nat process_world process \<Rightarrow> bool" where
  "demo_ready p \<longleftrightarrow> Responses (pw_scripted (snd (snd p))) = [demo_reply] \<and> Cycle (pw_scripted (snd (snd p)))"

lemma demo_scripted:
  assumes "Responses m = [reply]" "Cycle m"
  shows "\<exists>m'. scripted_complete sys user m = (Returned reply None, m') \<and> Responses m' = [reply] \<and> Cycle m'"
  using assms by (cases "idx m") (auto simp: scripted_complete_def Let_def)

lemma demo_complete:
  assumes "demo_ready p"
  shows "\<exists>p'. command_complete demo_command ''scripted'' (scripted_backend [demo_reply]) None sys user p = (Returned demo_reply None, p') \<and> demo_ready p'"
proof -
  obtain obs sink w where p: "p = (obs, sink, w)" by (metis prod.exhaust)
  obtain m' where m': "scripted_complete sys user (pw_scripted w) = (Returned demo_reply None, m')" "Responses m' = [demo_reply]" "Cycle m'"
    using demo_scripted [of "pw_scripted w" demo_reply sys user] assms by (auto simp: demo_ready_def p)
  show ?thesis
    by (simp add: p command_complete_def worker_middleware_def WithLogging_def WithTokenAccounting_def WithRetry_def WithMetrics_def
        retry_loop.simps [of _ _ _ _ _ _ 0] process_backend_def beside_def backend_complete_def scripted_backend_def on_scripted_def m'
        process_log_def process_report_def demo_command_def demo_ready_def Let_def ObserveLLMTokens_def ObserveLLMCall_def
        observe_call_def keep_obs_def)
qed

text \<open>The calls of the concrete server, one after the other; none fails.\<close>

abbreviation "demo_server_activities \<equiv> \<lparr>act_complete = Some (command_complete demo_command ''scripted'' (scripted_backend [demo_reply]) None),
  act_stream = (None :: nat process_world process CompleteStreamFunc option)\<rparr>"

lemma demo_observed:
  assumes "demo_ready p"
  shows "\<exists>p'. observed_call demo_process_env demo_quiet demo_server_activities name nodeID sys user streaming (b, p) =
    (Inr demo_reply, b, p') \<and> demo_ready p'"
proof -
  obtain p' where "command_complete demo_command ''scripted'' (scripted_backend [demo_reply]) None sys user p = (Returned demo_reply None, p')"
    "demo_ready p'" using demo_complete [OF assms] by blast
  then show ?thesis
    by (simp add: observed_call_def finish_call_def callLLMWithStreaming_def CompleteWithStreaming_def
        demo_quiet_def EmitterForActivity_def context_emitter_def EmitterFromContext_def Emit_def Let_def)
qed

lemma demo_server_call:
  assumes "demo_ready p"
  shows "\<exists>out p'. review_body demo_process_env id demo_quiet demo_server_activities call (b, p) = (Inr out, b, p') \<and> demo_ready p'"
proof (cases "call_request call")
  case None
  then obtain inp where "call = CallParseDiff inp" by (cases call) simp_all
  then show ?thesis using assms
    by (simp add: ParseDiff_def finish_call_def demo_quiet_def EmitterForActivity_def Emit_def Let_def)
next
  case (Some q)
  then obtain sys user streaming where q: "call_request call = Some (sys, user, streaming)" by (cases q) auto
  from review_body_observed [OF q, of demo_process_env id demo_quiet demo_server_activities "(b, p)"] demo_observed [OF assms, of _ _ sys user streaming b]
  show ?thesis by metis
qed

definition in_turn_once :: "(review_call \<Rightarrow> 's \<Rightarrow> ('e + string) \<times> 's) \<Rightarrow> ('e, 's) executor" where
  "in_turn_once body cs s = run_in_turn body (remdups cs) s"

lemma run_in_turn_attempts: "run_in_turn body cs s = (f, s') \<Longrightarrow> attempts body cs s f s'"
proof (induction cs arbitrary: f s' rule: rev_induct)
  case Nil
  then show ?case by (simp add: run_in_turn_def attempts_Nil)
next
  case (snoc c cs)
  obtain g s1 where g: "run_in_turn body cs s = (g, s1)" by fastforce
  obtain r s2 where r: "body c s1 = (r, s2)" by fastforce
  have "f = g(c := r) \<and> s' = s2" using snoc.prems g r by (simp add: run_in_turn_def)
  then show ?case using attempts_snoc [OF snoc.IH [OF g] r] by (simp del: fun_upd_apply)
qed

lemma count_remdups: "count_list (remdups cs) c \<le> 1"
  by (induction cs) (auto simp: count_list_0_iff)

lemma in_turn_once_retries: "retries body (in_turn_once body)"
  unfolding retries_def
proof (intro allI impI)
  fix started s f s'
  assume "in_turn_once body started s = (f, s')"
  then have "attempts body (remdups started) s f s'" unfolding in_turn_once_def by (rule run_in_turn_attempts)
  moreover have "count_list (remdups started) c \<le> review_attempts" for c
    using count_remdups [of started c] by (simp add: review_attempts_def)
  ultimately show "\<exists>cs. set cs = set started \<and> (\<forall>c. count_list cs c \<le> review_attempts) \<and> attempts body cs s f s'"
    by (intro exI [of _ "remdups started"]) simp
qed

lemma demo_run_in_turn:
  assumes "demo_ready p"
  shows "\<exists>f p'. run_in_turn (review_body demo_process_env id demo_quiet demo_server_activities) cs (b, p) = (f, b, p') \<and>
    (\<forall>c\<in>set cs. \<not> isl (f c)) \<and> demo_ready p'"
proof (induction cs rule: rev_induct)
  case Nil
  then show ?case using assms by (simp add: run_in_turn_def)
next
  case (snoc c cs)
  then obtain f p1 where f: "run_in_turn (review_body demo_process_env id demo_quiet demo_server_activities) cs (b, p) = (f, b, p1)"
    "\<forall>c\<in>set cs. \<not> isl (f c)" "demo_ready p1" by blast
  obtain out p2 where "review_body demo_process_env id demo_quiet demo_server_activities c (b, p1) = (Inr out, b, p2)" "demo_ready p2"
    using demo_server_call [OF f(3)] by blast
  with f(1) have "run_in_turn (review_body demo_process_env id demo_quiet demo_server_activities) (cs @ [c]) (b, p) = (f(c := Inr out), b, p2)"
    unfolding run_in_turn_def foldl_append foldl_Cons foldl_Nil by simp
  moreover have "\<forall>x\<in>set (cs @ [c]). \<not> isl ((f(c := Inr out)) x)" using f(2) by auto
  ultimately show ?case using \<open>demo_ready p2\<close> by blast
qed

lemma demo_review:
  assumes "demo_ready p"
  shows "\<exists>out p'. PRReviewWorkflow (\<lambda>s. 0) (in_turn_once (review_body demo_process_env id demo_quiet demo_server_activities))
    demo_review_input (b, p) = (Inr out, b, p')"
proof -
  let ?exec = "in_turn_once (review_body demo_process_env id demo_quiet demo_server_activities)"
  have one: "\<exists>f p'. ?exec cs (b, p) = (f, b, p') \<and> (\<forall>c\<in>set cs. \<exists>out. f c = Inr out) \<and> demo_ready p'" if "demo_ready p" for cs p
    using demo_run_in_turn [OF that, of "remdups cs" b] by (simp add: in_turn_once_def isl_def) (metis sum.exhaust)
  obtain f p1 where f: "?exec [CallParseDiff demo_review_input] (b, p) = (f, b, p1)" "\<exists>out. f (CallParseDiff demo_review_input) = Inr out"
    "demo_ready p1" using one [OF assms, of "[CallParseDiff demo_review_input]"] by auto
  then obtain parse where parse: "f (CallParseDiff demo_review_input) = Inr parse" by blast
  let ?layer = "analyzer_calls parse demo_review_input"
  obtain g p2 where g: "?exec ?layer (b, p1) = (g, b, p2)" "\<forall>c\<in>set ?layer. \<exists>out. g c = Inr out" "demo_ready p2"
    using one [OF f(3), of ?layer] by blast
  obtain sec tests style where three: "g (?layer ! 0) = Inr sec" "g (?layer ! 1) = Inr tests" "g (?layer ! 2) = Inr style"
  proof (rule that)
    have "g (?layer ! i) = Inr (projr (g (?layer ! i)))" if "i < 3" for i
      using g(2) that review_calls_ask(4) [of parse demo_review_input] by (metis nth_mem sum.sel(2))
    then show "g (?layer ! 0) = Inr (projr (g (?layer ! 0)))" "g (?layer ! 1) = Inr (projr (g (?layer ! 1)))"
      "g (?layer ! 2) = Inr (projr (g (?layer ! 2)))" by simp_all
  qed
  obtain h p3 where h: "?exec [synthesis_call sec tests style demo_review_input] (b, p2) = (h, b, p3)"
    "\<exists>out. h (synthesis_call sec tests style demo_review_input) = Inr out"
    using one [OF g(3), of "[synthesis_call sec tests style demo_review_input]"] by auto
  show ?thesis using f parse g three h
    by (cases p3) (auto simp: PRReviewWorkflow_def synthesis_call_def Let_def demo_review_input_def)
qed

lemma demo_worker_body:
  fixes s :: "(unit, nat process_world process) demo_worker"
  assumes "RegisterWithOptions demo_worker_api (Some (command_complete demo_command ''scripted'' (scripted_backend [demo_reply]) None))
      \<lparr>OptSynthesizer = None, OptStream = None\<rparr> s = Some s1"
  shows "worker_body (snd s1) demo_process_env id demo_quiet = review_body demo_process_env id demo_quiet demo_server_activities"
  by (intro ext) (simp add: worker_body_def run_registered_body [OF demo_worker_keeps assms])

theorem api_review_books_witness:
  "\<exists>(s1 :: (unit, nat process_world process) demo_worker) (br :: unit MemoryBroker) p out p' n k.
     api_setup demo_command demo_worker_api demo_flags (Map.empty, Map.empty) 0 = (Inr (s1, br, p), 0) \<and>
     PRReviewWorkflow (\<lambda>s. 0) (in_turn_once (worker_body (snd s1) demo_process_env id demo_quiet)) demo_review_input (br, p) = (Inr out, br, p') \<and>
     booked ''scripted'' n k (books (br, p)) (books (br, p')) \<and> n \<in> {4..12} \<and> k \<le> 36"
proof -
  let ?b = "scripted_backend [demo_reply]"
  let ?c = "command_complete demo_command ''scripted'' ?b None"
  let ?p = "initial_process ?b None (0 :: nat)"
  let ?opts = "\<lparr>OptSynthesizer = None, OptStream = None\<rparr> :: nat process_world process worker_options"
  obtain s1 :: "(unit, nat process_world process) demo_worker" where s1:
    "RegisterWithOptions demo_worker_api (Some ?c) ?opts (Map.empty, Map.empty) = Some s1"
    using RegisterWithOptions_kept [OF demo_worker_keeps, of "(Map.empty, Map.empty)" "Some ?c" ?opts] by auto
  let ?body = "worker_body (snd s1) demo_process_env id demo_quiet ::
    review_call \<Rightarrow> unit MemoryBroker \<times> nat process_world process \<Rightarrow> _"
  note up = demo_api_setup [OF s1, of 0]
  have wait: "cmd_wait demo_command s d = None" for s d by (simp add: demo_command_def)
  have pause: "keeps_books id" by (simp add: keeps_books_def)
  have "demo_ready ?p" by (simp add: demo_ready_def initial_process_def scripted_backend_def)
  from demo_review [OF this, where b = "NewMemoryBroker :: unit MemoryBroker"] obtain out p' where
    run: "PRReviewWorkflow (\<lambda>s. 0) (in_turn_once ?body) demo_review_input (NewMemoryBroker, ?p) = (Inr out, NewMemoryBroker, p')"
    unfolding demo_worker_body [OF s1] by blast
  have "FlagLLM demo_flags \<noteq> ''anthropic''" "FlagCache demo_flags = ''none''" "FlagLLM demo_flags = ''scripted''"
    by (simp_all add: demo_flags_def)
  with api_review_books [OF demo_worker_keeps wait pause up in_turn_once_retries run] obtain n k where
    "booked ''scripted'' n k (books (NewMemoryBroker :: unit MemoryBroker, ?p)) (books (NewMemoryBroker :: unit MemoryBroker, p'))" "n \<le> 12" "k \<le> 36" "4 \<le> n"
    by auto
  with up run show ?thesis by (metis atLeastAtMost_iff)
qed

end
