(* ===== verification/Asks.thy ===== *)
theory Asks
  imports Supervisor Workers
begin

text \<open>
  The commands that submit a question and print the outcome: \<^verbatim>\<open>cmd/ask/main.go\<close> and
  \<^verbatim>\<open>cmd/ask-supervisor/main.go\<close>, from the values of their flags to what they print.

  Temporal is a parameter: \<open>dial\<close> gives an error or nothing, \<open>execute\<close> gets an ID, a task queue, the name of a
  workflow and its input, and gives an error or a run, with its ID, its run ID and what awaiting it gives.
  \<open>pid\<close> is the process ID, \<open>fixed2\<close> prints a number with two decimals, \<open>quote\<close> quotes.
\<close>

section \<open>Outcomes\<close>

text \<open>What a command prints, and the message with which it ends when it fails.\<close>

record command_outcome =
  Printed :: string
  Fatal :: "string option"

record ('o, 'w) workflow_run =
  RunWorkflowID :: string
  RunRunID :: string
  AwaitRun :: "'w \<Rightarrow> (string + 'o) \<times> 'w"

type_synonym ('i, 'o, 'w) execute = "string \<Rightarrow> string \<Rightarrow> string \<Rightarrow> 'i \<Rightarrow> 'w \<Rightarrow> (string + ('o, 'w) workflow_run) \<times> 'w"

definition println :: "string \<Rightarrow> string" where
  "println s = s @ newline"

definition bool_verb :: "bool \<Rightarrow> string" where
  "bool_verb b = (if b then ''true'' else ''false'')"

text \<open>
  Both commands submit and await in the same way: they differ in the names, the texts, the input and in how
  they print the outcome.
\<close>

definition submit_and_await :: "('w \<Rightarrow> string option \<times> 'w) \<Rightarrow> ('i, 'o, 'w) execute \<Rightarrow> string \<Rightarrow> string \<Rightarrow> string \<Rightarrow> 'i \<Rightarrow>
    string \<Rightarrow> (('o, 'w) workflow_run \<Rightarrow> string) \<Rightarrow> string \<Rightarrow> ('o \<Rightarrow> string) \<Rightarrow> 'w \<Rightarrow> command_outcome \<times> 'w" where
  "submit_and_await dial execute wid queue name inp unable started unsuccessful render w =
     (case dial w of
        (Some e, w1) \<Rightarrow> (\<lparr>Printed = [], Fatal = Some (''unable to create Temporal client: '' @ e)\<rparr>, w1)
      | (None, w1) \<Rightarrow>
          (case execute wid queue name inp w1 of
             (Inl e, w2) \<Rightarrow> (\<lparr>Printed = [], Fatal = Some (unable @ e)\<rparr>, w2)
           | (Inr run, w2) \<Rightarrow>
               (case AwaitRun run w2 of
                  (Inl e, w3) \<Rightarrow> (\<lparr>Printed = started run, Fatal = Some (unsuccessful @ e)\<rparr>, w3)
                | (Inr out, w3) \<Rightarrow> (\<lparr>Printed = started run @ render out, Fatal = None\<rparr>, w3))))"

section \<open>Asking the agents\<close>

record ask_flags =
  AskQuestion :: string
  AskRounds :: int
  AskID :: string

definition ask_id :: "int \<Rightarrow> string \<Rightarrow> string" where
  "ask_id pid given = (if given = [] then ''sibyl-'' @ Itoa pid else given)"

definition ask_started :: "('o, 'w) workflow_run \<Rightarrow> string" where
  "ask_started run =
     println (''Started workflow id='' @ RunWorkflowID run @ '' run='' @ RunRunID run) @ println ''Waiting for result...''"

definition print_round :: "(rat \<Rightarrow> string) \<Rightarrow> (string \<Rightarrow> string) \<Rightarrow> Round \<Rightarrow> string" where
  "print_round fixed2 quote r =
     println (''Round '' @ Itoa (RoundNumber r) @ '':'') @
     println (''  Research: '' @ RoundResearch r) @
     println (''  Verdict:  approved='' @ bool_verb (Approved (RoundVerdict r)) @ '' confidence='' @ fixed2 (Confidence (RoundVerdict r)) @
       '' feedback='' @ quote (Feedback (RoundVerdict r)))"

definition print_answer :: "(rat \<Rightarrow> string) \<Rightarrow> (string \<Rightarrow> string) \<Rightarrow> Answer \<Rightarrow> string" where
  "print_answer fixed2 quote ans =
     newline @ println ''==================== RESULT ===================='' @
     println (''Converged: '' @ bool_verb (Converged ans) @ ''   Rounds: '' @ Itoa (Rounds ans)) @
     newline @ println ''Answer:'' @ println (AnswerText ans) @ newline @ println ''--- History ---'' @
     concat (map (print_round fixed2 quote) (History ans))"

definition ask_main :: "int \<Rightarrow> (rat \<Rightarrow> string) \<Rightarrow> (string \<Rightarrow> string) \<Rightarrow> ('w \<Rightarrow> string option \<times> 'w) \<Rightarrow> (Question, Answer, 'w) execute \<Rightarrow>
    ask_flags \<Rightarrow> 'w \<Rightarrow> command_outcome \<times> 'w" where
  "ask_main pid fixed2 quote dial execute flags =
     submit_and_await dial execute (ask_id pid (AskID flags)) agent_TaskQueue ''ConvergeWorkflow''
       \<lparr>QuestionText = AskQuestion flags, MaxRounds = AskRounds flags\<rparr>
       ''unable to start workflow: '' ask_started ''workflow failed: '' (print_answer fixed2 quote)"

section \<open>Asking the supervisor\<close>

record supervisor_flags =
  SupFlagQuestion :: string
  SupFlagRounds :: int
  SupFlagMaxSubs :: int
  SupFlagID :: string

definition SupervisorTaskQueue :: string where "SupervisorTaskQueue = agent_TaskQueue"

definition supervisor_id :: "int \<Rightarrow> string \<Rightarrow> string" where
  "supervisor_id pid given = (if given = [] then ''sibyl-supervisor-'' @ Itoa pid else given)"

definition supervisor_started :: "('o, 'w) workflow_run \<Rightarrow> string" where
  "supervisor_started run =
     println (''Started supervisor id='' @ RunWorkflowID run @ '' run='' @ RunRunID run) @
     println ''Watch in the UI: http://localhost:8080'' @ println ''Waiting for synthesis...''"

definition print_sub_answer :: "SubAnswer \<Rightarrow> string" where
  "print_sub_answer sa =
     println (''['' @ Itoa (SubIndex (AnsSubQuestion sa)) @ ''] '' @ SubText (AnsSubQuestion sa)) @
     (if AnsError sa \<noteq> [] then println (''    ERROR: '' @ AnsError sa)
      else println (''    Converged: '' @ bool_verb (AnsConverged sa) @ ''   Rounds: '' @ Itoa (AnsRounds sa)) @
        println (''    Answer: '' @ AnsAnswer sa))"

definition print_synthesis :: "SupervisorOutput \<Rightarrow> string" where
  "print_synthesis out =
     newline @ println ''==================== SYNTHESIS ===================='' @
     ''Successes: '' @ Itoa (SuccessCount out) @ ''   Failures: '' @ Itoa (FailureCount out) @ newline @ newline @
     println (Synthesis out) @ newline @ println ''==================== PER-CHILD DETAIL ===================='' @
     concat (map print_sub_answer (SubAnswers out))"

definition ask_supervisor_main :: "int \<Rightarrow> ('w \<Rightarrow> string option \<times> 'w) \<Rightarrow> (SupervisorInput, SupervisorOutput, 'w) execute \<Rightarrow>
    supervisor_flags \<Rightarrow> 'w \<Rightarrow> command_outcome \<times> 'w" where
  "ask_supervisor_main pid dial execute flags =
     submit_and_await dial execute (supervisor_id pid (SupFlagID flags)) SupervisorTaskQueue SupervisorWorkflowName
       \<lparr>SupQuestion = SupFlagQuestion flags, MaxRoundsPerChild = SupFlagRounds flags, MaxSubQuestions = SupFlagMaxSubs flags\<rparr>
       ''unable to start supervisor workflow: '' supervisor_started ''supervisor failed: '' print_synthesis"

section \<open>What is printed\<close>

lemma submit_and_await_iff:
  "submit_and_await dial execute wid queue name inp unable started unsuccessful render w = (\<lparr>Printed = out, Fatal = None\<rparr>, w') \<longleftrightarrow>
     (\<exists>w1 w2 run x. dial w = (None, w1) \<and> execute wid queue name inp w1 = (Inr run, w2) \<and> AwaitRun run w2 = (Inr x, w') \<and>
        out = started run @ render x)"
  by (auto simp: submit_and_await_def split: prod.splits sum.splits option.splits)

text \<open>A run of the converge workflow, with the text of its errors.\<close>

definition converge_run :: "(converge_error \<Rightarrow> string) \<Rightarrow> (ResearchInput, string, 'w) activity \<Rightarrow> (CritiqueInput, Verdict, 'w) activity \<Rightarrow>
    string \<Rightarrow> string \<Rightarrow> Question \<Rightarrow> (Answer, 'w) workflow_run" where
  "converge_run show_error research critique wid rid q =
     \<lparr>RunWorkflowID = wid, RunRunID = rid,
      AwaitRun = (\<lambda>w. case ConvergeWorkflow research critique q w of (Inl e, w1) \<Rightarrow> (Inl (show_error e), w1) | (Inr ans, w1) \<Rightarrow> (Inr ans, w1))\<rparr>"

text \<open>Flags that the workflow refuses end the command after it has said that the workflow started.\<close>

lemma ask_refused_question:
  assumes "dial w = (None, w1)"
    and "execute (ask_id pid (AskID flags)) ''sibyl-agents'' ''ConvergeWorkflow''
      \<lparr>QuestionText = AskQuestion flags, MaxRounds = AskRounds flags\<rparr> w1 =
      (Inr (converge_run show_error research critique wid rid \<lparr>QuestionText = AskQuestion flags, MaxRounds = AskRounds flags\<rparr>), w2)"
    and "AskRounds flags \<le> 0 \<or> AskQuestion flags = []"
  shows "ask_main pid fixed2 quote dial execute flags w =
    (\<lparr>Printed = println (''Started workflow id='' @ wid @ '' run='' @ rid) @ println ''Waiting for result...'',
      Fatal = Some (''workflow failed: '' @ show_error (if AskRounds flags \<le> 0 then MaxRoundsNotPositive else EmptyQuestion))\<rparr>, w2)"
  using assms
  by (auto simp: ask_main_def submit_and_await_def agent_TaskQueue_def converge_run_def ConvergeWorkflow_def ask_started_def)

text \<open>
  The documented behaviour of Temporal's client on an ID whose workflow is running is to hand out that run.
  Two processes with the same process ID, on two machines, share a run: the second prints the answer to
  the question of the first.
\<close>

lemma ask_shares_run:
  assumes "AskID earlier = []" "AskID later = []"
    and "dial w = (None, w1)"
    and running: "execute (''sibyl-'' @ Itoa pid) ''sibyl-agents'' ''ConvergeWorkflow''
      \<lparr>QuestionText = AskQuestion later, MaxRounds = AskRounds later\<rparr> w1 =
      (Inr (converge_run show_error research critique wid rid \<lparr>QuestionText = AskQuestion earlier, MaxRounds = AskRounds earlier\<rparr>), w2)"
    and "ConvergeWorkflow research critique \<lparr>QuestionText = AskQuestion earlier, MaxRounds = AskRounds earlier\<rparr> w2 = (Inr ans, w3)"
  shows "ask_main pid fixed2 quote dial execute later w =
    (\<lparr>Printed = println (''Started workflow id='' @ wid @ '' run='' @ rid) @ println ''Waiting for result...'' @ print_answer fixed2 quote ans,
      Fatal = None\<rparr>, w3)"
  using assms
  by (simp add: ask_main_def submit_and_await_def agent_TaskQueue_def ask_id_def converge_run_def ask_started_def)

end
