(* ===== verification/Mains.thy ===== *)
theory Mains
  imports Commands Asks Tracing
begin

text \<open>
  The commands that run until they are stopped, from beginning to end: \<open>main\<close> of \<^verbatim>\<open>cmd/worker/main.go\<close> and
  of \<^verbatim>\<open>cmd/api-server/main.go\<close>, with the set-up of theory Commands.

  \<open>run\<close> is what happens until the worker or the listener stops: it acts on the process, and gives the error with
  which it stopped, if any. \<open>log.Fatal\<close> ends the process at once: the deferred calls are not made. The logged
  lines are the summary of the token usage only.
\<close>

section \<open>The end of a process\<close>

record command_end =
  Summary :: "string option"
  FatalMessage :: "string option"

text \<open>The deferred close of the cache, which only the SQLite cache has. Its error is logged.\<close>

definition close_cache :: "'d cache_db \<Rightarrow> string \<Rightarrow> 'd \<Rightarrow> 'd" where
  "close_cache D kind d = (if kind = ''sqlite'' then snd (sqlite_cache_close D d) else d)"

section \<open>The worker\<close>

record tracing_flags =
  FlagOtelService :: string
  FlagOtelEndpoint :: string
  FlagOtelInsecure :: bool

definition tracing_config :: "tracing_flags \<Rightarrow> TracingConfig" where
  "tracing_config flags = \<lparr>ServiceName = FlagOtelService flags, ServiceVersion = [], TraceEndpoint = FlagOtelEndpoint flags,
     Insecure = FlagOtelInsecure flags, TraceHeaders = None\<rparr>"

definition worker_main :: "'d command_env \<Rightarrow> 'd otel \<Rightarrow> (trace_shutdown \<Rightarrow> 'd \<Rightarrow> 'd) \<Rightarrow> ('d \<Rightarrow> 'd) \<Rightarrow>
    (SubAnswer list, string, 'd process_world process) pipe \<Rightarrow> ((string \<Rightarrow> string) \<Rightarrow> (string, string, 'd process_world process) arrow) \<Rightarrow>
    (workflow_fn, ('st, 'd process_world process) activity_fn, 's) worker_api \<Rightarrow>
    ('s \<Rightarrow> 'd process_world process \<Rightarrow> string option \<times> 'd process_world process) \<Rightarrow>
    command_flags \<Rightarrow> tracing_flags \<Rightarrow> 's \<Rightarrow> 'd \<Rightarrow> command_end \<times> 'd" where
  "worker_main env ot shutdown hang_up Pipe3 Pure api run flags tflags s d =
     (case SetupTracing ot (tracing_config tflags) d of
        (Inl e, d1) \<Rightarrow> (\<lparr>Summary = None, FatalMessage = Some (''otel setup failed: '' @ e)\<rparr>, d1)
      | (Inr sd, d1) \<Rightarrow>
          (case worker_setup env Pipe3 Pure api flags s d1 of
             (Inl e, d2) \<Rightarrow> (\<lparr>Summary = None, FatalMessage = Some e\<rparr>, d2)
           | (Inr (w, p), d2) \<Rightarrow>
               (case run w p of
                  (err, obs, sink, pw) \<Rightarrow>
                    (let summary = Some (''Token usage during this run: '' @ usage_summary sink) in
                     case err of
                       Some e \<Rightarrow> (\<lparr>Summary = summary, FatalMessage = Some (''worker stopped with error: '' @ e)\<rparr>, pw_rest pw)
                     | None \<Rightarrow> (\<lparr>Summary = summary, FatalMessage = None\<rparr>,
                         shutdown sd (close_cache (cmd_db env) (FlagCache flags) (hang_up (pw_rest pw))))))))"

section \<open>The api server\<close>

text \<open>\<open>stop\<close> stops the worker; the error of a listener that was shut down is no error.\<close>

definition api_main :: "'d command_env \<Rightarrow> (string list \<Rightarrow> string list) \<Rightarrow> ('d \<Rightarrow> 'd) \<Rightarrow> ('d \<Rightarrow> 'd) \<Rightarrow>
    (workflow_fn, ('st, 'd process_world process) activity_fn, 's) worker_api \<Rightarrow>
    ('s \<Rightarrow> 'p MemoryBroker \<times> 'd process_world process \<Rightarrow> string option \<times> 'p MemoryBroker \<times> 'd process_world process) \<Rightarrow>
    command_flags \<Rightarrow> 's \<Rightarrow> 'd \<Rightarrow> command_end \<times> 'p MemoryBroker option \<times> 'd" where
  "api_main env \<rho> stop hang_up api run flags s d =
     (case api_setup env api flags s d of
        (Inl e, d1) \<Rightarrow> (\<lparr>Summary = None, FatalMessage = Some e\<rparr>, None, d1)
      | (Inr (w, br, p), d1) \<Rightarrow>
          (case run w (br, p) of
             (Some e, br1, p1) \<Rightarrow> (\<lparr>Summary = None, FatalMessage = Some (''HTTP serve error: '' @ e)\<rparr>, Some br1, pw_rest (snd (snd p1)))
           | (None, br1, obs, sink, pw) \<Rightarrow>
               (\<lparr>Summary = Some (''Token usage: '' @ usage_summary sink), FatalMessage = None\<rparr>, Some (Close \<rho> br1),
                close_cache (cmd_db env) (FlagCache flags) (hang_up (stop (pw_rest pw))))))"

section \<open>What an error leaves\<close>

text \<open>
  A worker that stops with an error has not flushed its spans, nor closed its cache or its connection: the
  world is as the run left it. The summary is logged all the same; that of the api server is not.
\<close>

lemma worker_error_skips_deferred:
  assumes "SetupTracing ot (tracing_config tflags) d = (Inr sd, d1)"
    and "worker_setup env Pipe3 Pure api flags s d1 = (Inr (w, p), d2)" "run w p = (Some e, obs, sink, pw)"
  shows "worker_main env ot shutdown hang_up Pipe3 Pure api run flags tflags s d =
    (\<lparr>Summary = Some (''Token usage during this run: '' @ usage_summary sink),
      FatalMessage = Some (''worker stopped with error: '' @ e)\<rparr>, pw_rest pw)"
  using assms by (simp add: worker_main_def)

text \<open>A summary is logged only after a run, and it is that of the token sink then.\<close>

lemma worker_main_summary:
  assumes "worker_main env ot shutdown hang_up Pipe3 Pure api run flags tflags s d = (out, d')" "Summary out = Some line"
  shows "\<exists>sd d1 w p d2 err obs sink pw. SetupTracing ot (tracing_config tflags) d = (Inr sd, d1) \<and>
    worker_setup env Pipe3 Pure api flags s d1 = (Inr (w, p), d2) \<and> run w p = (err, obs, sink, pw) \<and>
    line = ''Token usage during this run: '' @ usage_summary sink \<and>
    FatalMessage out = map_option (\<lambda>e. ''worker stopped with error: '' @ e) err"
  using assms by (auto simp: worker_main_def Let_def split: prod.splits sum.splits option.splits)

text \<open>However the api server ends well, its broker is closed and no event stream goes on.\<close>

lemma Close_closed: "broker_closed (Close \<rho> b)"
proof -
  have keep: "broker_closed (foldl (\<lambda>b s. safeClose s b) b0 subs) = broker_closed b0" for b0 :: "'a MemoryBroker" and subs
    by (induction subs arbitrary: b0) (auto simp: safeClose_def close_chan_def)
  show ?thesis by (simp add: Close_def keep Let_def)
qed

lemma api_main_closes_broker:
  assumes "api_main env \<rho> stop hang_up api run flags s d = (out, br, d')" "FatalMessage out = None"
  shows "\<exists>b. br = Some b \<and> broker_closed b"
  using assms by (auto simp: api_main_def Close_closed split: prod.splits sum.splits option.splits)

section \<open>The server of the metrics\<close>

text \<open>
  Beside either command: \<open>expose\<close> is what the Prometheus handler makes of the observations. The worker's server
  has a health check as well.
\<close>

definition worker_serveMetrics :: "(observation list \<Rightarrow> server_reply) \<Rightarrow> string \<Rightarrow> 'd process_world process \<Rightarrow> server_reply" where
  "worker_serveMetrics expose path p =
     (if path = ''/metrics'' then expose (fst p)
      else if path = ''/healthz'' then \<lparr>ReplyStatus = 200, ReplyType = ''text/plain; charset=utf-8'', ReplyBody = ''ok''\<rparr>
      else http_error ''404 page not found'' 404)"

definition api_serveMetrics :: "(observation list \<Rightarrow> server_reply) \<Rightarrow> string \<Rightarrow> 'd process_world process \<Rightarrow> server_reply" where
  "api_serveMetrics expose path p =
     (if path = ''/metrics'' then expose (fst p) else http_error ''404 page not found'' 404)"

text \<open>
  The api server documents both paths among its endpoints: on its own port a scrape is not found, and on the
  port of the metrics the health check is not.
\<close>

lemma api_metrics_elsewhere:
  "api_serve env marshal during flushes ui \<lparr>RequestPath = ''/metrics'', RequestVerb = verb, RequestBody = body, RequestWorkflow = wid\<rparr> s =
    (Some (http_error ''404 page not found'' 404, True), s)"
  "api_serveMetrics expose ''/healthz'' p = http_error ''404 page not found'' 404"
  by (simp_all add: api_serve_def api_route_def handleIndex_def api_serveMetrics_def)

end
