(* ===== verification/Spec2Isabelle.thy ===== *)
theory Spec2Isabelle
  imports Prelude Go_Strings Plan Plan_Workflow Completion Events Broker Broker_Runs Broker_Race
    Converge Supervisor Registries Tools Calculator Go_Url Builtin_Tools Token_Store OAuth_Flow OAuth_Workflow OAuth_System
    Channels Slack Agents Review Okta Sqlite_Store Sqlite_Cache Anthropic
    Metrics Api_Server Slack_Client Channel_Activities Workers
    Test_Channel Tracing Commands Review_Books Asks Mains
begin

text \<open>
  A verification development for the Go repository sibyl (github.com/vinodhalaharvi/sibyl): agents that ask
  language models, run as durable workflows on Temporal, act on behalf of users through OAuth, and let
  humans decide through chat channels. Paths below are relative to \<^verbatim>\<open>src/\<close>.

  \<^bold>\<open>How the program fits together.\<close> A completion function (\<^verbatim>\<open>agent/llm.go\<close>) asks a model. Backends make one
  (\<^verbatim>\<open>agent/anthropic.go\<close>, \<^verbatim>\<open>agent/claudecode.go\<close>), middleware wraps it (\<^verbatim>\<open>agent/middleware.go\<close>,
  \<^verbatim>\<open>agent/metrics.go\<close>), and the commands build the chain (\<^verbatim>\<open>cmd/worker\<close>, \<^verbatim>\<open>cmd/api-server\<close>). Activities use it:
  a researcher and a critic in a loop (\<^verbatim>\<open>agent/workflow.go\<close>), a supervisor that splits a question over child
  loops (\<^verbatim>\<open>agent/supervisor.go\<close>), a review of a pull request in layers (\<^verbatim>\<open>agent/review_workflow.go\<close>), a loop of
  tool calls (\<^verbatim>\<open>agent/tool_agent.go\<close>). Package plan runs any acyclic graph of activities. Activities publish
  events to a broker (\<^verbatim>\<open>agent/broker.go\<close>), and the api server forwards them to browsers. Agents
  (\<^verbatim>\<open>agents\<close>) wrap an arrow in behaviors: a token of the user from \<^verbatim>\<open>auth/oauth\<close>, a verdict of a human from
  \<^verbatim>\<open>channels\<close>. A worker (\<^verbatim>\<open>worker\<close>, \<^verbatim>\<open>auth/oauth/worker\<close>) registers all of it with Temporal.

  \<^bold>\<open>Conventions.\<close> A Go string is the list of its bytes. A Go map is an association list with distinct keys; a
  loop over a map sees its keys in an order that is a parameter, and theorems hold for every order
  (\<open>range_order\<close>). Durations and times are nanoseconds in \<open>int\<close>; where 64 bits overflow, \<open>wrap64\<close> is written
  out. An error is a value of a datatype of the component, a panic a value of its own. State is passed
  explicitly; a goroutine's position is a constructor, and interleaving is a step relation. What is
  not in the repository is a parameter: Temporal (the outcome of an activity, or its attempts with work of others in
  between, each of which reports a result or is given up in the middle of its work), the models, HTTP, JSON, SQL statements, the AEAD, Prometheus, OpenTelemetry, the
  clock, the random source, floating-point arithmetic. What the code relies on is a named hypothesis that
  states documented behaviour, and a witness instantiates it.

  \<^bold>\<open>Shared theories.\<close> \<open>Prelude\<close>: maps, orders, 64-bit arithmetic. \<open>Go_Strings\<close>, \<open>Go_Url\<close>: what the source uses
  of Go's strings, net/url, base64 and HTTP values. \<open>Registries\<close>: the locale \<open>name_registry\<close>, the contract
  of a registry by name; it is interpreted by tools, OAuth providers and the channels of a dispatcher.

  \<^bold>\<open>Plans\<close> (\<^verbatim>\<open>plan/plan.go\<close>, \<^verbatim>\<open>plan/workflow.go\<close>). \<open>Plan\<close>: \<open>Validate\<close>, \<open>Layers\<close>, \<open>Leaves\<close>, \<open>OptionsFor\<close>; validation
  accepts exactly the well-formed acyclic graphs, the layers are a topological partition that does not
  depend on map orders. \<open>Plan_Workflow\<close>: \<open>Workflow\<close> succeeds exactly when the equations of the plan have a
  solution and computes it, each node once and after what it needs; failures name a failed node; \<open>Echo\<close>, \<open>Submit\<close>.

  \<^bold>\<open>Models\<close>. \<open>Completion\<close> (\<^verbatim>\<open>llm.go\<close>, \<^verbatim>\<open>middleware.go\<close>, \<^verbatim>\<open>tokens.go\<close>, \<^verbatim>\<open>lift.go\<close>): \<open>Chain\<close>, \<open>WithRetry\<close>, \<open>WithCache\<close>,
  \<open>WithLogging\<close>, \<open>WithTokenAccounting\<close>, the cache in memory, the scripted model; the locales \<open>cache\<close>,
  \<open>lasting_cache\<close> and \<open>usage_sink\<close> say what middleware needs of a cache and of a sink. \<open>Sqlite_Cache\<close>: the
  persistent cache keeps the contract also when statements fail. \<open>Anthropic\<close> (\<^verbatim>\<open>anthropic.go\<close>,
  \<^verbatim>\<open>anthropic_stream.go\<close>, \<^verbatim>\<open>claudecode.go\<close>): what is sent, what an answer is taken for, and how a body of
  server-sent events becomes a stream. \<open>Metrics\<close> (\<^verbatim>\<open>metrics.go\<close>): the observations, and how the chain of both
  commands accounts for calls and attempts. \<open>Tracing\<close> (\<^verbatim>\<open>tracing.go\<close>): the set-up and the spans of an activity.

  \<^bold>\<open>Workflows of agents\<close>. \<open>Converge\<close> (\<^verbatim>\<open>types.go\<close>, \<^verbatim>\<open>workflow.go\<close>, \<^verbatim>\<open>activities.go\<close>): an answer is the end of a
  chain of rounds up to the first approval. \<open>Supervisor\<close> (\<^verbatim>\<open>decompose.go\<close>, \<^verbatim>\<open>supervisor.go\<close>,
  \<^verbatim>\<open>synthesize_llm.go\<close>, \<^verbatim>\<open>convergence_arrows.go\<close>): one child and one answer for each sub-question. \<open>Review\<close>
  (\<^verbatim>\<open>stream.go\<close>, \<^verbatim>\<open>review_workflow.go\<close>, \<^verbatim>\<open>broker_temporal.go\<close>): streams, the activities and their events, and
  the layers of the review under any executor. \<open>Tools\<close> (\<^verbatim>\<open>tools.go\<close>, \<^verbatim>\<open>tool_agent.go\<close>), \<open>Calculator\<close> and
  \<open>Builtin_Tools\<close> (\<^verbatim>\<open>tools_builtin.go\<close>): the registry, the loop of calls, a parser proved against the
  grammar it documents and one rule more, and against its meaning, files confined to allowed roots. \<open>Workers\<close> (\<^verbatim>\<open>worker/worker.go\<close>, \<^verbatim>\<open>auth/oauth/worker/worker.go\<close>,
  \<^verbatim>\<open>agent/plan.go\<close>): every name a registered workflow executes is registered, and the review runs by name
  what it runs by function.

  \<^bold>\<open>Events\<close>. \<open>Events\<close> (\<^verbatim>\<open>events.go\<close>), \<open>Broker\<close> (\<^verbatim>\<open>broker.go\<close>): publish, subscribe, cancel, close. \<open>Broker_Runs\<close>: runs
  of operations with the history of every subscription, an invariant, delivery in order, and the
  refinement of a contract of live subscriptions. \<open>Broker_Race\<close>: the same operations split at their
  unlocked points and interleaved. \<open>Api_Server\<close> (\<^verbatim>\<open>cmd/api-server/main.go\<close>): a run is started, and a browser
  reads exactly the events that were taken from its subscription; its second half is a parser of
  server-sent events after the specification.

  \<^bold>\<open>Commands\<close> (\<^verbatim>\<open>cmd\<close>). \<open>Commands\<close> (\<^verbatim>\<open>cmd/worker/main.go\<close>, \<^verbatim>\<open>cmd/api-server/main.go\<close>): from the values of the flags
  to a worker with the chain, the cache, the synthesizer and the stream they choose, and what a review call on
  it costs; the routes of the api server. \<open>Review_Books\<close>: what a whole review costs under Temporal's retries.
  \<open>Mains\<close>: both commands up to their end, and their server of metrics. \<open>Asks\<close> (\<^verbatim>\<open>cmd/ask/main.go\<close>,
  \<^verbatim>\<open>cmd/ask-supervisor/main.go\<close>): submitting a question and printing the outcome.

  \<^bold>\<open>OAuth\<close> (\<^verbatim>\<open>auth/oauth\<close>). \<open>Token_Store\<close> (\<^verbatim>\<open>types.go\<close>, \<^verbatim>\<open>crypt.go\<close>, \<^verbatim>\<open>store.go\<close>): the locale \<open>token_store\<close> is the
  contract of a map from identity and provider to tokens; \<open>sealed_store\<close> is the store in memory for any
  cipher that opens what it seals. \<open>Sqlite_Store\<close> (\<^verbatim>\<open>store_sqlite.go\<close>) keeps the same contract over rows.
  \<open>OAuth_Flow\<close> (\<^verbatim>\<open>provider.go\<close>, \<^verbatim>\<open>request.go\<close>, \<^verbatim>\<open>flow.go\<close>): registry, PKCE, code to session, and the
  protocol of calls that refresh their token, as the steps a call may take. \<open>OAuth_Workflow\<close>
  (\<^verbatim>\<open>workflow.go\<close>, \<^verbatim>\<open>activities.go\<close>, \<^verbatim>\<open>start.go\<close>, \<^verbatim>\<open>callback.go\<close>): the durable flow. \<open>OAuth_System\<close>: any number of starts
  and callbacks interleaved, with the invariant that a code reaches only the workflow whose state it carries.
  \<open>Okta\<close> (\<^verbatim>\<open>providers/okta/okta.go\<close>): the requests of the provider and what its answers are taken for.

  \<^bold>\<open>Humans\<close>. \<open>Channels\<close> (\<^verbatim>\<open>channels/types.go\<close>, \<^verbatim>\<open>channels.go\<close>): routing, posting, racing waits. \<open>Slack\<close>
  (\<^verbatim>\<open>slack/slack.go\<close>) and \<open>Slack_Client\<close> (\<^verbatim>\<open>slack/slack_go_client.go\<close>): rendering, polling for reactions, the
  calls of the library. \<open>Test_Channel\<close> (\<^verbatim>\<open>test/channelstest.go\<close>): the channel in memory. \<open>Channel_Activities\<close>
  (\<^verbatim>\<open>temporal/temporal.go\<close>): posting and waiting as activities, under Temporal's retries and timeouts. \<open>Agents\<close>
  (\<^verbatim>\<open>agents\<close>): registration, behaviors, the human gate case by case, and credentials of the user: everything an
  agent does with them is such a protocol.

  \<^bold>\<open>Groups of lemmas.\<close> Each theory has its definitions first, then the lemmas that unfold one step of each
  operation, then invariants or the relation to a reference definition, then the properties, each after a
  comment that numbers it, and for each property with a hypothesis a witness at a concrete input.

  \<^bold>\<open>Fuel and termination.\<close> The parser of the calculator recurses on fuel; \<open>4 * length src + 3\<close> is proved enough
  for every text, so no theorem mentions it. Loops of the source that end are functions with a
  termination proof (retries by the attempts left, rounds and steps by their bound, scans by what is left
  of the text, layers by the nodes left). The waits for a verdict are \<open>partial_function\<close>s: not returning is
  \<open>None\<close>, and theory \<open>Slack\<close> proves that a wait returns, by counting ticks, and bounds the time that it takes. The conversion of numbers in
  the test channel has ten bytes, and \<open>test_itoa_Itoa\<close> says for which numbers they suffice.

  \<^bold>\<open>Not modelled.\<close> Of the commands the parsing of the flags, the log lines other than the summary and the
  listeners of the HTTP servers are input and output; the page of the api server is not Go. JSON tags and
  the texts of help, the activity options of the agent workflows (Temporal alone reads them) other than the
  number of attempts of a review, the parent of a span and the Go contexts beyond what the code looks up in
  them are left out. Of a post that Temporal has given up, the part that it does before the next attempt is described,
  and not what it still does while that attempt runs. The finite time that a goroutine may block on a lock is not observable in the model.
  Tests are not modelled.
\<close>

end
